(* ===== verification/Kernel_Prelude.thy ===== *)
theory Kernel_Prelude
  imports Main "HOL-Library.Word" "HOL-Library.Monad_Syntax"
begin

text \<open>
  Shared vocabulary of the development.

  \<^item> Fixed-width unsigned integers are words; \<open>size_t\<close> and other counters that the code only
    compares and increments are naturals, with the wrap-around written out by \<open>sz_add\<close> where
    it can be reached.
  \<^item> The kernel is C++: indexing a \<open>std::array\<close> or \<open>std::deque\<close> out of range, reading
    through a null pointer or popping an empty container is undefined behaviour. Every operation
    that can do so returns an \<open>option\<close>, and \<open>None\<close> means that the C++ behaviour is
    undefined (or, for the few loops where it is said so, that the loop never ends). Results
    that the code reports through \<open>Error\<close> are ordinary values, so a theorem that concludes
    \<open>f x = Some y\<close> also says that the call is free of undefined behaviour.
  \<^item> \<open>foldM\<close> is the C \<open>for\<close> loop over a list of indices, \<open>arr_get\<close>,
    \<open>arr_set\<close> are checked array accesses.
\<close>

unbundle bit_operations_syntax

type_synonym u8 = "8 word"
type_synonym u16 = "16 word"
type_synonym u32 = "32 word"
type_synonym u64 = "64 word"

named_theorems kernel_defs \<open>definitions that component proofs unfold together\<close>
named_theorems ub_simps \<open>evaluation of operations that may be undefined\<close>

subsection \<open>Unsigned sizes\<close>

definition SIZE_MAX :: nat where
  "SIZE_MAX = 2 ^ 64 - 1"

definition sz_add :: "nat \<Rightarrow> nat \<Rightarrow> nat" where
  "sz_add a b = (a + b) mod 2 ^ 64"

lemma sz_add_no_wrap [simp]: "a + b \<le> SIZE_MAX \<Longrightarrow> sz_add a b = a + b"
  by (simp add: sz_add_def SIZE_MAX_def)

lemma sz_add_le: "sz_add a b \<le> SIZE_MAX"
  using mod_less_divisor [of "2 ^ 64" "a + b"]
  by (simp add: sz_add_def SIZE_MAX_def)

subsection \<open>Checked array accesses\<close>

definition arr_get :: "'a list \<Rightarrow> nat \<Rightarrow> 'a option" where
  "arr_get xs i = (if i < length xs then Some (xs ! i) else None)"

definition arr_set :: "'a list \<Rightarrow> nat \<Rightarrow> 'a \<Rightarrow> 'a list option" where
  "arr_set xs i v = (if i < length xs then Some (xs[i := v]) else None)"

lemma arr_get_Some [ub_simps]: "i < length xs \<Longrightarrow> arr_get xs i = Some (xs ! i)"
  by (simp add: arr_get_def)

lemma arr_get_None [ub_simps]: "length xs \<le> i \<Longrightarrow> arr_get xs i = None"
  by (simp add: arr_get_def)

lemma arr_set_Some [ub_simps]: "i < length xs \<Longrightarrow> arr_set xs i v = Some (xs[i := v])"
  by (simp add: arr_set_def)

lemma arr_set_None [ub_simps]: "length xs \<le> i \<Longrightarrow> arr_set xs i v = None"
  by (simp add: arr_set_def)

lemma arr_get_eq_Some [simp]: "arr_get xs i = Some x \<longleftrightarrow> i < length xs \<and> xs ! i = x"
  by (auto simp: arr_get_def)

lemma arr_set_eq_Some [simp]: "arr_set xs i v = Some ys \<longleftrightarrow> i < length xs \<and> ys = xs[i := v]"
  by (auto simp: arr_set_def)

lemma nth_upd: "xs[i := x] ! j = (if i = j \<and> j < length xs then x else xs ! j)"
  by (cases "i < length xs") (auto simp: nth_list_update list_update_beyond)

definition front :: "'a list \<Rightarrow> 'a option" where
  "front xs = (case xs of [] \<Rightarrow> None | x # _ \<Rightarrow> Some x)"

definition pop_front :: "'a list \<Rightarrow> 'a list option" where
  "pop_front xs = (case xs of [] \<Rightarrow> None | _ # ys \<Rightarrow> Some ys)"

lemma front_simps [simp]: "front [] = None" "front (x # xs) = Some x"
  by (simp_all add: front_def)

lemma pop_front_simps [simp]: "pop_front [] = None" "pop_front (x # xs) = Some xs"
  by (simp_all add: pop_front_def)

lemma front_nonempty: "xs \<noteq> [] \<Longrightarrow> front xs = Some (hd xs)"
  by (cases xs) auto

lemma pop_front_nonempty: "xs \<noteq> [] \<Longrightarrow> pop_front xs = Some (tl xs)"
  by (cases xs) auto

subsection \<open>Counted loops\<close>

fun foldM :: "('a \<Rightarrow> 's \<Rightarrow> 's option) \<Rightarrow> 'a list \<Rightarrow> 's \<Rightarrow> 's option" where
  "foldM f [] s = Some s"
| "foldM f (x # xs) s = Option.bind (f x s) (foldM f xs)"

lemma foldM_append: "foldM f (xs @ ys) s = Option.bind (foldM f xs s) (foldM f ys)"
  by (induction xs arbitrary: s) (auto split: Option.bind_splits)

lemma foldM_cong: "(\<And>x s. x \<in> set xs \<Longrightarrow> f x s = g x s) \<Longrightarrow> foldM f xs s = foldM g xs s"
  by (induction xs arbitrary: s) (auto split: Option.bind_splits)

text \<open>The invariant rule for a counted loop: total correctness, the loop body never undefined.\<close>

lemma foldM_upt_invariant:
  assumes "P lo s" and "lo \<le> hi"
    and "\<And>i s. lo \<le> i \<Longrightarrow> i < hi \<Longrightarrow> P i s \<Longrightarrow> \<exists>s'. f i s = Some s' \<and> P (Suc i) s'"
  shows "\<exists>s'. foldM f [lo..<hi] s = Some s' \<and> P hi s'"
  using assms
proof (induction "hi - lo" arbitrary: lo s)
  case 0
  then show ?case by simp
next
  case (Suc n)
  then have lt: "lo < hi" by simp
  with Suc.prems obtain s1 where s1: "f lo s = Some s1" "P (Suc lo) s1"
    by blast
  from lt Suc.hyps have "n = hi - Suc lo" "Suc lo \<le> hi" by auto
  with s1(2) Suc.hyps(1) [of "Suc lo" s1] Suc.prems(3)
  have "\<exists>s'. foldM f [Suc lo..<hi] s1 = Some s' \<and> P hi s'" by auto
  with lt s1(1) show ?case by (simp add: upt_rec [of lo hi])
qed

lemma foldM_invariant:
  assumes "P s" and "\<And>x s. x \<in> set xs \<Longrightarrow> P s \<Longrightarrow> \<exists>s'. f x s = Some s' \<and> P s'"
  shows "\<exists>s'. foldM f xs s = Some s' \<and> P s'"
  using assms
proof (induction xs arbitrary: s)
  case (Cons x xs)
  obtain s1 where s1: "f x s = Some s1" "P s1" using Cons.prems(2) [of x s] Cons.prems(1) by auto
  have "\<exists>s'. foldM f xs s1 = Some s' \<and> P s'" using s1(2) Cons.prems(2) by (intro Cons.IH) auto
  with s1(1) show ?case by simp
qed simp

lemma foldM_None: "x \<in> set xs \<Longrightarrow> (\<And>s. f x s = None) \<Longrightarrow> foldM f xs s = None"
  by (induction xs arbitrary: s) (auto split: Option.bind_splits)

lemma foldM_total: "(\<And>x s. f x s = Some (g x s)) \<Longrightarrow> foldM f xs s = Some (fold g xs s)"
  by (induction xs arbitrary: s) auto

subsection \<open>Bits of words\<close>

lemma and_push_bit_1_neq_0:
  fixes w :: "'a::len word"
  assumes "n < LENGTH('a)"
  shows "w AND push_bit n 1 \<noteq> 0 \<longleftrightarrow> bit w n"
  using assms
  by (metis and_exp_eq_0_iff_not_bit push_bit_of_1)

lemma bit_set_mask:
  fixes w :: "'a::len word"
  assumes "n < LENGTH('a)" and "k < LENGTH('a)"
  shows "bit (w OR push_bit n 1) k \<longleftrightarrow> bit w k \<or> k = n"
  using assms by (auto simp: bit_simps)

lemma bit_clear_mask:
  fixes w :: "'a::len word"
  assumes "n < LENGTH('a)" and "k < LENGTH('a)"
  shows "bit (w AND NOT (push_bit n 1)) k \<longleftrightarrow> bit w k \<and> k \<noteq> n"
  using assms by (auto simp: bit_simps)

lemma word_high_bit:
  fixes w :: "'a::len word"
  assumes "unat w < 2 ^ n" and "bit w k"
  shows "k < n"
proof -
  from assms(2) have "bit (unat w) k" by (auto simp: bit_unsigned_iff dest: bit_imp_le_length)
  moreover have "take_bit n (unat w) = unat w" using assms(1) by (rule take_bit_nat_eq_self)
  ultimately show ?thesis by (metis bit_take_bit_iff)
qed

subsection \<open>Bit fields\<close>

text \<open>A C bit field of \<open>n\<close> bits at offset \<open>off\<close> of its storage unit, allocated from the
  low bit up as the x86-64 ABI does: reading it, and storing a value truncated to its width.\<close>

definition bf_get :: "nat \<Rightarrow> nat \<Rightarrow> 'a::len word \<Rightarrow> 'a word" where
  "bf_get off n w = take_bit n (drop_bit off w)"

definition bf_set :: "nat \<Rightarrow> nat \<Rightarrow> 'a::len word \<Rightarrow> 'a word \<Rightarrow> 'a word" where
  "bf_set off n v w = (w AND NOT (push_bit off (mask n))) OR push_bit off (take_bit n v)"

lemma bit_bf_get: "bit (bf_get off n w) k \<longleftrightarrow> k < n \<and> bit w (off + k)"
  for w :: "'a::len word"
  by (auto simp: bf_get_def bit_simps add.commute dest: bit_imp_le_length)

lemma bit_bf_set:
  fixes w :: "'a::len word"
  assumes "k < LENGTH('a)"
  shows "bit (bf_set off n v w) k \<longleftrightarrow> (if off \<le> k \<and> k < off + n then bit v (k - off) else bit w k)"
  using assms by (auto simp: bf_set_def bit_simps)

lemma bf_get_set [simp]:
  fixes w :: "'a::len word"
  assumes "off + n \<le> LENGTH('a)"
  shows "bf_get off n (bf_set off n v w) = take_bit n v"
  by (rule bit_word_eqI) (use assms in \<open>auto simp: bit_bf_get bit_bf_set bit_take_bit_iff\<close>)

lemma bf_get_set_other [simp]:
  fixes w :: "'a::len word"
  assumes "off + n \<le> off' \<or> off' + n' \<le> off"
  shows "bf_get off' n' (bf_set off n v w) = bf_get off' n' w"
proof (rule bit_word_eqI)
  fix k assume "k < LENGTH('a)"
  show "bit (bf_get off' n' (bf_set off n v w)) k = bit (bf_get off' n' w) k"
  proof (cases "off' + k < LENGTH('a)")
    case True
    with assms show ?thesis by (auto simp: bit_bf_get bit_bf_set)
  next
    case False
    then show ?thesis by (auto simp: bit_bf_get dest: bit_imp_le_length)
  qed
qed

lemma bf_get_le: "bf_get off n w = take_bit n (bf_get off n w)"
  by (simp add: bf_get_def)

lemma bf_get_0 [simp]: "bf_get off n 0 = 0"
  by (simp add: bf_get_def)

lemma foldM_preserves:
  assumes "foldM f xs s = Some s'" and "\<And>x s s'. x \<in> set xs \<Longrightarrow> f x s = Some s' \<Longrightarrow> h s' = h s"
  shows "h s' = h s"
  using assms
proof (induction xs arbitrary: s)
  case (Cons x xs)
  then obtain s1 where s1: "f x s = Some s1" "foldM f xs s1 = Some s'" by (auto split: Option.bind_splits)
  have "h s' = h s1" by (rule Cons.IH [OF s1(2)]) (rule Cons.prems(2), auto)
  also have "\<dots> = h s" by (rule Cons.prems(2) [OF _ s1(1)]) simp
  finally show ?case .
qed simp

subsection \<open>Stacked maps\<close>

text \<open>Maps laid over each other, the last one on top.\<close>

fun stacked :: "('a \<rightharpoonup> 'b) list \<Rightarrow> ('a \<rightharpoonup> 'b)" where
  "stacked [] = Map.empty"
| "stacked (m # ms) = m ++ stacked ms"

lemma stacked_append: "stacked (ms @ ns) = stacked ms ++ stacked ns"
  by (induction ms) simp_all

lemma stacked_le: "\<forall>m \<in> set ms. m \<subseteq>\<^sub>m G \<Longrightarrow> stacked ms \<subseteq>\<^sub>m G"
proof (induction ms)
  case (Cons m ms)
  then have "m \<subseteq>\<^sub>m G" "stacked ms \<subseteq>\<^sub>m G" by simp_all
  then show ?case by (simp add: map_add_le_mapI)
qed simp

lemma dom_stacked: "dom (stacked ms) = (\<Union>m \<in> set ms. dom m)"
  by (induction ms) auto

lemma stacked_eqI:
  assumes "\<forall>m \<in> set ms. m \<subseteq>\<^sub>m G" and "\<And>q. q \<in> dom G \<Longrightarrow> \<exists>m \<in> set ms. q \<in> dom m"
  shows "stacked ms = G"
proof (rule map_le_antisym)
  show "stacked ms \<subseteq>\<^sub>m G" using assms(1) by (rule stacked_le)
  have "dom G \<subseteq> dom (stacked ms)" using assms(2) unfolding dom_stacked by blast
  with \<open>stacked ms \<subseteq>\<^sub>m G\<close> show "G \<subseteq>\<^sub>m stacked ms" unfolding map_le_def by (metis domIff subsetD)
qed

lemma stacked_None: "stacked ms q = None \<longleftrightarrow> (\<forall>m \<in> set ms. m q = None)"
  by (induction ms) auto

lemma stacked_cong: "(\<And>m. m \<in> set ms \<Longrightarrow> f m q = g m q) \<Longrightarrow> stacked (map f ms) q = stacked (map g ms) q"
  by (induction ms) (auto simp: map_add_def split: option.split)

text \<open>Only the entries at \<open>q\<close> matter, and the topmost one that is defined decides.\<close>

lemma stacked_find:
  "stacked ms q = (case find (\<lambda>m. m q \<noteq> None) (rev ms) of None \<Rightarrow> None | Some m \<Rightarrow> m q)"
  by (induction ms rule: rev_induct) (auto simp: stacked_append map_add_def split: option.splits)

end
