(* ===== verification/Kernel_Error.thy ===== *)
theory Kernel_Error
  imports Kernel_Prelude
begin

text \<open>
  \<open>src/kernel/error.hpp\<close>: the error codes every fallible kernel function returns. An
  \<open>Error\<close> object also carries the file and line of the \<open>MAKE_ERROR\<close> that built it, which
  only log messages read; the model keeps the code.
\<close>

datatype Code =
    kSuccess | kFull | kEmpty | kNoEnoughMemory | kIndexOutOfRange
  | kHostControllerNotHalted | kInvalidSlotID | kPortNotConnected
  | kInvalidEndpointNumber | kTransferRingNotSet | kAlreadyAllocated
  | kNotImplemented | kInvalidDescriptor | kBufferTooSmall | kUnknownDevice
  | kNoCorrespondingSetupStage | kTransferFailed | kInvalidPhase
  | kUnknownXHCISpeedID | kNoWaiter | kNoPCIMSI | kUnknownPixelFormat
  | kNoSuchTask | kLastOfCode

definition code_index :: "Code \<Rightarrow> nat" where
  "code_index c = (case c of
     kSuccess \<Rightarrow> 0 | kFull \<Rightarrow> 1 | kEmpty \<Rightarrow> 2 | kNoEnoughMemory \<Rightarrow> 3
   | kIndexOutOfRange \<Rightarrow> 4 | kHostControllerNotHalted \<Rightarrow> 5 | kInvalidSlotID \<Rightarrow> 6
   | kPortNotConnected \<Rightarrow> 7 | kInvalidEndpointNumber \<Rightarrow> 8 | kTransferRingNotSet \<Rightarrow> 9
   | kAlreadyAllocated \<Rightarrow> 10 | kNotImplemented \<Rightarrow> 11 | kInvalidDescriptor \<Rightarrow> 12
   | kBufferTooSmall \<Rightarrow> 13 | kUnknownDevice \<Rightarrow> 14 | kNoCorrespondingSetupStage \<Rightarrow> 15
   | kTransferFailed \<Rightarrow> 16 | kInvalidPhase \<Rightarrow> 17 | kUnknownXHCISpeedID \<Rightarrow> 18
   | kNoWaiter \<Rightarrow> 19 | kNoPCIMSI \<Rightarrow> 20 | kUnknownPixelFormat \<Rightarrow> 21
   | kNoSuchTask \<Rightarrow> 22 | kLastOfCode \<Rightarrow> 23)"

definition code_names :: "string list" where
  "code_names =
     [''kSuccess'', ''kFull'', ''kEmpty'', ''kNoEnoughMemory'', ''kIndexOutOfRange'',
      ''kHostControllerNotHalted'', ''kInvalidSlotID'', ''kPortNotConnected'',
      ''kInvalidEndpointNumber'', ''kTransferRingNotSet'', ''kAlreadyAllocated'',
      ''kNotImplemented'', ''kInvalidDescriptor'', ''kBufferTooSmall'', ''kUnknownDevice'',
      ''kNoCorrespondingSetupStage'', ''kTransferFailed'', ''kInvalidPhase'',
      ''kUnknownXHCISpeedID'', ''kNoWaiter'', ''kNoPCIMSI'', ''kUnknownPixelFormat'',
      ''kNoSuchTask'']"

definition Name :: "Code \<Rightarrow> string option" where
  "Name c = arr_get code_names (code_index c)"

definition error_bool :: "Code \<Rightarrow> bool" where
  "error_bool c \<longleftrightarrow> c \<noteq> kSuccess"

record 'a WithError =
  we_value :: 'a
  we_error :: Code

lemma code_names_size: "length code_names = code_index kLastOfCode"
  by (simp add: code_names_def code_index_def)

lemma Name_defined_iff: "Name c \<noteq> None \<longleftrightarrow> c \<noteq> kLastOfCode"
  by (cases c) (simp_all add: Name_def code_names_def code_index_def arr_get_def)

lemma error_bool_simps [simp]: "error_bool kSuccess = False" "c \<noteq> kSuccess \<Longrightarrow> error_bool c"
  by (simp_all add: error_bool_def)

subsection \<open>Loops that stop at the first error\<close>

text \<open>\<open>for (x : xs) if (auto err = f(x)) return err; return kSuccess;\<close>\<close>

fun loopE :: "('a \<Rightarrow> 's \<Rightarrow> (Code \<times> 's) option) \<Rightarrow> 'a list \<Rightarrow> 's \<Rightarrow> (Code \<times> 's) option" where
  "loopE f [] s = Some (kSuccess, s)"
| "loopE f (x # xs) s =
     Option.bind (f x s) (\<lambda>(err, s). if error_bool err then Some (err, s) else loopE f xs s)"

lemma loopE_Cons_Some:
  "loopE f (x # xs) s = Some (e, s') \<longleftrightarrow>
     (\<exists>e1 s1. f x s = Some (e1, s1) \<and>
        (if e1 = kSuccess then loopE f xs s1 = Some (e, s') else e = e1 \<and> s' = s1))"
proof (cases "f x s")
  case (Some p)
  then show ?thesis by (cases p; cases "fst p = kSuccess") auto
qed simp

text \<open>Total correctness of such a loop for an invariant that every iteration keeps.\<close>

lemma loopE_invariant:
  assumes "I s" and "\<And>x s. x \<in> set xs \<Longrightarrow> I s \<Longrightarrow> \<exists>e s'. f x s = Some (e, s') \<and> I s' \<and> Q e s'" and "\<And>s. I s \<Longrightarrow> Q kSuccess s"
  shows "\<exists>e s'. loopE f xs s = Some (e, s') \<and> I s' \<and> Q e s'"
  using assms(1,2)
proof (induction xs arbitrary: s)
  case Nil
  then show ?case using assms(3) by simp
next
  case (Cons x xs)
  then obtain e1 s1 where s1: "f x s = Some (e1, s1)" "I s1" "Q e1 s1" by fastforce
  show ?case
  proof (cases "e1 = kSuccess")
    case True
    with s1 Cons.IH [OF s1(2)] Cons.prems(2) show ?thesis by auto
  next
    case False
    with s1 show ?thesis by auto
  qed
qed

text \<open>A loop that succeeds ran every iteration, each from a state the later ones only extend.\<close>

lemma loopE_success:
  assumes "loopE f xs s = Some (kSuccess, s')" and "\<And>x s e s'. x \<in> set xs \<Longrightarrow> f x s = Some (e, s') \<Longrightarrow> R s s'"
    and refl: "\<And>s. R s s" and trans: "\<And>a b c. R a b \<Longrightarrow> R b c \<Longrightarrow> R a c"
  shows "R s s' \<and> (\<forall>x \<in> set xs. \<exists>s1 s2. f x s1 = Some (kSuccess, s2) \<and> R s2 s')"
  using assms(1,2)
proof (induction xs arbitrary: s)
  case Nil
  then show ?case using refl by simp
next
  case (Cons x xs)
  from Cons.prems(1) obtain s1 where s1: "f x s = Some (kSuccess, s1)" "loopE f xs s1 = Some (kSuccess, s')"
    unfolding loopE_Cons_Some by (auto split: if_splits)
  have "R s1 s' \<and> (\<forall>x \<in> set xs. \<exists>s1 s2. f x s1 = Some (kSuccess, s2) \<and> R s2 s')"
    by (rule Cons.IH [OF s1(2)]) (rule Cons.prems(2), auto)
  moreover have "R s s1" by (rule Cons.prems(2) [OF _ s1(1)]) simp
  ultimately show ?case using s1(1) trans by auto
qed

lemma loopE_relation:
  assumes "loopE f xs s = Some (e, s')" and "\<And>x s e s'. x \<in> set xs \<Longrightarrow> f x s = Some (e, s') \<Longrightarrow> R s s'"
    and refl: "\<And>s. R s s" and trans: "\<And>a b c. R a b \<Longrightarrow> R b c \<Longrightarrow> R a c"
  shows "R s s'"
  using assms(1,2)
proof (induction xs arbitrary: s)
  case Nil
  then show ?case using refl by simp
next
  case (Cons x xs)
  from Cons.prems(1) obtain e1 s1 where s1: "f x s = Some (e1, s1)"
      "if e1 = kSuccess then loopE f xs s1 = Some (e, s') else s' = s1"
    unfolding loopE_Cons_Some by (auto split: if_splits)
  have step: "R s s1" by (rule Cons.prems(2) [OF _ s1(1)]) simp
  show ?case
  proof (cases "e1 = kSuccess")
    case True
    then have "R s1 s'" using s1(2) by (intro Cons.IH [of s1]) (auto intro: Cons.prems(2))
    with step show ?thesis by (rule trans)
  qed (use s1(2) step in simp)
qed

end
