(* ===== verification/Array_Queue.thy ===== *)
theory Array_Queue
  imports Kernel_Error
begin

text \<open>
  \<open>src/kernel/queue.hpp\<close>: \<open>ArrayQueue<T>\<close>, a ring buffer over a caller-supplied array. The
  abstract contract is the locale \<open>bounded_fifo\<close>; the ring buffer is an interpretation of it,
  and every sequence of pushes and pops behaves as on a bounded list.
\<close>

record 'a array_queue =
  aq_data :: "'a list"
  aq_read_pos :: nat
  aq_write_pos :: nat
  aq_count :: nat
  aq_capacity :: nat

definition ArrayQueue :: "'a list \<Rightarrow> 'a array_queue" where
  "ArrayQueue buf = \<lparr>aq_data = buf, aq_read_pos = 0, aq_write_pos = 0, aq_count = 0,
                      aq_capacity = length buf\<rparr>"

definition ArrayQueue_Push :: "'a array_queue \<Rightarrow> 'a \<Rightarrow> (Code \<times> 'a array_queue) option" where
  "ArrayQueue_Push q value =
     (if aq_count q = aq_capacity q then Some (kFull, q)
      else do {
        d \<leftarrow> arr_set (aq_data q) (aq_write_pos q) value;
        let w = aq_write_pos q + 1;
        Some (kSuccess, q\<lparr>aq_data := d, aq_count := aq_count q + 1,
                          aq_write_pos := (if w = aq_capacity q then 0 else w)\<rparr>)
      })"

definition ArrayQueue_Pop :: "'a array_queue \<Rightarrow> Code \<times> 'a array_queue" where
  "ArrayQueue_Pop q =
     (if aq_count q = 0 then (kEmpty, q)
      else let r = aq_read_pos q + 1
           in (kSuccess, q\<lparr>aq_count := aq_count q - 1,
                            aq_read_pos := (if r = aq_capacity q then 0 else r)\<rparr>))"

definition ArrayQueue_Count :: "'a array_queue \<Rightarrow> nat" where
  "ArrayQueue_Count q = aq_count q"

definition ArrayQueue_Capacity :: "'a array_queue \<Rightarrow> nat" where
  "ArrayQueue_Capacity q = aq_capacity q"

definition ArrayQueue_Front :: "'a array_queue \<Rightarrow> 'a option" where
  "ArrayQueue_Front q = arr_get (aq_data q) (aq_read_pos q)"

subsection \<open>The contract of a bounded queue\<close>

datatype 'a qop = QPush 'a | QPop

fun run_queue :: "('q \<Rightarrow> 'a \<Rightarrow> (Code \<times> 'q) option) \<Rightarrow> ('q \<Rightarrow> Code \<times> 'q) \<Rightarrow>
    'q \<Rightarrow> 'a qop list \<Rightarrow> (Code list \<times> 'q) option" where
  "run_queue push pop q [] = Some ([], q)"
| "run_queue push pop q (QPush v # ops) = do {
     (c, q') \<leftarrow> push q v;
     (cs, q'') \<leftarrow> run_queue push pop q' ops;
     Some (c # cs, q'')
   }"
| "run_queue push pop q (QPop # ops) = do {
     let (c, q') = pop q;
     (cs, q'') \<leftarrow> run_queue push pop q' ops;
     Some (c # cs, q'')
   }"

text \<open>The specification: the same operations on a plain list of at most \<open>n\<close> elements.\<close>

fun fifo_run :: "nat \<Rightarrow> 'a list \<Rightarrow> 'a qop list \<Rightarrow> Code list \<times> 'a list" where
  "fifo_run n xs [] = ([], xs)"
| "fifo_run n xs (QPush v # ops) =
     (if length xs = n then apfst (Cons kFull) (fifo_run n xs ops)
      else apfst (Cons kSuccess) (fifo_run n (xs @ [v]) ops))"
| "fifo_run n xs (QPop # ops) =
     (case xs of [] \<Rightarrow> apfst (Cons kEmpty) (fifo_run n [] ops)
      | _ # ys \<Rightarrow> apfst (Cons kSuccess) (fifo_run n ys ops))"

locale bounded_fifo =
  fixes invar :: "'q \<Rightarrow> bool"
    and contents :: "'q \<Rightarrow> 'a list"
    and cap :: "'q \<Rightarrow> nat"
    and push :: "'q \<Rightarrow> 'a \<Rightarrow> (Code \<times> 'q) option"
    and pop :: "'q \<Rightarrow> Code \<times> 'q"
    and first :: "'q \<Rightarrow> 'a option"
  assumes push_room: "invar q \<Longrightarrow> length (contents q) \<noteq> cap q \<Longrightarrow>
      \<exists>q'. push q v = Some (kSuccess, q') \<and> invar q' \<and> contents q' = contents q @ [v] \<and> cap q' = cap q"
    and push_full: "invar q \<Longrightarrow> length (contents q) = cap q \<Longrightarrow> push q v = Some (kFull, q)"
    and pop_some: "invar q \<Longrightarrow> contents q \<noteq> [] \<Longrightarrow>
      \<exists>q'. pop q = (kSuccess, q') \<and> invar q' \<and> contents q' = tl (contents q) \<and> cap q' = cap q"
    and pop_none: "invar q \<Longrightarrow> contents q = [] \<Longrightarrow> pop q = (kEmpty, q)"
    and first_hd: "invar q \<Longrightarrow> contents q \<noteq> [] \<Longrightarrow> first q = Some (hd (contents q))"
begin

lemma run_refines:
  "invar q \<Longrightarrow> \<exists>q'. run_queue push pop q ops = Some (fst (fifo_run (cap q) (contents q) ops), q')
     \<and> invar q' \<and> cap q' = cap q \<and> contents q' = snd (fifo_run (cap q) (contents q) ops)"
proof (induction ops arbitrary: q)
  case Nil
  then show ?case by simp
next
  case (Cons op ops)
  show ?case
  proof (cases op)
    case (QPush v)
    show ?thesis
    proof (cases "length (contents q) = cap q")
      case True
      with Cons.prems push_full have "push q v = Some (kFull, q)" by blast
      with True QPush Cons.IH [OF Cons.prems] show ?thesis by auto
    next
      case False
      with Cons.prems push_room obtain q' where "push q v = Some (kSuccess, q')" "invar q'"
        "contents q' = contents q @ [v]" "cap q' = cap q" by blast
      with False QPush Cons.IH [of q'] show ?thesis by auto
    qed
  next
    case QPop
    show ?thesis
    proof (cases "contents q")
      case Nil
      with Cons.prems pop_none have "pop q = (kEmpty, q)" by blast
      with Nil QPop Cons.IH [OF Cons.prems] show ?thesis by auto
    next
      case (Cons x xs)
      with \<open>invar q\<close> pop_some obtain q' where "pop q = (kSuccess, q')" "invar q'"
        "contents q' = tl (contents q)" "cap q' = cap q" by fastforce
      with Cons QPop Cons.IH [of q'] show ?thesis by auto
    qed
  qed
qed

end

subsection \<open>The ring buffer implements it\<close>

definition aq_invar :: "'a array_queue \<Rightarrow> bool" where
  "aq_invar q \<longleftrightarrow> length (aq_data q) = aq_capacity q \<and> aq_count q \<le> aq_capacity q \<and>
     (if aq_capacity q = 0 then aq_read_pos q = 0 \<and> aq_write_pos q = 0
      else aq_read_pos q < aq_capacity q \<and>
           aq_write_pos q = (aq_read_pos q + aq_count q) mod aq_capacity q)"

definition aq_contents :: "'a array_queue \<Rightarrow> 'a list" where
  "aq_contents q =
     map (\<lambda>i. aq_data q ! ((aq_read_pos q + i) mod aq_capacity q)) [0..<aq_count q]"

lemma aq_contents_length [simp]: "length (aq_contents q) = aq_count q"
  by (simp add: aq_contents_def)

lemma aq_new_invar: "aq_invar (ArrayQueue buf)" "aq_contents (ArrayQueue buf) = []"
  by (simp_all add: aq_invar_def aq_contents_def ArrayQueue_def)

lemma wrap_next: "(i::nat) < n \<Longrightarrow> (if i + 1 = n then 0 else i + 1) = (i + 1) mod n"
  by auto

lemma mod_shift_neq:
  assumes "(i::nat) < c" and "c < n"
  shows "(r + i) mod n \<noteq> (r + c) mod n"
proof
  assume "(r + i) mod n = (r + c) mod n"
  then have "n dvd (r + c) - (r + i)"
    using mod_eq_dvd_iff_nat [of "r + i" "r + c" n] assms by simp
  with assms show False by (auto dest: dvd_imp_le)
qed

lemma aq_push_room:
  assumes inv: "aq_invar q" and room: "aq_count q \<noteq> aq_capacity q"
  shows "\<exists>q'. ArrayQueue_Push q v = Some (kSuccess, q') \<and> aq_invar q' \<and>
     aq_contents q' = aq_contents q @ [v] \<and> aq_capacity q' = aq_capacity q"
proof -
  let ?n = "aq_capacity q" and ?w = "aq_write_pos q"
  from inv room have lt: "aq_count q < ?n" and len: "length (aq_data q) = ?n"
    and r: "aq_read_pos q < ?n" and w: "?w = (aq_read_pos q + aq_count q) mod ?n"
    by (auto simp: aq_invar_def split: if_splits)
  then have wlt: "?w < ?n" by simp
  define q' where "q' = q\<lparr>aq_data := (aq_data q)[?w := v], aq_count := aq_count q + 1,
                          aq_write_pos := (if ?w + 1 = ?n then 0 else ?w + 1)\<rparr>"
  have push: "ArrayQueue_Push q v = Some (kSuccess, q')"
    using room wlt len by (simp add: ArrayQueue_Push_def q'_def ub_simps)
  have inv': "aq_invar q'"
    using lt len r wlt w wrap_next [OF wlt] by (auto simp: aq_invar_def q'_def mod_Suc_eq)
  have "aq_contents q' = aq_contents q @ [v]"
    using lt len r w wlt mod_shift_neq [OF _ lt, of _ "aq_read_pos q", symmetric]
    by (simp add: aq_contents_def q'_def)
  with push inv' show ?thesis by (auto simp: q'_def)
qed

lemma aq_pop_some:
  assumes inv: "aq_invar q" and ne: "aq_contents q \<noteq> []"
  shows "\<exists>q'. ArrayQueue_Pop q = (kSuccess, q') \<and> aq_invar q' \<and>
     aq_contents q' = tl (aq_contents q) \<and> aq_capacity q' = aq_capacity q"
proof -
  let ?n = "aq_capacity q" and ?r = "aq_read_pos q"
  from ne have c: "0 < aq_count q" by (auto simp: aq_contents_def)
  with inv have r: "?r < ?n" by (auto simp: aq_invar_def split: if_splits)
  define q' where "q' = q\<lparr>aq_count := aq_count q - 1, aq_read_pos := (?r + 1) mod ?n\<rparr>"
  have pop: "ArrayQueue_Pop q = (kSuccess, q')"
    unfolding ArrayQueue_Pop_def q'_def Let_def wrap_next [OF r] using c by simp
  have "((?r + 1) mod ?n + (aq_count q - 1)) mod ?n = (?r + aq_count q) mod ?n"
    using c by (simp only: mod_add_left_eq) simp
  with inv c r have inv': "aq_invar q'"
    by (auto simp: aq_invar_def q'_def split: if_splits)
  have "aq_contents q' = map (\<lambda>i. aq_data q ! ((?r + i) mod ?n)) (map Suc [0..<aq_count q - 1])"
    by (simp add: aq_contents_def q'_def mod_simps)
  also have "map Suc [0..<aq_count q - 1] = [1..<aq_count q]"
    using c by (simp add: map_Suc_upt)
  also have "map (\<lambda>i. aq_data q ! ((?r + i) mod ?n)) [1..<aq_count q] = tl (aq_contents q)"
    using c by (simp add: aq_contents_def upt_rec [of 0])
  finally show ?thesis using pop inv' by (auto simp: q'_def)
qed

interpretation aq: bounded_fifo aq_invar aq_contents aq_capacity ArrayQueue_Push ArrayQueue_Pop
    ArrayQueue_Front
proof (unfold_locales, goal_cases)
  case (1 q v)
  then show ?case using aq_push_room [of q v] by simp
next
  case (2 q v)
  then show ?case by (simp add: ArrayQueue_Push_def)
next
  case (3 q)
  then show ?case by (rule aq_pop_some)
next
  case (4 q)
  then show ?case by (simp add: ArrayQueue_Pop_def aq_contents_def)
next
  case (5 q)
  then have "0 < aq_count q" by (auto simp: aq_contents_def)
  with 5 show ?case
    by (auto simp: ArrayQueue_Front_def aq_contents_def aq_invar_def hd_map arr_get_def
             split: if_splits)
qed

text \<open>from its constructor on, every sequence of \<open>Push\<close> and \<open>Pop\<close> calls on an
  \<open>ArrayQueue\<close> is free of undefined behaviour, returns the same codes as a list of at most
  \<open>N\<close> elements used first in, first out, ends with that list as its contents, and
  \<open>Count\<close>, \<open>Capacity\<close> and \<open>Front\<close> report its length, the bound and its head.\<close>

theorem ArrayQueue_refines_fifo:
  "\<exists>q. run_queue ArrayQueue_Push ArrayQueue_Pop (ArrayQueue buf) ops
        = Some (fst (fifo_run (length buf) [] ops), q)
     \<and> aq_contents q = snd (fifo_run (length buf) [] ops)
     \<and> ArrayQueue_Count q = length (snd (fifo_run (length buf) [] ops))
     \<and> ArrayQueue_Capacity q = length buf
     \<and> (snd (fifo_run (length buf) [] ops) = [] \<or>
        ArrayQueue_Front q = Some (hd (snd (fifo_run (length buf) [] ops))))"
proof -
  have cap: "aq_capacity (ArrayQueue buf) = length buf" by (simp add: ArrayQueue_def)
  from aq.run_refines [OF aq_new_invar(1) [of buf], of ops]
  obtain q where q: "run_queue ArrayQueue_Push ArrayQueue_Pop (ArrayQueue buf) ops
      = Some (fst (fifo_run (length buf) [] ops), q)"
    "aq_invar q" "aq_capacity q = length buf" "aq_contents q = snd (fifo_run (length buf) [] ops)"
    unfolding cap aq_new_invar(2) by blast
  moreover have "ArrayQueue_Count q = length (aq_contents q)"
    by (simp add: ArrayQueue_Count_def)
  ultimately show ?thesis
    using aq.first_hd [OF q(2)] by (auto simp: ArrayQueue_Capacity_def)
qed

end
