(* ===== verification/Frame_Memory.thy ===== *)
theory Frame_Memory
  imports Kernel_Error
begin

text \<open>
  \<open>src/kernel/memory_manager.hpp\<close>, \<open>memory_manager.cpp\<close> and \<open>memory_map.hpp\<close>: the
  physical frame allocator (one bit per 4 KiB frame), its initialisation from the UEFI memory map,
  and the kernel heap that \<open>InitializeHeap\<close> reserves for \<open>sbrk\<close>
  (\<open>newlib_support.c\<close>).

  A \<open>FrameID\<close> is the number it wraps. The sums \<open>start_frame_id + i\<close> are written on
  naturals: they never pass \<open>range_end_\<close> in \<open>Allocate\<close>, and in \<open>Free\<close> and
  \<open>MarkAllocated\<close> a sum that reached \<open>2 ^ 64\<close> would have left \<open>alloc_map_\<close>, which
  the model already reports as undefined, long before. The bitmap is a function from line numbers
  to 64-bit lines, with the bound \<open>kMapLines\<close> of the \<open>std::array\<close> checked at each access.
\<close>

subsection \<open>memory_map.hpp\<close>

record MemoryDescriptor =
  md_type :: nat
  md_physical_start :: nat
  md_virtual_start :: nat
  md_number_of_pages :: nat
  md_attribute :: nat

record MemoryMap =
  mm_buffer_size :: nat
  mm_buffer :: nat
  mm_map_size :: nat
  mm_map_key :: nat
  mm_descriptor_size :: nat
  mm_descriptor_version :: nat

datatype MemoryType =
    kEfiReservedMemoryType | kEfiLoaderCode | kEfiLoaderData | kEfiBootServicesCode
  | kEfiBootServicesData | kEfiRuntimeServicesCode | kEfiRuntimeServicesData
  | kEfiConventionalMemory | kEfiUnusableMemory | kEfiACPIReclaimMemory | kEfiACPIMemoryNVS
  | kEfiMemoryMappedIO | kEfiMemoryMappedIOPortSpace | kEfiPalCode | kEfiPersistentMemory
  | kEfiMaxMemoryType

text \<open>\<open>static_cast<MemoryType>(desc->type)\<close>: a value outside the enumeration is none of its
  constants, and every comparison of \<open>IsAvailable\<close> is false for it.\<close>

definition memory_types :: "MemoryType list" where
  "memory_types = [kEfiReservedMemoryType, kEfiLoaderCode, kEfiLoaderData, kEfiBootServicesCode,
     kEfiBootServicesData, kEfiRuntimeServicesCode, kEfiRuntimeServicesData,
     kEfiConventionalMemory, kEfiUnusableMemory, kEfiACPIReclaimMemory, kEfiACPIMemoryNVS,
     kEfiMemoryMappedIO, kEfiMemoryMappedIOPortSpace, kEfiPalCode, kEfiPersistentMemory,
     kEfiMaxMemoryType]"

definition IsAvailable :: "MemoryType option \<Rightarrow> bool" where
  "IsAvailable memory_type \<longleftrightarrow>
     memory_type = Some kEfiBootServicesCode \<or>
     memory_type = Some kEfiBootServicesData \<or>
     memory_type = Some kEfiConventionalMemory"

definition kUEFIPageSize :: nat where
  "kUEFIPageSize = 4096"

subsection \<open>memory_manager.hpp\<close>

definition kBytesPerFrame :: nat where
  "kBytesPerFrame = 4 * 1024"

definition kNullFrame :: nat where
  "kNullFrame = SIZE_MAX"

definition kFrameCount :: nat where
  "kFrameCount = 128 * 1024 * 1024 * 1024 div kBytesPerFrame"

definition kBitsPerMapLine :: nat where
  "kBitsPerMapLine = 8 * 8"

definition kMapLines :: nat where
  "kMapLines = kFrameCount div kBitsPerMapLine"

record BitmapMemoryManager =
  alloc_map :: "nat \<Rightarrow> u64"
  range_begin :: nat
  range_end :: nat

definition new_BitmapMemoryManager :: BitmapMemoryManager where
  "new_BitmapMemoryManager =
     \<lparr>alloc_map = (\<lambda>_. 0), range_begin = 0, range_end = kFrameCount\<rparr>"

definition GetBit :: "BitmapMemoryManager \<Rightarrow> nat \<Rightarrow> bool option" where
  "GetBit m frame =
     (let line_index = frame div kBitsPerMapLine; bit_index = frame mod kBitsPerMapLine
      in if line_index < kMapLines
         then Some (alloc_map m line_index AND push_bit bit_index 1 \<noteq> 0)
         else None)"

definition SetBit :: "nat \<Rightarrow> bool \<Rightarrow> BitmapMemoryManager \<Rightarrow> BitmapMemoryManager option" where
  "SetBit frame allocated m =
     (let line_index = frame div kBitsPerMapLine; bit_index = frame mod kBitsPerMapLine;
          line = alloc_map m line_index
      in if line_index < kMapLines
         then Some (m\<lparr>alloc_map := (alloc_map m)(line_index :=
                (if allocated then line OR push_bit bit_index 1
                 else line AND NOT (push_bit bit_index 1)))\<rparr>)
         else None)"

definition MarkAllocated :: "nat \<Rightarrow> nat \<Rightarrow> BitmapMemoryManager \<Rightarrow> BitmapMemoryManager option" where
  "MarkAllocated start_frame num_frames m =
     foldM (\<lambda>i. SetBit (start_frame + i) True) [0..<num_frames] m"

definition Free :: "nat \<Rightarrow> nat \<Rightarrow> BitmapMemoryManager \<Rightarrow> (Code \<times> BitmapMemoryManager) option" where
  "Free start_frame num_frames m =
     map_option (Pair kSuccess) (foldM (\<lambda>i. SetBit (start_frame + i) False) [0..<num_frames] m)"

definition SetMemoryRange :: "nat \<Rightarrow> nat \<Rightarrow> BitmapMemoryManager \<Rightarrow> BitmapMemoryManager" where
  "SetMemoryRange b e m = m\<lparr>range_begin := b, range_end := e\<rparr>"

text \<open>The inner \<open>for\<close> loop of \<open>Allocate\<close>: it runs off the range, meets an allocated
  frame at offset \<open>i\<close>, or finds all \<open>num_frames\<close> frames free.\<close>

datatype scan_result = ScanEnd | ScanHit nat | ScanFree

function alloc_scan :: "BitmapMemoryManager \<Rightarrow> nat \<Rightarrow> nat \<Rightarrow> nat \<Rightarrow> scan_result option" where
  "alloc_scan m start_frame_id num_frames i =
     (if i < num_frames then
        if start_frame_id + i \<ge> range_end m then Some ScanEnd
        else case GetBit m (start_frame_id + i) of
               None \<Rightarrow> None
             | Some True \<Rightarrow> Some (ScanHit i)
             | Some False \<Rightarrow> alloc_scan m start_frame_id num_frames (i + 1)
      else Some ScanFree)"
  by pat_completeness auto
termination
  by (relation "measure (\<lambda>(m, s, n, i). n - i)") auto

declare alloc_scan.simps [simp del]

lemma alloc_scan_hit_range:
  "alloc_scan m s n i = Some (ScanHit k) \<Longrightarrow> i \<le> k \<and> k < n \<and> s + k < range_end m"
proof (induction m s n i rule: alloc_scan.induct)
  case (1 m s n i)
  from "1.prems" "1.IH" show ?case
    by (subst (asm) alloc_scan.simps [of m s n i])
       (fastforce split: if_splits option.splits bool.splits)
qed

text \<open>The outer \<open>while (true)\<close>: after an allocated frame at offset \<open>i\<close> the search goes
  on at \<open>start_frame_id + i + 1\<close>.\<close>

function alloc_loop :: "BitmapMemoryManager \<Rightarrow> nat \<Rightarrow> nat \<Rightarrow>
    (nat WithError \<times> BitmapMemoryManager) option" where
  "alloc_loop m start_frame_id num_frames =
     (case alloc_scan m start_frame_id num_frames 0 of
        None \<Rightarrow> None
      | Some ScanEnd \<Rightarrow> Some (\<lparr>we_value = kNullFrame, we_error = kNoEnoughMemory\<rparr>, m)
      | Some ScanFree \<Rightarrow>
          map_option (Pair \<lparr>we_value = start_frame_id, we_error = kSuccess\<rparr>)
            (MarkAllocated start_frame_id num_frames m)
      | Some (ScanHit i) \<Rightarrow> alloc_loop m (start_frame_id + (i + 1)) num_frames)"
  by pat_completeness auto
termination
  by (relation "measure (\<lambda>(m, s, n). range_end m - s)")
     (auto dest!: alloc_scan_hit_range)

declare alloc_loop.simps [simp del]

definition Allocate :: "nat \<Rightarrow> BitmapMemoryManager \<Rightarrow>
    (nat WithError \<times> BitmapMemoryManager) option" where
  "Allocate num_frames m = alloc_loop m (range_begin m) num_frames"

subsection \<open>The allocator as a set of frames\<close>

definition used :: "BitmapMemoryManager \<Rightarrow> nat \<Rightarrow> bool" where
  "used m f \<longleftrightarrow> bit (alloc_map m (f div kBitsPerMapLine)) (f mod kBitsPerMapLine)"

definition fit :: "BitmapMemoryManager \<Rightarrow> nat \<Rightarrow> nat \<Rightarrow> bool" where
  "fit m s n \<longleftrightarrow> (\<forall>j<n. s + j < range_end m \<and> \<not> used m (s + j))"

lemma frame_line: "f div kBitsPerMapLine < kMapLines \<longleftrightarrow> f < kFrameCount"
  by (simp add: kFrameCount_def kMapLines_def kBitsPerMapLine_def kBytesPerFrame_def
      div_less_iff_less_mult)

lemma GetBit_used [ub_simps]: "f < kFrameCount \<Longrightarrow> GetBit m f = Some (used m f)"
  by (simp add: GetBit_def used_def frame_line Let_def and_exp_eq_0_iff_not_bit)

lemma GetBit_out_of_range: "kFrameCount \<le> f \<Longrightarrow> GetBit m f = None"
  by (simp add: GetBit_def frame_line Let_def)

lemma SetBit_out_of_range: "kFrameCount \<le> f \<Longrightarrow> SetBit f b m = None"
  by (simp add: SetBit_def frame_line Let_def)

lemma SetBit_used:
  assumes "f < kFrameCount"
  obtains m' where "SetBit f b m = Some m'"
    "\<And>g. used m' g \<longleftrightarrow> (if g = f then b else used m g)"
    "range_begin m' = range_begin m" "range_end m' = range_end m"
proof -
  let ?l = "f div kBitsPerMapLine" and ?k = "f mod kBitsPerMapLine"
  define m' where "m' = m\<lparr>alloc_map := (alloc_map m)(?l :=
                (if b then alloc_map m ?l OR push_bit ?k 1
                 else alloc_map m ?l AND NOT (push_bit ?k 1)))\<rparr>"
  have same: "g div kBitsPerMapLine = ?l \<Longrightarrow> g mod kBitsPerMapLine = ?k \<Longrightarrow> g = f" for g
    by (metis mult_div_mod_eq)
  have lt: "g mod kBitsPerMapLine < LENGTH(64)" for g by (simp add: kBitsPerMapLine_def)
  have "used m' g \<longleftrightarrow> (if g = f then b else used m g)" for g
    using same [of g] bit_set_mask [OF lt [of f] lt [of g], of "alloc_map m ?l"]
      bit_clear_mask [OF lt [of f] lt [of g], of "alloc_map m ?l"]
    by (auto simp: used_def m'_def)
  moreover have "SetBit f b m = Some m'"
    using assms by (simp add: SetBit_def m'_def Let_def frame_line)
  moreover have "range_begin m' = range_begin m" "range_end m' = range_end m"
    by (simp_all add: m'_def)
  ultimately show ?thesis by (intro that)
qed

lemma SetBit_loop:
  assumes "s + n \<le> kFrameCount"
  shows "\<exists>m'. foldM (\<lambda>i. SetBit (s + i) b) [0..<n] m = Some m' \<and>
     (\<forall>g. used m' g \<longleftrightarrow> (if s \<le> g \<and> g < s + n then b else used m g)) \<and>
     range_begin m' = range_begin m \<and> range_end m' = range_end m"
proof -
  let ?P = "\<lambda>i m'. (\<forall>g. used m' g \<longleftrightarrow> (if s \<le> g \<and> g < s + i then b else used m g)) \<and>
     range_begin m' = range_begin m \<and> range_end m' = range_end m"
  have "\<exists>m'. foldM (\<lambda>i. SetBit (s + i) b) [0..<n] m = Some m' \<and> ?P n m'"
  proof (rule foldM_upt_invariant)
    show "?P 0 m" by auto
  next
    fix i m1 assume i: "i < n" and P: "?P i m1"
    from i assms have "s + i < kFrameCount" by simp
    then obtain m2 where "SetBit (s + i) b m1 = Some m2"
      "\<And>g. used m2 g \<longleftrightarrow> (if g = s + i then b else used m1 g)"
      "range_begin m2 = range_begin m1" "range_end m2 = range_end m1" by (rule SetBit_used) blast
    with P show "\<exists>m2. SetBit (s + i) b m1 = Some m2 \<and> ?P (Suc i) m2"
      by (auto simp: less_Suc_eq)
  qed simp
  then show ?thesis .
qed

lemma MarkAllocated_used:
  assumes "s + n \<le> kFrameCount"
  obtains m' where "MarkAllocated s n m = Some m'"
    "\<And>g. used m' g \<longleftrightarrow> used m g \<or> s \<le> g \<and> g < s + n"
    "range_begin m' = range_begin m" "range_end m' = range_end m"
  using SetBit_loop [OF assms, of True m] by (auto simp: MarkAllocated_def split: if_splits)

lemma Free_used:
  assumes "s + n \<le> kFrameCount"
  obtains m' where "Free s n m = Some (kSuccess, m')"
    "\<And>g. used m' g \<longleftrightarrow> used m g \<and> \<not> (s \<le> g \<and> g < s + n)"
    "range_begin m' = range_begin m" "range_end m' = range_end m"
  using SetBit_loop [OF assms, of False m] by (auto simp: Free_def split: if_splits)

lemma MarkAllocated_out_of_range:
  assumes "kFrameCount \<le> s" and "0 < n"
  shows "MarkAllocated s n m = None"
  using assms by (simp add: MarkAllocated_def upt_rec [of 0] SetBit_out_of_range)

subsection \<open>First fit\<close>

lemma alloc_scan_spec:
  assumes "range_end m \<le> kFrameCount"
  shows "(\<exists>j. alloc_scan m s n i = Some ScanEnd \<and> i \<le> j \<and> j < n \<and> range_end m \<le> s + j) \<or>
     (\<exists>k. alloc_scan m s n i = Some (ScanHit k) \<and> i \<le> k \<and> k < n \<and> s + k < range_end m \<and> used m (s + k)) \<or>
     (alloc_scan m s n i = Some ScanFree \<and> (\<forall>j. i \<le> j \<and> j < n \<longrightarrow> s + j < range_end m \<and> \<not> used m (s + j)))"
  using assms
proof (induction m s n i rule: alloc_scan.induct)
  case (1 m s n i)
  show ?case
  proof (cases "i < n \<and> s + i < range_end m \<and> \<not> used m (s + i)")
    case True
    with "1.prems" have "GetBit m (s + i) = Some False" by (simp add: GetBit_used)
    with True "1.IH" "1.prems" show ?thesis
      by (simp add: alloc_scan.simps [of m s n i]) (metis Suc_leI Suc_leD le_neq_implies_less)
  next
    case False
    with "1.prems" show ?thesis
      by (auto simp: alloc_scan.simps [of m s n i] GetBit_used split: option.splits bool.splits)
  qed
qed

lemma alloc_loop_spec:
  assumes "range_end m \<le> kFrameCount"
  shows "(\<exists>v m'. alloc_loop m s n = Some (\<lparr>we_value = v, we_error = kSuccess\<rparr>, m') \<and> s \<le> v \<and>
        fit m v n \<and> (\<forall>t. s \<le> t \<and> t < v \<longrightarrow> \<not> fit m t n) \<and>
        (\<forall>g. used m' g \<longleftrightarrow> used m g \<or> v \<le> g \<and> g < v + n) \<and>
        range_begin m' = range_begin m \<and> range_end m' = range_end m) \<or>
     (alloc_loop m s n = Some (\<lparr>we_value = kNullFrame, we_error = kNoEnoughMemory\<rparr>, m) \<and>
        (\<forall>t. s \<le> t \<longrightarrow> \<not> fit m t n))"
  using assms
proof (induction m s n rule: alloc_loop.induct)
  case (1 m s n)
  note unfold = alloc_loop.simps [of m s n]
  from alloc_scan_spec [OF "1.prems", of s n 0] consider
      (e) j where "alloc_scan m s n 0 = Some ScanEnd" "j < n" "range_end m \<le> s + j"
    | (h) k where "alloc_scan m s n 0 = Some (ScanHit k)" "k < n" "used m (s + k)"
    | (f) "alloc_scan m s n 0 = Some ScanFree" "fit m s n"
    by (auto simp: fit_def)
  then show ?case
  proof cases
    case e
    then have "\<not> fit m t n" if "s \<le> t" for t
      using that by (auto simp: fit_def intro!: exI [of _ j])
    with e show ?thesis by (simp add: unfold)
  next
    case h
    have nofit: "\<not> fit m t n" if "s \<le> t" "t < s + (k + 1)" for t
      using that h by (auto simp: fit_def intro!: exI [of _ "s + k - t"])
    from "1.IH" [OF h(1) refl "1.prems"] show ?thesis
    proof (elim disjE exE conjE)
      fix v m' assume "alloc_loop m (s + (k + 1)) n = Some (\<lparr>we_value = v, we_error = kSuccess\<rparr>, m')"
        "s + (k + 1) \<le> v" "fit m v n" "\<forall>t. s + (k + 1) \<le> t \<and> t < v \<longrightarrow> \<not> fit m t n"
        "\<forall>g. used m' g \<longleftrightarrow> used m g \<or> v \<le> g \<and> g < v + n"
        "range_begin m' = range_begin m" "range_end m' = range_end m"
      with nofit h(1) show ?thesis
        by (intro disjI1 exI [of _ v] exI [of _ m']) (auto simp: unfold, metis not_le)
    next
      assume "alloc_loop m (s + (k + 1)) n =
          Some (\<lparr>we_value = kNullFrame, we_error = kNoEnoughMemory\<rparr>, m)"
        "\<forall>t. s + (k + 1) \<le> t \<longrightarrow> \<not> fit m t n"
      with nofit h(1) show ?thesis by (intro disjI2) (auto simp: unfold, metis not_le)
    qed
  next
    case f
    from f(2) "1.prems" have "n = 0 \<or> s + n \<le> kFrameCount"
      by (cases n) (auto simp: fit_def)
    then show ?thesis
    proof
      assume "n = 0"
      with f show ?thesis
        by (intro disjI1 exI [of _ s] exI [of _ m]) (auto simp: alloc_loop.simps [of m s 0] MarkAllocated_def)
    next
      assume "s + n \<le> kFrameCount"
      then obtain m' where "MarkAllocated s n m = Some m'"
        "\<And>g. used m' g \<longleftrightarrow> used m g \<or> s \<le> g \<and> g < s + n"
        "range_begin m' = range_begin m" "range_end m' = range_end m"
        using MarkAllocated_used by blast
      with f show ?thesis by (intro disjI1 exI [of _ s] exI [of _ m']) (auto simp: unfold)
    qed
  qed
qed

lemma Allocate_cases:
  assumes "range_end m \<le> kFrameCount"
  obtains (success) v m' where "Allocate n m = Some (\<lparr>we_value = v, we_error = kSuccess\<rparr>, m')"
      "range_begin m \<le> v" "fit m v n" "\<And>t. range_begin m \<le> t \<Longrightarrow> t < v \<Longrightarrow> \<not> fit m t n"
      "\<And>g. used m' g \<longleftrightarrow> used m g \<or> v \<le> g \<and> g < v + n"
      "range_begin m' = range_begin m" "range_end m' = range_end m"
    | (failure) "Allocate n m = Some (\<lparr>we_value = kNullFrame, we_error = kNoEnoughMemory\<rparr>, m)"
      "\<And>t. range_begin m \<le> t \<Longrightarrow> \<not> fit m t n"
  using alloc_loop_spec [OF assms, of "range_begin m" n] unfolding Allocate_def by blast

lemma fit_bound: "fit m v n \<Longrightarrow> 0 < n \<Longrightarrow> v + n \<le> range_end m"
  by (cases n) (auto simp: fit_def)

subsection \<open>The contract of a frame allocator\<close>

text \<open>Serving a list of requests in order; a request that fails contributes no block.\<close>

fun alloc_seq :: "(nat \<Rightarrow> 's \<Rightarrow> (nat WithError \<times> 's) option) \<Rightarrow> nat list \<Rightarrow> 's \<Rightarrow>
    ((nat \<times> nat) list \<times> 's) option" where
  "alloc_seq alloc [] s = Some ([], s)"
| "alloc_seq alloc (n # ns) s = do {
     (r, s1) \<leftarrow> alloc n s;
     (bs, s2) \<leftarrow> alloc_seq alloc ns s1;
     Some (if error_bool (we_error r) then bs else (we_value r, n) # bs, s2)
   }"

definition block :: "nat \<times> nat \<Rightarrow> nat set" where
  "block b = {fst b ..< fst b + snd b}"

locale frame_allocator =
  fixes invar :: "'s \<Rightarrow> bool"
    and held :: "'s \<Rightarrow> nat set"
    and alloc :: "nat \<Rightarrow> 's \<Rightarrow> (nat WithError \<times> 's) option"
  assumes alloc_step: "invar s \<Longrightarrow> \<exists>r s'. alloc n s = Some (r, s') \<and> invar s' \<and>
      (if error_bool (we_error r) then held s' = held s
       else block (we_value r, n) \<inter> held s = {} \<and> held s' = held s \<union> block (we_value r, n))"
begin

lemma alloc_seq_disjoint:
  "invar s \<Longrightarrow> \<exists>bs s'. alloc_seq alloc ns s = Some (bs, s') \<and> invar s' \<and>
     held s' = held s \<union> \<Union> (block ` set bs) \<and>
     (\<forall>b\<in>set bs. block b \<inter> held s = {}) \<and>
     (\<forall>i<length bs. \<forall>j<length bs. i \<noteq> j \<longrightarrow> block (bs ! i) \<inter> block (bs ! j) = {})"
proof (induction ns arbitrary: s)
  case Nil
  then show ?case by simp
next
  case (Cons n ns)
  from alloc_step [OF Cons.prems, of n] obtain r s1 where r: "alloc n s = Some (r, s1)" "invar s1"
    "if error_bool (we_error r) then held s1 = held s
     else block (we_value r, n) \<inter> held s = {} \<and> held s1 = held s \<union> block (we_value r, n)"
    by blast
  from Cons.IH [OF r(2)] obtain bs s2 where bs: "alloc_seq alloc ns s1 = Some (bs, s2)" "invar s2"
    "held s2 = held s1 \<union> \<Union> (block ` set bs)" "\<forall>b\<in>set bs. block b \<inter> held s1 = {}"
    "\<forall>i<length bs. \<forall>j<length bs. i \<noteq> j \<longrightarrow> block (bs ! i) \<inter> block (bs ! j) = {}"
    by blast
  show ?case
  proof (cases "error_bool (we_error r)")
    case True
    with r bs show ?thesis by auto
  next
    case False
    let ?b = "(we_value r, n)"
    from False r(3) have b: "block ?b \<inter> held s = {}" "held s1 = held s \<union> block ?b" by simp_all
    with bs(4) have head: "\<forall>b\<in>set bs. block ?b \<inter> block b = {}" by auto
    have "\<forall>i<length (?b # bs). \<forall>j<length (?b # bs). i \<noteq> j \<longrightarrow>
        block ((?b # bs) ! i) \<inter> block ((?b # bs) ! j) = {}"
    proof (intro allI impI)
      fix i j assume "i < length (?b # bs)" "j < length (?b # bs)" "i \<noteq> j"
      with head bs(5) show "block ((?b # bs) ! i) \<inter> block ((?b # bs) ! j) = {}"
        by (cases i; cases j) (auto simp: Int_commute)
    qed
    moreover have "held s2 = held s \<union> \<Union> (block ` set (?b # bs))" using bs(3) b(2) by auto
    moreover have "\<forall>b\<in>set (?b # bs). block b \<inter> held s = {}" using bs(4) b by auto
    moreover have "alloc_seq alloc (n # ns) s = Some (?b # bs, s2)"
      using r(1) bs(1) False by simp
    ultimately show ?thesis using bs(2) by blast
  qed
qed

end

interpretation bmm: frame_allocator "\<lambda>m. range_end m \<le> kFrameCount" "\<lambda>m. {f. used m f}" Allocate
proof (unfold_locales, goal_cases)
  case (1 m n)
  then show ?case
  proof (cases rule: Allocate_cases [of m n])
    case (success v m')
    then have "block (v, n) \<inter> {f. used m f} = {}"
      by (auto simp: block_def fit_def) (metis add_diff_inverse_nat nat_add_left_cancel_less not_le)
    moreover from success have "{f. used m' f} = {f. used m f} \<union> block (v, n)"
      by (auto simp: block_def)
    ultimately show ?thesis using success 1 by (auto simp: error_bool_def)
  next
    case failure
    then show ?thesis using 1 by (auto simp: error_bool_def)
  qed
qed

subsection \<open>Initialisation from the UEFI memory map\<close>

text \<open>The heap bounds \<open>program_break\<close> and \<open>program_break_end\<close> of
  \<open>newlib_support.c\<close>, as byte addresses.\<close>

record heap_break =
  program_break :: int
  program_break_end :: int

definition kHeapFrames :: nat where
  "kHeapFrames = 64 * 512"

definition InitializeHeap :: "BitmapMemoryManager \<Rightarrow> heap_break \<Rightarrow>
    (Code \<times> BitmapMemoryManager \<times> heap_break) option" where
  "InitializeHeap m brk = do {
     (heap_start, m') \<leftarrow> Allocate kHeapFrames m;
     Some (if error_bool (we_error heap_start) then (we_error heap_start, m', brk)
           else let b = int (we_value heap_start * kBytesPerFrame)
                in (kSuccess, m', \<lparr>program_break = b,
                                   program_break_end = b + int (kHeapFrames * kBytesPerFrame)\<rparr>))
   }"

text \<open>One pass of the \<open>for\<close> loop of \<open>InitializeMemoryManager\<close>. Addresses are
  \<open>uintptr_t\<close>, so \<open>physical_end\<close> is computed modulo \<open>2 ^ 64\<close>.\<close>

definition mm_init_step :: "MemoryDescriptor \<Rightarrow> nat \<times> BitmapMemoryManager \<Rightarrow>
    (nat \<times> BitmapMemoryManager) option" where
  "mm_init_step desc = (\<lambda>(available_end, m). do {
     m1 \<leftarrow> (if available_end < md_physical_start desc
            then MarkAllocated (available_end div kBytesPerFrame)
                   ((md_physical_start desc - available_end) div kBytesPerFrame) m
            else Some m);
     let bytes = md_number_of_pages desc * kUEFIPageSize mod 2 ^ 64;
     let physical_end = sz_add (md_physical_start desc) bytes;
     if IsAvailable (arr_get memory_types (md_type desc)) then Some (physical_end, m1)
     else do {
       m2 \<leftarrow> MarkAllocated (md_physical_start desc div kBytesPerFrame) (bytes div kBytesPerFrame) m1;
       Some (available_end, m2)
     }
   })"

text \<open>The loop over descriptor addresses; \<open>desc_at\<close> reads the descriptor that firmware left at
  an address. With \<open>descriptor_size = 0\<close> the loop would never advance: \<open>None\<close>.\<close>

function mm_init_loop :: "(nat \<Rightarrow> MemoryDescriptor) \<Rightarrow> nat \<Rightarrow> nat \<Rightarrow> nat \<Rightarrow>
    nat \<times> BitmapMemoryManager \<Rightarrow> (nat \<times> BitmapMemoryManager) option" where
  "mm_init_loop desc_at map_end descriptor_size iter st =
     (if iter < map_end then
        if descriptor_size = 0 then None
        else Option.bind (mm_init_step (desc_at iter) st)
               (mm_init_loop desc_at map_end descriptor_size (iter + descriptor_size))
      else Some st)"
  by pat_completeness auto
termination
  by (relation "measure (\<lambda>(d, e, n, i, st). e - i)") auto

declare mm_init_loop.simps [simp del]

text \<open>\<open>Inl\<close>: the heap could not be reserved, the kernel logs the code and exits.\<close>

definition InitializeMemoryManager :: "(nat \<Rightarrow> MemoryDescriptor) \<Rightarrow> MemoryMap \<Rightarrow> heap_break \<Rightarrow>
    (Code + BitmapMemoryManager \<times> heap_break) option" where
  "InitializeMemoryManager desc_at memory_map brk = do {
     (available_end, m) \<leftarrow> mm_init_loop desc_at (mm_buffer memory_map + mm_map_size memory_map)
       (mm_descriptor_size memory_map) (mm_buffer memory_map) (0, new_BitmapMemoryManager);
     let m = SetMemoryRange 1 (available_end div kBytesPerFrame) m;
     (err, m', brk') \<leftarrow> InitializeHeap m brk;
     Some (if error_bool err then Inl err else Inr (m', brk'))
   }"

text \<open>\<open>sbrk\<close> (\<open>newlib_support.c\<close>): \<open>None\<close> stands for the result \<open>(caddr_t)-1\<close> with
  \<open>errno = ENOMEM\<close>.\<close>

definition sbrk :: "int \<Rightarrow> heap_break \<Rightarrow> int option \<times> heap_break" where
  "sbrk incr b =
     (if program_break b = 0 \<or> program_break b + incr \<ge> program_break_end b then (None, b)
      else (Some (program_break b), b\<lparr>program_break := program_break b + incr\<rparr>))"

text \<open>The descriptors the loop visits.\<close>

function descriptors :: "(nat \<Rightarrow> MemoryDescriptor) \<Rightarrow> nat \<Rightarrow> nat \<Rightarrow> nat \<Rightarrow> MemoryDescriptor list" where
  "descriptors desc_at map_end descriptor_size iter =
     (if iter < map_end \<and> 0 < descriptor_size
      then desc_at iter # descriptors desc_at map_end descriptor_size (iter + descriptor_size)
      else [])"
  by pat_completeness auto
termination
  by (relation "measure (\<lambda>(d, e, n, i). e - i)") auto

declare descriptors.simps [simp del]

lemma mm_init_loop_foldM:
  "0 < n \<Longrightarrow> mm_init_loop d e n i st = foldM mm_init_step (descriptors d e n i) st"
proof (induction d e n i st rule: mm_init_loop.induct)
  case (1 d e n i st)
  then show ?case
    by (auto simp: mm_init_loop.simps [of d e n i st] descriptors.simps [of d e n i]
             split: Option.bind_splits)
qed

definition boot_descriptors :: "(nat \<Rightarrow> MemoryDescriptor) \<Rightarrow> MemoryMap \<Rightarrow> MemoryDescriptor list" where
  "boot_descriptors desc_at memory_map =
     descriptors desc_at (mm_buffer memory_map + mm_map_size memory_map)
       (mm_descriptor_size memory_map) (mm_buffer memory_map)"

definition desc_ok :: "MemoryDescriptor \<Rightarrow> bool" where
  "desc_ok d \<longleftrightarrow> kBytesPerFrame dvd md_physical_start d \<and>
     md_physical_start d + md_number_of_pages d * kUEFIPageSize \<le> kFrameCount * kBytesPerFrame"

definition desc_frames :: "MemoryDescriptor \<Rightarrow> nat set" where
  "desc_frames d = {md_physical_start d div kBytesPerFrame ..<
                    md_physical_start d div kBytesPerFrame + md_number_of_pages d}"

definition desc_available :: "MemoryDescriptor \<Rightarrow> bool" where
  "desc_available d \<longleftrightarrow> IsAvailable (arr_get memory_types (md_type d))"

definition available_frames :: "MemoryDescriptor list \<Rightarrow> nat set" where
  "available_frames ds = (\<Union>d \<in> {d \<in> set ds. desc_available d}. desc_frames d)"

definition reserved_frames :: "MemoryDescriptor list \<Rightarrow> nat set" where
  "reserved_frames ds = (\<Union>d \<in> {d \<in> set ds. \<not> desc_available d}. desc_frames d)"

text \<open>What the loop keeps: \<open>available_end\<close> is frame aligned, and every unmarked frame below
  it belongs to an available descriptor seen so far.\<close>

definition mm_init_inv :: "nat set \<Rightarrow> nat set \<Rightarrow> nat \<times> BitmapMemoryManager \<Rightarrow> bool" where
  "mm_init_inv A R = (\<lambda>(e, m). kBytesPerFrame dvd e \<and> e \<le> kFrameCount * kBytesPerFrame \<and>
     (\<forall>f < e div kBytesPerFrame. \<not> used m f \<longrightarrow> f \<in> A) \<and> (\<forall>f \<in> R. used m f))"

lemma desc_ok_arith:
  assumes "desc_ok d"
  shows "md_number_of_pages d * kUEFIPageSize mod 2 ^ 64 = md_number_of_pages d * kBytesPerFrame"
    and "sz_add (md_physical_start d) (md_number_of_pages d * kBytesPerFrame)
       = md_physical_start d + md_number_of_pages d * kBytesPerFrame"
    and "md_physical_start d div kBytesPerFrame + md_number_of_pages d \<le> kFrameCount"
    and "(md_physical_start d + md_number_of_pages d * kBytesPerFrame) div kBytesPerFrame
       = md_physical_start d div kBytesPerFrame + md_number_of_pages d"
proof -
  from assms have le: "md_physical_start d + md_number_of_pages d * 4096 \<le> 137438953472"
    and dv: "4096 dvd md_physical_start d"
    by (simp_all add: desc_ok_def kBytesPerFrame_def kUEFIPageSize_def kFrameCount_def)
  then show "md_number_of_pages d * kUEFIPageSize mod 2 ^ 64 = md_number_of_pages d * kBytesPerFrame"
    by (simp add: kUEFIPageSize_def kBytesPerFrame_def)
  from le show "sz_add (md_physical_start d) (md_number_of_pages d * kBytesPerFrame)
       = md_physical_start d + md_number_of_pages d * kBytesPerFrame"
    by (simp add: SIZE_MAX_def kBytesPerFrame_def)
  from le dv show "md_physical_start d div kBytesPerFrame + md_number_of_pages d \<le> kFrameCount"
    by (auto simp: kBytesPerFrame_def kFrameCount_def)
  show "(md_physical_start d + md_number_of_pages d * kBytesPerFrame) div kBytesPerFrame
       = md_physical_start d div kBytesPerFrame + md_number_of_pages d"
    by (simp add: kBytesPerFrame_def)
qed

lemma mark_gap:
  assumes "desc_ok d" and "mm_init_inv A R (e, m)"
  obtains m1 where "(if e < md_physical_start d
      then MarkAllocated (e div kBytesPerFrame) ((md_physical_start d - e) div kBytesPerFrame) m
      else Some m) = Some m1"
    "\<forall>f < md_physical_start d div kBytesPerFrame. \<not> used m1 f \<longrightarrow> f \<in> A"
    "mm_init_inv A R (e, m1)"
proof (cases "e < md_physical_start d")
  case False
  then have "md_physical_start d div kBytesPerFrame \<le> e div kBytesPerFrame"
    by (simp add: div_le_mono)
  with assms(2) False show ?thesis by (intro that [of m]) (auto simp: mm_init_inv_def)
next
  case True
  let ?k = "(md_physical_start d - e) div kBytesPerFrame"
  from assms have "kBytesPerFrame dvd e" "kBytesPerFrame dvd md_physical_start d"
    by (simp_all add: mm_init_inv_def desc_ok_def)
  with True have sum: "e div kBytesPerFrame + ?k = md_physical_start d div kBytesPerFrame"
    by (auto simp: kBytesPerFrame_def)
  with desc_ok_arith(3) [OF assms(1)] have "e div kBytesPerFrame + ?k \<le> kFrameCount" by simp
  then obtain m1 where m1: "MarkAllocated (e div kBytesPerFrame) ?k m = Some m1"
    "\<And>g. used m1 g \<longleftrightarrow> used m g \<or> e div kBytesPerFrame \<le> g \<and> g < e div kBytesPerFrame + ?k"
    by (rule MarkAllocated_used) blast
  with assms(2) True sum show ?thesis
    by (intro that [of m1]) (auto simp: mm_init_inv_def not_le)
qed

lemma mm_init_step_inv:
  assumes "desc_ok d" and "mm_init_inv A R (e, m)"
  shows "\<exists>st. mm_init_step d (e, m) = Some st \<and>
    mm_init_inv (A \<union> available_frames [d]) (R \<union> reserved_frames [d]) st"
proof -
  note ar = desc_ok_arith [OF assms(1)] desc_ok_arith(1) [OF assms(1), simplified]
  obtain m1 where gap: "(if e < md_physical_start d
      then MarkAllocated (e div kBytesPerFrame) ((md_physical_start d - e) div kBytesPerFrame) m
      else Some m) = Some m1"
    and low: "\<forall>f < md_physical_start d div kBytesPerFrame. \<not> used m1 f \<longrightarrow> f \<in> A"
    and inv: "mm_init_inv A R (e, m1)"
    using mark_gap [OF assms] by blast
  show ?thesis
  proof (cases "desc_available d")
    case True
    let ?e = "md_physical_start d + md_number_of_pages d * kBytesPerFrame"
    from assms(1) have "kBytesPerFrame dvd ?e" "?e \<le> kFrameCount * kBytesPerFrame"
      by (simp_all add: desc_ok_def kUEFIPageSize_def kBytesPerFrame_def)
    with True low inv
    have "mm_init_inv (A \<union> available_frames [d]) (R \<union> reserved_frames [d]) (?e, m1)"
      by (auto simp: mm_init_inv_def available_frames_def reserved_frames_def desc_frames_def ar
               not_less)
    with True gap show ?thesis by (simp add: mm_init_step_def desc_available_def Let_def ar)
  next
    case False
    from ar(3) obtain m2 where m2: "MarkAllocated (md_physical_start d div kBytesPerFrame)
        (md_number_of_pages d) m1 = Some m2"
      "\<And>g. used m2 g \<longleftrightarrow> used m1 g \<or> md_physical_start d div kBytesPerFrame \<le> g \<and>
        g < md_physical_start d div kBytesPerFrame + md_number_of_pages d"
      by (rule MarkAllocated_used) blast
    with False inv
    have "mm_init_inv (A \<union> available_frames [d]) (R \<union> reserved_frames [d]) (e, m2)"
      by (auto simp: mm_init_inv_def available_frames_def reserved_frames_def desc_frames_def)
    moreover have "md_number_of_pages d * kBytesPerFrame div kBytesPerFrame = md_number_of_pages d"
      by (simp add: kBytesPerFrame_def)
    ultimately show ?thesis using False gap m2(1)
      by (simp add: mm_init_step_def desc_available_def Let_def ar)
  qed
qed

lemma mm_init_foldM_inv:
  assumes "\<forall>d \<in> set ds. desc_ok d" and "mm_init_inv A R st"
  shows "\<exists>st'. foldM mm_init_step ds st = Some st' \<and>
    mm_init_inv (A \<union> available_frames ds) (R \<union> reserved_frames ds) st'"
  using assms
proof (induction ds arbitrary: A R st)
  case Nil
  then show ?case by (simp add: available_frames_def reserved_frames_def)
next
  case (Cons d ds)
  obtain e m where st: "st = (e, m)" by fastforce
  from Cons.prems st obtain st1 where st1: "mm_init_step d st = Some st1"
    "mm_init_inv (A \<union> available_frames [d]) (R \<union> reserved_frames [d]) st1"
    using mm_init_step_inv [of d A R e m] by auto
  from Cons.IH [OF _ st1(2)] Cons.prems(1) obtain st' where
    "foldM mm_init_step ds st1 = Some st'"
    "mm_init_inv (A \<union> available_frames [d] \<union> available_frames ds)
       (R \<union> reserved_frames [d] \<union> reserved_frames ds) st'"
    by auto
  moreover have "available_frames [d] \<union> available_frames ds = available_frames (d # ds)"
    "reserved_frames [d] \<union> reserved_frames ds = reserved_frames (d # ds)"
    by (auto simp: available_frames_def reserved_frames_def)
  ultimately show ?case using st1(1) by (auto simp: Un_assoc)
qed

text \<open>The initial state satisfies it for no descriptors at all, so the loop establishes it for
  all of them.\<close>

lemma mm_init_loop_inv:
  assumes "0 < n" and "\<forall>d \<in> set (descriptors desc_at e n b). desc_ok d"
  obtains ae m where "mm_init_loop desc_at e n b (0, new_BitmapMemoryManager) = Some (ae, m)"
    "mm_init_inv (available_frames (descriptors desc_at e n b))
       (reserved_frames (descriptors desc_at e n b)) (ae, m)"
proof -
  have "mm_init_inv {} {} (0, new_BitmapMemoryManager)" by (simp add: mm_init_inv_def)
  from mm_init_foldM_inv [OF assms(2) this] that show ?thesis
    by (auto simp: mm_init_loop_foldM [OF assms(1)])
qed

text \<open>C7: \<open>Allocate\<close> is a total first-fit search inside the configured range: if some run of
  \<open>num_frames\<close> free frames exists there, it succeeds with the lowest one and marks exactly its
  frames; otherwise it returns \<open>kNullFrame\<close> with \<open>kNoEnoughMemory\<close> and changes nothing.\<close>

theorem Allocate_first_fit:
  assumes "range_end m \<le> kFrameCount"
  shows "\<exists>r m'. Allocate num_frames m = Some (r, m') \<and>
    (if \<exists>t \<ge> range_begin m. fit m t num_frames
     then we_error r = kSuccess \<and>
          we_value r = (LEAST t. range_begin m \<le> t \<and> fit m t num_frames) \<and>
          (\<forall>g. used m' g \<longleftrightarrow> used m g \<or> we_value r \<le> g \<and> g < we_value r + num_frames)
     else r = \<lparr>we_value = kNullFrame, we_error = kNoEnoughMemory\<rparr> \<and> m' = m)"
  using assms
proof (cases rule: Allocate_cases [of m num_frames])
  case (success v m')
  then have "(LEAST t. range_begin m \<le> t \<and> fit m t num_frames) = v"
    by (intro Least_equality) (auto simp: not_less [symmetric])
  with success show ?thesis by auto
next
  case failure
  then show ?thesis by auto
qed

theorem Allocate_first_fit_witness:
  "\<exists>r m'. Allocate 3 new_BitmapMemoryManager = Some (r, m') \<and>
    (if \<exists>t \<ge> range_begin new_BitmapMemoryManager. fit new_BitmapMemoryManager t 3
     then we_error r = kSuccess \<and>
          we_value r = (LEAST t. range_begin new_BitmapMemoryManager \<le> t \<and> fit new_BitmapMemoryManager t 3) \<and>
          (\<forall>g. used m' g \<longleftrightarrow> used new_BitmapMemoryManager g \<or> we_value r \<le> g \<and> g < we_value r + 3)
     else r = \<lparr>we_value = kNullFrame, we_error = kNoEnoughMemory\<rparr> \<and> m' = new_BitmapMemoryManager)"
  by (rule Allocate_first_fit) (simp add: new_BitmapMemoryManager_def)

text \<open>freeing a block right after it was allocated restores the set of allocated frames.\<close>

theorem Allocate_Free_roundtrip:
  assumes "range_end m \<le> kFrameCount" and "Allocate n m = Some (r, m1)"
    and "we_error r = kSuccess" and "0 < n"
  shows "\<exists>m2. Free (we_value r) n m1 = Some (kSuccess, m2) \<and> (\<forall>g. used m2 g \<longleftrightarrow> used m g)"
  using assms(1)
proof (cases rule: Allocate_cases [of m n])
  case (success v m')
  then have "v + n \<le> kFrameCount" using assms(1,4) fit_bound by fastforce
  then obtain m2 where "Free v n m' = Some (kSuccess, m2)"
    "\<And>g. used m2 g \<longleftrightarrow> used m' g \<and> \<not> (v \<le> g \<and> g < v + n)"
    using Free_used by blast
  moreover have "\<not> used m g" if "v \<le> g" "g < v + n" for g
    using \<open>fit m v n\<close> that unfolding fit_def
    by (metis add_diff_inverse_nat nat_add_left_cancel_less not_le)
  ultimately show ?thesis using success assms(2) by auto
next
  case failure
  with assms(2,3) show ?thesis by auto
qed

theorem Allocate_Free_roundtrip_witness:
  "\<exists>r m1 m2. Allocate 2 new_BitmapMemoryManager = Some (r, m1) \<and>
     Free (we_value r) 2 m1 = Some (kSuccess, m2) \<and>
     (\<forall>g. used m2 g \<longleftrightarrow> used new_BitmapMemoryManager g)"
proof -
  have re: "range_end new_BitmapMemoryManager \<le> kFrameCount" by (simp add: new_BitmapMemoryManager_def)
  have "fit new_BitmapMemoryManager 0 2"
    by (simp add: fit_def used_def new_BitmapMemoryManager_def kFrameCount_def kBytesPerFrame_def)
  with re obtain r m1 where r: "Allocate 2 new_BitmapMemoryManager = Some (r, m1)"
    "we_error r = kSuccess"
    by (cases rule: Allocate_cases [of new_BitmapMemoryManager 2])
       (auto simp: new_BitmapMemoryManager_def)
  from Allocate_Free_roundtrip [OF re r] r(1) show ?thesis by auto
qed

text \<open>whatever sequence of requests is served, the blocks handed out are pairwise disjoint,
  none overlaps a frame that was allocated before, and exactly their frames become allocated.\<close>

theorem Allocate_blocks_disjoint:
  assumes "range_end m \<le> kFrameCount"
  shows "\<exists>bs m'. alloc_seq Allocate requests m = Some (bs, m') \<and>
    {f. used m' f} = {f. used m f} \<union> \<Union> (block ` set bs) \<and>
    (\<forall>b \<in> set bs. block b \<inter> {f. used m f} = {}) \<and>
    (\<forall>i < length bs. \<forall>j < length bs. i \<noteq> j \<longrightarrow> block (bs ! i) \<inter> block (bs ! j) = {})"
  using bmm.alloc_seq_disjoint [OF assms, of requests] by blast

theorem Allocate_blocks_disjoint_witness:
  "\<exists>bs m'. alloc_seq Allocate [2, 1, 3] new_BitmapMemoryManager = Some (bs, m') \<and>
    {f. used m' f} = {f. used new_BitmapMemoryManager f} \<union> \<Union> (block ` set bs) \<and>
    (\<forall>b \<in> set bs. block b \<inter> {f. used new_BitmapMemoryManager f} = {}) \<and>
    (\<forall>i < length bs. \<forall>j < length bs. i \<noteq> j \<longrightarrow> block (bs ! i) \<inter> block (bs ! j) = {})"
  by (rule Allocate_blocks_disjoint) (simp add: new_BitmapMemoryManager_def)

text \<open>C6: the boot-time initialisation from any UEFI memory map of page-aligned descriptors below
  128 GiB is free of undefined behaviour. When the heap fits, every frame the allocator can still
  hand out lies in memory the firmware declared available and in no reserved descriptor, frame 0 is
  excluded, and the heap handed to \<open>sbrk\<close> is \<open>kHeapFrames\<close> consecutive available
  frames, all marked. It fails only when no such run of frames is free.\<close>

theorem InitializeMemoryManager_safe:
  assumes "0 < mm_descriptor_size memory_map"
    and "\<forall>d \<in> set (boot_descriptors desc_at memory_map). desc_ok d"
  shows "\<exists>r. InitializeMemoryManager desc_at memory_map brk = Some r \<and>
    (case r of
       Inl err \<Rightarrow> err = kNoEnoughMemory
     | Inr (m, brk') \<Rightarrow>
         range_begin m = 1 \<and> range_end m \<le> kFrameCount \<and>
         (\<forall>f. range_begin m \<le> f \<and> f < range_end m \<and> \<not> used m f \<longrightarrow>
            f \<in> available_frames (boot_descriptors desc_at memory_map) \<and> f \<notin> reserved_frames (boot_descriptors desc_at memory_map)) \<and>
         (\<exists>h \<ge> 1. program_break brk' = int (h * kBytesPerFrame) \<and>
            program_break_end brk' = int ((h + kHeapFrames) * kBytesPerFrame) \<and>
            (\<forall>f. h \<le> f \<and> f < h + kHeapFrames \<longrightarrow> used m f \<and>
               f \<in> available_frames (boot_descriptors desc_at memory_map) \<and> f \<notin> reserved_frames (boot_descriptors desc_at memory_map))))"
proof -
  let ?A = "available_frames (boot_descriptors desc_at memory_map)" and ?R = "reserved_frames (boot_descriptors desc_at memory_map)"
  from assms obtain ae m0 where loop: "mm_init_loop desc_at
      (mm_buffer memory_map + mm_map_size memory_map) (mm_descriptor_size memory_map)
      (mm_buffer memory_map) (0, new_BitmapMemoryManager) = Some (ae, m0)"
    and inv: "mm_init_inv ?A ?R (ae, m0)"
    unfolding boot_descriptors_def by (rule mm_init_loop_inv)
  define m1 where "m1 = SetMemoryRange 1 (ae div kBytesPerFrame) m0"
  from inv have re: "range_end m1 \<le> kFrameCount"
    and av: "\<And>f. f < range_end m1 \<Longrightarrow> \<not> used m1 f \<Longrightarrow> f \<in> ?A"
    and rs: "\<And>f. f \<in> ?R \<Longrightarrow> used m1 f"
    by (auto simp: mm_init_inv_def m1_def SetMemoryRange_def used_def kBytesPerFrame_def
             div_le_mono [of _ _ 4096, simplified])
  have init: "InitializeMemoryManager desc_at memory_map brk = do {
      (err, m', brk') \<leftarrow> InitializeHeap m1 brk;
      Some (if error_bool err then Inl err else Inr (m', brk')) }"
    by (simp add: InitializeMemoryManager_def loop m1_def)
  from re show ?thesis
  proof (cases rule: Allocate_cases [of m1 kHeapFrames])
    case failure
    then show ?thesis by (simp add: init InitializeHeap_def error_bool_def)
  next
    case (success v m')
    have rb: "range_begin m1 = 1" by (simp add: m1_def SetMemoryRange_def)
    have heap: "used m' f \<and> f \<in> ?A \<and> f \<notin> ?R" if "v \<le> f" "f < v + kHeapFrames" for f
      using success(3,5) that av rs unfolding fit_def
      by (metis add_diff_inverse_nat nat_add_left_cancel_less not_le)
    have free: "f \<in> ?A \<and> f \<notin> ?R" if "f < range_end m'" "\<not> used m' f" for f
      using that success(5,7) av rs by auto
    show ?thesis using success rb re heap free
      by (auto simp: init InitializeHeap_def error_bool_def Let_def distrib_right)
  qed
qed

text \<open>A memory map with 40000 pages of conventional memory and a reserved page above them.\<close>

definition sample_map :: MemoryMap where
  "sample_map = \<lparr>mm_buffer_size = 96, mm_buffer = 4096, mm_map_size = 96, mm_map_key = 0,
     mm_descriptor_size = 48, mm_descriptor_version = 1\<rparr>"

definition sample_desc_at :: "nat \<Rightarrow> nat \<Rightarrow> MemoryDescriptor" where
  "sample_desc_at reserved_start a =
     (if a = 4096
      then \<lparr>md_type = 7, md_physical_start = 4096, md_virtual_start = 0,
             md_number_of_pages = 40000, md_attribute = 0\<rparr>
      else \<lparr>md_type = 0, md_physical_start = reserved_start, md_virtual_start = 0,
             md_number_of_pages = 1, md_attribute = 0\<rparr>)"

lemma sample_descriptors:
  "boot_descriptors (sample_desc_at a) sample_map = [sample_desc_at a 4096, sample_desc_at a 4144]"
  by (simp add: boot_descriptors_def sample_map_def descriptors.simps)

theorem InitializeMemoryManager_safe_witness:
  "\<exists>r. InitializeMemoryManager (sample_desc_at 204800000) sample_map
        \<lparr>program_break = 0, program_break_end = 0\<rparr> = Some r \<and>
     (case r of Inl err \<Rightarrow> err = kNoEnoughMemory
      | Inr (m, brk) \<Rightarrow> range_begin m = 1 \<and> range_end m \<le> kFrameCount)"
proof -
  have "\<forall>d \<in> set (boot_descriptors (sample_desc_at 204800000) sample_map). desc_ok d"
    by (simp add: sample_descriptors sample_desc_at_def desc_ok_def kBytesPerFrame_def
        kUEFIPageSize_def kFrameCount_def)
  moreover have "0 < mm_descriptor_size sample_map" by (simp add: sample_map_def)
  ultimately show ?thesis
    using InitializeMemoryManager_safe
      [of sample_map "sample_desc_at 204800000" "\<lparr>program_break = 0, program_break_end = 0\<rparr>"]
    by (auto split: sum.splits)
qed

text \<open>nothing in \<open>InitializeMemoryManager\<close> compares a descriptor with the 128 GiB that
  \<open>alloc_map_\<close> covers: one reserved descriptor that starts at or above that limit makes the
  initialisation write outside the bitmap.\<close>

theorem InitializeMemoryManager_beyond_bitmap:
  assumes "0 < mm_descriptor_size memory_map"
    and "d \<in> set (boot_descriptors desc_at memory_map)" and "\<not> desc_available d"
    and "kFrameCount * kBytesPerFrame \<le> md_physical_start d"
    and "0 < md_number_of_pages d" and "md_number_of_pages d * kUEFIPageSize < 2 ^ 64"
  shows "InitializeMemoryManager desc_at memory_map brk = None"
proof -
  have "kFrameCount \<le> md_physical_start d div kBytesPerFrame"
    using assms(4) by (simp add: less_eq_div_iff_mult_less_eq kBytesPerFrame_def)
  moreover have "0 < (md_number_of_pages d * kUEFIPageSize mod 2 ^ 64) div kBytesPerFrame"
    using assms(5,6) by (simp add: kBytesPerFrame_def kUEFIPageSize_def)
  ultimately have "MarkAllocated (md_physical_start d div kBytesPerFrame)
      (md_number_of_pages d * kUEFIPageSize mod 2 ^ 64 div kBytesPerFrame) m = None" for m
    by (rule MarkAllocated_out_of_range)
  with assms(3) have "mm_init_step d st = None" for st
    by (auto simp: mm_init_step_def desc_available_def Let_def split: prod.split Option.bind_splits)
  with assms(2) have "foldM mm_init_step (boot_descriptors desc_at memory_map) st = None" for st
    by (rule foldM_None)
  then show ?thesis
    by (simp add: InitializeMemoryManager_def mm_init_loop_foldM [OF assms(1)] boot_descriptors_def)
qed

theorem InitializeMemoryManager_beyond_bitmap_witness:
  "InitializeMemoryManager (sample_desc_at 137438953472) sample_map
     \<lparr>program_break = 0, program_break_end = 0\<rparr> = None"
proof (rule InitializeMemoryManager_beyond_bitmap)
  show "sample_desc_at 137438953472 4144 \<in>
      set (boot_descriptors (sample_desc_at 137438953472) sample_map)"
    by (simp add: sample_descriptors)
qed (simp_all add: sample_map_def sample_desc_at_def desc_available_def IsAvailable_def
       memory_types_def arr_get_def kFrameCount_def kBytesPerFrame_def kUEFIPageSize_def)

text \<open>\<open>sbrk\<close> never moves the break to or past \<open>program_break_end\<close>; a successful call
  returns the old break, the memory it hands out lies inside the heap, and a refused call leaves
  the heap as it was.\<close>

theorem sbrk_stays_in_heap:
  assumes "0 < program_break b" and "program_break b < program_break_end b" and "0 \<le> incr"
  shows "case sbrk incr b of
      (None, b') \<Rightarrow> b' = b \<and> program_break_end b \<le> program_break b + incr
    | (Some p, b') \<Rightarrow> p = program_break b \<and> program_break b' = p + incr \<and>
        program_break_end b' = program_break_end b \<and>
        {p ..< p + incr} \<subseteq> {program_break b ..< program_break_end b} \<and>
        program_break b' < program_break_end b'"
  using assms by (auto simp: sbrk_def split: prod.splits)

theorem sbrk_stays_in_heap_witness:
  "case sbrk 64 \<lparr>program_break = 4096, program_break_end = 8192\<rparr> of
      (None, b') \<Rightarrow> False
    | (Some p, b') \<Rightarrow> p = 4096 \<and> {p ..< p + 64} \<subseteq> {4096 ..< 8192} \<and> program_break b' < 8192"
  using sbrk_stays_in_heap [of "\<lparr>program_break = 4096, program_break_end = 8192\<rparr>" 64]
  by (simp split: prod.splits option.splits)

end
