(* ===== verification/Descriptor_Tables.thy ===== *)
theory Descriptor_Tables
  imports Kernel_Prelude
begin

text \<open>
  \<open>src/kernel/x86_descriptor.hpp\<close>, \<open>segment.hpp/.cpp\<close> and \<open>interrupt.hpp/.cpp\<close>:
  the GDT and IDT entries as the bit fields the processor reads. \<open>LoadGDT\<close>, \<open>LoadIDT\<close>,
  \<open>SetDSAll\<close>, \<open>SetCSSS\<close> and the write to the end-of-interrupt register are assembly or
  memory-mapped I/O and are not modelled; the interrupt handlers are in \<open>Timer_Manager\<close>.
\<close>

datatype DescriptorType =
    kUpper8Bytes | kLDT | kTSSAvailable | kTSSBusy | kCallGate | kInterruptGate | kTrapGate
  | kReadWrite | kExecuteRead

definition descriptor_type_code :: "DescriptorType \<Rightarrow> nat" where
  "descriptor_type_code t = (case t of
     kUpper8Bytes \<Rightarrow> 0 | kLDT \<Rightarrow> 2 | kTSSAvailable \<Rightarrow> 9 | kTSSBusy \<Rightarrow> 11 | kCallGate \<Rightarrow> 12
   | kInterruptGate \<Rightarrow> 14 | kTrapGate \<Rightarrow> 15 | kReadWrite \<Rightarrow> 2 | kExecuteRead \<Rightarrow> 10)"

subsection \<open>Segment descriptors\<close>

text \<open>\<open>union SegmentDescriptor\<close>: 64 bits of \<open>data\<close>, read through the bit fields
  \<open>limit_low:16\<close>, \<open>base_low:16\<close>, \<open>base_middle:8\<close>, \<open>type:4\<close>,
  \<open>system_segment:1\<close>, \<open>descriptor_privilege_level:2\<close>, \<open>present:1\<close>,
  \<open>limit_high:4\<close>, \<open>available:1\<close>, \<open>long_mode:1\<close>,
  \<open>default_operation_size:1\<close>, \<open>granularity:1\<close>, \<open>base_high:8\<close>.\<close>

type_synonym SegmentDescriptor = u64

definition SetCodeSegment :: "DescriptorType \<Rightarrow> u32 \<Rightarrow> u32 \<Rightarrow> u32 \<Rightarrow> SegmentDescriptor" where
  "SetCodeSegment type descriptor_privilege_level base limit =
     (let d = 0;
          d = bf_set 16 16 (ucast (base AND 0xffff)) d;
          d = bf_set 32 8 (ucast (drop_bit 16 base AND 0xff)) d;
          d = bf_set 56 8 (ucast (drop_bit 24 base AND 0xff)) d;
          d = bf_set 0 16 (ucast (limit AND 0xffff)) d;
          d = bf_set 48 4 (ucast (drop_bit 16 limit AND 0xf)) d;
          d = bf_set 40 4 (of_nat (descriptor_type_code type)) d;
          d = bf_set 44 1 1 d;
          d = bf_set 45 2 (ucast descriptor_privilege_level) d;
          d = bf_set 47 1 1 d;
          d = bf_set 52 1 0 d;
          d = bf_set 53 1 1 d;
          d = bf_set 54 1 0 d;
          d = bf_set 55 1 1 d
      in d)"

definition SetDataSegment :: "DescriptorType \<Rightarrow> u32 \<Rightarrow> u32 \<Rightarrow> u32 \<Rightarrow> SegmentDescriptor" where
  "SetDataSegment type descriptor_privilege_level base limit =
     (let d = SetCodeSegment type descriptor_privilege_level base limit;
          d = bf_set 53 1 0 d
      in bf_set 54 1 1 d)"

definition kKernelCS :: u16 where "kKernelCS = push_bit 3 1"
definition kKernelSS :: u16 where "kKernelSS = push_bit 3 2"
definition kKernelDS :: u16 where "kKernelDS = 0"

text \<open>The three entries \<open>SetupSegments\<close> writes before it loads the table.\<close>

definition SetupSegments :: "SegmentDescriptor list" where
  "SetupSegments = [0, SetCodeSegment kExecuteRead 0 0 0xfffff, SetDataSegment kReadWrite 0 0 0xfffff]"

text \<open>How the processor reads base and limit back.\<close>

definition seg_base :: "SegmentDescriptor \<Rightarrow> u32" where
  "seg_base d = ucast (bf_get 16 16 d OR push_bit 16 (bf_get 32 8 d) OR push_bit 24 (bf_get 56 8 d))"

definition seg_limit :: "SegmentDescriptor \<Rightarrow> u32" where
  "seg_limit d = ucast (bf_get 0 16 d OR push_bit 16 (bf_get 48 4 d))"

subsection \<open>Interrupt descriptors\<close>

text \<open>\<open>InterruptDescriptorAttribute\<close>: \<open>interrupt_stack_table:3\<close>, 5 reserved bits,
  \<open>type:4\<close>, 1 reserved bit, \<open>descriptor_privilege_level:2\<close>, \<open>present:1\<close>.\<close>

definition MakeIDTAttr :: "DescriptorType \<Rightarrow> u8 \<Rightarrow> bool \<Rightarrow> u8 \<Rightarrow> u16" where
  "MakeIDTAttr type descriptor_privilege_level present interrupt_stack_table =
     (let a = bf_set 0 3 (ucast interrupt_stack_table) 0;
          a = bf_set 8 4 (of_nat (descriptor_type_code type)) a;
          a = bf_set 13 2 (ucast descriptor_privilege_level) a
      in bf_set 15 1 (if present then 1 else 0) a)"

record InterruptDescriptor =
  id_offset_low :: u16
  id_segment_selector :: u16
  id_attr :: u16
  id_offset_middle :: u16
  id_offset_high :: u32
  id_reserved :: u32

definition SetIDTEntry :: "InterruptDescriptor \<Rightarrow> u16 \<Rightarrow> u64 \<Rightarrow> u16 \<Rightarrow> InterruptDescriptor" where
  "SetIDTEntry desc attr offset segment_selector =
     desc\<lparr>id_attr := attr,
          id_offset_low := ucast (offset AND 0xffff),
          id_offset_middle := ucast (drop_bit 16 offset AND 0xffff),
          id_offset_high := ucast (drop_bit 32 offset),
          id_segment_selector := segment_selector\<rparr>"

definition kXHCI_vector :: nat where "kXHCI_vector = 0x40"
definition kLAPICTimer_vector :: nat where "kLAPICTimer_vector = 0x41"

text \<open>\<open>InitializeInterrupt\<close> up to \<open>LoadIDT\<close>; the addresses of the two handlers are given by
  the linker.\<close>

definition InitializeInterrupt :: "u64 \<Rightarrow> u64 \<Rightarrow> InterruptDescriptor list \<Rightarrow>
    InterruptDescriptor list option" where
  "InitializeInterrupt IntHandlerXHCI IntHandlerLAPICTimer idt = do {
     e \<leftarrow> arr_get idt kXHCI_vector;
     idt \<leftarrow> arr_set idt kXHCI_vector
       (SetIDTEntry e (MakeIDTAttr kInterruptGate 0 True 0) IntHandlerXHCI kKernelCS);
     e \<leftarrow> arr_get idt kLAPICTimer_vector;
     arr_set idt kLAPICTimer_vector
       (SetIDTEntry e (MakeIDTAttr kInterruptGate 0 True 0) IntHandlerLAPICTimer kKernelCS)
   }"

definition idt_handler :: "InterruptDescriptor \<Rightarrow> u64" where
  "idt_handler d = ucast (id_offset_low d) OR push_bit 16 (ucast (id_offset_middle d))
     OR push_bit 32 (ucast (id_offset_high d))"

subsection \<open>What the processor reads back\<close>

lemma hex_masks:
  "x AND 0xffff = take_bit 16 x" "x AND 0xff = take_bit 8 x" "x AND 0xf = take_bit 4 x"
  for x :: "'a::len word"
  by (simp_all add: take_bit_eq_mask mask_eq_exp_minus_1)

lemma take_bit_ucast_take_bit:
  "take_bit n (ucast (take_bit n x :: 'b::len word) :: 'a::len word) = ucast (take_bit n x)"
  by (rule bit_word_eqI) (auto simp: bit_simps)

lemma seg_fields:
  "bf_get 0 16 (SetCodeSegment t dpl base limit) = ucast (take_bit 16 limit)"
  "bf_get 16 16 (SetCodeSegment t dpl base limit) = ucast (take_bit 16 base)"
  "bf_get 32 8 (SetCodeSegment t dpl base limit) = ucast (take_bit 8 (drop_bit 16 base))"
  "bf_get 48 4 (SetCodeSegment t dpl base limit) = ucast (take_bit 4 (drop_bit 16 limit))"
  "bf_get 56 8 (SetCodeSegment t dpl base limit) = ucast (take_bit 8 (drop_bit 24 base))"
  by (simp_all add: SetCodeSegment_def Let_def hex_masks take_bit_ucast_take_bit)

lemma seg_base_code: "seg_base (SetCodeSegment t dpl base limit) = base"
proof (rule bit_word_eqI)
  fix k assume "k < LENGTH(32)"
  then show "bit (seg_base (SetCodeSegment t dpl base limit)) k = bit base k"
    by (cases "k < 16"; cases "k < 24") (auto simp: seg_base_def seg_fields bit_simps)
qed

lemma seg_limit_code: "seg_limit (SetCodeSegment t dpl base limit) = take_bit 20 limit"
proof (rule bit_word_eqI)
  fix k assume "k < LENGTH(32)"
  then show "bit (seg_limit (SetCodeSegment t dpl base limit)) k = bit (take_bit 20 limit) k"
    by (auto simp: seg_limit_def seg_fields bit_simps)
qed

text \<open>whatever base and limit a code segment is given, the processor reads back the same base
  and the low 20 bits of the limit, the requested type and privilege level, and a present 64-bit
  code segment (\<open>long_mode\<close> set, \<open>default_operation_size\<close> clear, page granularity).\<close>

theorem SetCodeSegment_roundtrip:
  "seg_base (SetCodeSegment t dpl base limit) = base \<and>
   seg_limit (SetCodeSegment t dpl base limit) = take_bit 20 limit \<and>
   bf_get 40 4 (SetCodeSegment t dpl base limit) = of_nat (descriptor_type_code t) \<and>
   bf_get 45 2 (SetCodeSegment t dpl base limit) = take_bit 2 (ucast dpl) \<and>
   bf_get 44 1 (SetCodeSegment t dpl base limit) = 1 \<and>
   bf_get 47 1 (SetCodeSegment t dpl base limit) = 1 \<and>
   bf_get 53 1 (SetCodeSegment t dpl base limit) = 1 \<and>
   bf_get 54 1 (SetCodeSegment t dpl base limit) = 0 \<and>
   bf_get 55 1 (SetCodeSegment t dpl base limit) = 1"
proof -
  have "take_bit 4 (of_nat (descriptor_type_code t) :: u64) = of_nat (descriptor_type_code t)"
    by (cases t) (simp_all add: descriptor_type_code_def)
  then show ?thesis
    by (simp add: seg_base_code seg_limit_code) (simp add: SetCodeSegment_def Let_def)
qed

lemma idt_handler_set: "idt_handler (SetIDTEntry desc attr offset sel) = offset"
proof (rule bit_word_eqI)
  fix k assume "k < LENGTH(64)"
  then show "bit (idt_handler (SetIDTEntry desc attr offset sel)) k = bit offset k"
    by (cases "k < 16"; cases "k < 32")
       (auto simp: idt_handler_def SetIDTEntry_def hex_masks bit_simps)
qed

text \<open>on a 256-entry table, \<open>InitializeInterrupt\<close> makes vectors \<open>0x40\<close> and
  \<open>0x41\<close> present ring-0 interrupt gates in the kernel code segment whose split offset
  fields reassemble to the full 64-bit handler addresses, and changes no other entry.\<close>

theorem InitializeInterrupt_gates:
  assumes "length idt = 256"
  shows "\<exists>idt'. InitializeInterrupt xhci timer idt = Some idt' \<and> length idt' = 256 \<and>
    idt_handler (idt' ! kXHCI_vector) = xhci \<and> idt_handler (idt' ! kLAPICTimer_vector) = timer \<and>
    (\<forall>v \<in> {kXHCI_vector, kLAPICTimer_vector}.
       id_segment_selector (idt' ! v) = kKernelCS \<and> bf_get 8 4 (id_attr (idt' ! v)) = 14 \<and>
       bf_get 13 2 (id_attr (idt' ! v)) = 0 \<and> bf_get 15 1 (id_attr (idt' ! v)) = 1) \<and>
    (\<forall>v < 256. v \<noteq> kXHCI_vector \<longrightarrow> v \<noteq> kLAPICTimer_vector \<longrightarrow> idt' ! v = idt ! v)"
proof -
  have attr: "bf_get 8 4 (MakeIDTAttr kInterruptGate 0 True 0) = 14"
    "bf_get 13 2 (MakeIDTAttr kInterruptGate 0 True 0) = 0"
    "bf_get 15 1 (MakeIDTAttr kInterruptGate 0 True 0) = 1"
    by (simp_all add: MakeIDTAttr_def Let_def descriptor_type_code_def)
  have "id_segment_selector (SetIDTEntry d a off sel) = sel" "id_attr (SetIDTEntry d a off sel) = a"
    for d a off sel by (simp_all add: SetIDTEntry_def)
  with assms attr show ?thesis
    by (simp add: InitializeInterrupt_def arr_get_def arr_set_def kXHCI_vector_def
        kLAPICTimer_vector_def idt_handler_set)
qed

definition blank_idt :: "InterruptDescriptor list" where
  "blank_idt = replicate 256 \<lparr>id_offset_low = 0, id_segment_selector = 0, id_attr = 0,
     id_offset_middle = 0, id_offset_high = 0, id_reserved = 0\<rparr>"

theorem InitializeInterrupt_gates_witness:
  "\<exists>idt'. InitializeInterrupt 0x101000 0x102000 blank_idt = Some idt' \<and>
    idt_handler (idt' ! kXHCI_vector) = 0x101000 \<and>
    idt_handler (idt' ! kLAPICTimer_vector) = 0x102000"
  using InitializeInterrupt_gates [of blank_idt "0x101000" "0x102000"]
  by (auto simp: blank_idt_def)

text \<open>the GDT the kernel loads is exactly the null descriptor, a flat 64-bit ring-0 code
  segment and a flat ring-0 data segment.\<close>

theorem SetupSegments_entries:
  "SetupSegments = [0, 0x00af9a000000ffff, 0x00cf92000000ffff]"
  by (simp add: SetupSegments_def SetCodeSegment_def SetDataSegment_def Let_def bf_set_def
      descriptor_type_code_def mask_eq_exp_minus_1)

end
