(* ===== verification/Paging.thy ===== *)
theory Paging
  imports Kernel_Prelude
begin

text \<open>
  \<open>src/kernel/paging.hpp\<close> and \<open>paging.cpp\<close>: the static identity page tables of 2 MiB pages,
  checked against the four-level address translation of the processor. The addresses of the three
  static tables come from the linker and are parameters; \<open>SetCR3\<close> is the last component of the
  result.
\<close>

definition kPageDirectoryCount :: nat where "kPageDirectoryCount = 64"
definition kPageSize4K :: u64 where "kPageSize4K = 4096"
definition kPageSize2M :: u64 where "kPageSize2M = 512 * kPageSize4K"
definition kPageSize1G :: u64 where "kPageSize1G = 512 * kPageSize2M"

text \<open>Where the static arrays lie; element \<open>i\<close> of \<open>page_directory\<close> is a table of 4096
  bytes.\<close>

record table_layout =
  pml4_addr :: u64
  pdp_addr :: u64
  pd_addr :: u64

definition page_directory_addr :: "table_layout \<Rightarrow> nat \<Rightarrow> u64" where
  "page_directory_addr l i = pd_addr l + of_nat i * 4096"

record page_tables =
  pml4_table :: "u64 list"
  pdp_table :: "u64 list"
  page_directory :: "u64 list list"
  cr3 :: u64

text \<open>The zero-initialised static arrays.\<close>

definition boot_tables :: page_tables where
  "boot_tables = \<lparr>pml4_table = replicate 512 0, pdp_table = replicate 512 0,
     page_directory = replicate kPageDirectoryCount (replicate 512 0), cr3 = 0\<rparr>"

definition setup_pd_entry :: "nat \<Rightarrow> nat \<Rightarrow> page_tables \<Rightarrow> page_tables option" where
  "setup_pd_entry i_pdpt i_pd t = do {
     pd \<leftarrow> arr_get (page_directory t) i_pdpt;
     pd \<leftarrow> arr_set pd i_pd (of_nat i_pdpt * kPageSize1G + of_nat i_pd * kPageSize2M OR 0x083);
     dir \<leftarrow> arr_set (page_directory t) i_pdpt pd;
     Some (t\<lparr>page_directory := dir\<rparr>)
   }"

definition setup_pdp_entry :: "table_layout \<Rightarrow> nat \<Rightarrow> page_tables \<Rightarrow> page_tables option" where
  "setup_pdp_entry l i_pdpt t = do {
     pdp \<leftarrow> arr_set (pdp_table t) i_pdpt (page_directory_addr l i_pdpt OR 0x003);
     foldM (setup_pd_entry i_pdpt) [0..<512] (t\<lparr>pdp_table := pdp\<rparr>)
   }"

definition SetupIdentityPageTable :: "table_layout \<Rightarrow> page_tables \<Rightarrow> page_tables option" where
  "SetupIdentityPageTable l t = do {
     pml4 \<leftarrow> arr_set (pml4_table t) 0 (pdp_addr l OR 0x003);
     t \<leftarrow> foldM (setup_pdp_entry l) [0..<length (page_directory t)] (t\<lparr>pml4_table := pml4\<rparr>);
     Some (t\<lparr>cr3 := pml4_addr l\<rparr>)
   }"

definition InitializePaging :: "table_layout \<Rightarrow> page_tables \<Rightarrow> page_tables option" where
  "InitializePaging l t = SetupIdentityPageTable l t"

subsection \<open>Address translation\<close>

text \<open>Four-level translation as the processor performs it: \<open>mem\<close> reads an 8-byte table entry
  from physical memory, bit 0 is \<open>present\<close>, bit 7 of a page-directory entry selects a 2 MiB
  page. The kernel installs no 4 KiB or 1 GiB pages, so the walk stops with \<open>None\<close> there and at
  every entry that is not present.\<close>

definition table_index :: "nat \<Rightarrow> u64 \<Rightarrow> nat" where
  "table_index level va = unat (take_bit 9 (drop_bit (12 + 9 * level) va))"

definition entry_table :: "u64 \<Rightarrow> u64" where
  "entry_table e = e AND 0x000ffffffffff000"

definition translate :: "(u64 \<Rightarrow> u64) \<Rightarrow> u64 \<Rightarrow> u64 \<Rightarrow> u64 option" where
  "translate mem root va =
     (let pml4e = mem (entry_table root + 8 * of_nat (table_index 3 va));
          pdpte = mem (entry_table pml4e + 8 * of_nat (table_index 2 va));
          pde = mem (entry_table pdpte + 8 * of_nat (table_index 1 va))
      in if bit pml4e 0 \<and> bit pdpte 0 \<and> \<not> bit pdpte 7 \<and> bit pde 0 \<and> bit pde 7
         then Some ((pde AND 0x000fffffffe00000) OR take_bit 21 va)
         else None)"

text \<open>Physical memory holds the tables at their addresses.\<close>

definition tables_in_memory :: "table_layout \<Rightarrow> page_tables \<Rightarrow> (u64 \<Rightarrow> u64) \<Rightarrow> bool" where
  "tables_in_memory l t mem \<longleftrightarrow>
     (\<forall>i < 512. mem (pml4_addr l + 8 * of_nat i) = pml4_table t ! i) \<and>
     (\<forall>i < 512. mem (pdp_addr l + 8 * of_nat i) = pdp_table t ! i) \<and>
     (\<forall>i < kPageDirectoryCount. \<forall>j < 512.
        mem (page_directory_addr l i + 8 * of_nat j) = page_directory t ! i ! j)"

text \<open>\<open>alignas(kPageSize4K)\<close> tables within the 52 address bits a table entry can hold.\<close>

definition layout_ok :: "table_layout \<Rightarrow> bool" where
  "layout_ok l \<longleftrightarrow> entry_table (pml4_addr l) = pml4_addr l \<and> entry_table (pdp_addr l) = pdp_addr l \<and>
     (\<forall>i < kPageDirectoryCount. entry_table (page_directory_addr l i) = page_directory_addr l i)"

subsection \<open>What the setup writes\<close>

definition pd_value :: "nat \<Rightarrow> nat \<Rightarrow> u64" where
  "pd_value i j = of_nat i * kPageSize1G + of_nat j * kPageSize2M OR 0x083"

lemma map_replicate_trivial': "map (\<lambda>i. x) [0..<n] = replicate n x"
  by (induction n) (auto simp: replicate_append_same)

lemma setup_pd_loop:
  assumes "i < length (page_directory t)" and "length (page_directory t ! i) = 512"
  shows "foldM (setup_pd_entry i) [0..<512] t =
    Some (t\<lparr>page_directory := (page_directory t)[i := map (pd_value i) [0..<512]]\<rparr>)"
proof -
  let ?P = "\<lambda>n t'. t' = t\<lparr>page_directory := (page_directory t)
      [i := map (pd_value i) [0..<n] @ drop n (page_directory t ! i)]\<rparr>"
  have "\<exists>t'. foldM (setup_pd_entry i) [0..<512] t = Some t' \<and> ?P 512 t'"
  proof (rule foldM_upt_invariant)
    show "?P 0 t" by simp
  next
    fix n t' assume n: "n < 512" and P: "?P n t'"
    have "(map (pd_value i) [0..<n] @ drop n (page_directory t ! i))[n := pd_value i n]
        = map (pd_value i) [0..<Suc n] @ drop (Suc n) (page_directory t ! i)"
      using n assms(2) by (simp add: list_update_append Cons_nth_drop_Suc [symmetric])
    with P n assms show "\<exists>t''. setup_pd_entry i n t' = Some t'' \<and> ?P (Suc n) t''"
      by (simp add: setup_pd_entry_def arr_get_def arr_set_def pd_value_def)
  qed simp
  with assms show ?thesis by auto
qed

definition identity_tables :: "table_layout \<Rightarrow> page_tables" where
  "identity_tables l = \<lparr>pml4_table = (replicate 512 0)[0 := pdp_addr l OR 3],
     pdp_table = map (\<lambda>i. if i < kPageDirectoryCount then page_directory_addr l i OR 3 else 0) [0..<512],
     page_directory = map (\<lambda>i. map (pd_value i) [0..<512]) [0..<kPageDirectoryCount],
     cr3 = pml4_addr l\<rparr>"

lemma SetupIdentityPageTable_result:
  "SetupIdentityPageTable l boot_tables = Some (identity_tables l)"
proof -
  let ?t0 = "boot_tables\<lparr>pml4_table := (replicate 512 0)[0 := pdp_addr l OR 3]\<rparr>"
  let ?pdp = "\<lambda>n. map (\<lambda>i. if i < n then page_directory_addr l i OR 3 else 0) [0..<512]"
  let ?dir = "\<lambda>n. map (\<lambda>i. if i < n then map (pd_value i) [0..<512] else replicate 512 0)
      [0..<kPageDirectoryCount]"
  let ?P = "\<lambda>n t. t = ?t0\<lparr>pdp_table := ?pdp n, page_directory := ?dir n\<rparr>"
  have "\<exists>t. foldM (setup_pdp_entry l) [0..<kPageDirectoryCount] ?t0 = Some t \<and> ?P kPageDirectoryCount t"
  proof (rule foldM_upt_invariant [where P = ?P])
    have "map (\<lambda>i. 0 :: u64) [0..<512] = replicate 512 0" by (rule map_replicate_trivial')
    moreover have "map (\<lambda>i. replicate 512 (0::u64)) [0..<kPageDirectoryCount]
        = replicate kPageDirectoryCount (replicate 512 0)" by (rule map_replicate_trivial')
    ultimately show "?P 0 ?t0" by (simp add: boot_tables_def)
  next
    fix n t assume n: "n < kPageDirectoryCount" and P: "?P n t"
    have pdp: "(?pdp n)[n := page_directory_addr l n OR 3] = ?pdp (Suc n)"
      using n by (intro nth_equalityI) (auto simp: nth_list_update less_Suc_eq kPageDirectoryCount_def)
    have dir: "(?dir n)[n := map (pd_value n) [0..<512]] = ?dir (Suc n)"
      using n by (intro nth_equalityI) (auto simp: nth_list_update less_Suc_eq)
    have "setup_pdp_entry l n t = Some (t\<lparr>pdp_table := ?pdp (Suc n), page_directory := ?dir (Suc n)\<rparr>)"
      using n P pdp dir setup_pd_loop [of n "t\<lparr>pdp_table := ?pdp (Suc n)\<rparr>"]
      by (simp add: setup_pdp_entry_def arr_set_def kPageDirectoryCount_def)
    with P show "\<exists>t'. setup_pdp_entry l n t = Some t' \<and> ?P (Suc n) t'" by simp
  qed simp
  moreover have "?dir kPageDirectoryCount = page_directory (identity_tables l)"
    by (simp add: identity_tables_def)
  moreover have "length (page_directory boot_tables) = kPageDirectoryCount"
    by (simp add: boot_tables_def)
  ultimately show ?thesis
    by (simp add: SetupIdentityPageTable_def arr_set_def boot_tables_def identity_tables_def)
qed

subsection \<open>Bits of the entries\<close>

lemma bit_entry_table: "bit (entry_table e) k \<longleftrightarrow> 12 \<le> k \<and> k < 52 \<and> bit e k"
proof -
  have *: "entry_table e = e AND (mask 52 AND NOT (mask 12))"
    by (simp add: entry_table_def mask_eq_exp_minus_1)
  show ?thesis unfolding * by (auto simp: bit_simps dest: bit_imp_le_length)
qed

lemma bit_3_word: "bit (3 :: u64) k \<longleftrightarrow> k < 2"
proof -
  have *: "(3 :: u64) = mask 2" by (simp add: mask_eq_exp_minus_1)
  show ?thesis unfolding * by (auto simp: bit_simps)
qed

lemma entry_table_or_3: "entry_table a = a \<Longrightarrow> entry_table (a OR 3) = a"
proof (rule bit_word_eqI)
  fix k assume a: "entry_table a = a"
  have "bit a k \<longleftrightarrow> 12 \<le> k \<and> k < 52 \<and> bit a k" using bit_entry_table [of a k] a by simp
  then show "bit (entry_table (a OR 3)) k = bit a k"
    using bit_3_word [of k] by (auto simp: bit_entry_table bit_or_iff)
qed

lemma entry_or_3_bits:
  assumes "entry_table a = a"
  shows "bit (a OR 3) 0" "\<not> bit (a OR 3) 7"
  using bit_entry_table [of a 7] assms by (auto simp: bit_or_iff bit_3_word)

lemma pd_value_bits:
  "pd_value i j = push_bit 30 (of_nat i) + push_bit 21 (of_nat j) OR 0x083"
  by (simp add: pd_value_def kPageSize1G_def kPageSize2M_def kPageSize4K_def push_bit_eq_mult)

lemma index_parts_disjoint:
  "push_bit 30 (take_bit 9 (drop_bit 30 va)) AND push_bit 21 (take_bit 9 (drop_bit 21 va)) = (0::u64)"
  by (rule bit_word_eqI) (auto simp: bit_simps)

lemma pd_value_bit_iff:
  "bit (pd_value (table_index 2 va) (table_index 1 va)) k \<longleftrightarrow>
     21 \<le> k \<and> k < 39 \<and> bit va k \<or> bit (0x083 :: u64) k"
proof -
  have "pd_value (table_index 2 va) (table_index 1 va) =
      push_bit 30 (take_bit 9 (drop_bit 30 va)) OR push_bit 21 (take_bit 9 (drop_bit 21 va)) OR 0x083"
    using disjunctive_add_eq_or [OF index_parts_disjoint [of va]]
    by (simp add: pd_value_bits table_index_def or.assoc)
  then show ?thesis
    by (cases "k < 30") (auto simp: bit_simps dest: bit_imp_le_length)
qed

lemma table_index_unat: "table_index level va = unat va div 2 ^ (12 + 9 * level) mod 512"
proof -
  have "table_index level va = take_bit 9 (drop_bit (12 + 9 * level) (unat va))"
    by (simp only: table_index_def unsigned_take_bit_eq unat_drop_bit_eq)
  then show ?thesis by (simp add: take_bit_eq_mod drop_bit_eq_div)
qed

lemma table_index_less: "table_index level va < 512"
  by (simp add: table_index_unat)

lemma table_index_3_zero: "unat va < 2 ^ 48 \<Longrightarrow> table_index 3 va = 0 \<longleftrightarrow> unat va < 2 ^ 39"
  by (simp add: table_index_unat div_eq_0_iff less_mult_imp_div_less mod_less)

lemma table_index_2_dir:
  "unat va < 2 ^ 39 \<Longrightarrow> table_index 2 va < kPageDirectoryCount \<longleftrightarrow> unat va < 2 ^ 36"
  by (simp add: table_index_unat kPageDirectoryCount_def less_mult_imp_div_less mod_less div_less_iff_less_mult)

lemma bit_83_word: "bit (0x083 :: u64) k \<longleftrightarrow> k = 0 \<or> k = 1 \<or> k = 7"
proof -
  have "(0x083 :: u64) = push_bit 0 1 OR push_bit 1 1 OR push_bit 7 1" by simp
  then show ?thesis by (simp only: bit_or_iff bit_push_bit_iff bit_1_iff) auto
qed

lemma bit_2M_frame: "bit (0x000fffffffe00000 :: u64) k \<longleftrightarrow> 21 \<le> k \<and> k < 52"
proof -
  have *: "(0x000fffffffe00000 :: u64) = mask 52 AND NOT (mask 21)"
    by (simp add: mask_eq_exp_minus_1)
  show ?thesis unfolding * by (auto simp: bit_simps)
qed

lemma pd_value_frame:
  assumes "unat va < 2 ^ 36"
  shows "(pd_value (table_index 2 va) (table_index 1 va) AND 0x000fffffffe00000) OR take_bit 21 va = va"
proof (rule bit_word_eqI)
  fix k assume "k < LENGTH(64)"
  show "bit ((pd_value (table_index 2 va) (table_index 1 va) AND 0x000fffffffe00000) OR take_bit 21 va) k
      = bit va k"
    unfolding bit_or_iff bit_and_iff bit_take_bit_iff pd_value_bit_iff bit_2M_frame bit_83_word
    using word_high_bit [OF assms, of k] by auto
qed

lemma identity_tables_translate:
  assumes "layout_ok l" and "tables_in_memory l (identity_tables l) mem" and "unat va < 2 ^ 48"
  shows "translate mem (pml4_addr l) va = (if unat va < 2 ^ 36 then Some va else None)"
proof -
  let ?i = "table_index 2 va" and ?j = "table_index 1 va"
  have idx: "table_index 3 va < 512" "?i < 512" "?j < 512" by (simp_all add: table_index_less)
  note mem = assms(2) [unfolded tables_in_memory_def identity_tables_def, simplified]
  have e3: "mem (entry_table (pml4_addr l) + 8 * of_nat (table_index 3 va)) =
      (if unat va < 2 ^ 39 then pdp_addr l OR 3 else 0)"
    using mem idx assms(1,3) table_index_3_zero [of va]
    by (simp add: layout_ok_def nth_list_update)
  show ?thesis
  proof (cases "unat va < 2 ^ 39")
    case False
    then show ?thesis using e3 by (simp add: translate_def Let_def)
  next
    case low: True
    have pdp: "entry_table (pdp_addr l) = pdp_addr l" using assms(1) by (simp add: layout_ok_def)
    have e2: "mem (entry_table (pdp_addr l OR 3) + 8 * of_nat ?i) =
        (if unat va < 2 ^ 36 then page_directory_addr l ?i OR 3 else 0)"
      using mem idx table_index_2_dir [OF low] by (simp add: entry_table_or_3 [OF pdp])
    show ?thesis
    proof (cases "unat va < 2 ^ 36")
      case False
      then show ?thesis using e3 e2 low by (simp add: translate_def Let_def)
    next
      case True
      then have "?i < kPageDirectoryCount" using table_index_2_dir [OF low] by simp
      then have pd: "entry_table (page_directory_addr l ?i) = page_directory_addr l ?i"
        and e1: "mem (page_directory_addr l ?i + 8 * of_nat ?j) = pd_value ?i ?j"
        using assms(1) mem idx by (simp_all add: layout_ok_def)
      have bits: "bit (pd_value ?i ?j) 0" "bit (pd_value ?i ?j) 7"
        unfolding pd_value_bit_iff bit_83_word by simp_all
      show ?thesis
        unfolding translate_def Let_def e3 if_P [OF low] e2 if_P [OF True] entry_table_or_3 [OF pd] e1
        using entry_or_3_bits [OF pd] entry_or_3_bits [OF pdp] bits pd_value_frame [OF True] by simp
    qed
  qed
qed

text \<open>C14: building the page tables in the zero-initialised static arrays never indexes outside an array and
  loads the address of the top-level table into CR3; read by the processor's four-level walk from there, the
  tables map every virtual address below 64 GiB to itself, and map no other address of the lower half (so an
  access beyond 64 GiB faults instead of reaching a stray frame).\<close>

theorem SetupIdentityPageTable_identity:
  assumes "layout_ok l"
  shows "\<exists>t. SetupIdentityPageTable l boot_tables = Some t \<and> cr3 t = pml4_addr l \<and>
    (\<forall>mem va. tables_in_memory l t mem \<longrightarrow> unat va < 2 ^ 48 \<longrightarrow>
       translate mem (cr3 t) va = (if unat va < 2 ^ 36 then Some va else None))"
  using SetupIdentityPageTable_result [of l] identity_tables_translate [OF assms]
  by (simp add: identity_tables_def)

text \<open>A concrete placement: the three arrays one after the other from 1 MiB on, in a memory that
  holds nothing else.\<close>

definition example_layout :: table_layout where
  "example_layout = \<lparr>pml4_addr = 0x100000, pdp_addr = 0x101000, pd_addr = 0x102000\<rparr>"

definition example_memory :: "u64 \<Rightarrow> u64" where
  "example_memory a =
     (let n = (unat a - 0x100000) div 8; t = identity_tables example_layout
      in if n < 512 then pml4_table t ! n
         else if n < 1024 then pdp_table t ! (n - 512)
         else page_directory t ! ((n - 1024) div 512) ! ((n - 1024) mod 512))"

lemma unat_base_plus:
  assumes "b + 8 * i < 2 ^ 64"
  shows "unat (of_nat b + 8 * of_nat i :: u64) = b + 8 * i"
proof -
  have "(of_nat b + 8 * of_nat i :: u64) = of_nat (b + 8 * i)" by simp
  then show ?thesis using assms by (simp only: unsigned_of_nat) (simp add: take_bit_eq_mod)
qed

lemma example_tables_in_memory:
  "tables_in_memory example_layout (identity_tables example_layout) example_memory"
proof -
  have "example_memory (0x100000 + 8 * of_nat i) = pml4_table (identity_tables example_layout) ! i"
    if "i < 512" for i
    using that unat_base_plus [of "0x100000" i] by (simp add: example_memory_def Let_def)
  moreover have "example_memory (0x101000 + 8 * of_nat i) = pdp_table (identity_tables example_layout) ! i"
    if "i < 512" for i
    using that unat_base_plus [of "0x101000" i] by (simp add: example_memory_def Let_def)
  moreover have "example_memory (0x102000 + of_nat i * 4096 + 8 * of_nat j) =
      page_directory (identity_tables example_layout) ! i ! j" if "i < 64" "j < 512" for i j
    using that unat_base_plus [of "0x102000 + i * 4096" j] by (simp add: example_memory_def Let_def)
  ultimately show ?thesis
    by (simp add: tables_in_memory_def example_layout_def page_directory_addr_def kPageDirectoryCount_def)
qed

lemma example_layout_ok: "layout_ok example_layout"
proof -
  have "entry_table (0x102000 + of_nat i * 4096) = 0x102000 + of_nat i * 4096" if "i < 64" for i
  proof -
    from that have "i \<in> set [0..<64]" by simp
    then show ?thesis by (simp add: entry_table_def upt_rec) (elim disjE; simp)
  qed
  then show ?thesis
    by (simp add: layout_ok_def example_layout_def page_directory_addr_def entry_table_def kPageDirectoryCount_def)
qed

theorem SetupIdentityPageTable_identity_witness:
  "\<exists>t. SetupIdentityPageTable example_layout boot_tables = Some t \<and>
     translate example_memory (cr3 t) 0xFEE00300 = Some 0xFEE00300 \<and>
     translate example_memory (cr3 t) 0x1000000000 = None"
proof -
  obtain t where t: "SetupIdentityPageTable example_layout boot_tables = Some t"
      "\<And>mem va. tables_in_memory example_layout t mem \<Longrightarrow> unat va < 2 ^ 48 \<Longrightarrow>
         translate mem (cr3 t) va = (if unat va < 2 ^ 36 then Some va else None)"
    using SetupIdentityPageTable_identity [OF example_layout_ok] by auto
  then have "tables_in_memory example_layout t example_memory"
    using example_tables_in_memory SetupIdentityPageTable_result [of example_layout] by simp
  from t(2) [OF this, of "0xFEE00300"] t(2) [OF this, of "0x1000000000"] show ?thesis by (intro exI [of _ t]) (simp add: t(1))
qed

end
