(* ===== verification/Prio_Queue.thy ===== *)
theory Prio_Queue
  imports Kernel_Prelude "HOL-Library.Multiset"
begin

text \<open>
  \<open>std::priority_queue\<close> as \<open>TimerManager\<close> uses it (\<open>src/kernel/timer.hpp\<close>): a binary
  heap in a vector, ordered by a key so that \<open>top()\<close> is an element of least key
  (\<open>Timer::operator<\<close> makes the earlier timeout the greater element). \<open>pq_push\<close> and
  \<open>pq_pop\<close> are \<open>push_heap\<close> and \<open>pop_heap\<close> as libc++ writes them; which of several
  elements with the least key comes out first is not specified by the standard, so clients rely on
  the locale \<open>prio_queue\<close> only, which leaves it open.
\<close>

definition list_swap :: "'a list \<Rightarrow> nat \<Rightarrow> nat \<Rightarrow> 'a list" where
  "list_swap xs i j = xs[i := xs ! j, j := xs ! i]"

definition par :: "nat \<Rightarrow> nat" where
  "par i = (i - 1) div 2"

function sift_up :: "('a \<Rightarrow> nat) \<Rightarrow> 'a list \<Rightarrow> nat \<Rightarrow> 'a list" where
  "sift_up key xs i =
     (if 0 < i \<and> key (xs ! i) < key (xs ! par i)
      then sift_up key (list_swap xs i (par i)) (par i) else xs)"
  by pat_completeness auto
termination
  by (relation "measure (\<lambda>(k, xs, i). i)") (auto simp: par_def)

definition pq_push :: "('a \<Rightarrow> nat) \<Rightarrow> 'a list \<Rightarrow> 'a \<Rightarrow> 'a list" where
  "pq_push key xs x = sift_up key (xs @ [x]) (length xs)"

definition least_child :: "('a \<Rightarrow> nat) \<Rightarrow> 'a list \<Rightarrow> nat \<Rightarrow> nat" where
  "least_child key xs i =
     (let l = 2 * i + 1
      in if l + 1 < length xs \<and> key (xs ! (l + 1)) < key (xs ! l) then l + 1 else l)"

function sift_down :: "('a \<Rightarrow> nat) \<Rightarrow> 'a list \<Rightarrow> nat \<Rightarrow> 'a list" where
  "sift_down key xs i =
     (if 2 * i + 1 < length xs \<and> key (xs ! least_child key xs i) \<le> key (xs ! i)
      then sift_down key (list_swap xs i (least_child key xs i)) (least_child key xs i) else xs)"
  by pat_completeness auto
termination
  by (relation "measure (\<lambda>(k, xs, i). length xs - i)")
     (auto simp: least_child_def list_swap_def Let_def)

declare sift_up.simps [simp del] sift_down.simps [simp del]

definition pq_top :: "'a list \<Rightarrow> 'a option" where
  "pq_top xs = front xs"

definition pq_pop :: "('a \<Rightarrow> nat) \<Rightarrow> 'a list \<Rightarrow> 'a list option" where
  "pq_pop key xs =
     (if xs = [] then None
      else Some (sift_down key (butlast (list_swap xs 0 (length xs - 1))) 0))"

subsection \<open>The contract\<close>

locale prio_queue =
  fixes key :: "'a \<Rightarrow> nat"
    and invar :: "'q \<Rightarrow> bool"
    and elems :: "'q \<Rightarrow> 'a multiset"
    and push :: "'q \<Rightarrow> 'a \<Rightarrow> 'q"
    and top :: "'q \<Rightarrow> 'a option"
    and pop :: "'q \<Rightarrow> 'q option"
  assumes push_invar: "invar q \<Longrightarrow> invar (push q x)"
    and push_elems: "invar q \<Longrightarrow> elems (push q x) = add_mset x (elems q)"
    and top_None: "invar q \<Longrightarrow> top q = None \<longleftrightarrow> elems q = {#}"
    and top_min: "invar q \<Longrightarrow> top q = Some x \<Longrightarrow> x \<in># elems q \<and> (\<forall>y \<in># elems q. key x \<le> key y)"
    and pop_top: "invar q \<Longrightarrow> top q = Some x \<Longrightarrow>
      \<exists>q'. pop q = Some q' \<and> invar q' \<and> elems q' = elems q - {#x#}"
begin

text \<open>Nothing is due when the top is not.\<close>

lemma top_not_due:
  "invar q \<Longrightarrow> top q = Some x \<Longrightarrow> t < key x \<Longrightarrow> {#y \<in># elems q. key y \<le> t#} = {#}"
  using top_min [of q x] by fastforce

text \<open>Popping a due top removes one due element and keeps the others.\<close>

lemma pop_due:
  assumes "invar q" and "top q = Some x" and "key x \<le> t"
  obtains q' where "pop q = Some q'" "invar q'"
    "{#y \<in># elems q. key y \<le> t#} = add_mset x {#y \<in># elems q'. key y \<le> t#}"
    "{#y \<in># elems q. t < key y#} = {#y \<in># elems q'. t < key y#}"
    "elems q = add_mset x (elems q')"
proof -
  from pop_top [OF assms(1,2)] obtain q' where q': "pop q = Some q'" "invar q'"
    "elems q' = elems q - {#x#}" by blast
  moreover from top_min [OF assms(1,2)] have "elems q = add_mset x (elems q')"
    using q'(3) by simp
  ultimately show ?thesis using assms(3) by (intro that [of q']) auto
qed

end

subsection \<open>The heap implements it\<close>

definition is_heap :: "('a \<Rightarrow> nat) \<Rightarrow> 'a list \<Rightarrow> bool" where
  "is_heap key xs \<longleftrightarrow> (\<forall>j < length xs. 0 < j \<longrightarrow> key (xs ! par j) \<le> key (xs ! j))"

text \<open>A heap but for the element at \<open>i\<close> against its parent, or against its children.\<close>

definition heap_up :: "('a \<Rightarrow> nat) \<Rightarrow> 'a list \<Rightarrow> nat \<Rightarrow> bool" where
  "heap_up key xs i \<longleftrightarrow> i < length xs \<and>
     (\<forall>j < length xs. 0 < j \<longrightarrow> j \<noteq> i \<longrightarrow> key (xs ! par j) \<le> key (xs ! j)) \<and>
     (\<forall>j < length xs. 0 < j \<longrightarrow> 0 < i \<longrightarrow> par j = i \<longrightarrow> key (xs ! par i) \<le> key (xs ! j))"

definition heap_down :: "('a \<Rightarrow> nat) \<Rightarrow> 'a list \<Rightarrow> nat \<Rightarrow> bool" where
  "heap_down key xs i \<longleftrightarrow>
     (\<forall>j < length xs. 0 < j \<longrightarrow> par j \<noteq> i \<longrightarrow> key (xs ! par j) \<le> key (xs ! j)) \<and>
     (\<forall>j < length xs. 0 < j \<longrightarrow> 0 < i \<longrightarrow> par j = i \<longrightarrow> key (xs ! par i) \<le> key (xs ! j))"

lemma list_swap_length [simp]: "length (list_swap xs i j) = length xs"
  by (simp add: list_swap_def)

lemma list_swap_nth:
  "i < length xs \<Longrightarrow> j < length xs \<Longrightarrow>
   list_swap xs i j ! k = (if k = i then xs ! j else if k = j then xs ! i else xs ! k)"
  by (auto simp: list_swap_def nth_list_update)

lemma list_swap_mset [simp]:
  "i < length xs \<Longrightarrow> j < length xs \<Longrightarrow> mset (list_swap xs i j) = mset xs"
  by (simp add: list_swap_def mset_swap list_update_swap)

lemma par_less: "0 < i \<Longrightarrow> par i < i"
  by (auto simp: par_def)

lemma par_child: "0 < j \<Longrightarrow> par j = i \<longleftrightarrow> j = 2 * i + 1 \<or> j = 2 * i + 2"
  by (auto simp: par_def)

lemma heap_up_swap:
  assumes "heap_up key xs i" and "0 < i" and "key (xs ! i) < key (xs ! par i)"
  shows "heap_up key (list_swap xs i (par i)) (par i)"
proof -
  let ?p = "par i" and ?ys = "list_swap xs i (par i)"
  from assms(1) have i: "i < length xs"
    and other: "\<And>j. j < length xs \<Longrightarrow> 0 < j \<Longrightarrow> j \<noteq> i \<Longrightarrow> key (xs ! par j) \<le> key (xs ! j)"
    and child: "\<And>j. j < length xs \<Longrightarrow> 0 < j \<Longrightarrow> par j = i \<Longrightarrow> key (xs ! ?p) \<le> key (xs ! j)"
    using assms(2) by (auto simp: heap_up_def)
  from par_less [OF assms(2)] have p: "?p < i" .
  with i have nth: "?ys ! k = (if k = i then xs ! ?p else if k = ?p then xs ! i else xs ! k)" for k
    by (intro list_swap_nth) auto
  have "key (?ys ! par j) \<le> key (?ys ! j)" if "j < length xs" "0 < j" "j \<noteq> ?p" for j
    using that assms(3) other [of j] child [of j] par_less [of j] p
    by (cases "j = i"; cases "par j = i"; cases "par j = ?p") (auto simp: nth)
  moreover have "key (?ys ! par ?p) \<le> key (?ys ! j)" if "j < length xs" "0 < j" "par j = ?p" "0 < ?p" for j
    using that other [of ?p] other [of j] p i par_less [OF that(4)]
    by (cases "j = i") (auto simp: nth)
  ultimately show ?thesis using i p by (auto simp: heap_up_def)
qed

lemma sift_up_heap: "heap_up key xs i \<Longrightarrow> is_heap key (sift_up key xs i)"
proof (induction key xs i rule: sift_up.induct)
  case (1 key xs i)
  show ?case
  proof (cases "0 < i \<and> key (xs ! i) < key (xs ! par i)")
    case True
    then have "is_heap key (sift_up key (list_swap xs i (par i)) (par i))"
      by (intro "1.IH" heap_up_swap "1.prems") auto
    with True show ?thesis by (simp add: sift_up.simps [of key xs i])
  next
    case False
    have "is_heap key xs" unfolding is_heap_def
    proof (intro allI impI)
      fix j assume "j < length xs" "0 < j"
      with "1.prems" False show "key (xs ! par j) \<le> key (xs ! j)"
        by (cases "j = i") (auto simp: heap_up_def)
    qed
    then show ?thesis using False by (auto simp: sift_up.simps [of key xs i])
  qed
qed

lemma sift_up_mset: "i < length xs \<Longrightarrow> mset (sift_up key xs i) = mset xs"
proof (induction key xs i rule: sift_up.induct)
  case (1 key xs i)
  then show ?case
    using par_less [of i] by (auto simp: sift_up.simps [of key xs i])
qed

lemma least_child_bounds:
  "2 * i + 1 < length xs \<Longrightarrow> least_child key xs i < length xs \<and> par (least_child key xs i) = i
     \<and> i < least_child key xs i"
  by (auto simp: least_child_def Let_def par_def)

lemma least_child_least:
  assumes "2 * i + 1 < length xs" and "j < length xs" and "0 < j" and "par j = i"
  shows "key (xs ! least_child key xs i) \<le> key (xs ! j)"
  using assms by (auto simp: least_child_def Let_def par_child)

lemma heap_down_swap:
  assumes "heap_down key xs i" and "2 * i + 1 < length xs"
    and "key (xs ! least_child key xs i) \<le> key (xs ! i)"
  shows "heap_down key (list_swap xs i (least_child key xs i)) (least_child key xs i)"
proof -
  let ?c = "least_child key xs i"
  let ?ys = "list_swap xs i ?c"
  from least_child_bounds [OF assms(2), of key] have c: "?c < length xs" "par ?c = i" "i < ?c" by auto
  from assms(1) have
        other: "\<And>j. j < length xs \<Longrightarrow> 0 < j \<Longrightarrow> par j \<noteq> i \<Longrightarrow> key (xs ! par j) \<le> key (xs ! j)"
    and child: "\<And>j. j < length xs \<Longrightarrow> 0 < j \<Longrightarrow> 0 < i \<Longrightarrow> par j = i \<Longrightarrow> key (xs ! par i) \<le> key (xs ! j)"
    by (auto simp: heap_down_def)
  note least = least_child_least [OF assms(2), of _ key]
  from c have nth: "?ys ! k = (if k = i then xs ! ?c else if k = ?c then xs ! i else xs ! k)" for k
    by (intro list_swap_nth) auto
  have "key (?ys ! par j) \<le> key (?ys ! j)" if "j < length xs" "0 < j" "par j \<noteq> ?c" for j
    using that assms(3) other [of j] child [of j] least [of j] child [of ?c] c par_less [of j]
    by (cases "j = i"; cases "j = ?c"; cases "par j = i") (auto simp: nth)
  moreover have "key (?ys ! par ?c) \<le> key (?ys ! j)" if "j < length xs" "0 < j" "par j = ?c" for j
    using that other [of j] c par_less [of j] by (auto simp: nth)
  ultimately show ?thesis by (auto simp: heap_down_def)
qed

lemma sift_down_heap: "heap_down key xs i \<Longrightarrow> is_heap key (sift_down key xs i)"
proof (induction key xs i rule: sift_down.induct)
  case (1 key xs i)
  show ?case
  proof (cases "2 * i + 1 < length xs \<and> key (xs ! least_child key xs i) \<le> key (xs ! i)")
    case True
    then have "is_heap key (sift_down key (list_swap xs i (least_child key xs i)) (least_child key xs i))"
      by (intro "1.IH" heap_down_swap "1.prems") auto
    with True show ?thesis by (simp add: sift_down.simps [of key xs i])
  next
    case False
    have "key (xs ! par j) \<le> key (xs ! j)" if "j < length xs" "0 < j" for j
    proof (cases "par j = i")
      case True
      with that have "2 * i + 1 < length xs" by (auto simp: par_child)
      with False least_child_least [OF this that True, of key] True show ?thesis by simp
    qed (use "1.prems" that in \<open>auto simp: heap_down_def\<close>)
    then have "is_heap key xs" by (simp add: is_heap_def)
    then show ?thesis using False by (auto simp: sift_down.simps [of key xs i])
  qed
qed

lemma sift_down_mset: "i < length xs \<or> xs = [] \<Longrightarrow> mset (sift_down key xs i) = mset xs"
proof (induction key xs i rule: sift_down.induct)
  case (1 key xs i)
  then show ?case
    using least_child_bounds [of i xs key] by (auto simp: sift_down.simps [of key xs i])
qed

lemma is_heap_top: "is_heap key xs \<Longrightarrow> j < length xs \<Longrightarrow> key (xs ! 0) \<le> key (xs ! j)"
proof (induction j rule: less_induct)
  case (less j)
  show ?case
  proof (cases "j = 0")
    case False
    with less par_less [of j] have "key (xs ! 0) \<le> key (xs ! par j)" by auto
    also have "\<dots> \<le> key (xs ! j)" using less.prems False by (auto simp: is_heap_def)
    finally show ?thesis .
  qed simp
qed

lemma heap_up_snoc:
  assumes "is_heap key xs"
  shows "heap_up key (xs @ [x]) (length xs)"
proof -
  have "key ((xs @ [x]) ! par j) \<le> key ((xs @ [x]) ! j)" if "j < length xs" "0 < j" for j
    using assms that par_less [of j] by (simp add: is_heap_def nth_append)
  moreover have "par j \<noteq> length xs" if "j < Suc (length xs)" "0 < j" for j
    using that par_less [of j] by simp
  ultimately show ?thesis by (auto simp: heap_up_def less_Suc_eq)
qed

lemma heap_down_pop:
  assumes "is_heap key xs" and "xs \<noteq> []"
  shows "heap_down key (butlast (list_swap xs 0 (length xs - 1))) 0"
proof -
  have "par j < length xs" if "j < length xs - 1" for j
    using that by (auto simp: par_def)
  with assms show ?thesis
    by (auto simp: heap_down_def is_heap_def nth_butlast list_swap_nth par_def)
qed

lemma mset_pop:
  assumes "xs \<noteq> []"
  shows "mset (butlast (list_swap xs 0 (length xs - 1))) = mset xs - {#hd xs#}"
proof -
  let ?ys = "list_swap xs 0 (length xs - 1)"
  have ys: "?ys \<noteq> []" using assms by (metis length_0_conv list_swap_length)
  then have "last ?ys = ?ys ! (length xs - 1)" by (simp add: last_conv_nth)
  with assms have last: "last ?ys = hd xs" by (auto simp: list_swap_nth hd_conv_nth)
  have "mset xs = mset ?ys" using assms by simp
  also have "\<dots> = mset (butlast ?ys @ [last ?ys])" using append_butlast_last_id [OF ys] by simp
  finally show ?thesis using last by simp
qed

interpretation timer_pq: prio_queue key "is_heap key" mset "pq_push key" pq_top "pq_pop key"
  for key :: "'a \<Rightarrow> nat"
proof (unfold_locales, goal_cases)
  case (1 q x)
  then show ?case by (simp add: pq_push_def sift_up_heap heap_up_snoc)
next
  case (2 q x)
  then show ?case by (simp add: pq_push_def sift_up_mset)
next
  case (3 q)
  then show ?case by (cases q) (simp_all add: pq_top_def)
next
  case (4 q x)
  then have x: "q \<noteq> []" "x = q ! 0" by (cases q; simp add: pq_top_def)+
  have "key x \<le> key y" if "y \<in> set q" for y
    using that is_heap_top [OF 4(1)] x(2) by (auto simp: in_set_conv_nth)
  with x show ?case by simp
next
  case (5 q x)
  then have ne: "q \<noteq> []" and x: "x = hd q" by (cases q; simp add: pq_top_def)+
  let ?ys = "butlast (list_swap q 0 (length q - 1))"
  have "0 < length ?ys \<or> ?ys = []" by blast
  then have "mset (sift_down key ?ys 0) = mset ?ys" by (rule sift_down_mset)
  moreover have "is_heap key (sift_down key ?ys 0)"
    using 5(1) ne by (intro sift_down_heap heap_down_pop)
  ultimately show ?case using mset_pop [OF ne] ne x unfolding pq_pop_def by simp
qed

end
