(* ===== verification/Task_Manager.thy ===== *)
theory Task_Manager
  imports Kernel_Error Descriptor_Tables
begin

text \<open>
  \<open>src/kernel/message.hpp\<close>, \<open>task.hpp\<close>, \<open>task.cpp\<close> and \<open>SwitchContext\<close> of
  \<open>asmfunc.asm\<close>: tasks, their message queues and the four-level run queue.

  A \<open>Task*\<close> is the index of its \<open>unique_ptr\<close> in \<open>tasks_\<close> (tasks are never destroyed);
  dereferencing goes through \<open>arr_get\<close>. The processor's registers are the field \<open>cpu\<close>:
  they hold the values \<open>SwitchContext\<close> is about to save, \<open>rip\<close> and \<open>rsp\<close> being those of
  its return.
\<close>

datatype LayerOperation = Move | MoveRelative | Draw | DrawArea

datatype Message_Type = kInterruptXHCI | kTimerTimeout | kKeyPush | kLayer | kLayerFinish

text \<open>The union of a message: the member that was stored, or none.\<close>

datatype Message_Arg =
    no_arg
  | timer_arg (timer_timeout: u64) (timer_value: int)
  | keyboard_arg (kbd_modifier: u8) (kbd_keycode: u8) (kbd_ascii: char)
  | layer_arg (layer_op: LayerOperation) (layer_layer_id: u32)
      (layer_x: int) (layer_y: int) (layer_w: int) (layer_h: int)

record Message =
  msg_type :: Message_Type
  src_task :: u64
  msg_arg :: Message_Arg

record TaskContext =
  ctx_cr3 :: u64
  rip :: u64
  rflags :: u64
  reserved1 :: u64
  cs :: u64
  ss :: u64
  fs :: u64
  gs :: u64
  rax :: u64
  rbx :: u64
  rcx :: u64
  rdx :: u64
  rdi :: u64
  rsi :: u64
  rsp :: u64
  rbp :: u64
  r8 :: u64
  r9 :: u64
  r10 :: u64
  r11 :: u64
  r12 :: u64
  r13 :: u64
  r14 :: u64
  r15 :: u64
  fxsave_area :: "u8 list"

definition zero_context :: TaskContext where
  "zero_context = \<lparr>ctx_cr3 = 0, rip = 0, rflags = 0, reserved1 = 0, cs = 0, ss = 0, fs = 0, gs = 0,
     rax = 0, rbx = 0, rcx = 0, rdx = 0, rdi = 0, rsi = 0, rsp = 0, rbp = 0,
     r8 = 0, r9 = 0, r10 = 0, r11 = 0, r12 = 0, r13 = 0, r14 = 0, r15 = 0,
     fxsave_area = replicate 512 0\<rparr>"

definition kDefaultLevel :: int where "kDefaultLevel = 1"
definition kDefaultStackBytes :: nat where "kDefaultStackBytes = 4096"
definition kMaxLevel :: nat where "kMaxLevel = 3"

record Task =
  tk_id :: u64
  tk_stack :: "u64 list"
  tk_context :: TaskContext
  tk_msgs :: "Message list"
  tk_level :: int
  tk_running :: bool

type_synonym task_ptr = nat

record TaskManager =
  tasks :: "Task list"
  latest_id :: u64
  running :: "task_ptr list list"
  current_level :: int
  level_changed :: bool
  cpu :: TaskContext

subsection \<open>Tasks\<close>

text \<open>The context of a new task is left uninitialised by the constructor; \<open>ctx\<close> is what the
  allocated memory holds.\<close>

definition Task_new :: "TaskContext \<Rightarrow> u64 \<Rightarrow> Task" where
  "Task_new ctx i = \<lparr>tk_id = i, tk_stack = [], tk_context = ctx, tk_msgs = [],
     tk_level = kDefaultLevel, tk_running = False\<rparr>"

definition store_u32 :: "u8 list \<Rightarrow> nat \<Rightarrow> u32 \<Rightarrow> u8 list" where
  "store_u32 bs i w = bs[i := ucast w, i + 1 := ucast (drop_bit 8 w),
     i + 2 := ucast (drop_bit 16 w), i + 3 := ucast (drop_bit 24 w)]"

text \<open>\<open>stack_base\<close> is where the allocator puts the stack's 4096 bytes, \<open>cr3\<close> the value of
  \<open>GetCR3()\<close> and \<open>f\<close> the entry point.\<close>

definition InitContext :: "u64 \<Rightarrow> u64 \<Rightarrow> u64 \<Rightarrow> u64 \<Rightarrow> Task \<Rightarrow> Task" where
  "InitContext cr3 stack_base f data t =
     (let stack_size = kDefaultStackBytes div 8;
          stack_end = stack_base + of_nat (8 * stack_size)
      in t\<lparr>tk_stack := take stack_size (tk_stack t) @ replicate (stack_size - length (tk_stack t)) 0,
           tk_context := zero_context\<lparr>
             ctx_cr3 := cr3, rflags := 0x202,
             cs := ucast kKernelCS, ss := ucast kKernelSS,
             rsp := (stack_end AND NOT 0xf) - 8,
             rip := f, rdi := tk_id t, rsi := data,
             fxsave_area := store_u32 (fxsave_area zero_context) 24 0x1f80\<rparr>\<rparr>)"

definition ReceiveMessage_task :: "Task \<Rightarrow> Message option \<times> Task" where
  "ReceiveMessage_task t =
     (case tk_msgs t of
        [] \<Rightarrow> (None, t)
      | m # ms \<Rightarrow> (Some m, t\<lparr>tk_msgs := ms\<rparr>))"

subsection \<open>Context switch\<close>

text \<open>A segment register is saved as the low 16 bits of a general register whose upper bits are
  left over from an earlier instruction, and loaded from the low 16 bits.\<close>

definition seg_save :: "u64 \<Rightarrow> u64 \<Rightarrow> u64" where
  "seg_save r seg = (r AND NOT (mask 16)) OR take_bit 16 seg"

definition save_context :: "TaskContext \<Rightarrow> TaskContext \<Rightarrow> TaskContext" where
  "save_context c old = c\<lparr>reserved1 := reserved1 old,
     cs := seg_save (rip c) (cs c), ss := seg_save (rbx c) (ss c),
     fs := seg_save (rcx c) (fs c), gs := seg_save (rdx c) (gs c)\<rparr>"

definition load_context :: "TaskContext \<Rightarrow> TaskContext" where
  "load_context c = c\<lparr>reserved1 := 0, cs := take_bit 16 (cs c), ss := take_bit 16 (ss c),
     fs := take_bit 16 (fs c), gs := take_bit 16 (gs c)\<rparr>"

definition SwitchContext :: "task_ptr \<Rightarrow> task_ptr \<Rightarrow> TaskManager \<Rightarrow> TaskManager option" where
  "SwitchContext next cur s = do {
     tc \<leftarrow> arr_get (tasks s) cur;
     let ts = (tasks s)[cur := tc\<lparr>tk_context := save_context (cpu s) (tk_context tc)\<rparr>];
     tn \<leftarrow> arr_get ts next;
     Some (s\<lparr>tasks := ts, cpu := load_context (tk_context tn)\<rparr>)
   }"

subsection \<open>The task manager\<close>

definition set_task :: "task_ptr \<Rightarrow> (Task \<Rightarrow> Task) \<Rightarrow> TaskManager \<Rightarrow> TaskManager option" where
  "set_task p f s = do {
     t \<leftarrow> arr_get (tasks s) p;
     Some (s\<lparr>tasks := (tasks s)[p := f t]\<rparr>)
   }"

text \<open>\<open>running_[lv]\<close> for an \<open>int\<close> index.\<close>

definition queue_at :: "int \<Rightarrow> TaskManager \<Rightarrow> task_ptr list option" where
  "queue_at lv s = (if 0 \<le> lv then arr_get (running s) (nat lv) else None)"

definition set_queue :: "int \<Rightarrow> task_ptr list \<Rightarrow> TaskManager \<Rightarrow> TaskManager option" where
  "set_queue lv q s = (if 0 \<le> lv \<and> nat lv < length (running s)
     then Some (s\<lparr>running := (running s)[nat lv := q]\<rparr>) else None)"

definition Erase :: "'a list \<Rightarrow> 'a \<Rightarrow> 'a list" where
  "Erase c value = filter (\<lambda>x. x \<noteq> value) c"

definition NewTask :: "TaskContext \<Rightarrow> TaskManager \<Rightarrow> task_ptr \<times> TaskManager" where
  "NewTask ctx s =
     (let i = latest_id s + 1
      in (length (tasks s), s\<lparr>latest_id := i, tasks := tasks s @ [Task_new ctx i]\<rparr>))"

definition highest_level :: "task_ptr list list \<Rightarrow> nat option" where
  "highest_level qs = find (\<lambda>lv. qs ! lv \<noteq> []) (rev [0..<Suc kMaxLevel])"

definition requeue :: "bool \<Rightarrow> 'a \<Rightarrow> 'a list \<Rightarrow> 'a list" where
  "requeue current_sleep c q = (if \<not> current_sleep then q @ [c] else q)"

definition SwitchTask :: "bool \<Rightarrow> TaskManager \<Rightarrow> TaskManager option" where
  "SwitchTask current_sleep s = do {
     q \<leftarrow> queue_at (current_level s) s;
     current_task \<leftarrow> front q;
     q \<leftarrow> pop_front q;
     let q = requeue current_sleep current_task q;
     s \<leftarrow> set_queue (current_level s) q s;
     let s = (if q = [] then s\<lparr>level_changed := True\<rparr> else s);
     let s = (if level_changed s
              then s\<lparr>level_changed := False,
                     current_level := (case highest_level (running s) of
                        Some lv \<Rightarrow> int lv | None \<Rightarrow> current_level s)\<rparr>
              else s);
     q \<leftarrow> queue_at (current_level s) s;
     next_task \<leftarrow> front q;
     SwitchContext next_task current_task s
   }"

definition Sleep :: "task_ptr \<Rightarrow> TaskManager \<Rightarrow> TaskManager option" where
  "Sleep task s = do {
     t \<leftarrow> arr_get (tasks s) task;
     if \<not> tk_running t then Some s
     else do {
       s \<leftarrow> set_task task (\<lambda>t. t\<lparr>tk_running := False\<rparr>) s;
       q \<leftarrow> queue_at (current_level s) s;
       cur \<leftarrow> front q;
       if task = cur then SwitchTask True s
       else do {
         q \<leftarrow> queue_at (tk_level t) s;
         set_queue (tk_level t) (Erase q task) s
       }
     }
   }"

definition find_task :: "u64 \<Rightarrow> TaskManager \<Rightarrow> task_ptr option" where
  "find_task i s = find (\<lambda>p. tk_id (tasks s ! p) = i) [0..<length (tasks s)]"

definition Sleep_id :: "u64 \<Rightarrow> TaskManager \<Rightarrow> (Code \<times> TaskManager) option" where
  "Sleep_id i s =
     (case find_task i s of
        None \<Rightarrow> Some (kNoSuchTask, s)
      | Some p \<Rightarrow> do { s \<leftarrow> Sleep p s; Some (kSuccess, s) })"

definition ChangeLevelRunning :: "task_ptr \<Rightarrow> int \<Rightarrow> TaskManager \<Rightarrow> TaskManager option" where
  "ChangeLevelRunning task level s = do {
     t \<leftarrow> arr_get (tasks s) task;
     if level < 0 \<or> level = tk_level t then Some s
     else do {
       q \<leftarrow> queue_at (current_level s) s;
       cur \<leftarrow> front q;
       if task \<noteq> cur then do {
         q \<leftarrow> queue_at (tk_level t) s;
         s \<leftarrow> set_queue (tk_level t) (Erase q task) s;
         q \<leftarrow> queue_at level s;
         s \<leftarrow> set_queue level (q @ [task]) s;
         s \<leftarrow> set_task task (\<lambda>t. t\<lparr>tk_level := level\<rparr>) s;
         Some (if level > current_level s then s\<lparr>level_changed := True\<rparr> else s)
       }
       else do {
         q \<leftarrow> pop_front q;
         s \<leftarrow> set_queue (current_level s) q s;
         q \<leftarrow> queue_at level s;
         s \<leftarrow> set_queue level (task # q) s;
         s \<leftarrow> set_task task (\<lambda>t. t\<lparr>tk_level := level\<rparr>) s;
         Some (if level \<ge> current_level s then s\<lparr>current_level := level\<rparr>
               else s\<lparr>current_level := level, level_changed := True\<rparr>)
       }
     }
   }"

definition Wakeup :: "task_ptr \<Rightarrow> int \<Rightarrow> TaskManager \<Rightarrow> TaskManager option" where
  "Wakeup task level s = do {
     t \<leftarrow> arr_get (tasks s) task;
     if tk_running t then ChangeLevelRunning task level s
     else do {
       let level = (if level < 0 then tk_level t else level);
       s \<leftarrow> set_task task (\<lambda>t. t\<lparr>tk_level := level, tk_running := True\<rparr>) s;
       q \<leftarrow> queue_at level s;
       s \<leftarrow> set_queue level (q @ [task]) s;
       Some (if level > current_level s then s\<lparr>level_changed := True\<rparr> else s)
     }
   }"

definition Wakeup_id :: "u64 \<Rightarrow> int \<Rightarrow> TaskManager \<Rightarrow> (Code \<times> TaskManager) option" where
  "Wakeup_id i level s =
     (case find_task i s of
        None \<Rightarrow> Some (kNoSuchTask, s)
      | Some p \<Rightarrow> do { s \<leftarrow> Wakeup p level s; Some (kSuccess, s) })"

text \<open>\<open>Task::SendMessage\<close>, \<open>Task::Sleep\<close> and \<open>Task::Wakeup\<close> go through the global manager.\<close>

definition SendMessage_task :: "task_ptr \<Rightarrow> Message \<Rightarrow> TaskManager \<Rightarrow> TaskManager option" where
  "SendMessage_task p msg s = do {
     s \<leftarrow> set_task p (\<lambda>t. t\<lparr>tk_msgs := tk_msgs t @ [msg]\<rparr>) s;
     Wakeup p (-1) s
   }"

definition SendMessage :: "u64 \<Rightarrow> Message \<Rightarrow> TaskManager \<Rightarrow> (Code \<times> TaskManager) option" where
  "SendMessage i msg s =
     (case find_task i s of
        None \<Rightarrow> Some (kNoSuchTask, s)
      | Some p \<Rightarrow> do { s \<leftarrow> SendMessage_task p msg s; Some (kSuccess, s) })"

definition ReceiveMessage :: "task_ptr \<Rightarrow> TaskManager \<Rightarrow> (Message option \<times> TaskManager) option" where
  "ReceiveMessage p s = do {
     t \<leftarrow> arr_get (tasks s) p;
     let (m, t) = ReceiveMessage_task t;
     Some (m, s\<lparr>tasks := (tasks s)[p := t]\<rparr>)
   }"

definition CurrentTask :: "TaskManager \<Rightarrow> task_ptr option" where
  "CurrentTask s = do { q \<leftarrow> queue_at (current_level s) s; front q }"

text \<open>The constructor: the boot task, then the idle task with entry point \<open>idle_f\<close> and its
  stack at \<open>stack_base\<close>. \<open>hw\<close> is the register file at that moment.\<close>

definition empty_manager :: "TaskContext \<Rightarrow> TaskManager" where
  "empty_manager hw = \<lparr>tasks = [], latest_id = 0, running = replicate (Suc kMaxLevel) [],
     current_level = int kMaxLevel, level_changed = False, cpu = hw\<rparr>"

definition TaskManager_new ::
  "TaskContext \<Rightarrow> TaskContext \<Rightarrow> u64 \<Rightarrow> u64 \<Rightarrow> u64 \<Rightarrow> TaskManager option" where
  "TaskManager_new hw ctx cr3 stack_base idle_f = do {
     let s = empty_manager hw;
     let (task, s) = NewTask ctx s;
     s \<leftarrow> set_task task (\<lambda>t. t\<lparr>tk_level := current_level s, tk_running := True\<rparr>) s;
     q \<leftarrow> queue_at (current_level s) s;
     s \<leftarrow> set_queue (current_level s) (q @ [task]) s;
     let (idle, s) = NewTask ctx s;
     s \<leftarrow> set_task idle (\<lambda>t. (InitContext cr3 stack_base idle_f 0 t)\<lparr>tk_level := 0, tk_running := True\<rparr>) s;
     q \<leftarrow> queue_at 0 s;
     set_queue 0 (q @ [idle]) s
   }"

subsection \<open>Invariant\<close>

text \<open>A task is in the queue of its level exactly when it is marked running, once; the current
  level has a task at its front; unless \<open>level_changed_\<close> is set no higher level has one; the idle
  task (the second one created) is never asleep; ids number the tasks from 1.\<close>

definition queues_match :: "task_ptr list list \<Rightarrow> Task list \<Rightarrow> bool" where
  "queues_match qs ts \<longleftrightarrow> length qs = Suc kMaxLevel \<and>
     (\<forall>l < Suc kMaxLevel. distinct (qs ! l) \<and>
        (\<forall>p. p \<in> set (qs ! l) \<longleftrightarrow> p < length ts \<and> tk_running (ts ! p) \<and> tk_level (ts ! p) = int l))"

definition rq_ok :: "TaskManager \<Rightarrow> bool" where
  "rq_ok s \<longleftrightarrow> queues_match (running s) (tasks s)"

definition lv_ok :: "TaskManager \<Rightarrow> bool" where
  "lv_ok s \<longleftrightarrow> (\<forall>p < length (tasks s). 0 \<le> tk_level (tasks s ! p) \<and> tk_level (tasks s ! p) \<le> int kMaxLevel)"

definition cur_ok :: "TaskManager \<Rightarrow> bool" where
  "cur_ok s \<longleftrightarrow> 0 \<le> current_level s \<and> current_level s \<le> int kMaxLevel \<and>
     running s ! nat (current_level s) \<noteq> [] \<and>
     (\<not> level_changed s \<longrightarrow> (\<forall>l < Suc kMaxLevel. current_level s < int l \<longrightarrow> running s ! l = []))"

definition idle_task :: task_ptr where "idle_task = 1"

definition ids_ok :: "TaskManager \<Rightarrow> bool" where
  "ids_ok s \<longleftrightarrow> latest_id s = of_nat (length (tasks s)) \<and>
     (\<forall>p < length (tasks s). tk_id (tasks s ! p) = of_nat (Suc p))"

definition tm_inv :: "TaskManager \<Rightarrow> bool" where
  "tm_inv s \<longleftrightarrow> rq_ok s \<and> lv_ok s \<and> cur_ok s \<and> ids_ok s \<and>
     idle_task < length (tasks s) \<and> tk_running (tasks s ! idle_task)"

lemmas tm_inv_defs = tm_inv_def rq_ok_def queues_match_def lv_ok_def cur_ok_def ids_ok_def

lemma less_Suc_kMaxLevel: "l < Suc kMaxLevel \<longleftrightarrow> l = 0 \<or> l = 1 \<or> l = 2 \<or> l = 3"
  by (auto simp: kMaxLevel_def)

lemma find_rev_upt:
  "\<exists>l < n. P l \<Longrightarrow> \<exists>lv < n. find P (rev [0..<n]) = Some lv \<and> P lv \<and> (\<forall>l < n. lv < l \<longrightarrow> \<not> P l)"
proof (induction n)
  case (Suc n)
  show ?case
  proof (cases "P n")
    case False
    with Suc.prems have "\<exists>l < n. P l" by (metis less_Suc_eq)
    with Suc.IH False show ?thesis by (auto simp: less_Suc_eq)
  qed simp
qed simp

lemma highest_level_spec:
  assumes "\<exists>l < Suc kMaxLevel. qs ! l \<noteq> []"
  shows "\<exists>lv < Suc kMaxLevel. highest_level qs = Some lv \<and> qs ! lv \<noteq> [] \<and>
    (\<forall>l < Suc kMaxLevel. lv < l \<longrightarrow> qs ! l = [])"
  using find_rev_upt [of "Suc kMaxLevel" "\<lambda>lv. qs ! lv \<noteq> []"] assms by (simp add: highest_level_def)

lemma tm_invD:
  assumes "tm_inv s"
  shows "length (running s) = Suc kMaxLevel" "0 \<le> current_level s" "nat (current_level s) < Suc kMaxLevel"
    "running s ! nat (current_level s) \<noteq> []"
proof -
  show "nat (current_level s) < Suc kMaxLevel"
    using assms unfolding tm_inv_def cur_ok_def by linarith
qed (use assms in \<open>simp_all add: tm_inv_defs\<close>)

text \<open>\<open>SwitchTask\<close> in closed form, from a state whose queues may already disagree with the
  running flag of the current task (\<open>Sleep\<close> calls it so).\<close>

lemma SwitchTask_spec:
  assumes len: "length (running s) = Suc kMaxLevel"
    and cur: "0 \<le> current_level s" "current_level s \<le> int kMaxLevel"
    and q: "running s ! nat (current_level s) = c # q"
    and ptr: "\<And>l p. l < Suc kMaxLevel \<Longrightarrow> p \<in> set (running s ! l) \<Longrightarrow> p < length (tasks s)"
    and qs: "qs = (running s)[nat (current_level s) := requeue slp c q]"
    and some: "\<exists>l < Suc kMaxLevel. qs ! l \<noteq> []"
    and chg: "\<not> level_changed s \<longrightarrow> (\<forall>l < Suc kMaxLevel. current_level s < int l \<longrightarrow> running s ! l = [])"
  shows "\<exists>lv n ts. lv < Suc kMaxLevel \<and> qs ! lv \<noteq> [] \<and> n = hd (qs ! lv) \<and>
    (\<forall>l < Suc kMaxLevel. lv < l \<longrightarrow> qs ! l = []) \<and> n < length (tasks s) \<and>
    ts = (tasks s)[c := (tasks s ! c)\<lparr>tk_context := save_context (cpu s) (tk_context (tasks s ! c))\<rparr>] \<and>
    SwitchTask slp s = Some (s\<lparr>running := qs, level_changed := False, current_level := int lv,
      tasks := ts, cpu := load_context (tk_context (ts ! n))\<rparr>)"
proof -
  let ?k = "nat (current_level s)"
  have k: "?k < Suc kMaxLevel" using cur by simp
  have c: "c < length (tasks s)" using ptr [OF k] q by simp
  have lenq: "length qs = Suc kMaxLevel" by (simp add: qs len)
  define lv where "lv = (if requeue slp c q = [] \<or> level_changed s then the (highest_level qs) else ?k)"
  have k_eq: "qs ! ?k = requeue slp c q" using k len by (simp add: qs)
  obtain hl where hl: "hl < Suc kMaxLevel" "highest_level qs = Some hl" "qs ! hl \<noteq> []"
      "\<forall>l < Suc kMaxLevel. hl < l \<longrightarrow> qs ! l = []"
    using highest_level_spec [OF some] by blast
  have lv: "lv < Suc kMaxLevel \<and> qs ! lv \<noteq> [] \<and> (\<forall>l < Suc kMaxLevel. lv < l \<longrightarrow> qs ! l = [])"
  proof (cases "requeue slp c q = [] \<or> level_changed s")
    case True
    with hl show ?thesis by (simp add: lv_def)
  next
    case False
    with chg cur have "\<forall>l < Suc kMaxLevel. ?k < l \<longrightarrow> qs ! l = []" by (auto simp: qs)
    with False k k_eq show ?thesis by (auto simp: lv_def)
  qed
  then have n: "hd (qs ! lv) < length (tasks s)"
  proof -
    have "set (qs ! l) \<subseteq> {..< length (tasks s)}" if "l < Suc kMaxLevel" for l
      using that ptr [OF that] ptr [OF k] q k len by (auto simp: qs nth_list_update requeue_def split: if_splits)
    with lv show ?thesis by (meson hd_in_set lessThan_iff subsetD)
  qed
  have front: "front (qs ! lv) = Some (hd (qs ! lv))" using lv by (simp add: front_nonempty)
  let ?ts = "(tasks s)[c := (tasks s ! c)\<lparr>tk_context := save_context (cpu s) (tk_context (tasks s ! c))\<rparr>]"
  let ?s = "s\<lparr>running := qs, level_changed := False, current_level := int lv\<rparr>"
  have 1: "queue_at (current_level s) s = Some (c # q)"
    using cur k len q by (simp add: queue_at_def arr_get_def)
  have 2: "set_queue (current_level s) (requeue slp c q) s = Some (s\<lparr>running := qs\<rparr>)"
    using cur k len by (simp add: set_queue_def qs)
  have 3: "queue_at (int lv) s' = Some (qs ! lv)" if "running s' = qs" for s'
    using that lv lenq by (simp add: queue_at_def arr_get_def)
  have "SwitchTask slp s = SwitchContext (hd (qs ! lv)) c ?s"
  proof (cases "requeue slp c q = [] \<or> level_changed s")
    case True
    then have "lv = hl" by (simp add: lv_def hl(2))
    with True 3 front show ?thesis
      by (auto simp: SwitchTask_def Let_def 1 2 hl(2))
  next
    case False
    then have lv_eq: "int lv = current_level s" using cur by (simp add: lv_def)
    with False 3 [of "s\<lparr>running := qs\<rparr>"] front
    have "SwitchTask slp s = SwitchContext (hd (qs ! lv)) c (s\<lparr>running := qs\<rparr>)"
      by (auto simp: SwitchTask_def Let_def 1 2)
    also have "s\<lparr>running := qs\<rparr> = ?s" using False lv_eq by (cases s) simp
    finally show ?thesis .
  qed
  also have "\<dots> = Some (?s\<lparr>tasks := ?ts, cpu := load_context (tk_context (?ts ! hd (qs ! lv)))\<rparr>)"
    using c n by (simp add: SwitchContext_def arr_get_def Let_def)
  finally show ?thesis using lv n by blast
qed

subsection \<open>Every operation keeps the invariant\<close>

text \<open>Changes of a task that leave its id, level and running flag alone.\<close>

definition same_sched :: "Task \<Rightarrow> Task \<Rightarrow> bool" where
  "same_sched t t' \<longleftrightarrow> tk_id t' = tk_id t \<and> tk_level t' = tk_level t \<and> tk_running t' = tk_running t"

lemma tm_inv_same_sched:
  assumes "tm_inv s" and "length ts = length (tasks s)"
    and "\<And>p. p < length ts \<Longrightarrow> same_sched (tasks s ! p) (ts ! p)"
  shows "tm_inv (s\<lparr>tasks := ts, cpu := c\<rparr>)"
  using assms unfolding tm_inv_defs same_sched_def by auto

lemma tm_inv_task_update:
  assumes "tm_inv s" and "same_sched (tasks s ! p) t"
  shows "tm_inv (s\<lparr>tasks := (tasks s)[p := t]\<rparr>)"
proof (cases "p < length (tasks s)")
  case True
  with assms have "tm_inv (s\<lparr>tasks := (tasks s)[p := t], cpu := cpu s\<rparr>)"
    by (intro tm_inv_same_sched) (auto simp: nth_list_update same_sched_def)
  then show ?thesis by simp
qed (use assms in \<open>simp add: list_update_beyond\<close>)

lemma idle_queued:
  assumes "tm_inv s"
  shows "\<exists>l < Suc kMaxLevel. idle_task \<in> set (running s ! l)"
proof -
  let ?l = "nat (tk_level (tasks s ! idle_task))"
  have "?l < Suc kMaxLevel" "int ?l = tk_level (tasks s ! idle_task)"
    using assms by (auto simp: tm_inv_def lv_ok_def)
  with assms show ?thesis by (intro exI [of _ ?l]) (simp add: tm_inv_def rq_ok_def queues_match_def)
qed

text \<open>The saved registers of every task but the current one are left alone.\<close>

definition contexts_kept :: "TaskManager \<Rightarrow> TaskManager \<Rightarrow> bool" where
  "contexts_kept s s' \<longleftrightarrow> length (tasks s') \<ge> length (tasks s) \<and>
     (\<forall>p < length (tasks s). CurrentTask s \<noteq> Some p \<longrightarrow> tk_context (tasks s' ! p) = tk_context (tasks s ! p))"

text \<open>After a context switch the registers are the ones saved for the current task.\<close>

definition cpu_loaded :: "TaskManager \<Rightarrow> bool" where
  "cpu_loaded s \<longleftrightarrow> (\<forall>c. CurrentTask s = Some c \<longrightarrow> cpu s = load_context (tk_context (tasks s ! c)))"

text \<open>The highest level that has a task provides the current one.\<close>

definition highest_runs :: "TaskManager \<Rightarrow> bool" where
  "highest_runs s \<longleftrightarrow> \<not> level_changed s \<and> (\<forall>l < Suc kMaxLevel. current_level s < int l \<longrightarrow> running s ! l = [])"

lemma CurrentTask_eqI:
  "0 \<le> current_level s \<Longrightarrow> nat (current_level s) < length (running s) \<Longrightarrow>
   running s ! nat (current_level s) = c # q \<Longrightarrow> CurrentTask s = Some c"
  by (simp add: CurrentTask_def queue_at_def arr_get_def)

lemma CurrentTask_tasks [simp]: "CurrentTask (s\<lparr>tasks := ts\<rparr>) = CurrentTask s"
  by (simp add: CurrentTask_def queue_at_def)

lemma SwitchTask_result:
  assumes "tm_inv s" and q: "running s ! nat (current_level s) = c # q"
  shows "\<exists>s'. SwitchTask False s = Some s' \<and> tm_inv s' \<and> contexts_kept s s' \<and> cpu_loaded s' \<and> highest_runs s' \<and>
    running s' = (running s)[nat (current_level s) := q @ [c]] \<and>
    tasks s' = (tasks s)[c := (tasks s ! c)\<lparr>tk_context := save_context (cpu s) (tk_context (tasks s ! c))\<rparr>]"
proof -
  note D = tm_invD [OF assms(1)]
  have cur: "CurrentTask s = Some c" using D q by (intro CurrentTask_eqI) simp_all
  define qs where "qs = (running s)[nat (current_level s) := requeue False c q]"
  have sets: "set (qs ! l) = set (running s ! l) \<and> distinct (qs ! l) = distinct (running s ! l)"
    if "l < Suc kMaxLevel" for l
    using that q D(1,3) by (auto simp: qs_def requeue_def nth_list_update)
  have ne: "qs ! nat (current_level s) \<noteq> []" using D by (simp add: qs_def requeue_def)
  obtain lv n ts where r: "lv < Suc kMaxLevel" "qs ! lv \<noteq> []" "n = hd (qs ! lv)"
      "\<forall>l < Suc kMaxLevel. lv < l \<longrightarrow> qs ! l = []"
      "ts = (tasks s)[c := (tasks s ! c)\<lparr>tk_context := save_context (cpu s) (tk_context (tasks s ! c))\<rparr>]"
      "SwitchTask False s = Some (s\<lparr>running := qs, level_changed := False, current_level := int lv,
        tasks := ts, cpu := load_context (tk_context (ts ! n))\<rparr>)"
    using SwitchTask_spec [OF D(1,2) _ q _ qs_def] D ne assms by (auto simp: tm_inv_defs)
  let ?s = "s\<lparr>running := qs, level_changed := False, current_level := int lv,
        tasks := ts, cpu := load_context (tk_context (ts ! n))\<rparr>"
  have "tm_inv (s\<lparr>running := qs, level_changed := False, current_level := int lv\<rparr>)"
    using assms sets r D(1) by (auto simp: tm_inv_defs qs_def)
  then have "tm_inv ?s"
    by (rule tm_inv_same_sched) (auto simp: r(5) same_sched_def nth_upd)
  moreover have "contexts_kept s ?s" using cur by (auto simp: contexts_kept_def r(5) nth_upd)
  moreover have "CurrentTask ?s = Some n"
    using r D by (intro CurrentTask_eqI [where q = "tl (qs ! lv)"]) (simp_all add: qs_def)
  then have "cpu_loaded ?s" by (simp add: cpu_loaded_def)
  moreover have "highest_runs ?s" using r(4) by (simp add: highest_runs_def)
  ultimately show ?thesis using r(5,6) by (auto simp: qs_def requeue_def)
qed

lemma SwitchTask_inv:
  assumes "tm_inv s"
  shows "\<exists>s'. SwitchTask False s = Some s' \<and> tm_inv s' \<and> contexts_kept s s' \<and> cpu_loaded s' \<and> highest_runs s'"
  using SwitchTask_result [OF assms] tm_invD(4) [OF assms]
  by (cases "running s ! nat (current_level s)") auto

lemma queues_match_remove:
  assumes m: "queues_match qs ts" and p: "p < length ts" "tk_running (ts ! p)" "tk_level (ts ! p) = int l"
    and l: "l < Suc kMaxLevel" and q: "distinct q" "set q = set (qs ! l) - {p}" and t: "\<not> tk_running t"
  shows "queues_match (qs[l := q]) (ts[p := t])"
  using m p l q t by (auto simp: queues_match_def nth_upd)

lemma queues_match_add:
  assumes m: "queues_match qs ts" and p: "p < length ts" "\<not> tk_running (ts ! p)"
    and l: "l < Suc kMaxLevel" and q: "distinct q" "set q = insert p (set (qs ! l))"
    and t: "tk_running t" "tk_level t = int l"
  shows "queues_match (qs[l := q]) (ts[p := t])"
  using m p l q t by (auto simp: queues_match_def nth_upd)

lemma queues_match_notin:
  "queues_match qs ts \<Longrightarrow> l < Suc kMaxLevel \<Longrightarrow> p < length ts \<Longrightarrow> \<not> tk_running (ts ! p) \<Longrightarrow> p \<notin> set (qs ! l)"
  by (auto simp: queues_match_def)

lemma level_bounds:
  assumes "tm_inv s" and "p < length (tasks s)"
  obtains l where "l < Suc kMaxLevel" "tk_level (tasks s ! p) = int l"
proof -
  have "nat (tk_level (tasks s ! p)) < Suc kMaxLevel" "tk_level (tasks s ! p) = int (nat (tk_level (tasks s ! p)))"
    using assms by (auto simp: tm_inv_def lv_ok_def)
  then show ?thesis by (rule that)
qed

definition msgs_of :: "TaskManager \<Rightarrow> Message list list" where
  "msgs_of s = map tk_msgs (tasks s)"

lemma queued_task:
  assumes "tm_inv s" and "k < Suc kMaxLevel" and "p \<in> set (running s ! k)"
  shows "p < length (tasks s)" "tk_running (tasks s ! p)" "tk_level (tasks s ! p) = int k"
  using assms by (auto simp: tm_inv_def rq_ok_def queues_match_def)

lemma current_queue:
  assumes "tm_inv s"
  obtains c q where "running s ! nat (current_level s) = c # q" and "CurrentTask s = Some c"
    and "c < length (tasks s)" and "tk_running (tasks s ! c)" and "tk_level (tasks s ! c) = current_level s"
proof -
  note D = tm_invD [OF assms]
  obtain c q where q: "running s ! nat (current_level s) = c # q"
    using D(4) by (cases "running s ! nat (current_level s)") auto
  moreover have "CurrentTask s = Some c" using D q by (simp add: CurrentTask_def queue_at_def arr_get_def)
  moreover have "c \<in> set (running s ! nat (current_level s))" using q by simp
  ultimately show ?thesis using queued_task [OF assms D(3)] D(2) that by simp
qed

lemma tm_inv_queues: "tm_inv s \<Longrightarrow> queues_match (running s) (tasks s)"
  by (simp add: tm_inv_def rq_ok_def)

lemma queues_match_distinct: "queues_match qs ts \<Longrightarrow> l < Suc kMaxLevel \<Longrightarrow> distinct (qs ! l)"
  by (simp add: queues_match_def)

lemma Sleep_current:
  assumes inv: "tm_inv s" and c: "CurrentTask s = Some c" "c \<noteq> idle_task"
  shows "\<exists>s'. Sleep c s = Some s' \<and> tm_inv s' \<and> msgs_of s' = msgs_of s \<and> \<not> tk_running (tasks s' ! c) \<and>
    contexts_kept s s' \<and> cpu_loaded s' \<and> highest_runs s' \<and>
    tk_context (tasks s' ! c) = save_context (cpu s) (tk_context (tasks s ! c))"
proof -
  note D = tm_invD [OF inv]
  obtain q where q: "running s ! nat (current_level s) = c # q" and run: "c < length (tasks s)" "tk_running (tasks s ! c)"
      and lev: "tk_level (tasks s ! c) = current_level s"
    using current_queue [OF inv] c(1) by (metis option.inject)
  let ?ts = "(tasks s)[c := (tasks s ! c)\<lparr>tk_running := False\<rparr>]"
  let ?s = "s\<lparr>tasks := ?ts\<rparr>"
  define qs where "qs = (running s)[nat (current_level s) := requeue True c q]"
  have m': "queues_match qs ?ts"
    using inv run q lev D unfolding qs_def
    by (intro queues_match_remove) (auto simp: requeue_def tm_inv_def rq_ok_def queues_match_def)
  obtain l where l: "l < Suc kMaxLevel" "idle_task \<in> set (running s ! l)" using idle_queued [OF inv] by blast
  then have "idle_task \<in> set (qs ! l)" using q c(2) by (auto simp: qs_def requeue_def nth_upd)
  then have ne: "\<exists>l < Suc kMaxLevel. qs ! l \<noteq> []" using l(1) by auto
  have ptr: "p < length (tasks ?s)" if "k < Suc kMaxLevel" "p \<in> set (running ?s ! k)" for k p
    using queued_task(1) [OF inv] that by simp
  obtain lv n ts where r: "lv < Suc kMaxLevel" "qs ! lv \<noteq> []" "\<forall>l < Suc kMaxLevel. lv < l \<longrightarrow> qs ! l = []"
      "n = hd (qs ! lv)" "ts = ?ts[c := (?ts ! c)\<lparr>tk_context := save_context (cpu s) (tk_context (?ts ! c))\<rparr>]"
      "SwitchTask True ?s = Some (?s\<lparr>running := qs, level_changed := False, current_level := int lv,
        tasks := ts, cpu := load_context (tk_context (ts ! n))\<rparr>)"
    using SwitchTask_spec [of ?s c q qs True] D q ptr ne inv by (auto simp: qs_def tm_inv_def cur_ok_def)
  let ?s1 = "?s\<lparr>running := qs, level_changed := False, current_level := int lv\<rparr>"
  let ?s2 = "?s1\<lparr>tasks := ts, cpu := load_context (tk_context (ts ! n))\<rparr>"
  have "Sleep c s = SwitchTask True ?s"
    using run q D by (simp add: Sleep_def arr_get_def set_task_def queue_at_def)
  moreover have "tm_inv ?s1"
    using inv m' r c(2) by (auto simp: tm_inv_def rq_ok_def lv_ok_def cur_ok_def ids_ok_def nth_upd)
  then have "tm_inv ?s2"
    by (rule tm_inv_same_sched) (simp_all add: r(5) same_sched_def nth_upd)
  moreover have "contexts_kept s ?s2" using c by (auto simp: contexts_kept_def r(5) nth_upd)
  moreover have "CurrentTask ?s2 = Some n"
    using r D by (intro CurrentTask_eqI [where q = "tl (qs ! lv)"]) (simp_all add: qs_def)
  then have "cpu_loaded ?s2" by (simp add: cpu_loaded_def)
  moreover have "highest_runs ?s2" using r(3) by (simp add: highest_runs_def)
  moreover have "msgs_of ?s2 = msgs_of s" "\<not> tk_running (tasks ?s2 ! c)"
      "tk_context (tasks ?s2 ! c) = save_context (cpu s) (tk_context (tasks s ! c))"
    using run by (simp_all add: r(5) msgs_of_def map_update list_update_same_conv)
  ultimately show ?thesis using r(6) by simp
qed

lemma Sleep_inv:
  assumes inv: "tm_inv s" and p: "p < length (tasks s)" "p \<noteq> idle_task"
  shows "\<exists>s'. Sleep p s = Some s' \<and> tm_inv s' \<and> msgs_of s' = msgs_of s \<and> \<not> tk_running (tasks s' ! p) \<and>
    contexts_kept s s' \<and> (CurrentTask s' \<noteq> CurrentTask s \<longrightarrow> cpu_loaded s')"
proof (cases "tk_running (tasks s ! p)")
  case False
  with assms show ?thesis by (simp add: Sleep_def arr_get_def contexts_kept_def)
next
  case run: True
  note D = tm_invD [OF inv] and m = tm_inv_queues [OF inv]
  obtain l where l: "l < Suc kMaxLevel" "tk_level (tasks s ! p) = int l" using level_bounds [OF inv p(1)] .
  obtain c q where q: "running s ! nat (current_level s) = c # q" and c: "CurrentTask s = Some c"
    using current_queue [OF inv] .
  show ?thesis
  proof (cases "p = c")
    case True
    with Sleep_current [OF inv c] p show ?thesis by blast
  next
    case False
    let ?s = "s\<lparr>tasks := (tasks s)[p := (tasks s ! p)\<lparr>tk_running := False\<rparr>],
      running := (running s)[l := Erase (running s ! l) p]\<rparr>"
    have "Sleep p s = Some ?s"
      using D q l p run False
      by (simp add: Sleep_def arr_get_def set_task_def queue_at_def set_queue_def)
    moreover have "queues_match (running ?s) (tasks ?s)"
      using queues_match_remove [OF m p(1) run l(2,1), of "Erase (running s ! l) p"]
        queues_match_distinct [OF m l(1)]
      by (simp add: Erase_def set_diff_eq)
    then have "tm_inv ?s"
      using inv p q False D(1)
      by (auto simp: tm_inv_def rq_ok_def lv_ok_def cur_ok_def ids_ok_def nth_upd Erase_def)
    moreover have "CurrentTask ?s = CurrentTask s" unfolding c
      using D q False
      by (intro CurrentTask_eqI [where q = "if nat (current_level s) = l then Erase q p else q"])
        (auto simp: nth_upd Erase_def)
    ultimately show ?thesis using p
      by (auto simp: msgs_of_def map_update list_update_same_conv contexts_kept_def nth_upd)
  qed
qed

definition woken :: "task_ptr \<Rightarrow> int \<Rightarrow> TaskManager \<Rightarrow> TaskManager \<Rightarrow> bool" where
  "woken p level s s' \<longleftrightarrow> tm_inv s' \<and> CurrentTask s' = CurrentTask s \<and> cpu s' = cpu s \<and>
     tasks s' = (tasks s)[p := (tasks s ! p)\<lparr>
       tk_level := (if level < 0 then tk_level (tasks s ! p) else level), tk_running := True\<rparr>]"

lemma Wakeup_sleeping:
  assumes inv: "tm_inv s" and p: "p < length (tasks s)" "\<not> tk_running (tasks s ! p)"
    and level: "level \<le> int kMaxLevel"
  shows "\<exists>s'. Wakeup p level s = Some s' \<and> woken p level s s'"
proof -
  note D = tm_invD [OF inv] and m = tm_inv_queues [OF inv]
  obtain c q where q: "running s ! nat (current_level s) = c # q" and c: "CurrentTask s = Some c"
    using current_queue [OF inv] .
  obtain l0 where l0: "l0 < Suc kMaxLevel" "tk_level (tasks s ! p) = int l0" using level_bounds [OF inv p(1)] .
  define l where "l = (if level < 0 then l0 else nat level)"
  have l: "l < Suc kMaxLevel" "(if level < 0 then tk_level (tasks s ! p) else level) = int l"
    using l0 level by (auto simp: l_def)
  let ?t = "(tasks s ! p)\<lparr>tk_level := int l, tk_running := True\<rparr>"
  let ?s = "s\<lparr>tasks := (tasks s)[p := ?t], running := (running s)[l := running s ! l @ [p]],
    level_changed := (level_changed s \<or> int l > current_level s)\<rparr>"
  have "Wakeup p level s = Some (if int l > current_level s
      then s\<lparr>tasks := (tasks s)[p := ?t], running := (running s)[l := running s ! l @ [p]], level_changed := True\<rparr>
      else s\<lparr>tasks := (tasks s)[p := ?t], running := (running s)[l := running s ! l @ [p]]\<rparr>)"
    using D p l by (simp add: Wakeup_def arr_get_def set_task_def queue_at_def set_queue_def Let_def)
  also have "\<dots> = Some ?s" by (cases s) simp
  finally have W: "Wakeup p level s = Some ?s" .
  have m': "queues_match (running ?s) (tasks ?s)"
    using queues_match_add [OF m p l(1), of "running s ! l @ [p]" ?t]
      queues_match_distinct [OF m l(1)] queues_match_notin [OF m l(1) p] by simp
  have "tm_inv ?s"
    using inv m' l(1) D p by (auto simp: tm_inv_def rq_ok_def lv_ok_def cur_ok_def ids_ok_def nth_upd)
  moreover have "CurrentTask ?s = Some c"
    using D q by (intro CurrentTask_eqI [where q = "if nat (current_level s) = l then q @ [p] else q"]) (auto simp: nth_upd)
  ultimately show ?thesis using W c l(2) by (auto simp: woken_def)
qed

lemma queues_match_move:
  assumes m: "queues_match qs ts" and p: "p < length ts" "tk_running (ts ! p)" "tk_level (ts ! p) = int l"
    and l: "l < Suc kMaxLevel" "l' < Suc kMaxLevel" "l \<noteq> l'"
    and q: "distinct q" "set q = set (qs ! l) - {p}"
    and q': "distinct q'" "set q' = insert p (set (qs ! l'))"
    and t: "tk_running t" "tk_level t = int l'"
  shows "queues_match (qs[l := q, l' := q']) (ts[p := t])"
proof -
  have "queues_match (qs[l := q]) (ts[p := t\<lparr>tk_running := False\<rparr>])"
    using m p l(1) q by (rule queues_match_remove) simp
  from queues_match_add [OF this _ _ l(2) q'(1), of p t] p(1) l(3) q' t show ?thesis by simp
qed

lemma ChangeLevelRunning_inv:
  assumes inv: "tm_inv s" and p: "p < length (tasks s)" "tk_running (tasks s ! p)"
    and level: "level \<le> int kMaxLevel"
  shows "\<exists>s'. ChangeLevelRunning p level s = Some s' \<and> woken p level s s'"
proof (cases "level < 0 \<or> level = tk_level (tasks s ! p)")
  case True
  then have "(tasks s)[p := (tasks s ! p)\<lparr>tk_level := (if level < 0 then tk_level (tasks s ! p) else level),
      tk_running := True\<rparr>] = tasks s"
    using p by (auto simp: list_update_same_conv)
  with True inv p(1) show ?thesis by (auto simp: ChangeLevelRunning_def arr_get_def woken_def)
next
  case lev: False
  note D = tm_invD [OF inv] and m = tm_inv_queues [OF inv]
  obtain c q where q: "running s ! nat (current_level s) = c # q" and c: "CurrentTask s = Some c"
      and clev: "tk_level (tasks s ! c) = current_level s"
    using current_queue [OF inv] .
  obtain l where l: "l < Suc kMaxLevel" "tk_level (tasks s ! p) = int l" using level_bounds [OF inv p(1)] .
  define l' where "l' = nat level"
  have l': "level = int l'" "l' < Suc kMaxLevel" "l \<noteq> l'" using lev level l by (auto simp: l'_def)
  have mem: "p \<in> set (running s ! l)" "p \<notin> set (running s ! l')"
    using m p l l' by (auto simp: queues_match_def)
  let ?ts = "(tasks s)[p := (tasks s ! p)\<lparr>tk_level := level\<rparr>]"
  have ts: "?ts = (tasks s)[p := (tasks s ! p)\<lparr>tk_level := (if level < 0 then tk_level (tasks s ! p) else level),
      tk_running := True\<rparr>]"
  proof -
    have "(tasks s ! p)\<lparr>tk_level := level\<rparr> = (tasks s ! p)\<lparr>tk_level := level, tk_running := True\<rparr>"
      using p(2) by (cases "tasks s ! p") simp
    then show ?thesis using lev by simp
  qed
  note dist = queues_match_distinct [OF m l(1)] queues_match_distinct [OF m l'(2)]
  show ?thesis
  proof (cases "p = c")
    case False
    let ?qs = "(running s)[l := Erase (running s ! l) p, l' := running s ! l' @ [p]]"
    let ?s = "s\<lparr>running := ?qs, tasks := ?ts, level_changed := (level_changed s \<or> level > current_level s)\<rparr>"
    have "ChangeLevelRunning p level s = Some (if level > current_level s
        then s\<lparr>running := ?qs, tasks := ?ts, level_changed := True\<rparr> else s\<lparr>running := ?qs, tasks := ?ts\<rparr>)"
      using D q p l l' False
      by (simp add: ChangeLevelRunning_def arr_get_def set_task_def queue_at_def set_queue_def)
    also have "\<dots> = Some ?s" by (cases s) simp
    finally have W: "ChangeLevelRunning p level s = Some ?s" .
    have m': "queues_match ?qs ?ts"
      using m p l(2,1) l'(2,3) by (rule queues_match_move) (use dist mem p l' in \<open>auto simp: Erase_def\<close>)
    have "tm_inv ?s"
      using inv m' l'(1,2) D p q False
      by (auto simp: tm_inv_def rq_ok_def lv_ok_def cur_ok_def ids_ok_def nth_upd Erase_def)
    moreover have "CurrentTask ?s = Some c"
      using D q False
      by (intro CurrentTask_eqI [where q = "if nat (current_level s) = l' then q @ [p]
            else if nat (current_level s) = l then Erase q p else q"]) (auto simp: nth_upd Erase_def)
    ultimately show ?thesis using W c ts by (auto simp: woken_def)
  next
    case True
    then have cl: "nat (current_level s) = l" "current_level s = int l" using clev l by auto
    let ?qs = "(running s)[l := q, l' := p # running s ! l']"
    let ?s = "s\<lparr>running := ?qs, tasks := ?ts, current_level := level,
      level_changed := (level_changed s \<or> level < current_level s)\<rparr>"
    have "ChangeLevelRunning p level s = Some (if level \<ge> current_level s
        then s\<lparr>running := ?qs, tasks := ?ts, current_level := level\<rparr>
        else s\<lparr>running := ?qs, tasks := ?ts, current_level := level, level_changed := True\<rparr>)"
      using D q p l l' True cl
      by (simp add: ChangeLevelRunning_def arr_get_def set_task_def queue_at_def set_queue_def)
    also have "\<dots> = Some ?s" by (cases s) auto
    finally have W: "ChangeLevelRunning p level s = Some ?s" .
    have m': "queues_match ?qs ?ts"
      using m p l(2,1) l'(2,3) by (rule queues_match_move) (use dist mem p l' q cl True in auto)
    have "tm_inv ?s"
      using inv m' l' l(1) D p q True cl
      by (auto simp: tm_inv_def rq_ok_def lv_ok_def cur_ok_def ids_ok_def nth_upd)
    moreover have "CurrentTask ?s = Some c"
      using D l' True by (intro CurrentTask_eqI [where q = "running s ! l'"]) (auto simp: nth_upd)
    ultimately show ?thesis using W c ts by (auto simp: woken_def)
  qed
qed

lemma Wakeup_inv:
  assumes "tm_inv s" and "p < length (tasks s)" and "level \<le> int kMaxLevel"
  shows "\<exists>s'. Wakeup p level s = Some s' \<and> woken p level s s'"
proof (cases "tk_running (tasks s ! p)")
  case True
  with assms ChangeLevelRunning_inv [of s p level] show ?thesis by (simp add: Wakeup_def arr_get_def)
qed (use assms Wakeup_sleeping in auto)

text \<open>Messages and new tasks.\<close>

lemma SendMessage_task_inv:
  assumes inv: "tm_inv s" and p: "p < length (tasks s)"
  shows "\<exists>s'. SendMessage_task p m s = Some s' \<and> tm_inv s' \<and> CurrentTask s' = CurrentTask s \<and> cpu s' = cpu s \<and>
    tasks s' = (tasks s)[p := (tasks s ! p)\<lparr>tk_msgs := tk_msgs (tasks s ! p) @ [m], tk_running := True\<rparr>]"
proof -
  let ?t = "(tasks s ! p)\<lparr>tk_msgs := tk_msgs (tasks s ! p) @ [m]\<rparr>"
  let ?s = "s\<lparr>tasks := (tasks s)[p := ?t]\<rparr>"
  have "tm_inv ?s" using inv by (rule tm_inv_task_update) (simp add: same_sched_def)
  from Wakeup_inv [OF this, of p "-1"] p obtain s' where
    s': "Wakeup p (-1) ?s = Some s'" "woken p (-1) ?s s'" by auto
  then show ?thesis using p by (simp add: SendMessage_task_def set_task_def arr_get_def woken_def)
qed

lemma ReceiveMessage_inv:
  assumes "tm_inv s" and "p < length (tasks s)"
  shows "\<exists>m s'. ReceiveMessage p s = Some (m, s') \<and> tm_inv s' \<and> CurrentTask s' = CurrentTask s"
proof -
  let ?t = "snd (ReceiveMessage_task (tasks s ! p))"
  have "same_sched (tasks s ! p) ?t"
    by (simp add: ReceiveMessage_task_def same_sched_def split: list.split)
  with assms have "tm_inv (s\<lparr>tasks := (tasks s)[p := ?t]\<rparr>)" by (intro tm_inv_task_update)
  with assms(2) show ?thesis
    by (auto simp: ReceiveMessage_def arr_get_def split: prod.split)
qed

lemma NewTask_inv:
  assumes "tm_inv s"
  shows "tm_inv (snd (NewTask ctx s))" and "CurrentTask (snd (NewTask ctx s)) = CurrentTask s"
    and "fst (NewTask ctx s) = length (tasks s)"
  using assms
  by (auto simp: NewTask_def Let_def Task_new_def tm_inv_defs nth_append less_Suc_eq kDefaultLevel_def
      kMaxLevel_def CurrentTask_def queue_at_def)

lemma InitContext_inv:
  assumes "tm_inv s" and "p < length (tasks s)"
  shows "\<exists>s'. set_task p (InitContext c3 base f d) s = Some s' \<and> tm_inv s' \<and> CurrentTask s' = CurrentTask s"
  using assms tm_inv_task_update [OF assms(1), of p "InitContext c3 base f d (tasks s ! p)"]
  by (auto simp: set_task_def arr_get_def InitContext_def Let_def same_sched_def)

lemma TaskManager_new_result:
  "TaskManager_new hw ctx c3 base f = Some \<lparr>
     tasks = [(Task_new ctx 1)\<lparr>tk_level := 3, tk_running := True\<rparr>,
              (InitContext c3 base f 0 (Task_new ctx 2))\<lparr>tk_level := 0, tk_running := True\<rparr>],
     latest_id = 2, running = [[1], [], [], [0]], current_level = 3, level_changed = False, cpu = hw\<rparr>"
  by (simp add: TaskManager_new_def empty_manager_def NewTask_def set_task_def queue_at_def set_queue_def
      arr_get_def Let_def kMaxLevel_def eval_nat_numeral)

lemma TaskManager_new_inv: "\<exists>s. TaskManager_new hw ctx c3 base f = Some s \<and> tm_inv s \<and> CurrentTask s = Some 0"
  unfolding TaskManager_new_result
  by (auto simp: tm_inv_defs less_Suc_kMaxLevel idle_task_def kMaxLevel_def InitContext_def Let_def Task_new_def
      less_Suc_eq nth_Cons' CurrentTask_def queue_at_def arr_get_def)

subsection \<open>Runs\<close>

text \<open>Everything the kernel does to the task manager, one call at a time, and the execution of the
  current task, which may leave any register contents behind.\<close>

datatype tm_op =
    op_switch
  | op_sleep task_ptr
  | op_sleep_id u64
  | op_wakeup task_ptr int
  | op_wakeup_id u64 int
  | op_send u64 Message
  | op_receive task_ptr
  | op_new TaskContext
  | op_init task_ptr u64 u64 u64 u64
  | op_execute TaskContext

fun tm_exec :: "tm_op \<Rightarrow> TaskManager \<Rightarrow> TaskManager option" where
  "tm_exec op_switch s = SwitchTask False s"
| "tm_exec (op_sleep p) s = Sleep p s"
| "tm_exec (op_sleep_id i) s = map_option snd (Sleep_id i s)"
| "tm_exec (op_wakeup p lv) s = Wakeup p lv s"
| "tm_exec (op_wakeup_id i lv) s = map_option snd (Wakeup_id i lv s)"
| "tm_exec (op_send i m) s = map_option snd (SendMessage i m s)"
| "tm_exec (op_receive p) s = map_option snd (ReceiveMessage p s)"
| "tm_exec (op_new ctx) s = Some (snd (NewTask ctx s))"
| "tm_exec (op_init p c3 base f d) s = set_task p (InitContext c3 base f d) s"
| "tm_exec (op_execute c) s = Some (s\<lparr>cpu := c\<rparr>)"

text \<open>What callers must respect: pointers come from \<open>NewTask\<close>, levels are at most
  \<open>kMaxLevel\<close>, and nobody puts the idle task (id 2) to sleep.\<close>

fun op_ok :: "tm_op \<Rightarrow> TaskManager \<Rightarrow> bool" where
  "op_ok (op_sleep p) s \<longleftrightarrow> p < length (tasks s) \<and> p \<noteq> idle_task"
| "op_ok (op_sleep_id i) s \<longleftrightarrow> i \<noteq> 2"
| "op_ok (op_wakeup p lv) s \<longleftrightarrow> p < length (tasks s) \<and> lv \<le> int kMaxLevel"
| "op_ok (op_wakeup_id i lv) s \<longleftrightarrow> lv \<le> int kMaxLevel"
| "op_ok (op_receive p) s \<longleftrightarrow> p < length (tasks s)"
| "op_ok (op_init p c3 base f d) s \<longleftrightarrow> p < length (tasks s)"
| "op_ok op s \<longleftrightarrow> True"

inductive tm_reachable :: "TaskManager \<Rightarrow> bool" where
  boot: "TaskManager_new hw ctx c3 base f = Some s \<Longrightarrow> tm_reachable s"
| step: "tm_reachable s \<Longrightarrow> op_ok op s \<Longrightarrow> tm_exec op s = Some s' \<Longrightarrow> tm_reachable s'"

lemma find_task_Some:
  "find_task i s = Some p \<Longrightarrow> p < length (tasks s) \<and> tk_id (tasks s ! p) = i"
  unfolding find_task_def find_Some_iff by auto

lemma find_task_idle:
  assumes "tm_inv s" and "find_task i s = Some p" and "i \<noteq> 2"
  shows "p \<noteq> idle_task"
  using find_task_Some [OF assms(2)] assms(1,3) by (auto simp: tm_inv_def ids_ok_def idle_task_def)

text \<open>What a call keeps: the invariant, the saved registers of the tasks that are not current
  (\<open>InitContext\<close> prepares one), and, if another task becomes current, its registers are loaded.\<close>

fun prepares :: "tm_op \<Rightarrow> task_ptr \<Rightarrow> bool" where
  "prepares (op_init q c3 base f d) p \<longleftrightarrow> q = p"
| "prepares op p \<longleftrightarrow> False"

definition step_keeps :: "tm_op \<Rightarrow> TaskManager \<Rightarrow> TaskManager \<Rightarrow> bool" where
  "step_keeps op s s' \<longleftrightarrow> tm_inv s' \<and> length (tasks s) \<le> length (tasks s') \<and>
     (\<forall>p < length (tasks s). CurrentTask s \<noteq> Some p \<longrightarrow> \<not> prepares op p \<longrightarrow>
        tk_context (tasks s' ! p) = tk_context (tasks s ! p)) \<and>
     (CurrentTask s' \<noteq> CurrentTask s \<longrightarrow> cpu_loaded s')"

lemma step_keeps_sleep:
  assumes "tm_inv s" and "p < length (tasks s)" and "p \<noteq> idle_task"
  shows "\<exists>s'. Sleep p s = Some s' \<and> step_keeps op s s'"
  using Sleep_inv [OF assms] by (auto simp: step_keeps_def contexts_kept_def)

lemma step_keeps_wakeup:
  assumes "tm_inv s" and "p < length (tasks s)" and "lv \<le> int kMaxLevel"
  shows "\<exists>s'. Wakeup p lv s = Some s' \<and> step_keeps op s s'"
  using Wakeup_inv [OF assms] by (auto simp: step_keeps_def woken_def contexts_kept_def nth_upd)

lemma step_keeps_send:
  assumes "tm_inv s" and "p < length (tasks s)"
  shows "\<exists>s'. SendMessage_task p m s = Some s' \<and> step_keeps op s s'"
  using SendMessage_task_inv [OF assms, of m] by (auto simp: step_keeps_def contexts_kept_def nth_upd)

lemma step_keeps_receive:
  assumes "tm_inv s" and "p < length (tasks s)"
  shows "\<exists>m s'. ReceiveMessage p s = Some (m, s') \<and> step_keeps op s s'"
  using ReceiveMessage_inv [OF assms] assms(2)
  by (auto simp: step_keeps_def ReceiveMessage_def ReceiveMessage_task_def contexts_kept_def nth_upd arr_get_def
      split: list.splits)

lemma step_keeps_refl: "tm_inv s \<Longrightarrow> step_keeps op s s"
  by (simp add: step_keeps_def contexts_kept_def)

lemma tm_exec_keeps:
  assumes inv: "tm_inv s" and ok: "op_ok op s"
  shows "\<exists>s'. tm_exec op s = Some s' \<and> step_keeps op s s'"
proof (cases op)
  case op_switch
  then show ?thesis using SwitchTask_inv [OF inv] by (auto simp: step_keeps_def contexts_kept_def)
next
  case (op_sleep p)
  then show ?thesis using step_keeps_sleep [OF inv] ok by simp
next
  case (op_sleep_id i)
  show ?thesis
  proof (cases "find_task i s")
    case (Some p)
    have "p < length (tasks s)" "p \<noteq> idle_task"
      using find_task_idle [OF inv Some] find_task_Some [OF Some] ok op_sleep_id by auto
    then obtain s' where "Sleep p s = Some s'" "step_keeps op s s'" using step_keeps_sleep [OF inv] by blast
    with Some op_sleep_id show ?thesis by (simp add: Sleep_id_def)
  qed (use op_sleep_id step_keeps_refl [OF inv] in \<open>simp add: Sleep_id_def\<close>)
next
  case (op_wakeup p lv)
  then show ?thesis using step_keeps_wakeup [OF inv] ok by simp
next
  case (op_wakeup_id i lv)
  show ?thesis
  proof (cases "find_task i s")
    case (Some p)
    obtain s' where "Wakeup p lv s = Some s'" "step_keeps op s s'"
      using find_task_Some [OF Some] step_keeps_wakeup [OF inv, of p lv op] ok op_wakeup_id by auto
    with Some op_wakeup_id show ?thesis by (simp add: Wakeup_id_def)
  qed (use op_wakeup_id step_keeps_refl [OF inv] in \<open>simp add: Wakeup_id_def\<close>)
next
  case (op_send i m)
  show ?thesis
  proof (cases "find_task i s")
    case (Some p)
    obtain s' where "SendMessage_task p m s = Some s'" "step_keeps op s s'"
      using find_task_Some [OF Some] step_keeps_send [OF inv, of p m op] by auto
    with Some op_send show ?thesis by (simp add: SendMessage_def)
  qed (use op_send step_keeps_refl [OF inv] in \<open>simp add: SendMessage_def\<close>)
next
  case (op_receive p)
  with ok obtain m s' where "ReceiveMessage p s = Some (m, s')" "step_keeps op s s'"
    using step_keeps_receive [OF inv, of p op] by auto
  with op_receive show ?thesis by simp
next
  case (op_new ctx)
  then show ?thesis using NewTask_inv [OF inv]
    by (auto simp: step_keeps_def contexts_kept_def NewTask_def Let_def nth_append)
next
  case (op_init p c3 base f d)
  with InitContext_inv [OF inv, of p c3 base f d] ok show ?thesis
    by (auto simp: step_keeps_def set_task_def arr_get_def nth_upd)
next
  case (op_execute c)
  then show ?thesis using tm_inv_same_sched [OF inv, of "tasks s"]
    by (auto simp: same_sched_def step_keeps_def contexts_kept_def CurrentTask_def queue_at_def)
qed

lemma tm_reachable_inv: "tm_reachable s \<Longrightarrow> tm_inv s"
proof (induction rule: tm_reachable.induct)
  case (boot hw ctx c3 base f s)
  then show ?case using TaskManager_new_inv [of hw ctx c3 base f] by simp
next
  case (step s op s')
  then show ?case using tm_exec_keeps [of s op] by (auto simp: step_keeps_def)
qed

subsection \<open>Properties\<close>

text \<open>C1: from the state the constructor builds, whatever sequence of calls to the task manager,
  its interrupt handlers and its tasks is made (levels up to \<open>kMaxLevel\<close>, the idle task never put
  to sleep), the next call is free of undefined behaviour (no empty queue is read or popped, no
  index leaves \<open>running_\<close>) and the run-queue invariant holds after it: every running task
  is queued exactly once, at its level, and no sleeping task is queued.\<close>

theorem TaskManager_safe:
  assumes "tm_reachable s" and "op_ok op s"
  shows "\<exists>s'. tm_exec op s = Some s' \<and> tm_inv s'"
  using tm_exec_keeps [OF tm_reachable_inv [OF assms(1)] assms(2)] by (auto simp: step_keeps_def)

lemma boot_reachable: "tm_reachable (the (TaskManager_new hw ctx c3 base f))"
  by (rule tm_reachable.boot [of hw ctx c3 base f]) (simp add: TaskManager_new_result)

lemma boot_current: "CurrentTask (the (TaskManager_new hw ctx c3 base f)) = Some 0"
  by (simp add: TaskManager_new_result CurrentTask_def queue_at_def arr_get_def)

theorem TaskManager_safe_witness:
  "\<exists>s'. tm_exec (op_wakeup 1 2) (the (TaskManager_new zero_context zero_context 0 0x1000 0x2000)) = Some s' \<and> tm_inv s'"
  using TaskManager_safe [OF boot_reachable [of zero_context zero_context 0 "0x1000" "0x2000"], of "op_wakeup 1 2"]
  by (simp add: TaskManager_new_result kMaxLevel_def)

text \<open>C2: \<open>SwitchTask\<close> is a strict-priority scheduler: after it, the current task is running,
  no running task has a higher level, and the processor holds the registers saved for that task.
  The task that was current before stays in the run queue, with the registers it had.\<close>

theorem SwitchTask_strict_priority:
  assumes "tm_reachable s" and "CurrentTask s = Some c"
  shows "\<exists>s' n. SwitchTask False s = Some s' \<and> CurrentTask s' = Some n \<and> tk_running (tasks s' ! n) \<and>
    (\<forall>p < length (tasks s'). tk_running (tasks s' ! p) \<longrightarrow> tk_level (tasks s' ! p) \<le> tk_level (tasks s' ! n)) \<and>
    cpu s' = load_context (tk_context (tasks s' ! n)) \<and>
    c \<in> set (running s' ! nat (current_level s)) \<and>
    tk_context (tasks s' ! c) = save_context (cpu s) (tk_context (tasks s ! c))"
proof -
  have inv: "tm_inv s" by (rule tm_reachable_inv [OF assms(1)])
  obtain q where q: "running s ! nat (current_level s) = c # q" "c < length (tasks s)"
    using current_queue [OF inv] assms(2) by (metis option.inject)
  obtain s' where s': "SwitchTask False s = Some s'" "tm_inv s'" "cpu_loaded s'" "highest_runs s'"
      "running s' = (running s)[nat (current_level s) := q @ [c]]"
      "tasks s' = (tasks s)[c := (tasks s ! c)\<lparr>tk_context := save_context (cpu s) (tk_context (tasks s ! c))\<rparr>]"
    using SwitchTask_result [OF inv q(1)] by blast
  obtain n where n: "CurrentTask s' = Some n" "tk_running (tasks s' ! n)" "tk_level (tasks s' ! n) = current_level s'"
    using current_queue [OF s'(2)] by metis
  have "tk_level (tasks s' ! p) \<le> current_level s'" if p: "p < length (tasks s')" "tk_running (tasks s' ! p)" for p
  proof -
    obtain l where l: "l < Suc kMaxLevel" "tk_level (tasks s' ! p) = int l" using level_bounds [OF s'(2) p(1)] .
    then have "p \<in> set (running s' ! l)" using tm_inv_queues [OF s'(2)] p by (simp add: queues_match_def)
    then show ?thesis using s'(4) l by (force simp: highest_runs_def)
  qed
  with n s' q tm_invD(1,3) [OF inv] show ?thesis by (auto simp: cpu_loaded_def)
qed

theorem SwitchTask_strict_priority_witness:
  "\<exists>s' n. SwitchTask False (the (TaskManager_new zero_context zero_context 0 0x1000 0x2000)) = Some s' \<and>
     CurrentTask s' = Some n \<and> tk_running (tasks s' ! n)"
  using SwitchTask_strict_priority [OF boot_reachable boot_current] by blast

text \<open>Repeated timer-driven switches with no other call in between.\<close>

primrec switch_times :: "nat \<Rightarrow> TaskManager \<Rightarrow> TaskManager option" where
  "switch_times 0 s = Some s"
| "switch_times (Suc k) s = Option.bind (SwitchTask False s) (switch_times k)"

lemma highest_runs_level:
  assumes "tm_inv s" and "tm_inv s'" and "highest_runs s" and "highest_runs s'"
    and "running s' = (running s)[nat (current_level s) := q]" and "q \<noteq> []"
  shows "current_level s' = current_level s"
proof (rule antisym)
  note D = tm_invD [OF assms(1)] and D' = tm_invD [OF assms(2)]
  show "current_level s \<le> current_level s'"
    using assms(4-6) D by (force simp: highest_runs_def nth_upd)
  have "running s ! nat (current_level s') \<noteq> [] \<or> nat (current_level s') = nat (current_level s)"
    using D' assms(5) by (auto simp: nth_upd split: if_splits)
  then show "current_level s' \<le> current_level s"
    using assms(3) D D' by (force simp: highest_runs_def)
qed

lemma switch_times_rotate:
  assumes "tm_inv s" and "highest_runs s"
  shows "\<exists>s'. switch_times k s = Some s' \<and> tm_inv s' \<and> highest_runs s' \<and> current_level s' = current_level s \<and>
    running s' ! nat (current_level s) = rotate k (running s ! nat (current_level s))"
  using assms
proof (induction k arbitrary: s)
  case (Suc k)
  note D = tm_invD [OF Suc.prems(1)]
  obtain c q where q: "running s ! nat (current_level s) = c # q" using current_queue [OF Suc.prems(1)] .
  obtain s1 where s1: "SwitchTask False s = Some s1" "tm_inv s1" "highest_runs s1"
      "running s1 = (running s)[nat (current_level s) := q @ [c]]"
    using SwitchTask_result [OF Suc.prems(1) q] by blast
  have "current_level s1 = current_level s"
    using highest_runs_level [OF Suc.prems(1) s1(2) Suc.prems(2) s1(3,4)] by simp
  with Suc.IH [OF s1(2,3)] s1 q D(1,3) show ?case by (auto simp: rotate1_rotate_swap)
qed simp

text \<open>C37: round robin within a level: as long as only the task timer calls \<open>SwitchTask\<close>, the
  \<open>k\<close>-th switch hands the processor to element \<open>k mod n\<close> of the queue of the current level, so
  each of its \<open>n\<close> tasks runs once in every \<open>n\<close> switches.\<close>

theorem SwitchTask_round_robin:
  assumes "tm_reachable s" and "highest_runs s"
  shows "\<exists>s'. switch_times k s = Some s' \<and>
    CurrentTask s' = Some (running s ! nat (current_level s) ! (k mod length (running s ! nat (current_level s))))"
proof -
  have inv: "tm_inv s" by (rule tm_reachable_inv [OF assms(1)])
  let ?q = "running s ! nat (current_level s)"
  obtain s' where s': "switch_times k s = Some s'" "tm_inv s'" "current_level s' = current_level s"
      "running s' ! nat (current_level s) = rotate k ?q"
    using switch_times_rotate [OF inv assms(2)] by blast
  have ne: "?q \<noteq> []" using tm_invD(4) [OF inv] .
  have "CurrentTask s' = Some (hd (rotate k ?q))"
    using s'(3,4) ne tm_invD(1-3) [OF s'(2)] by (intro CurrentTask_eqI [where q = "tl (rotate k ?q)"]) simp_all
  with s'(1) ne show ?thesis by (simp add: hd_rotate_conv_nth)
qed

theorem SwitchTask_round_robin_witness:
  "\<exists>s'. switch_times 3 (the (TaskManager_new zero_context zero_context 0 0x1000 0x2000)) = Some s' \<and>
     CurrentTask s' = Some 0"
  using SwitchTask_round_robin [OF boot_reachable [of zero_context zero_context 0 "0x1000" "0x2000"], of 3]
  by (simp add: TaskManager_new_result highest_runs_def less_Suc_kMaxLevel)

text \<open>Ids are unique as long as fewer than 2^64 tasks were created, so the linear search finds the
  task that \<open>NewTask\<close> gave the id to.\<close>

lemma find_upt_unique:
  "p < n \<Longrightarrow> P p \<Longrightarrow> (\<And>k. k < p \<Longrightarrow> \<not> P k) \<Longrightarrow> find P [0..<n] = Some p"
  unfolding find_Some_iff by (rule exI [of _ p]) auto

lemma find_task_id:
  assumes "tm_inv s" and "length (tasks s) < 2 ^ 64"
  shows "find_task i s = (if 0 < unat i \<and> unat i \<le> length (tasks s) then Some (unat i - 1) else None)"
proof -
  have unat_id: "unat (of_nat (Suc p) :: u64) = Suc p" if "p < length (tasks s)" for p
    using that assms(2) by (simp only: unsigned_of_nat) (simp add: take_bit_eq_mod)
  have ids: "tk_id (tasks s ! p) = i \<longleftrightarrow> Suc p = unat i" if "p < length (tasks s)" for p
    using assms(1) that unat_id [OF that]
    by (metis ids_ok_def tm_inv_def word_unat_eq_iff)
  show ?thesis
  proof (cases "0 < unat i \<and> unat i \<le> length (tasks s)")
    case True
    then have lt: "unat i - 1 < length (tasks s)" by auto
    have "tk_id (tasks s ! (unat i - 1)) = i" using ids [OF lt] True by simp
    moreover have "tk_id (tasks s ! k) \<noteq> i" if "k < unat i - 1" for k using ids [of k] that lt by auto
    ultimately have "find_task i s = Some (unat i - 1)"
      unfolding find_task_def using lt by (intro find_upt_unique)
    with True show ?thesis by simp
  next
    case False
    then show ?thesis by (auto simp: find_task_def find_None_iff ids)
  qed
qed

text \<open>C21: \<open>TaskManager::SendMessage\<close> delivers: for an id that \<open>NewTask\<close> has handed out, the message
  is appended to the queue of exactly that task, which is running afterwards, no other task is
  touched, the sender keeps the processor, and the call returns \<open>kSuccess\<close>; for any other id it
  returns \<open>kNoSuchTask\<close> and changes nothing.\<close>

theorem SendMessage_delivers:
  assumes "tm_reachable s" and "length (tasks s) < 2 ^ 64"
  shows "if 0 < unat i \<and> unat i \<le> length (tasks s)
    then \<exists>s'. SendMessage i m s = Some (kSuccess, s') \<and> CurrentTask s' = CurrentTask s \<and>
      tasks s' = (tasks s)[unat i - 1 := (tasks s ! (unat i - 1))
        \<lparr>tk_msgs := tk_msgs (tasks s ! (unat i - 1)) @ [m], tk_running := True\<rparr>]
    else SendMessage i m s = Some (kNoSuchTask, s)"
proof -
  have inv: "tm_inv s" by (rule tm_reachable_inv [OF assms(1)])
  show ?thesis
  proof (cases "0 < unat i \<and> unat i \<le> length (tasks s)")
    case True
    then have "unat i - 1 < length (tasks s)" by auto
    from SendMessage_task_inv [OF inv this, of m] True show ?thesis
      by (auto simp: SendMessage_def find_task_id [OF inv assms(2)])
  qed (auto simp: SendMessage_def find_task_id [OF inv assms(2)])
qed

theorem SendMessage_delivers_witness:
  "let s = the (TaskManager_new zero_context zero_context 0 0x1000 0x2000);
       m = \<lparr>msg_type = kInterruptXHCI, src_task = 0, msg_arg = no_arg\<rparr>
   in (\<exists>s'. SendMessage 1 m s = Some (kSuccess, s') \<and> tk_msgs (tasks s' ! 0) = [m]) \<and>
      SendMessage 7 m s = Some (kNoSuchTask, s)"
  using SendMessage_delivers [OF boot_reachable [of zero_context zero_context 0 "0x1000" "0x2000"], of 1
      "\<lparr>msg_type = kInterruptXHCI, src_task = 0, msg_arg = no_arg\<rparr>"]
    SendMessage_delivers [OF boot_reachable [of zero_context zero_context 0 "0x1000" "0x2000"], of 7
      "\<lparr>msg_type = kInterruptXHCI, src_task = 0, msg_arg = no_arg\<rparr>"]
  by (auto simp: TaskManager_new_result Task_new_def Let_def)

text \<open>A mailbox: sending to a task and receiving by it, in any order.\<close>

datatype mbox_op = mb_send Message | mb_receive

fun run_mbox :: "task_ptr \<Rightarrow> mbox_op list \<Rightarrow> TaskManager \<Rightarrow> (Message option list \<times> TaskManager) option" where
  "run_mbox p [] s = Some ([], s)"
| "run_mbox p (mb_send m # ops) s = Option.bind (SendMessage_task p m s) (run_mbox p ops)"
| "run_mbox p (mb_receive # ops) s =
     Option.bind (ReceiveMessage p s) (\<lambda>(m, s).
       map_option (\<lambda>(ms, s). (m # ms, s)) (run_mbox p ops s))"

fun run_fifo :: "mbox_op list \<Rightarrow> Message list \<Rightarrow> Message option list \<times> Message list" where
  "run_fifo [] q = ([], q)"
| "run_fifo (mb_send m # ops) q = run_fifo ops (q @ [m])"
| "run_fifo (mb_receive # ops) [] = (let (ms, q) = run_fifo ops [] in (None # ms, q))"
| "run_fifo (mb_receive # ops) (m # q) = (let (ms, q) = run_fifo ops q in (Some m # ms, q))"

lemma run_mbox_fifo:
  assumes "tm_inv s" and "p < length (tasks s)"
  shows "\<exists>s'. run_mbox p ops s = Some (fst (run_fifo ops (tk_msgs (tasks s ! p))), s') \<and>
    tk_msgs (tasks s' ! p) = snd (run_fifo ops (tk_msgs (tasks s ! p)))"
  using assms
proof (induction ops arbitrary: s)
  case (Cons a ops)
  show ?case
  proof (cases a)
    case (mb_send m)
    with SendMessage_task_inv [OF Cons.prems, of m] Cons.IH Cons.prems(2) show ?thesis by fastforce
  next
    case mb_receive
    obtain m s1 where s1: "ReceiveMessage p s = Some (m, s1)" "tm_inv s1"
      using ReceiveMessage_inv [OF Cons.prems] by blast
    from s1(1) Cons.prems(2) have t: "tasks s1 = (tasks s)[p := snd (ReceiveMessage_task (tasks s ! p))]"
      and m: "m = fst (ReceiveMessage_task (tasks s ! p))"
      by (auto simp: ReceiveMessage_def arr_get_def split: prod.splits)
    then have "p < length (tasks s1)" using Cons.prems(2) by simp
    from Cons.IH [OF s1(2) this] t m mb_receive s1(1) Cons.prems(2) show ?thesis
      by (cases "tk_msgs (tasks s ! p)") (auto simp: ReceiveMessage_task_def split: prod.splits)
  qed
qed simp

text \<open>C20: the message queue of a task refines a FIFO queue: in any interleaving of senders and
  receives, \<open>ReceiveMessage\<close> returns the messages in the order they were sent, each once, and
  \<open>std::nullopt\<close> exactly when none is pending.\<close>

theorem message_queue_refines_fifo:
  assumes "tm_reachable s" and "p < length (tasks s)"
  shows "\<exists>s'. run_mbox p ops s = Some (fst (run_fifo ops (tk_msgs (tasks s ! p))), s') \<and>
    tk_msgs (tasks s' ! p) = snd (run_fifo ops (tk_msgs (tasks s ! p)))"
  using run_mbox_fifo [OF tm_reachable_inv [OF assms(1)] assms(2)] .

theorem message_queue_refines_fifo_witness:
  "let s = the (TaskManager_new zero_context zero_context 0 0x1000 0x2000);
       m = \<lparr>msg_type = kInterruptXHCI, src_task = 0, msg_arg = no_arg\<rparr>
   in \<exists>s'. run_mbox 0 [mb_send m, mb_receive, mb_receive] s = Some ([Some m, None], s')"
  using message_queue_refines_fifo [OF boot_reachable [of zero_context zero_context 0 "0x1000" "0x2000"], of 0
      "[mb_send \<lparr>msg_type = kInterruptXHCI, src_task = 0, msg_arg = no_arg\<rparr>, mb_receive, mb_receive]"]
  by (auto simp: TaskManager_new_result Task_new_def Let_def)

subsection \<open>Registers survive preemption\<close>

lemma take_bit_seg_save [simp]: "take_bit 16 (seg_save r seg) = take_bit 16 seg"
  unfolding seg_save_def by (rule bit_word_eqI) (auto simp: bit_simps)

text \<open>A register file as the processor has it: selectors of 16 bits.\<close>

definition regs_ok :: "TaskContext \<Rightarrow> bool" where
  "regs_ok c \<longleftrightarrow> reserved1 c = 0 \<and> take_bit 16 (cs c) = cs c \<and> take_bit 16 (ss c) = ss c \<and>
     take_bit 16 (fs c) = fs c \<and> take_bit 16 (gs c) = gs c"

lemma load_save_context: "regs_ok c \<Longrightarrow> load_context (save_context c old) = c"
  by (cases c) (simp add: regs_ok_def load_context_def save_context_def)

text \<open>Any calls while \<open>p\<close> is not current, none of which re-initialises its context.\<close>

inductive away :: "task_ptr \<Rightarrow> TaskManager \<Rightarrow> TaskManager \<Rightarrow> bool" for p s where
  away_refl: "CurrentTask s \<noteq> Some p \<Longrightarrow> away p s s"
| away_step: "away p s s1 \<Longrightarrow> op_ok op s1 \<Longrightarrow> \<not> prepares op p \<Longrightarrow> tm_exec op s1 = Some s2 \<Longrightarrow>
    CurrentTask s2 \<noteq> Some p \<Longrightarrow> away p s s2"

lemma away_keeps:
  assumes "away p s s'" and "tm_inv s" and "p < length (tasks s)"
  shows "tm_inv s' \<and> p < length (tasks s') \<and> CurrentTask s' \<noteq> Some p \<and>
    tk_context (tasks s' ! p) = tk_context (tasks s ! p)"
  using assms(1)
proof induction
  case (away_step s1 op s2)
  with tm_exec_keeps [of s1 op] show ?case by (auto simp: step_keeps_def)
qed (use assms in simp)

lemma leave_saves:
  assumes inv: "tm_inv s" and cur: "CurrentTask s = Some p" and op: "op = op_switch \<or> op = op_sleep p \<and> p \<noteq> idle_task"
    and exec: "tm_exec op s = Some s'"
  shows "tm_inv s' \<and> p < length (tasks s') \<and> tk_context (tasks s' ! p) = save_context (cpu s) (tk_context (tasks s ! p))"
proof -
  obtain q where q: "running s ! nat (current_level s) = p # q" and p: "p < length (tasks s)"
    using current_queue [OF inv] cur by (metis option.inject)
  have "op_ok op s" using op p by auto
  then have "tm_inv s'" "p < length (tasks s')"
    using tm_exec_keeps [OF inv, of op] exec p by (auto simp: step_keeps_def)
  moreover have "tk_context (tasks s' ! p) = save_context (cpu s) (tk_context (tasks s ! p))"
    using op exec SwitchTask_result [OF inv q] Sleep_current [OF inv cur] p by auto
  ultimately show ?thesis by simp
qed

text \<open>C3: preemption is transparent: when a task loses the processor, in a timer switch or by going
  to sleep, and later becomes current again after any calls made by interrupt handlers and other
  tasks, it continues with exactly the registers, flags, stack pointer, segment selectors and FPU
  state it had.\<close>

theorem preemption_transparent:
  assumes "tm_reachable s" and "CurrentTask s = Some p" and "regs_ok (cpu s)"
    and "op = op_switch \<or> op = op_sleep p \<and> p \<noteq> idle_task" and "tm_exec op s = Some s1"
    and "away p s1 s2"
    and "op_ok op' s2" and "\<not> prepares op' p" and "tm_exec op' s2 = Some s3" and "CurrentTask s3 = Some p"
  shows "cpu s3 = cpu s"
proof -
  have inv: "tm_inv s" by (rule tm_reachable_inv [OF assms(1)])
  note s1 = leave_saves [OF inv assms(2,4,5)]
  then have s2: "tm_inv s2" "p < length (tasks s2)" "CurrentTask s2 \<noteq> Some p"
      "tk_context (tasks s2 ! p) = save_context (cpu s) (tk_context (tasks s ! p))"
    using away_keeps [OF assms(6)] by auto
  then have "tk_context (tasks s3 ! p) = save_context (cpu s) (tk_context (tasks s ! p))" "cpu_loaded s3"
    using tm_exec_keeps [OF s2(1) assms(7)] assms(8-10) by (auto simp: step_keeps_def)
  then show ?thesis using assms(3,10) load_save_context by (simp add: cpu_loaded_def)
qed

text \<open>The boot task sleeps, the idle task runs, an interrupt wakes the boot task, the timer
  switches back to it.\<close>

definition example_regs :: TaskContext where
  "example_regs = zero_context\<lparr>rax := 7, cs := 8\<rparr>"

definition example_boot :: TaskManager where
  "example_boot = the (TaskManager_new example_regs zero_context 0 0x1000 0x2000)"

definition example_asleep :: TaskManager where "example_asleep = the (Sleep 0 example_boot)"
definition example_woken :: TaskManager where "example_woken = the (Wakeup 0 (-1) example_asleep)"
definition example_resumed :: TaskManager where "example_resumed = the (SwitchTask False example_woken)"

lemmas tm_ops = Sleep_def Wakeup_def SwitchTask_def SwitchContext_def set_task_def queue_at_def set_queue_def
  requeue_def highest_level_def kMaxLevel_def ChangeLevelRunning_def Let_def arr_get_def

lemma example_run:
  "Sleep 0 example_boot = Some example_asleep" "CurrentTask example_asleep = Some 1"
  "Wakeup 0 (-1) example_asleep = Some example_woken" "CurrentTask example_woken = Some 1"
  "SwitchTask False example_woken = Some example_resumed" "CurrentTask example_resumed = Some 0"
  "length (tasks example_asleep) = 2"
  by (simp_all add: example_resumed_def example_woken_def example_asleep_def example_boot_def
      TaskManager_new_result tm_ops CurrentTask_def Task_new_def InitContext_def numeral_3_eq_3 numeral_2_eq_2)

theorem preemption_transparent_witness: "cpu example_resumed = example_regs"
proof -
  have "away 0 example_asleep example_asleep" by (rule away_refl) (simp add: example_run)
  then have "away 0 example_asleep example_woken"
    by (rule away_step [where op = "op_wakeup 0 (-1)"]) (simp_all add: example_run kMaxLevel_def)
  moreover have "tm_reachable example_boot" "CurrentTask example_boot = Some 0"
    unfolding example_boot_def by (rule boot_reachable, rule boot_current)
  moreover have "cpu example_boot = example_regs" "regs_ok example_regs"
    by (simp_all add: example_boot_def TaskManager_new_result example_regs_def regs_ok_def zero_context_def)
  ultimately show ?thesis
    using preemption_transparent [of example_boot 0 "op_sleep 0" example_asleep example_woken op_switch example_resumed]
    by (simp add: example_run idle_task_def)
qed

text \<open>the caller's obligation is needed: the run queues may not become empty. If the boot task
  sleeps and the idle task is put to sleep as well, \<open>Sleep\<close> reads the front of an empty queue.\<close>

theorem Sleep_idle_undefined: "Sleep_id 2 (the (Sleep 0 (the (TaskManager_new hw ctx c3 base f)))) = None"
  by (simp add: TaskManager_new_result tm_ops Task_new_def InitContext_def Sleep_id_def find_task_def
      numeral_3_eq_3 numeral_2_eq_2)

lemma align_down_16: "unat ((e :: u64) AND NOT 0xf) = unat e div 16 * 16"
proof -
  have "e AND NOT 0xf = e AND NOT (mask 4)" by (simp add: mask_eq_exp_minus_1)
  also have "\<dots> = push_bit 4 (drop_bit 4 e)" by (rule bit_word_eqI) (auto simp: bit_simps)
  finally have "unat (e AND NOT 0xf) = take_bit 64 (unat e div 16 * 16)"
    by (simp only: unsigned_push_bit_eq unat_drop_bit_eq) (simp add: push_bit_eq_mult drop_bit_eq_div)
  moreover have "unat e < 2 ^ LENGTH(64)" by (rule unsigned_less)
  then have "unat e div 16 * 16 < 2 ^ 64"
    using div_times_less_eq_dividend [of "unat e" 16] by simp
  ultimately show ?thesis by (simp add: take_bit_nat_eq_self)
qed

text \<open>the context \<open>InitContext\<close> prepares starts the task function as a call would: arguments in
  RDI and RSI, interrupts enabled, kernel segments, and RSP inside the task's own 4096-byte stack,
  8 below a 16-byte boundary as the calling convention requires at function entry, whatever the
  alignment of the allocation.\<close>

theorem InitContext_entry:
  assumes "unat base + 4096 < 2 ^ 64" and "c = tk_context (InitContext c3 base f d t)"
  shows "unat (rsp c) mod 16 = 8 \<and> unat base \<le> unat (rsp c) \<and> unat (rsp c) + 8 \<le> unat base + 4096 \<and>
    rip c = f \<and> rdi c = tk_id t \<and> rsi c = d \<and> bit (rflags c) 9 \<and>
    cs c = ucast kKernelCS \<and> ss c = ucast kKernelSS \<and> length (tk_stack (InitContext c3 base f d t)) = 512"
proof -
  have len: "length (tk_stack (InitContext c3 base f d t)) = 512"
    by (simp add: InitContext_def Let_def kDefaultStackBytes_def)
  have e: "unat (base + 4096) = unat base + 4096" using assms(1) by (simp add: unat_word_ariths)
  let ?r = "(unat base + 4096) div 16 * 16"
  have "rsp c = ((base + 4096) AND NOT 0xf) - 8"
    by (simp add: assms(2) InitContext_def Let_def kDefaultStackBytes_def)
  moreover have "unat ((base + 4096) AND NOT 0xf) = ?r" by (simp only: align_down_16 e)
  moreover have "unat (w - 8) = unat w - 8" if "8 \<le> unat w" for w :: u64
    using that by (simp add: unat_sub word_le_nat_alt)
  ultimately have r: "unat (rsp c) = ?r - 8" by simp
  have "?r - 8 = 16 * ((unat base + 4096) div 16 - 1) + 8" by simp
  moreover have "(16 * k + 8) mod 16 = (8 :: nat)" for k by simp
  ultimately have "unat (rsp c) mod 16 = 8" unfolding r by simp
  moreover have "unat base \<le> unat (rsp c) \<and> unat (rsp c) + 8 \<le> unat base + 4096" unfolding r by linarith
  moreover have "bit (0x202 :: u64) 9" by simp
  then have "bit (rflags c) 9" by (simp add: assms(2) InitContext_def Let_def)
  moreover have "rip c = f" "rdi c = tk_id t" "rsi c = d" "cs c = ucast kKernelCS" "ss c = ucast kKernelSS"
    by (simp_all add: assms(2) InitContext_def Let_def)
  ultimately show ?thesis using len by blast
qed

theorem InitContext_entry_witness:
  "unat (rsp (tk_context (InitContext 0 0x12344 0x2000 0 (Task_new zero_context 3)))) mod 16 = 8"
  using InitContext_entry [of "0x12344" _ 0 "0x2000" 0 "Task_new zero_context 3", OF _ refl] by simp

end
