(* ===== verification/Timer_Manager.thy ===== *)
theory Timer_Manager
  imports Prio_Queue Task_Manager
begin

text \<open>
  \<open>src/kernel/timer.hpp\<close>, \<open>timer.cpp\<close>, the interrupt handlers of \<open>interrupt.cpp\<close> and
  \<open>InitializeTask\<close>: logical timers in a priority queue, the periodic LAPIC interrupt that
  advances them, and the preemption it drives. Loops may run forever here; \<open>None\<close> stands for
  that as well as for undefined behaviour.
\<close>

definition kTimerFreq :: u64 where "kTimerFreq = 100"
definition kTaskTimerPeriod :: u64 where "kTaskTimerPeriod = 2"
definition kTaskTimerValue :: int where "kTaskTimerValue = - (2 ^ 31)"
definition ULONG_MAX :: u64 where "ULONG_MAX = - 1"

record Timer =
  timeout :: u64
  tvalue :: int

text \<open>\<open>Timer::operator<\<close>: the earlier timeout is the greater element.\<close>

definition timer_key :: "Timer \<Rightarrow> nat" where
  "timer_key t = unat (timeout t)"

record TimerManager =
  tick :: u64
  timers :: "Timer list"

definition TimerManager_new :: TimerManager where
  "TimerManager_new = \<lparr>tick = 0, timers = pq_push timer_key [] \<lparr>timeout = ULONG_MAX, tvalue = -1\<rparr>\<rparr>"

definition AddTimer :: "Timer \<Rightarrow> TimerManager \<Rightarrow> TimerManager" where
  "AddTimer t tm = tm\<lparr>timers := pq_push timer_key (timers tm) t\<rparr>"

definition timer_message :: "Timer \<Rightarrow> Message" where
  "timer_message t = \<lparr>msg_type = kTimerTimeout, src_task = 0,
     msg_arg = timer_arg (timeout t) (tvalue t)\<rparr>"

text \<open>The loop of \<open>TimerManager::Tick\<close>; \<open>send\<close> is the call to the task manager.\<close>

partial_function (option) tick_loop ::
  "(Message \<Rightarrow> 's \<Rightarrow> 's option) \<Rightarrow> u64 \<Rightarrow> bool \<Rightarrow> Timer list \<Rightarrow> 's \<Rightarrow> (bool \<times> Timer list \<times> 's) option" where
  "tick_loop send now task_timer_timeout q s = do {
     t \<leftarrow> pq_top q;
     if timeout t > now then Some (task_timer_timeout, q, s)
     else if tvalue t = kTaskTimerValue then do {
       q \<leftarrow> pq_pop timer_key q;
       tick_loop send now True
         (pq_push timer_key q \<lparr>timeout = now + kTaskTimerPeriod, tvalue = kTaskTimerValue\<rparr>) s
     }
     else do {
       s \<leftarrow> send (timer_message t) s;
       q \<leftarrow> pq_pop timer_key q;
       tick_loop send now task_timer_timeout q s
     }
   }"

definition send_main :: "Message \<Rightarrow> TaskManager \<Rightarrow> TaskManager option" where
  "send_main m s = map_option snd (SendMessage 1 m s)"

definition Tick :: "TimerManager \<Rightarrow> TaskManager \<Rightarrow> (bool \<times> TimerManager \<times> TaskManager) option" where
  "Tick tm s = do {
     let now = tick tm + 1;
     (task_timer_timeout, q, s) \<leftarrow> tick_loop send_main now False (timers tm) s;
     Some (task_timer_timeout, \<lparr>tick = now, timers = q\<rparr>, s)
   }"

subsection \<open>The local APIC\<close>

record lapic =
  lvt_timer :: u32
  initial_count :: u32
  divide_config :: u32
  end_of_interrupt :: nat \<comment> \<open>number of writes to the end-of-interrupt register\<close>

definition kCountMax :: u32 where "kCountMax = 0xffffffff"


definition NotifyEndOfInterrupt :: "lapic \<Rightarrow> lapic" where
  "NotifyEndOfInterrupt l = l\<lparr>end_of_interrupt := end_of_interrupt l + 1\<rparr>"

definition StartLAPICTimer :: "lapic \<Rightarrow> lapic" where
  "StartLAPICTimer l = l\<lparr>initial_count := kCountMax\<rparr>"

definition LAPICTimerElapsed :: "u32 \<Rightarrow> u32" where
  "LAPICTimerElapsed current_count = kCountMax - current_count"

definition StopLAPICTimer :: "lapic \<Rightarrow> lapic" where
  "StopLAPICTimer l = l\<lparr>initial_count := 0\<rparr>"

text \<open>\<open>current_count\<close> is the counter the hardware shows after \<open>acpi::WaitMilliseconds(100)\<close>.
  The second component is \<open>lapic_timer_freq\<close>.\<close>

definition InitializeLAPICTimer :: "u32 \<Rightarrow> lapic \<Rightarrow> TimerManager \<times> u64 \<times> lapic" where
  "InitializeLAPICTimer current_count l =
     (let l = l\<lparr>divide_config := 0b1011, lvt_timer := push_bit 16 1\<rparr>;
          l = StartLAPICTimer l;
          elapsed = LAPICTimerElapsed current_count;
          l = StopLAPICTimer l;
          freq = ucast elapsed * 10;
          l = l\<lparr>divide_config := 0b1011, lvt_timer := push_bit 16 0b010 OR of_nat kLAPICTimer_vector,
                initial_count := ucast (freq div kTimerFreq)\<rparr>
      in (TimerManager_new, freq, l))"

subsection \<open>Interrupts\<close>

record kernel =
  k_timers :: TimerManager
  k_tasks :: TaskManager
  k_lapic :: lapic

definition LAPICTimerOnInterrupt :: "kernel \<Rightarrow> kernel option" where
  "LAPICTimerOnInterrupt k = do {
     (task_timer_timeout, tm, s) \<leftarrow> Tick (k_timers k) (k_tasks k);
     let k = k\<lparr>k_timers := tm, k_tasks := s, k_lapic := NotifyEndOfInterrupt (k_lapic k)\<rparr>;
     if task_timer_timeout then do {
       s \<leftarrow> SwitchTask False (k_tasks k);
       Some (k\<lparr>k_tasks := s\<rparr>)
     }
     else Some k
   }"

definition IntHandlerXHCI :: "kernel \<Rightarrow> kernel option" where
  "IntHandlerXHCI k = do {
     (_, s) \<leftarrow> SendMessage 1 \<lparr>msg_type = kInterruptXHCI, src_task = 0, msg_arg = no_arg\<rparr> (k_tasks k);
     Some (k\<lparr>k_tasks := s, k_lapic := NotifyEndOfInterrupt (k_lapic k)\<rparr>)
   }"

definition IntHandlerLAPICTimer :: "kernel \<Rightarrow> kernel option" where
  "IntHandlerLAPICTimer k = LAPICTimerOnInterrupt k"

definition InitializeTask ::
  "TaskContext \<Rightarrow> TaskContext \<Rightarrow> u64 \<Rightarrow> u64 \<Rightarrow> u64 \<Rightarrow> TimerManager \<Rightarrow> (TaskManager \<times> TimerManager) option" where
  "InitializeTask hw ctx c3 stack_base idle_f tm = do {
     s \<leftarrow> TaskManager_new hw ctx c3 stack_base idle_f;
     Some (s, AddTimer \<lparr>timeout = tick tm + kTaskTimerPeriod, tvalue = kTaskTimerValue\<rparr> tm)
   }"

subsection \<open>The loop, for any receiver\<close>

definition due :: "u64 \<Rightarrow> Timer \<Rightarrow> bool" where
  "due now t \<longleftrightarrow> timeout t \<le> now"

definition is_task_timer :: "Timer \<Rightarrow> bool" where
  "is_task_timer t \<longleftrightarrow> tvalue t = kTaskTimerValue"

definition task_timer :: "u64 \<Rightarrow> Timer" where
  "task_timer now = \<lparr>timeout = now + kTaskTimerPeriod, tvalue = kTaskTimerValue\<rparr>"

definition due_messages :: "u64 \<Rightarrow> Timer multiset \<Rightarrow> Timer multiset" where
  "due_messages now q = {#t \<in># q. due now t \<and> \<not> is_task_timer t#}"

definition due_task_timers :: "u64 \<Rightarrow> Timer multiset \<Rightarrow> Timer multiset" where
  "due_task_timers now q = {#t \<in># q. due now t \<and> is_task_timer t#}"

text \<open>The timers after a tick: those not due, and each due task timer re-registered.\<close>

definition after_tick :: "u64 \<Rightarrow> Timer multiset \<Rightarrow> Timer multiset" where
  "after_tick now q = {#t \<in># q. \<not> due now t#} + replicate_mset (size (due_task_timers now q)) (task_timer now)"

lemmas tick_sets = due_messages_def due_task_timers_def after_tick_def

lemma due_key: "due now t \<longleftrightarrow> timer_key t \<le> unat now"
  by (simp add: due_def timer_key_def word_le_nat_alt)

lemma task_timer_not_due: "unat now + 2 < 2 ^ 64 \<Longrightarrow> \<not> due now (task_timer now)"
  by (simp add: due_def task_timer_def kTaskTimerPeriod_def word_le_nat_alt unat_word_ariths)

lemma is_task_timer_task_timer [simp]: "is_task_timer (task_timer now)"
  by (simp add: is_task_timer_def task_timer_def)

lemma tick_sets_pop_task:
  assumes "due now t" and "is_task_timer t" and "\<not> due now (task_timer now)"
  shows "due_messages now (add_mset (task_timer now) q) = due_messages now (add_mset t q)"
    and "after_tick now (add_mset (task_timer now) q) = after_tick now (add_mset t q)"
    and "size {#x \<in># add_mset (task_timer now) q. due now x#} < size {#x \<in># add_mset t q. due now x#}"
  using assms by (simp_all add: tick_sets)

lemma tick_sets_pop_message:
  assumes "due now t" and "\<not> is_task_timer t"
  shows "due_messages now (add_mset t q) = add_mset t (due_messages now q)"
    and "due_task_timers now (add_mset t q) = due_task_timers now q"
    and "after_tick now (add_mset t q) = after_tick now q"
    and "size {#x \<in># q. due now x#} < size {#x \<in># add_mset t q. due now x#}"
  using assms by (simp_all add: tick_sets)

locale message_sink =
  fixes send :: "Message \<Rightarrow> 's \<Rightarrow> 's option"
    and invar :: "'s \<Rightarrow> bool"
    and inbox :: "'s \<Rightarrow> Message list"
  assumes send_ok: "invar s \<Longrightarrow> \<exists>s'. send m s = Some s' \<and> invar s' \<and> inbox s' = inbox s @ [m]"
begin

lemma tick_loop_ok:
  assumes "is_heap timer_key q" and "invar s" and "unat now + 2 < 2 ^ 64" and "\<exists>t \<in> set q. \<not> due now t"
  shows "\<exists>q' s' ts. tick_loop send now b q s = Some (b \<or> due_task_timers now (mset q) \<noteq> {#}, q', s') \<and>
    is_heap timer_key q' \<and> invar s' \<and> inbox s' = inbox s @ map timer_message ts \<and>
    sorted (map timer_key ts) \<and> mset ts = due_messages now (mset q) \<and> mset q' = after_tick now (mset q)"
  using assms
proof (induction "size {#t \<in># mset q. due now t#}" arbitrary: q s b rule: less_induct)
  case less
  note heap = less.prems(1) and nodue = task_timer_not_due [OF less.prems(3)]
  have "pq_top q \<noteq> None" using timer_pq.top_None [OF heap] less.prems(4) by auto
  then obtain t where t: "pq_top q = Some t" by blast
  show ?case
  proof (cases "due now t")
    case False
    then have "{#y \<in># mset q. due now y#} = {#}"
      using timer_pq.top_not_due [OF heap t, of "unat now"] by (simp add: due_key)
    then have nd: "\<not> due now y" if "y \<in> set q" for y
      using that by (metis empty_iff filter_mset_eq_conv set_mset_empty set_mset_mset set_mset_filter mem_Collect_eq)
    have "due_messages now (mset q) = {#}" "due_task_timers now (mset q) = {#}"
      using nd by (auto simp: tick_sets filter_mset_eq_conv)
    moreover have "{#y \<in># mset q. \<not> due now y#} = mset q"
      using nd by (simp add: filter_mset_eq_conv)
    ultimately have "due_messages now (mset q) = {#}" "due_task_timers now (mset q) = {#}" "after_tick now (mset q) = mset q"
      by (simp_all add: after_tick_def)
    with False t heap less.prems(2) show ?thesis
      by (subst tick_loop.simps) (auto simp: due_def not_le intro!: exI [of _ "[]"])
  next
    case True
    obtain q1 where q1: "pq_pop timer_key q = Some q1" "is_heap timer_key q1" "mset q = add_mset t (mset q1)"
      using timer_pq.pop_due [OF heap t, of "unat now"] True by (metis due_key)
    have ge: "\<not> now < timeout t" using True by (simp add: due_def not_less)
    have nd1: "\<exists>t \<in> set q1. \<not> due now t"
      using less.prems(4) q1(3) True by (metis insert_iff set_mset_add_mset_insert set_mset_mset)
    show ?thesis
    proof (cases "is_task_timer t")
      case task: True
      let ?q2 = "pq_push timer_key q1 (task_timer now)"
      have h2: "is_heap timer_key ?q2" and m2: "mset ?q2 = add_mset (task_timer now) (mset q1)"
        by (rule timer_pq.push_invar [OF q1(2)], rule timer_pq.push_elems [OF q1(2)])
      have set2: "set ?q2 = insert (task_timer now) (set q1)" using m2 by (metis set_mset_add_mset_insert set_mset_mset)
      note pops = tick_sets_pop_task [OF True task nodue, of "mset q1", folded q1(3) m2]
      have "due_task_timers now (mset q) \<noteq> {#}" using True task q1(3) by (simp add: tick_sets)
      moreover have "tick_loop send now b q s = tick_loop send now True ?q2 s"
        using t ge task q1(1)
        by (subst tick_loop.simps) (simp add: is_task_timer_def task_timer_def)
      ultimately show ?thesis
        using less.hyps [OF pops(3) h2 less.prems(2,3), of True] set2 nd1 pops(1,2) by simp
    next
      case msg: False
      obtain s1 where s1: "send (timer_message t) s = Some s1" "invar s1" "inbox s1 = inbox s @ [timer_message t]"
        using send_ok [OF less.prems(2)] by blast
      note pops = tick_sets_pop_message [OF True msg, of "mset q1", folded q1(3)]
      obtain q' s' ts where r: "tick_loop send now b q1 s1 = Some (b \<or> due_task_timers now (mset q1) \<noteq> {#}, q', s')"
          "is_heap timer_key q'" "invar s'" "inbox s' = inbox s1 @ map timer_message ts" "sorted (map timer_key ts)"
          "mset ts = due_messages now (mset q1)" "mset q' = after_tick now (mset q1)"
        using less.hyps [OF pops(4) q1(2) s1(2) less.prems(3) nd1, of b] by blast
      have "timer_key t \<le> timer_key y" if "y \<in> set ts" for y
      proof -
        have "y \<in># due_messages now (mset q1)" using that r(6) by (metis set_mset_mset)
        then show ?thesis using timer_pq.top_min [OF heap t] q1(3) by (simp add: tick_sets)
      qed
      then have "sorted (map timer_key (t # ts))" using r(5) by auto
      moreover have "tick_loop send now b q s = tick_loop send now b q1 s1"
        using t ge msg q1(1) s1(1)
        by (subst tick_loop.simps) (simp add: is_task_timer_def)
      ultimately show ?thesis using r s1(3) pops(1-3) by (intro exI [of _ q'] exI [of _ s'] exI [of _ "t # ts"]) simp
    qed
  qed
qed

end

subsection \<open>The task manager as receiver\<close>

definition tasks_ok :: "TaskManager \<Rightarrow> bool" where
  "tasks_ok s \<longleftrightarrow> tm_reachable s \<and> length (tasks s) < 2 ^ 64"

definition main_inbox :: "TaskManager \<Rightarrow> Message list" where
  "main_inbox s = tk_msgs (tasks s ! 0)"

lemma SendMessage_main:
  assumes "tasks_ok s"
  shows "\<exists>s'. SendMessage 1 m s = Some (kSuccess, s') \<and> tasks_ok s' \<and> main_inbox s' = main_inbox s @ [m] \<and>
    CurrentTask s' = CurrentTask s"
proof -
  have r: "tm_reachable s" "length (tasks s) < 2 ^ 64" and inv: "tm_inv s"
    using assms tm_reachable_inv by (auto simp: tasks_ok_def)
  have len: "0 < length (tasks s)" using inv by (auto simp: tm_inv_def)
  have f: "find_task 1 s = Some 0" using find_task_id [OF inv r(2), of 1] len by simp
  obtain s' where s': "SendMessage_task 0 m s = Some s'" "CurrentTask s' = CurrentTask s"
      "tasks s' = (tasks s)[0 := (tasks s ! 0)\<lparr>tk_msgs := tk_msgs (tasks s ! 0) @ [m], tk_running := True\<rparr>]"
    using SendMessage_task_inv [OF inv len] by blast
  have S: "SendMessage 1 m s = Some (kSuccess, s')" using s'(1) f by (simp add: SendMessage_def)
  then have "tm_reachable s'" using tm_reachable.step [OF r(1), of "op_send 1 m" s'] by simp
  with S s' r(2) len show ?thesis by (simp add: tasks_ok_def main_inbox_def)
qed

text \<open>Sending never takes the processor away from the current task \<open>c\<close>.\<close>

definition tasks_current :: "task_ptr option \<Rightarrow> TaskManager \<Rightarrow> bool" where
  "tasks_current c s \<longleftrightarrow> tasks_ok s \<and> CurrentTask s = c"

interpretation main_task: message_sink send_main "tasks_current c" main_inbox for c
proof
  fix s :: TaskManager and m assume "tasks_current c s"
  then show "\<exists>s'. send_main m s = Some s' \<and> tasks_current c s' \<and> main_inbox s' = main_inbox s @ [m]"
    using SendMessage_main [of s m] by (auto simp: send_main_def tasks_current_def)
qed

text \<open>The heap order, and the sentinel that keeps the queue from running empty.\<close>

definition timers_ok :: "TimerManager \<Rightarrow> bool" where
  "timers_ok tm \<longleftrightarrow> is_heap timer_key (timers tm) \<and> (\<exists>t \<in> set (timers tm). timeout t = ULONG_MAX)"

lemma timers_ok_new: "timers_ok TimerManager_new"
  by (auto simp: timers_ok_def TimerManager_new_def pq_push_def sift_up.simps is_heap_def)

lemma timers_ok_AddTimer: "timers_ok tm \<Longrightarrow> timers_ok (AddTimer t tm)"
  using timer_pq.push_invar [of timer_key "timers tm" t] timer_pq.push_elems [of timer_key "timers tm" t]
  by (metis (no_types, lifting) AddTimer_def TimerManager.select_convs(2) TimerManager.surjective
      TimerManager.update_convs(2) insert_iff set_mset_add_mset_insert set_mset_mset timers_ok_def)

lemma unat_ULONG_MAX: "unat ULONG_MAX = 2 ^ 64 - 1"
  by (simp add: ULONG_MAX_def unsigned_minus_1_eq_mask mask_eq_exp_minus_1)

lemma Tick_ok:
  assumes "timers_ok tm" and "tasks_ok s" and "unat (tick tm) + 3 < 2 ^ 64"
  shows "\<exists>tm' s' ts. Tick tm s = Some (due_task_timers (tick tm + 1) (mset (timers tm)) \<noteq> {#}, tm', s') \<and>
    tick tm' = tick tm + 1 \<and> timers_ok tm' \<and> tasks_ok s' \<and> CurrentTask s' = CurrentTask s \<and>
    main_inbox s' = main_inbox s @ map timer_message ts \<and> sorted (map timer_key ts) \<and>
    mset ts = due_messages (tick tm + 1) (mset (timers tm)) \<and>
    mset (timers tm') = after_tick (tick tm + 1) (mset (timers tm))"
proof -
  let ?now = "tick tm + 1"
  have now: "unat ?now = unat (tick tm) + 1" using assms(3) by (simp add: unat_word_ariths)
  obtain t where t: "t \<in> set (timers tm)" "timeout t = ULONG_MAX" using assms(1) by (auto simp: timers_ok_def)
  have "\<not> due ?now t" using t(2) now assms(3)
    by (simp add: due_key timer_key_def unat_ULONG_MAX)
  with t obtain q' s' ts where r: "tick_loop send_main ?now False (timers tm) s =
        Some (False \<or> due_task_timers ?now (mset (timers tm)) \<noteq> {#}, q', s')"
      "is_heap timer_key q'" "tasks_current (CurrentTask s) s'" "main_inbox s' = main_inbox s @ map timer_message ts"
      "sorted (map timer_key ts)" "mset ts = due_messages ?now (mset (timers tm))"
      "mset q' = after_tick ?now (mset (timers tm))"
    using main_task.tick_loop_ok [of "timers tm" "CurrentTask s" s ?now False] assms now
    by (auto simp: timers_ok_def tasks_current_def)
  have "t \<in># mset q'" using r(7) t(1) \<open>\<not> due ?now t\<close> by (simp add: after_tick_def)
  then have "timers_ok \<lparr>tick = ?now, timers = q'\<rparr>" using r(2) t(2) by (auto simp: timers_ok_def)
  with r show ?thesis by (simp add: Tick_def Let_def tasks_current_def) blast
qed

text \<open>C15: \<open>TimerManager::Tick\<close> fires exactly the timers that are due: it terminates, sends the boot task
  one message per due timer in order of their timeouts, keeps every timer that is not due,
  re-registers a due task timer two ticks ahead, and reports whether there was one. (Until the tick
  counter comes within two of wrapping, 5.8 billion years at 100 Hz.)\<close>

theorem Tick_fires_due_timers:
  assumes "timers_ok tm" and "tasks_ok s" and "unat (tick tm) + 3 < 2 ^ 64"
  shows "\<exists>tm' s' ts. Tick tm s = Some (due_task_timers (tick tm + 1) (mset (timers tm)) \<noteq> {#}, tm', s') \<and>
    tick tm' = tick tm + 1 \<and>
    main_inbox s' = main_inbox s @ map timer_message ts \<and> sorted (map timer_key ts) \<and>
    mset ts = due_messages (tick tm + 1) (mset (timers tm)) \<and>
    mset (timers tm') = after_tick (tick tm + 1) (mset (timers tm))"
  using Tick_ok [OF assms] by blast

definition boot_tasks :: TaskManager where
  "boot_tasks = the (TaskManager_new zero_context zero_context 0 0x1000 0x2000)"

lemma boot_tasks_ok: "tasks_ok boot_tasks"
  unfolding tasks_ok_def boot_tasks_def using boot_reachable by (simp add: TaskManager_new_result)

definition two_timers :: TimerManager where
  "two_timers = AddTimer \<lparr>timeout = 1, tvalue = 10\<rparr> (AddTimer \<lparr>timeout = 2, tvalue = 20\<rparr> TimerManager_new)"

lemma two_timers_ok: "timers_ok two_timers" "tick two_timers = 0"
  by (simp_all add: two_timers_def timers_ok_AddTimer timers_ok_new) (simp add: AddTimer_def TimerManager_new_def)

theorem Tick_fires_due_timers_witness:
  "\<exists>b tm' s'. Tick two_timers boot_tasks = Some (b, tm', s') \<and> tick tm' = 1"
  using Tick_fires_due_timers [OF two_timers_ok(1) boot_tasks_ok] by (auto simp: two_timers_ok(2))

subsection \<open>Preemption\<close>

text \<open>The pending task timers.\<close>

definition task_timers :: "TimerManager \<Rightarrow> Timer multiset" where
  "task_timers tm = {#t \<in># mset (timers tm). is_task_timer t#}"

definition kernel_ok :: "kernel \<Rightarrow> bool" where
  "kernel_ok k \<longleftrightarrow> timers_ok (k_timers k) \<and> tasks_ok (k_tasks k)"

text \<open>The one task timer that \<open>InitializeTask\<close> registered is due in \<open>d\<close> ticks.\<close>

definition preempt_in :: "u64 \<Rightarrow> kernel \<Rightarrow> bool" where
  "preempt_in d k \<longleftrightarrow>
     task_timers (k_timers k) = {#\<lparr>timeout = tick (k_timers k) + d, tvalue = kTaskTimerValue\<rparr>#}"

lemma due_task_timers_filter: "due_task_timers now (mset (timers tm)) = {#t \<in># task_timers tm. due now t#}"
  by (simp add: due_task_timers_def task_timers_def filter_filter_mset conj_commute)

lemma task_timers_after:
  assumes "mset (timers tm') = after_tick now (mset (timers tm))"
  shows "task_timers tm' = {#t \<in># task_timers tm. \<not> due now t#} +
    replicate_mset (size (due_task_timers now (mset (timers tm)))) (task_timer now)"
proof -
  have "filter_mset is_task_timer (replicate_mset n (task_timer now)) = replicate_mset n (task_timer now)" for n
    by (induction n) auto
  then show ?thesis
    by (simp add: task_timers_def assms after_tick_def filter_filter_mset conj_commute)
qed

lemma timer_interrupt_waits:
  assumes "kernel_ok k" and "preempt_in 2 k" and "unat (tick (k_timers k)) + 3 < 2 ^ 64"
  shows "\<exists>k'. LAPICTimerOnInterrupt k = Some k' \<and> kernel_ok k' \<and> preempt_in 1 k' \<and>
    CurrentTask (k_tasks k') = CurrentTask (k_tasks k) \<and> tick (k_timers k') = tick (k_timers k) + 1 \<and>
    end_of_interrupt (k_lapic k') = end_of_interrupt (k_lapic k) + 1"
proof -
  let ?tm = "k_timers k"
  obtain tm' s' where r: "Tick ?tm (k_tasks k) = Some (due_task_timers (tick ?tm + 1) (mset (timers ?tm)) \<noteq> {#}, tm', s')"
      "tick tm' = tick ?tm + 1" "timers_ok tm'" "tasks_ok s'" "CurrentTask s' = CurrentTask (k_tasks k)"
      "mset (timers tm') = after_tick (tick ?tm + 1) (mset (timers ?tm))"
    using Tick_ok [OF _ _ assms(3), of "k_tasks k"] assms(1) by (auto simp: kernel_ok_def)
  have "\<not> due (tick ?tm + 1) \<lparr>timeout = tick ?tm + 2, tvalue = kTaskTimerValue\<rparr>"
    using assms(3) by (simp add: due_def word_le_nat_alt unat_word_ariths)
  then have "due_task_timers (tick ?tm + 1) (mset (timers ?tm)) = {#}"
    using assms(2) by (simp add: due_task_timers_filter preempt_in_def)
  moreover from this have "task_timers tm' = {#\<lparr>timeout = tick ?tm + 2, tvalue = kTaskTimerValue\<rparr>#}"
    using task_timers_after [OF r(6)] \<open>\<not> due _ _\<close> assms(2) by (simp add: preempt_in_def)
  ultimately show ?thesis using r
    by (simp add: LAPICTimerOnInterrupt_def NotifyEndOfInterrupt_def kernel_ok_def preempt_in_def add.assoc)
qed

lemma timer_interrupt_preempts:
  assumes "kernel_ok k" and "preempt_in 1 k" and "unat (tick (k_timers k)) + 3 < 2 ^ 64"
  shows "\<exists>k'. LAPICTimerOnInterrupt k = Some k' \<and> kernel_ok k' \<and> preempt_in 2 k' \<and>
    highest_runs (k_tasks k') \<and> cpu_loaded (k_tasks k') \<and> tick (k_timers k') = tick (k_timers k) + 1 \<and>
    end_of_interrupt (k_lapic k') = end_of_interrupt (k_lapic k) + 1"
proof -
  let ?tm = "k_timers k"
  obtain tm' s' where r: "Tick ?tm (k_tasks k) = Some (due_task_timers (tick ?tm + 1) (mset (timers ?tm)) \<noteq> {#}, tm', s')"
      "tick tm' = tick ?tm + 1" "timers_ok tm'" "tasks_ok s'"
      "mset (timers tm') = after_tick (tick ?tm + 1) (mset (timers ?tm))"
    using Tick_ok [OF _ _ assms(3), of "k_tasks k"] assms(1) by (auto simp: kernel_ok_def)
  have due: "due_task_timers (tick ?tm + 1) (mset (timers ?tm)) = {#\<lparr>timeout = tick ?tm + 1, tvalue = kTaskTimerValue\<rparr>#}"
    using assms(2) by (simp add: due_task_timers_filter preempt_in_def due_def)
  then have tt: "task_timers tm' = {#task_timer (tick tm')#}"
    using task_timers_after [OF r(5)] r(2) assms(2) by (simp add: preempt_in_def due_def)
  have "tm_inv s'" using r(4) tm_reachable_inv by (simp add: tasks_ok_def)
  then obtain s'' where s'': "SwitchTask False s' = Some s''" "highest_runs s''" "cpu_loaded s''"
      "length (tasks s'') = length (tasks s')"
    using SwitchTask_result [of s'] current_queue [of s'] by (metis length_list_update)
  then have "tasks_ok s''" using r(4) tm_reachable.step [of s' op_switch s''] by (simp add: tasks_ok_def)
  with r(1-3) due tt s'' show ?thesis
    by (simp add: LAPICTimerOnInterrupt_def NotifyEndOfInterrupt_def kernel_ok_def preempt_in_def
        task_timer_def kTaskTimerPeriod_def)
qed

text \<open>C16: the timer interrupt preempts the current task at every second tick (20 ms at 100 Hz): of two
  successive interrupts the first leaves the current task running and the second hands the processor
  to a task of the highest level with its saved registers; each acknowledges the interrupt once, and
  afterwards the next preemption is again two ticks ahead.\<close>

theorem preemption_every_second_tick:
  assumes "kernel_ok k" and "preempt_in 2 k" and "unat (tick (k_timers k)) + 4 < 2 ^ 64"
  shows "\<exists>k1 k2. LAPICTimerOnInterrupt k = Some k1 \<and> LAPICTimerOnInterrupt k1 = Some k2 \<and>
    CurrentTask (k_tasks k1) = CurrentTask (k_tasks k) \<and>
    highest_runs (k_tasks k2) \<and> cpu_loaded (k_tasks k2) \<and> kernel_ok k2 \<and> preempt_in 2 k2 \<and>
    end_of_interrupt (k_lapic k2) = end_of_interrupt (k_lapic k) + 2"
proof -
  have bound: "unat (tick (k_timers k)) + 3 < 2 ^ 64" using assms(3) by simp
  from timer_interrupt_waits [OF assms(1,2) bound] obtain k1 where
    k1: "LAPICTimerOnInterrupt k = Some k1" "kernel_ok k1" "preempt_in 1 k1"
      "CurrentTask (k_tasks k1) = CurrentTask (k_tasks k)" "tick (k_timers k1) = tick (k_timers k) + 1"
      "end_of_interrupt (k_lapic k1) = end_of_interrupt (k_lapic k) + 1" by blast
  have "unat (tick (k_timers k1)) + 3 < 2 ^ 64" using assms(3) k1(5) by (simp add: unat_word_ariths)
  from timer_interrupt_preempts [OF k1(2,3) this] k1 show ?thesis by force
qed

definition boot_lapic :: lapic where
  "boot_lapic = \<lparr>lvt_timer = 0, initial_count = 0, divide_config = 0, end_of_interrupt = 0\<rparr>"

definition boot_kernel :: kernel where
  "boot_kernel = (let (s, tm) = the (InitializeTask zero_context zero_context 0 0x1000 0x2000 TimerManager_new)
     in \<lparr>k_timers = tm, k_tasks = s, k_lapic = boot_lapic\<rparr>)"

lemma boot_kernel_ok: "kernel_ok boot_kernel" "preempt_in 2 boot_kernel" "tick (k_timers boot_kernel) = 0"
proof -
  have k: "boot_kernel = \<lparr>k_timers = AddTimer \<lparr>timeout = 2, tvalue = kTaskTimerValue\<rparr> TimerManager_new,
      k_tasks = boot_tasks, k_lapic = boot_lapic\<rparr>"
    by (simp add: boot_kernel_def InitializeTask_def TaskManager_new_result boot_tasks_def TimerManager_new_def kTaskTimerPeriod_def)
  show "kernel_ok boot_kernel" by (simp add: k kernel_ok_def timers_ok_AddTimer timers_ok_new boot_tasks_ok)
  show "tick (k_timers boot_kernel) = 0" by (simp add: k AddTimer_def TimerManager_new_def)
  show "preempt_in 2 boot_kernel"
    using timer_pq.push_elems [of timer_key "timers TimerManager_new"] timers_ok_new
    by (simp add: k preempt_in_def task_timers_def AddTimer_def timers_ok_def)
      (simp add: TimerManager_new_def pq_push_def sift_up.simps is_task_timer_def kTaskTimerValue_def)
qed

theorem preemption_every_second_tick_witness:
  "\<exists>k1 k2. LAPICTimerOnInterrupt boot_kernel = Some k1 \<and> LAPICTimerOnInterrupt k1 = Some k2 \<and> highest_runs (k_tasks k2)"
  using preemption_every_second_tick [OF boot_kernel_ok(1,2)] by (simp add: boot_kernel_ok(3)) blast

end
