(* ===== verification/Pci.thy ===== *)
theory Pci
  imports Kernel_Error
begin

text \<open>
  \<open>src/kernel/pci.hpp\<close> and \<open>pci.cpp\<close>: configuration space accesses, the recursive bus scan,
  base address registers and MSI set-up.

  The hardware is a function \<open>conf\<close> that gives the word read from CONFIG_DATA for each value of
  CONFIG_ADDRESS; the code writes the address right before every data access, so a read is
  \<open>conf\<close> applied to the address. Writes are collected, in order, as pairs of an address and a value; what a
  device does with them is not modelled. The bus scan recurses over buses: the model counts the
  bridges on the path, and is shown never to run out of that count.
\<close>

record ClassCode =
  cc_base :: u8
  cc_sub :: u8
  cc_interface :: u8

record Device =
  bus :: u8
  device :: u8
  func :: u8
  header_type :: u8
  class_code :: ClassCode

type_synonym config_space = "u32 \<Rightarrow> u32"
type_synonym config_write = "u32 \<times> u32"

definition Match1 :: "u8 \<Rightarrow> ClassCode \<Rightarrow> bool" where "Match1 b cc \<longleftrightarrow> b = cc_base cc"
definition Match2 :: "u8 \<Rightarrow> u8 \<Rightarrow> ClassCode \<Rightarrow> bool" where "Match2 b s cc \<longleftrightarrow> Match1 b cc \<and> s = cc_sub cc"
definition Match3 :: "u8 \<Rightarrow> u8 \<Rightarrow> u8 \<Rightarrow> ClassCode \<Rightarrow> bool" where
  "Match3 b s i cc \<longleftrightarrow> Match2 b s cc \<and> i = cc_interface cc"

definition MakeAddress :: "u8 \<Rightarrow> u8 \<Rightarrow> u8 \<Rightarrow> u8 \<Rightarrow> u32" where
  "MakeAddress b d f reg_addr =
     push_bit 31 1 OR push_bit 16 (ucast b) OR push_bit 11 (ucast d) OR push_bit 8 (ucast f)
     OR (ucast reg_addr AND 0xfc)"

definition ReadVendorId :: "config_space \<Rightarrow> u8 \<Rightarrow> u8 \<Rightarrow> u8 \<Rightarrow> u16" where
  "ReadVendorId conf b d f = ucast (conf (MakeAddress b d f 0x00) AND 0xffff)"

definition ReadDeviceId :: "config_space \<Rightarrow> u8 \<Rightarrow> u8 \<Rightarrow> u8 \<Rightarrow> u16" where
  "ReadDeviceId conf b d f = ucast (drop_bit 16 (conf (MakeAddress b d f 0x00)))"

definition ReadHeaderType :: "config_space \<Rightarrow> u8 \<Rightarrow> u8 \<Rightarrow> u8 \<Rightarrow> u8" where
  "ReadHeaderType conf b d f = ucast (drop_bit 16 (conf (MakeAddress b d f 0x0c)) AND 0xff)"

definition ReadClassCode :: "config_space \<Rightarrow> u8 \<Rightarrow> u8 \<Rightarrow> u8 \<Rightarrow> ClassCode" where
  "ReadClassCode conf b d f =
     (let reg = conf (MakeAddress b d f 0x08)
      in \<lparr>cc_base = ucast (drop_bit 24 reg AND 0xff), cc_sub = ucast (drop_bit 16 reg AND 0xff),
          cc_interface = ucast (drop_bit 8 reg AND 0xff)\<rparr>)"

definition ReadBusNumbers :: "config_space \<Rightarrow> u8 \<Rightarrow> u8 \<Rightarrow> u8 \<Rightarrow> u32" where
  "ReadBusNumbers conf b d f = conf (MakeAddress b d f 0x18)"

definition IsSingleFunctionDevice :: "u8 \<Rightarrow> bool" where
  "IsSingleFunctionDevice ht \<longleftrightarrow> ht AND 0x80 = 0"

definition ReadConfReg :: "config_space \<Rightarrow> Device \<Rightarrow> u8 \<Rightarrow> u32" where
  "ReadConfReg conf dev reg_addr = conf (MakeAddress (bus dev) (device dev) (func dev) reg_addr)"

definition WriteConfReg :: "Device \<Rightarrow> u8 \<Rightarrow> u32 \<Rightarrow> config_write" where
  "WriteConfReg dev reg_addr val = (MakeAddress (bus dev) (device dev) (func dev) reg_addr, val)"

subsection \<open>Scanning the buses\<close>

definition kMaxDevices :: nat where "kMaxDevices = 32"

text \<open>\<open>devices\<close> (an array of 32) and \<open>num_device\<close>.\<close>

record pci_state =
  devices :: "Device list"
  num_device :: nat

definition AddDevice :: "Device \<Rightarrow> pci_state \<Rightarrow> (Code \<times> pci_state) option" where
  "AddDevice dev st =
     (if num_device st = length (devices st) then Some (kFull, st)
      else do {
        ds \<leftarrow> arr_set (devices st) (num_device st) dev;
        Some (kSuccess, st\<lparr>devices := ds, num_device := num_device st + 1\<rparr>)
      })"

definition secondary_bus :: "config_space \<Rightarrow> u8 \<Rightarrow> u8 \<Rightarrow> u8 \<Rightarrow> u8" where
  "secondary_bus conf b d f = ucast (drop_bit 8 (ReadBusNumbers conf b d f) AND 0xff)"

text \<open>\<open>ScanFunction\<close>, \<open>ScanDevice\<close> and \<open>ScanBus\<close> call each other; \<open>scan_bus\<close> is the
  recursive call for the bus behind a bridge.\<close>

definition ScanFunction :: "(u8 \<Rightarrow> pci_state \<Rightarrow> (Code \<times> pci_state) option) \<Rightarrow> config_space \<Rightarrow>
    u8 \<Rightarrow> u8 \<Rightarrow> u8 \<Rightarrow> pci_state \<Rightarrow> (Code \<times> pci_state) option" where
  "ScanFunction scan_bus conf b d f st = do {
     let cc = ReadClassCode conf b d f;
     let ht = ReadHeaderType conf b d f;
     (err, st) \<leftarrow> AddDevice \<lparr>bus = b, device = d, func = f, header_type = ht, class_code = cc\<rparr> st;
     if error_bool err then Some (err, st)
     else if Match2 0x06 0x04 cc then scan_bus (secondary_bus conf b d f) st
     else Some (kSuccess, st)
   }"

definition ScanDevice :: "(u8 \<Rightarrow> pci_state \<Rightarrow> (Code \<times> pci_state) option) \<Rightarrow> config_space \<Rightarrow>
    u8 \<Rightarrow> u8 \<Rightarrow> pci_state \<Rightarrow> (Code \<times> pci_state) option" where
  "ScanDevice scan_bus conf b d st = do {
     (err, st) \<leftarrow> ScanFunction scan_bus conf b d 0 st;
     if error_bool err then Some (err, st)
     else if IsSingleFunctionDevice (ReadHeaderType conf b d 0) then Some (kSuccess, st)
     else loopE (\<lambda>f st. if ReadVendorId conf b d f = 0xffff then Some (kSuccess, st)
                       else ScanFunction scan_bus conf b d f st)
            (map of_nat [1..<8]) st
   }"

primrec ScanBus :: "nat \<Rightarrow> config_space \<Rightarrow> u8 \<Rightarrow> pci_state \<Rightarrow> (Code \<times> pci_state) option" where
  "ScanBus 0 conf b st = None"
| "ScanBus (Suc n) conf b st =
     loopE (\<lambda>d st. if ReadVendorId conf b d 0 = 0xffff then Some (kSuccess, st)
                   else ScanDevice (ScanBus n conf) conf b d st)
       (map of_nat [0..<32]) st"

definition ScanAllBus :: "config_space \<Rightarrow> pci_state \<Rightarrow> (Code \<times> pci_state) option" where
  "ScanAllBus conf st = do {
     let st = st\<lparr>num_device := 0\<rparr>;
     let ht = ReadHeaderType conf 0 0 0;
     if IsSingleFunctionDevice ht then ScanBus (kMaxDevices + 1) conf 0 st
     else loopE (\<lambda>f st. if ReadVendorId conf 0 0 f = 0xffff then Some (kSuccess, st)
                       else ScanBus (kMaxDevices + 1) conf f st)
            (map of_nat [0..<8]) st
   }"

text \<open>The rest of \<open>InitializePCI\<close> prints the devices found.\<close>

definition InitializePCI :: "config_space \<Rightarrow> pci_state \<Rightarrow> (Code \<times> pci_state) option" where
  "InitializePCI conf st = ScanAllBus conf st"

subsection \<open>Base addresses and MSI\<close>

definition CalcBarAddress :: "u32 \<Rightarrow> u8" where
  "CalcBarAddress bar_index = ucast (0x10 + 4 * bar_index)"

definition ReadBar :: "config_space \<Rightarrow> Device \<Rightarrow> u32 \<Rightarrow> u64 WithError" where
  "ReadBar conf dev bar_index =
     (if bar_index \<ge> 6 then \<lparr>we_value = 0, we_error = kIndexOutOfRange\<rparr>
      else let addr = CalcBarAddress bar_index; bar = ReadConfReg conf dev addr
        in if bar AND 4 = 0 then \<lparr>we_value = ucast bar, we_error = kSuccess\<rparr>
           else if bar_index \<ge> 5 then \<lparr>we_value = 0, we_error = kIndexOutOfRange\<rparr>
           else let bar_upper = ReadConfReg conf dev (addr + 4)
             in \<lparr>we_value = ucast bar OR push_bit 32 (ucast bar_upper), we_error = kSuccess\<rparr>)"

text \<open>Bit fields of a capability header and of the first word of an MSI capability.\<close>

definition cap_id :: "u32 \<Rightarrow> u32" where "cap_id h = bf_get 0 8 h"
definition next_ptr :: "u32 \<Rightarrow> u8" where "next_ptr h = ucast (bf_get 8 8 h)"
definition msi_enable :: "u32 \<Rightarrow> u32" where "msi_enable h = bf_get 16 1 h"
definition multi_msg_capable :: "u32 \<Rightarrow> u32" where "multi_msg_capable h = bf_get 17 3 h"
definition multi_msg_enable :: "u32 \<Rightarrow> u32" where "multi_msg_enable h = bf_get 20 3 h"
definition addr_64_capable :: "u32 \<Rightarrow> u32" where "addr_64_capable h = bf_get 23 1 h"
definition per_vector_mask_capable :: "u32 \<Rightarrow> u32" where "per_vector_mask_capable h = bf_get 24 1 h"

definition kCapabilityMSI :: u32 where "kCapabilityMSI = 0x05"
definition kCapabilityMSIX :: u32 where "kCapabilityMSIX = 0x11"

definition ReadCapabilityHeader :: "config_space \<Rightarrow> Device \<Rightarrow> u8 \<Rightarrow> u32" where
  "ReadCapabilityHeader conf dev addr = ReadConfReg conf dev addr"

record MSICapability =
  msi_header :: u32
  msg_addr :: u32
  msg_upper_addr :: u32
  msg_data :: u32
  mask_bits :: u32
  pending_bits :: u32

definition msg_data_addr :: "u8 \<Rightarrow> u32 \<Rightarrow> u8" where
  "msg_data_addr cap_addr h = (if addr_64_capable h \<noteq> 0 then cap_addr + 12 else cap_addr + 8)"

definition ReadMSICapability :: "config_space \<Rightarrow> Device \<Rightarrow> u8 \<Rightarrow> MSICapability" where
  "ReadMSICapability conf dev cap_addr =
     (let h = ReadConfReg conf dev cap_addr; da = msg_data_addr cap_addr h
      in \<lparr>msi_header = h, msg_addr = ReadConfReg conf dev (cap_addr + 4),
          msg_upper_addr = (if addr_64_capable h \<noteq> 0 then ReadConfReg conf dev (cap_addr + 8) else 0),
          msg_data = ReadConfReg conf dev da,
          mask_bits = (if per_vector_mask_capable h \<noteq> 0 then ReadConfReg conf dev (da + 4) else 0),
          pending_bits = (if per_vector_mask_capable h \<noteq> 0 then ReadConfReg conf dev (da + 8) else 0)\<rparr>)"

definition WriteMSICapability :: "Device \<Rightarrow> u8 \<Rightarrow> MSICapability \<Rightarrow> config_write list" where
  "WriteMSICapability dev cap_addr msi =
     (let h = msi_header msi; da = msg_data_addr cap_addr h
      in [WriteConfReg dev cap_addr h, WriteConfReg dev (cap_addr + 4) (msg_addr msi)]
         @ (if addr_64_capable h \<noteq> 0 then [WriteConfReg dev (cap_addr + 8) (msg_upper_addr msi)] else [])
         @ [WriteConfReg dev da (msg_data msi)]
         @ (if per_vector_mask_capable h \<noteq> 0
            then [WriteConfReg dev (da + 4) (mask_bits msi), WriteConfReg dev (da + 8) (pending_bits msi)]
            else []))"

definition ConfigureMSIRegister ::
  "config_space \<Rightarrow> Device \<Rightarrow> u8 \<Rightarrow> u32 \<Rightarrow> u32 \<Rightarrow> u32 \<Rightarrow> Code \<times> config_write list" where
  "ConfigureMSIRegister conf dev cap_addr addr data num_vector_exponent =
     (let msi = ReadMSICapability conf dev cap_addr;
          h = msi_header msi;
          h = (if multi_msg_capable h \<le> num_vector_exponent
               then bf_set 20 3 (multi_msg_capable h) h
               else bf_set 20 3 num_vector_exponent h);
          h = bf_set 16 1 1 h;
          msi = msi\<lparr>msi_header := h, msg_addr := addr, msg_data := data\<rparr>
      in (kSuccess, WriteMSICapability dev cap_addr msi))"

definition ConfigureMSIXRegister ::
  "config_space \<Rightarrow> Device \<Rightarrow> u8 \<Rightarrow> u32 \<Rightarrow> u32 \<Rightarrow> u32 \<Rightarrow> Code \<times> config_write list" where
  "ConfigureMSIXRegister conf dev cap_addr addr data num_vector_exponent = (kNotImplemented, [])"

text \<open>The walk along the capability list; \<open>None\<close>: it never ends.\<close>

partial_function (option) find_capabilities ::
  "config_space \<Rightarrow> Device \<Rightarrow> u8 \<Rightarrow> u8 \<Rightarrow> u8 \<Rightarrow> (u8 \<times> u8) option" where
  "find_capabilities conf dev cap_addr msi_cap_addr msix_cap_addr =
     (if cap_addr = 0 then Some (msi_cap_addr, msix_cap_addr)
      else let header = ReadCapabilityHeader conf dev cap_addr
        in if cap_id header = kCapabilityMSI
           then find_capabilities conf dev (next_ptr header) cap_addr msix_cap_addr
           else if cap_id header = kCapabilityMSIX
           then find_capabilities conf dev (next_ptr header) msi_cap_addr cap_addr
           else find_capabilities conf dev (next_ptr header) msi_cap_addr msix_cap_addr)"

definition ConfigureMSI ::
  "config_space \<Rightarrow> Device \<Rightarrow> u32 \<Rightarrow> u32 \<Rightarrow> u32 \<Rightarrow> (Code \<times> config_write list) option" where
  "ConfigureMSI conf dev addr data num_vector_exponent = do {
     let cap_addr = ucast (ReadConfReg conf dev 0x34 AND 0xff);
     (msi_cap_addr, msix_cap_addr) \<leftarrow> find_capabilities conf dev cap_addr 0 0;
     Some (if msi_cap_addr \<noteq> 0 then ConfigureMSIRegister conf dev msi_cap_addr addr data num_vector_exponent
           else if msix_cap_addr \<noteq> 0 then ConfigureMSIXRegister conf dev msix_cap_addr addr data num_vector_exponent
           else (kNoPCIMSI, []))
   }"

datatype MSITriggerMode = kEdge | kLevel
datatype MSIDeliveryMode = kFixed | kLowestPriority | kSMI | kNMI | kINIT | kExtINT

definition delivery_code :: "MSIDeliveryMode \<Rightarrow> u32" where
  "delivery_code m = (case m of kFixed \<Rightarrow> 0b000 | kLowestPriority \<Rightarrow> 0b001 | kSMI \<Rightarrow> 0b010
     | kNMI \<Rightarrow> 0b100 | kINIT \<Rightarrow> 0b101 | kExtINT \<Rightarrow> 0b111)"

definition ConfigureMSIFixedDestination ::
  "config_space \<Rightarrow> Device \<Rightarrow> u8 \<Rightarrow> MSITriggerMode \<Rightarrow> MSIDeliveryMode \<Rightarrow> u8 \<Rightarrow> u32 \<Rightarrow>
    (Code \<times> config_write list) option" where
  "ConfigureMSIFixedDestination conf dev apic_id trigger_mode delivery_mode vec num_vector_exponent =
     (let addr = 0xfee00000 OR push_bit 12 (ucast apic_id);
          data = push_bit 8 (delivery_code delivery_mode) OR ucast vec;
          data = (if trigger_mode = kLevel then data OR 0xc000 else data)
      in ConfigureMSI conf dev addr data num_vector_exponent)"

subsection \<open>The scan returns\<close>

definition pci_ok :: "pci_state \<Rightarrow> bool" where
  "pci_ok st \<longleftrightarrow> length (devices st) = kMaxDevices \<and> num_device st \<le> kMaxDevices"

definition scan_result_ok :: "Code \<Rightarrow> pci_state \<Rightarrow> bool" where
  "scan_result_ok e st \<longleftrightarrow> e = kSuccess \<or> e = kFull \<and> num_device st = kMaxDevices"

text \<open>A scan started with \<open>n\<close> devices recorded returns, and has not removed any.\<close>

definition scans :: "nat \<Rightarrow> (Code \<times> pci_state) option \<Rightarrow> bool" where
  "scans n r \<longleftrightarrow> (\<exists>e st. r = Some (e, st) \<and> (pci_ok st \<and> n \<le> num_device st) \<and> scan_result_ok e st)"

lemma scans_loopE:
  assumes "pci_ok st" and "n \<le> num_device st"
    and "\<And>x st. pci_ok st \<Longrightarrow> n \<le> num_device st \<Longrightarrow> scans n (f x st)"
  shows "scans n (loopE f xs st)"
proof -
  have "\<exists>e s'. loopE f xs st = Some (e, s') \<and> (pci_ok s' \<and> n \<le> num_device s') \<and> scan_result_ok e s'"
    by (rule loopE_invariant) (use assms in \<open>auto simp: scans_def scan_result_ok_def\<close>)
  then show ?thesis by (auto simp: scans_def)
qed

lemma scans_weaken: "scans m r \<Longrightarrow> n \<le> m \<Longrightarrow> scans n r"
  by (auto simp: scans_def)

lemma scans_ScanFunction:
  assumes ok: "pci_ok st" and n: "n \<le> num_device st"
    and rec: "\<And>b st. pci_ok st \<Longrightarrow> n < num_device st \<Longrightarrow> scans (Suc n) (scan_bus b st)"
  shows "scans n (ScanFunction scan_bus conf b d f st)"
proof (cases "num_device st = kMaxDevices")
  case True
  with assms show ?thesis
    by (auto simp: ScanFunction_def AddDevice_def Let_def scans_def scan_result_ok_def pci_ok_def)
next
  case False
  let ?st = "st\<lparr>devices := (devices st)[num_device st := \<lparr>bus = b, device = d, func = f,
      header_type = ReadHeaderType conf b d f, class_code = ReadClassCode conf b d f\<rparr>], num_device := num_device st + 1\<rparr>"
  have st: "pci_ok ?st" "n < num_device ?st" using ok n False by (auto simp: pci_ok_def)
  have "scans n (scan_bus (secondary_bus conf b d f) ?st)"
    using rec [OF st, of "secondary_bus conf b d f"] by (rule scans_weaken) simp
  moreover have "scans n (Some (kSuccess, ?st))" using st by (simp add: scans_def scan_result_ok_def)
  moreover have "ScanFunction scan_bus conf b d f st = (if Match2 0x06 0x04 (ReadClassCode conf b d f)
      then scan_bus (secondary_bus conf b d f) ?st else Some (kSuccess, ?st))"
    using ok False by (simp add: ScanFunction_def AddDevice_def Let_def pci_ok_def arr_set_def)
  ultimately show ?thesis by simp
qed

lemma scans_ScanDevice:
  assumes ok: "pci_ok st" and n: "n \<le> num_device st"
    and rec: "\<And>b st. pci_ok st \<Longrightarrow> n < num_device st \<Longrightarrow> scans (Suc n) (scan_bus b st)"
  shows "scans n (ScanDevice scan_bus conf b d st)"
proof -
  have SF: "scans n (ScanFunction scan_bus conf b d f st)" if "pci_ok st" "n \<le> num_device st" for f st
    using that rec by (rule scans_ScanFunction)
  obtain e st1 where st1: "ScanFunction scan_bus conf b d 0 st = Some (e, st1)" "pci_ok st1" "n \<le> num_device st1"
      "scan_result_ok e st1"
    using SF [OF ok n, of 0] by (auto simp: scans_def)
  have "scans n (loopE (\<lambda>f st. if ReadVendorId conf b d f = 0xffff then Some (kSuccess, st)
      else ScanFunction scan_bus conf b d f st) (map of_nat [1..<8]) st1)"
    using st1(2,3) by (rule scans_loopE)
      (use SF in \<open>auto simp: scans_def scan_result_ok_def\<close>)
  with st1 show ?thesis by (auto simp: ScanDevice_def scans_def scan_result_ok_def)
qed

lemma scans_ScanBus:
  assumes "pci_ok st" and "k \<le> num_device st" and "kMaxDevices < n + k"
  shows "scans k (ScanBus n conf b st)"
  using assms
proof (induction n arbitrary: k b st)
  case 0
  then show ?case by (auto simp: pci_ok_def)
next
  case (Suc n)
  have rec: "scans (Suc k) (ScanBus n conf b st)" if "pci_ok st" "k < num_device st" for b st
    using that Suc.prems(3) by (intro Suc.IH) auto
  have SD: "scans k (ScanDevice (ScanBus n conf) conf b d st)" if "pci_ok st" "k \<le> num_device st" for d st
    using that rec by (rule scans_ScanDevice)
  show ?case unfolding ScanBus.simps
    by (rule scans_loopE [OF Suc.prems(1,2)])
      (use SD in \<open>auto simp: scans_def scan_result_ok_def\<close>)
qed

subsection \<open>What the scan finds\<close>

text \<open>The functions that exist on a bus, and those on it and on the buses behind its bridges.\<close>

definition function_at :: "config_space \<Rightarrow> u8 \<times> u8 \<times> u8 \<Rightarrow> Device" where
  "function_at conf x = (case x of (b, d, f) \<Rightarrow> \<lparr>bus = b, device = d, func = f,
     header_type = ReadHeaderType conf b d f, class_code = ReadClassCode conf b d f\<rparr>)"

definition present :: "config_space \<Rightarrow> u8 \<Rightarrow> u8 \<Rightarrow> u8 \<Rightarrow> bool" where
  "present conf b d f \<longleftrightarrow> unat d < 32 \<and> ReadVendorId conf b d 0 \<noteq> 0xffff \<and>
     (f = 0 \<or> unat f < 8 \<and> \<not> IsSingleFunctionDevice (ReadHeaderType conf b d 0) \<and> ReadVendorId conf b d f \<noteq> 0xffff)"

definition is_bridge :: "config_space \<Rightarrow> u8 \<Rightarrow> u8 \<Rightarrow> u8 \<Rightarrow> bool" where
  "is_bridge conf b d f \<longleftrightarrow> Match2 0x06 0x04 (ReadClassCode conf b d f)"

inductive below :: "config_space \<Rightarrow> u8 \<Rightarrow> u8 \<times> u8 \<times> u8 \<Rightarrow> bool" for conf where
  here: "present conf b d f \<Longrightarrow> below conf b (b, d, f)"
| behind: "present conf b d f \<Longrightarrow> is_bridge conf b d f \<Longrightarrow> below conf (secondary_bus conf b d f) x \<Longrightarrow> below conf b x"

inductive_cases belowE: "below conf b x"

definition found :: "pci_state \<Rightarrow> Device list" where
  "found st = take (num_device st) (devices st)"

text \<open>A scan only appends, and only functions at or below the bus.\<close>

definition scanned :: "config_space \<Rightarrow> u8 \<Rightarrow> pci_state \<Rightarrow> pci_state \<Rightarrow> bool" where
  "scanned conf b st st' \<longleftrightarrow> (\<exists>xs. found st' = found st @ map (function_at conf) xs \<and> (\<forall>x \<in> set xs. below conf b x))"

lemma scanned_refl: "scanned conf b st st"
  by (auto simp: scanned_def intro: exI [of _ "[]"])

lemma scanned_trans: "scanned conf b s1 s2 \<Longrightarrow> scanned conf b s2 s3 \<Longrightarrow> scanned conf b s1 s3"
  unfolding scanned_def by (metis (no_types, lifting) Un_iff append.assoc map_append set_append)

lemma scanned_found: "scanned conf b st st' \<Longrightarrow> set (found st) \<subseteq> set (found st')"
  by (auto simp: scanned_def)

lemma of_nat_range_u8: "m \<le> 256 \<Longrightarrow> x \<in> set (map of_nat [k..<m]) \<longleftrightarrow> k \<le> unat (x :: u8) \<and> unat x < m"
proof
  assume m: "m \<le> 256" and "x \<in> set (map of_nat [k..<m])"
  then obtain i where i: "x = of_nat i" "k \<le> i" "i < m" by auto
  then have "unat x = i" using m by (simp only: unsigned_of_nat) (simp add: take_bit_eq_mod)
  with i show "k \<le> unat x \<and> unat x < m" by simp
next
  assume "k \<le> unat x \<and> unat x < m"
  then have "unat x \<in> set [k..<m]" by simp
  then have "of_nat (unat x) \<in> set (map of_nat [k..<m] :: u8 list)" by (simp only: set_map image_eqI)
  then show "x \<in> set (map of_nat [k..<m])" by simp
qed

lemma AddDevice_success:
  assumes "AddDevice dev st = Some (e, st')"
  shows "if e = kSuccess then found st' = found st @ [dev] else st' = st"
proof (cases "num_device st = length (devices st)")
  case False
  with assms have "num_device st < length (devices st)" "e = kSuccess"
      "st' = st\<lparr>devices := (devices st)[num_device st := dev], num_device := num_device st + 1\<rparr>"
    by (auto simp: AddDevice_def arr_set_def split: if_splits)
  then show ?thesis by (simp add: found_def take_Suc_conv_app_nth)
qed (use assms in \<open>auto simp: AddDevice_def\<close>)

lemma ScanFunction_step:
  assumes run: "ScanFunction scan_bus conf b d f st = Some (e, st')" and pres: "present conf b d f"
    and rec: "\<forall>b st e st'. scan_bus b st = Some (e, st') \<longrightarrow> scanned conf b st st'"
  shows "scanned conf b st st' \<and> (e = kSuccess \<longrightarrow> function_at conf (b, d, f) \<in> set (found st') \<and>
    (is_bridge conf b d f \<longrightarrow> (\<exists>st1. scan_bus (secondary_bus conf b d f) st1 = Some (kSuccess, st'))))"
proof -
  let ?dev = "function_at conf (b, d, f)" and ?sec = "secondary_bus conf b d f"
  obtain e1 st1 where st1: "AddDevice ?dev st = Some (e1, st1)"
      "(if error_bool e1 then Some (e1, st1) else if Match2 0x06 0x04 (ReadClassCode conf b d f)
        then scan_bus ?sec st1 else Some (kSuccess, st1)) = Some (e, st')"
    using run by (auto simp: ScanFunction_def Let_def function_at_def split: Option.bind_splits)
  have add: "scanned conf b st st1" "e1 = kSuccess \<longrightarrow> ?dev \<in> set (found st1)"
    using AddDevice_success [OF st1(1)] below.here [OF pres] scanned_refl
    by (auto simp: scanned_def intro: exI [of _ "[(b, d, f)]"] split: if_splits)
  consider "e1 \<noteq> kSuccess" | "e1 = kSuccess" "\<not> is_bridge conf b d f" | "e1 = kSuccess" "is_bridge conf b d f" by blast
  then show ?thesis
  proof cases
    case 3
    then have r: "scan_bus ?sec st1 = Some (e, st')" using st1(2) by (simp add: is_bridge_def)
    have "scanned conf ?sec st1 st'" using rec r by blast
    then have "scanned conf b st1 st'" using below.behind [OF pres 3(2)] by (auto simp: scanned_def)
    moreover from this have "?dev \<in> set (found st')" using add(2) 3(1) scanned_found by blast
    ultimately show ?thesis using add(1) r by (blast intro: scanned_trans)
  qed (use st1(2) add in \<open>auto simp: is_bridge_def\<close>)
qed

text \<open>A function was recorded, and the bus behind it scanned, before \<open>st\<close>.\<close>

definition covered :: "(u8 \<Rightarrow> pci_state \<Rightarrow> (Code \<times> pci_state) option) \<Rightarrow> config_space \<Rightarrow>
    u8 \<Rightarrow> u8 \<Rightarrow> u8 \<Rightarrow> pci_state \<Rightarrow> bool" where
  "covered scan_bus conf b d f st \<longleftrightarrow> (\<exists>st2. scanned conf b st2 st \<and> function_at conf (b, d, f) \<in> set (found st2) \<and>
     (is_bridge conf b d f \<longrightarrow> (\<exists>st1. scan_bus (secondary_bus conf b d f) st1 = Some (kSuccess, st2))))"

lemma covered_later: "covered sb conf b d f st \<Longrightarrow> scanned conf b st st' \<Longrightarrow> covered sb conf b d f st'"
  unfolding covered_def by (blast intro: scanned_trans)

lemma ScanFunction_covers:
  assumes "ScanFunction scan_bus conf b d f st = Some (e, st')" and "present conf b d f"
    and "\<forall>b st e st'. scan_bus b st = Some (e, st') \<longrightarrow> scanned conf b st st'"
  shows "scanned conf b st st'" and "e = kSuccess \<Longrightarrow> covered scan_bus conf b d f st'"
  using ScanFunction_step [OF assms] scanned_refl by (auto simp: covered_def)

lemma ScanDevice_covers:
  assumes run: "ScanDevice scan_bus conf b d st = Some (e, st')"
    and dev: "unat d < 32" "ReadVendorId conf b d 0 \<noteq> 0xffff"
    and rec: "\<forall>b st e st'. scan_bus b st = Some (e, st') \<longrightarrow> scanned conf b st st'"
  shows "scanned conf b st st'" and "e = kSuccess \<Longrightarrow> present conf b d f \<Longrightarrow> covered scan_bus conf b d f st'"
proof -
  have p0: "present conf b d 0" using dev by (simp add: present_def)
  let ?body = "\<lambda>f st. if ReadVendorId conf b d f = 0xffff then Some (kSuccess, st) else ScanFunction scan_bus conf b d f st"
  let ?fs = "map of_nat [1..<8] :: u8 list"
  obtain e1 st1 where st1: "ScanFunction scan_bus conf b d 0 st = Some (e1, st1)"
      "(if error_bool e1 then Some (e1, st1) else if IsSingleFunctionDevice (ReadHeaderType conf b d 0) then Some (kSuccess, st1)
        else loopE ?body ?fs st1) = Some (e, st')"
    using run by (auto simp: ScanDevice_def split: Option.bind_splits)
  note c0 = ScanFunction_covers [OF st1(1) p0 rec]
  have step: "scanned conf b s s'" if "f \<in> set ?fs" "?body f s = Some (e, s')"
      "\<not> IsSingleFunctionDevice (ReadHeaderType conf b d 0)" for f s e s'
  proof (cases "ReadVendorId conf b d f = 0xffff")
    case False
    have "1 \<le> unat f \<and> unat f < 8" using that(1) of_nat_range_u8 [of 8 f 1] by simp
    with False that dev have "present conf b d f" "ScanFunction scan_bus conf b d f s = Some (e, s')"
      by (auto simp: present_def)
    then show ?thesis using ScanFunction_covers(1) rec by blast
  qed (use that scanned_refl in auto)
  show "scanned conf b st st'"
  proof (cases "e1 = kSuccess \<and> \<not> IsSingleFunctionDevice (ReadHeaderType conf b d 0)")
    case True
    then have "loopE ?body ?fs st1 = Some (e, st')" using st1(2) by simp
    then have "scanned conf b st1 st'"
      by (rule loopE_relation) (use True step scanned_refl scanned_trans in blast)+
    with c0(1) show ?thesis by (rule scanned_trans)
  qed (use st1(2) c0(1) in \<open>auto split: if_splits\<close>)
  assume e: "e = kSuccess" and pres: "present conf b d f"
  have e1: "e1 = kSuccess" using st1(2) e by (auto simp: error_bool_def split: if_splits)
  show "covered scan_bus conf b d f st'"
  proof (cases "IsSingleFunctionDevice (ReadHeaderType conf b d 0)")
    case True
    with pres st1(2) e1 c0(2) show ?thesis by (auto simp: present_def)
  next
    case False
    then have run: "loopE ?body ?fs st1 = Some (kSuccess, st')" using st1(2) e e1 by simp
    have all: "scanned conf b st1 st' \<and> (\<forall>f \<in> set ?fs. \<exists>s1 s2. ?body f s1 = Some (kSuccess, s2) \<and> scanned conf b s2 st')"
      using run by (rule loopE_success) (use False step scanned_refl scanned_trans in blast)+
    show ?thesis
    proof (cases "f = 0")
      case True
      with c0(2) e1 all show ?thesis by (blast intro: covered_later)
    next
      case nz: False
      then have f: "f \<in> set ?fs" "ReadVendorId conf b d f \<noteq> 0xffff"
        using pres of_nat_range_u8 [of 8 f 1] unat_gt_0 [of f] by (auto simp: present_def)
      then obtain s1 s2 where "ScanFunction scan_bus conf b d f s1 = Some (kSuccess, s2)" "scanned conf b s2 st'"
        using all by fastforce
      then show ?thesis using ScanFunction_covers(2) [OF _ pres rec] by (blast intro: covered_later)
    qed
  qed
qed

lemma ScanBus_body:
  assumes d: "d \<in> set (map of_nat [0..<32])"
    and run: "(if ReadVendorId conf b d 0 = 0xffff then Some (kSuccess, s) else ScanDevice sb conf b d s) = Some (e, s')"
    and rec: "\<forall>b st e st'. sb b st = Some (e, st') \<longrightarrow> scanned conf b st st'"
  shows "scanned conf b s s'" and "e = kSuccess \<Longrightarrow> present conf b d f \<Longrightarrow> covered sb conf b d f s'"
proof -
  have lt: "unat d < 32" using d of_nat_range_u8 [of 32 d 0] by simp
  show "scanned conf b s s'"
    using run ScanDevice_covers(1) [OF _ lt _ rec, of b s e s'] scanned_refl by (auto split: if_splits)
  show "covered sb conf b d f s'" if "e = kSuccess" "present conf b d f"
    using that run ScanDevice_covers(2) [OF _ lt _ rec, of b s e s' f] by (auto simp: present_def split: if_splits)
qed

lemma ScanBus_scanned: "ScanBus n conf b st = Some (e, st') \<Longrightarrow> scanned conf b st st'"
proof (induction n arbitrary: b st e st')
  case (Suc n)
  have rec: "\<forall>b st e st'. ScanBus n conf b st = Some (e, st') \<longrightarrow> scanned conf b st st'" using Suc.IH by blast
  from Suc.prems show ?case unfolding ScanBus.simps
    by (rule loopE_relation) (use ScanBus_body(1) [OF _ _ rec] scanned_refl scanned_trans in blast)+
qed simp

lemma ScanBus_complete:
  "ScanBus n conf b st = Some (kSuccess, st') \<Longrightarrow> below conf b x \<Longrightarrow> function_at conf x \<in> set (found st')"
proof (induction n arbitrary: b st st' x)
  case (Suc n)
  have rec: "\<forall>b st e st'. ScanBus n conf b st = Some (e, st') \<longrightarrow> scanned conf b st st'" using ScanBus_scanned by blast
  let ?body = "\<lambda>d st. if ReadVendorId conf b d 0 = 0xffff then Some (kSuccess, st) else ScanDevice (ScanBus n conf) conf b d st"
  have all: "scanned conf b st st' \<and> (\<forall>d \<in> set (map of_nat [0..<32]). \<exists>s1 s2. ?body d s1 = Some (kSuccess, s2) \<and> scanned conf b s2 st')"
    using Suc.prems(1) unfolding ScanBus.simps
    by (rule loopE_success) (use ScanBus_body(1) [OF _ _ rec] scanned_refl scanned_trans in blast)+
  have cov: "covered (ScanBus n conf) conf b d f st'" if "present conf b d f" for d f
  proof -
    have d: "d \<in> set (map of_nat [0..<32])" using that of_nat_range_u8 [of 32 d 0] by (simp add: present_def)
    then obtain s1 s2 where "?body d s1 = Some (kSuccess, s2)" "scanned conf b s2 st'" using all by blast
    then show ?thesis using ScanBus_body(2) [OF d _ rec _ that] by (blast intro: covered_later)
  qed
  from Suc.prems(2) show ?case
  proof (cases rule: below.cases)
    case (here d f)
    with cov scanned_found show ?thesis by (fastforce simp: covered_def)
  next
    case (behind d f)
    then obtain s1 s2 where s2: "ScanBus n conf (secondary_bus conf b d f) s1 = Some (kSuccess, s2)" "scanned conf b s2 st'"
      using cov by (force simp: covered_def)
    from Suc.IH [OF s2(1) behind(3)] show ?thesis using scanned_found [OF s2(2)] by blast
  qed
qed simp

text \<open>The buses a scan starts from.\<close>

definition root_buses :: "config_space \<Rightarrow> u8 set" where
  "root_buses conf = (if IsSingleFunctionDevice (ReadHeaderType conf 0 0 0) then {0}
     else {f. unat f < 8 \<and> ReadVendorId conf 0 0 f \<noteq> 0xffff})"

definition rooted :: "config_space \<Rightarrow> pci_state \<Rightarrow> pci_state \<Rightarrow> bool" where
  "rooted conf st st' \<longleftrightarrow> set (found st) \<subseteq> set (found st') \<and>
     set (found st') \<subseteq> set (found st) \<union> function_at conf ` {x. \<exists>b \<in> root_buses conf. below conf b x}"

lemma rooted_scanned: "b \<in> root_buses conf \<Longrightarrow> scanned conf b st st' \<Longrightarrow> rooted conf st st'"
  unfolding rooted_def scanned_def by (elim exE conjE) (simp, blast)

lemma rooted_refl: "rooted conf st st"
  by (simp add: rooted_def)

lemma rooted_trans: "rooted conf a b \<Longrightarrow> rooted conf b c \<Longrightarrow> rooted conf a c"
  by (auto simp: rooted_def)

lemma ScanAllBus_returns:
  assumes "length (devices st) = kMaxDevices"
  shows "scans 0 (ScanAllBus conf st)"
proof -
  let ?st = "st\<lparr>num_device := 0\<rparr>"
  have ok: "pci_ok ?st" using assms by (simp add: pci_ok_def)
  have bus: "scans 0 (ScanBus (kMaxDevices + 1) conf b s)" if "pci_ok s" for b s
    using that by (intro scans_ScanBus) auto
  have "scans 0 (loopE (\<lambda>f st. if ReadVendorId conf 0 0 f = 0xffff then Some (kSuccess, st)
      else ScanBus (kMaxDevices + 1) conf f st) (map of_nat [0..<8]) ?st)"
    by (rule scans_loopE [OF ok]) (use bus in \<open>auto simp: scans_def scan_result_ok_def\<close>)
  with bus [OF ok] show ?thesis by (simp add: ScanAllBus_def Let_def)
qed

lemma ScanAllBus_finds:
  assumes "ScanAllBus conf st = Some (kSuccess, st')"
  shows "set (found st') = function_at conf ` {x. \<exists>b \<in> root_buses conf. below conf b x}"
proof -
  let ?st = "st\<lparr>num_device := 0\<rparr>" and ?n = "kMaxDevices + 1"
  have empty: "found ?st = []" by (simp add: found_def)
  have "rooted conf ?st st' \<and> (\<forall>b \<in> root_buses conf. \<exists>s1 s2. ScanBus ?n conf b s1 = Some (kSuccess, s2) \<and> rooted conf s2 st')"
  proof (cases "IsSingleFunctionDevice (ReadHeaderType conf 0 0 0)")
    case True
    then have "ScanBus ?n conf 0 ?st = Some (kSuccess, st')" "root_buses conf = {0}"
      using assms by (simp_all add: ScanAllBus_def Let_def root_buses_def)
    then show ?thesis using ScanBus_scanned rooted_scanned [of 0 conf] rooted_refl by (metis insertI1 singletonD)
  next
    case False
    let ?body = "\<lambda>f st. if ReadVendorId conf 0 0 f = 0xffff then Some (kSuccess, st) else ScanBus ?n conf f st"
    have roots: "root_buses conf = {f \<in> set (map of_nat [0..<8]). ReadVendorId conf 0 0 f \<noteq> 0xffff}"
      using False of_nat_range_u8 [of 8 _ 0] by (auto simp: root_buses_def)
    have "loopE ?body (map of_nat [0..<8]) ?st = Some (kSuccess, st')"
      using assms False by (simp add: ScanAllBus_def Let_def)
    then have "rooted conf ?st st' \<and> (\<forall>f \<in> set (map of_nat [0..<8]). \<exists>s1 s2. ?body f s1 = Some (kSuccess, s2) \<and> rooted conf s2 st')"
    proof (rule loopE_success)
      fix f s e s' assume "f \<in> set (map of_nat [0..<8])" "?body f s = Some (e, s')"
      then show "rooted conf s s'"
        using ScanBus_scanned rooted_scanned [of f conf s s'] rooted_refl roots by (auto split: if_splits)
    qed (use rooted_refl rooted_trans in blast)+
    then show ?thesis unfolding roots by fastforce
  qed
  moreover have "function_at conf x \<in> set (found st')"
    if "ScanBus ?n conf b s1 = Some (kSuccess, s2)" "rooted conf s2 st'" "below conf b x" for b s1 s2 x
    using ScanBus_complete [OF that(1,3)] that(2) by (auto simp: rooted_def)
  ultimately show ?thesis using empty unfolding rooted_def by fastforce
qed

text \<open>C30: the recursive PCI scan always returns, whatever the configuration space holds (bridges that
  form a cycle included), never overruns its 32 entries, and reports \<open>kFull\<close> only when the table is
  full. If it reports \<open>kSuccess\<close>, the table lists exactly the functions that exist on the root buses
  and on the buses behind their bridges.\<close>

theorem ScanAllBus_correct:
  assumes "length (devices st) = kMaxDevices"
  shows "\<exists>e st'. ScanAllBus conf st = Some (e, st') \<and> num_device st' \<le> kMaxDevices \<and>
    (e = kSuccess \<or> e = kFull \<and> num_device st' = kMaxDevices) \<and>
    (e = kSuccess \<longrightarrow> set (found st') = function_at conf ` {x. \<exists>b \<in> root_buses conf. below conf b x})"
  using ScanAllBus_returns [OF assms, of conf] ScanAllBus_finds [of conf st]
  by (fastforce simp: scans_def scan_result_ok_def pci_ok_def)

text \<open>A machine with one device on bus 0: all other addresses read as all ones.\<close>

definition example_conf :: config_space where
  "example_conf a = (if a = MakeAddress 0 3 0 0x00 then 0x12348086
     else if a = MakeAddress 0 3 0 0x08 then 0x0c033000 else if a = MakeAddress 0 0 0 0x0c then 0
     else if a = MakeAddress 0 3 0 0x0c then 0 else 0xffffffff)"

definition example_pci :: pci_state where
  "example_pci = \<lparr>devices = replicate kMaxDevices \<lparr>bus = 0, device = 0, func = 0, header_type = 0,
     class_code = \<lparr>cc_base = 0, cc_sub = 0, cc_interface = 0\<rparr>\<rparr>, num_device = 0\<rparr>"

theorem ScanAllBus_correct_witness:
  "\<exists>e st'. ScanAllBus example_conf example_pci = Some (e, st') \<and> num_device st' \<le> kMaxDevices"
  using ScanAllBus_correct [of example_pci example_conf] by (auto simp: example_pci_def)

subsection \<open>Addresses, base address registers and MSI\<close>

lemma bit_fc: "bit (0xfc :: u32) k \<longleftrightarrow> 2 \<le> k \<and> k < 8"
proof -
  have *: "(0xfc :: u32) = mask 8 AND NOT (mask 2)" by (simp add: mask_eq_exp_minus_1)
  show ?thesis unfolding * by (auto simp: bit_simps)
qed

lemma bit_MakeAddress:
  "bit (MakeAddress b d f r) k \<longleftrightarrow> k = 31 \<or> 16 \<le> k \<and> k < 32 \<and> bit b (k - 16) \<or>
     11 \<le> k \<and> k < 32 \<and> bit d (k - 11) \<or> 8 \<le> k \<and> k < 32 \<and> bit f (k - 8) \<or> 2 \<le> k \<and> k < 8 \<and> bit r k"
  unfolding MakeAddress_def bit_or_iff bit_and_iff bit_fc bit_push_bit_iff bit_unsigned_iff bit_1_iff
    possible_bit_word
  by auto

text \<open>the CONFIG_ADDRESS word identifies its target: for device and function numbers within their
  ranges the bus, device, function and (aligned) register number are read back from their bit
  fields, so two different registers are never confused.\<close>

theorem MakeAddress_roundtrip:
  assumes "unat d < 32" and "unat f < 8"
  shows "bf_get 16 8 (MakeAddress b d f r) = ucast b \<and> bf_get 11 5 (MakeAddress b d f r) = ucast d \<and>
    bf_get 8 3 (MakeAddress b d f r) = ucast f \<and> bf_get 0 8 (MakeAddress b d f r) = ucast r AND 0xfc \<and>
    bit (MakeAddress b d f r) 31"
proof -
  have d: "bit d k \<Longrightarrow> k < 5" for k using word_high_bit [of d 5 k] assms(1) by simp
  have f: "bit f k \<Longrightarrow> k < 3" for k using word_high_bit [of f 3 k] assms(2) by simp
  have b: "bit b k \<Longrightarrow> k < 8" for k using bit_imp_le_length by fastforce
  let ?w = "MakeAddress b d f r"
  have "bf_get 16 8 ?w = ucast b"
    by (rule bit_word_eqI) (auto simp: bit_bf_get bit_MakeAddress bit_simps dest: d f b)
  moreover have "bf_get 11 5 ?w = ucast d"
    by (rule bit_word_eqI) (auto simp: bit_bf_get bit_MakeAddress bit_simps dest: d f b)
  moreover have "bf_get 8 3 ?w = ucast f"
    by (rule bit_word_eqI) (auto simp: bit_bf_get bit_MakeAddress bit_simps dest: d f b)
  moreover have "bf_get 0 8 ?w = ucast r AND 0xfc"
    by (rule bit_word_eqI, unfold bit_bf_get bit_MakeAddress bit_and_iff bit_fc)
      (auto simp: bit_simps)
  ultimately show ?thesis by (simp add: bit_MakeAddress)
qed

theorem MakeAddress_roundtrip_witness: "bf_get 11 5 (MakeAddress 2 17 5 0x34) = (17 :: u32)"
  using MakeAddress_roundtrip [of 17 5 2 "0x34"] by simp

text \<open>A capability list that ends: the addresses visited from \<open>a\<close>.\<close>

fun capability_chain :: "config_space \<Rightarrow> Device \<Rightarrow> u8 \<Rightarrow> u8 list \<Rightarrow> bool" where
  "capability_chain conf dev a [] \<longleftrightarrow> a = 0"
| "capability_chain conf dev a (x # xs) \<longleftrightarrow>
     a \<noteq> 0 \<and> x = a \<and> capability_chain conf dev (next_ptr (ReadCapabilityHeader conf dev a)) xs"

definition last_capability :: "config_space \<Rightarrow> Device \<Rightarrow> u32 \<Rightarrow> u8 list \<Rightarrow> u8 \<Rightarrow> u8" where
  "last_capability conf dev i xs dflt =
     (case filter (\<lambda>a. cap_id (ReadCapabilityHeader conf dev a) = i) xs of [] \<Rightarrow> dflt | ys \<Rightarrow> last ys)"

lemma last_capability_Cons:
  "last_capability conf dev i (x # xs) dflt =
     last_capability conf dev i xs (if cap_id (ReadCapabilityHeader conf dev x) = i then x else dflt)"
  by (auto simp: last_capability_def split: list.splits)

lemma find_capabilities_chain:
  "capability_chain conf dev a xs \<Longrightarrow> find_capabilities conf dev a m mx =
     Some (last_capability conf dev kCapabilityMSI xs m, last_capability conf dev kCapabilityMSIX xs mx)"
proof (induction xs arbitrary: a m mx)
  case Nil
  then show ?case by (simp add: find_capabilities.simps last_capability_def)
next
  case (Cons x xs)
  then show ?case
    by (subst find_capabilities.simps)
       (auto simp: last_capability_Cons Let_def kCapabilityMSI_def kCapabilityMSIX_def)
qed

text \<open>A capability that points back to itself: the walk never ends.\<close>

lemma find_capabilities_cycle:
  assumes "a \<noteq> 0" and "next_ptr (ReadCapabilityHeader conf dev a) = a"
  shows "find_capabilities conf dev a m mx = None"
proof -
  have "a = 0 \<or> next_ptr (ReadCapabilityHeader conf dev a) \<noteq> a"
    if "find_capabilities conf dev a m mx = Some r" for r
  proof (rule find_capabilities.raw_induct [where P = "\<lambda>conf dev a m mx r. a = 0 \<or> next_ptr (ReadCapabilityHeader conf dev a) \<noteq> a", OF _ that])
    fix f conf dev a m mx r
    assume IH: "\<And>conf dev a m mx r. f conf dev a m mx = Some r \<Longrightarrow> a = 0 \<or> next_ptr (ReadCapabilityHeader conf dev a) \<noteq> a"
      and run: "(if a = 0 then Some (m, mx)
        else let header = ReadCapabilityHeader conf dev a
          in if cap_id header = kCapabilityMSI then f conf dev (next_ptr header) a mx
             else if cap_id header = kCapabilityMSIX then f conf dev (next_ptr header) m a
             else f conf dev (next_ptr header) m mx) = Some r"
    show "a = 0 \<or> next_ptr (ReadCapabilityHeader conf dev a) \<noteq> a"
    proof (rule ccontr)
      assume "\<not> ?thesis"
      then have a: "a \<noteq> 0" "next_ptr (ReadCapabilityHeader conf dev a) = a" by auto
      with run obtain m mx where "f conf dev a m mx = Some r" by (auto simp: Let_def split: if_splits)
      with IH a show False by blast
    qed
  qed
  with assms show ?thesis by (cases "find_capabilities conf dev a m mx") auto
qed

text \<open>C31: MSI set-up writes the capability it found last on the capability list: it enables MSI, never
  enables more vectors than the device offers or the caller asked for, stores the message address and
  data in the registers that the device's 64-bit flag selects, and leaves the other header fields as
  they were. Without an MSI capability nothing is written.\<close>

theorem ConfigureMSI_programs_device:
  assumes "capability_chain conf dev (ucast (ReadConfReg conf dev 0x34 AND 0xff)) xs"
    and "c = last_capability conf dev kCapabilityMSI xs 0" and "h = ReadConfReg conf dev c"
    and "num_vector_exponent < 8"
  shows "\<exists>err ws. ConfigureMSI conf dev addr data num_vector_exponent = Some (err, ws) \<and>
    (c = 0 \<longrightarrow> ws = [] \<and> err \<noteq> kSuccess) \<and>
    (c \<noteq> 0 \<longrightarrow> err = kSuccess \<and> (\<exists>h'. hd ws = WriteConfReg dev c h' \<and> msi_enable h' = 1 \<and>
       multi_msg_enable h' = min (multi_msg_capable h) num_vector_exponent \<and>
       cap_id h' = cap_id h \<and> next_ptr h' = next_ptr h \<and> addr_64_capable h' = addr_64_capable h) \<and>
       WriteConfReg dev (c + 4) addr \<in> set ws \<and> WriteConfReg dev (msg_data_addr c h) data \<in> set ws)"
proof -
  let ?x = "last_capability conf dev kCapabilityMSIX xs 0"
  have run: "ConfigureMSI conf dev addr data num_vector_exponent =
      Some (if c \<noteq> 0 then ConfigureMSIRegister conf dev c addr data num_vector_exponent
        else if ?x \<noteq> 0 then ConfigureMSIXRegister conf dev ?x addr data num_vector_exponent else (kNoPCIMSI, []))"
    by (simp add: ConfigureMSI_def find_capabilities_chain [OF assms(1)] assms(2))
  define h' where "h' = bf_set 16 1 1 (if multi_msg_capable h \<le> num_vector_exponent
      then bf_set 20 3 (multi_msg_capable h) h else bf_set 20 3 num_vector_exponent h)"
  have tb: "take_bit 3 num_vector_exponent = num_vector_exponent"
  proof (rule bit_word_eqI)
    fix k
    have "unat num_vector_exponent < 2 ^ 3" using assms(4) by (simp add: word_less_nat_alt)
    from word_high_bit [OF this, of k] show "bit (take_bit 3 num_vector_exponent) k = bit num_vector_exponent k"
      by (auto simp: bit_take_bit_iff)
  qed
  have tc: "take_bit 3 (multi_msg_capable h) = multi_msg_capable h"
    unfolding multi_msg_capable_def by (rule bf_get_le [symmetric])
  have fields: "msi_enable h' = 1" "cap_id h' = cap_id h" "next_ptr h' = next_ptr h"
      "addr_64_capable h' = addr_64_capable h" "per_vector_mask_capable h' = per_vector_mask_capable h"
    by (simp_all add: h'_def msi_enable_def cap_id_def next_ptr_def addr_64_capable_def per_vector_mask_capable_def)
  have multi: "multi_msg_enable h' = min (multi_msg_capable h) num_vector_exponent"
    using tb tc by (simp add: h'_def multi_msg_enable_def min_def)
  have da: "msg_data_addr c h' = msg_data_addr c h" by (simp add: msg_data_addr_def fields)
  have "ConfigureMSIRegister conf dev c addr data num_vector_exponent = (kSuccess, WriteMSICapability dev c
      ((ReadMSICapability conf dev c)\<lparr>msi_header := h', msg_addr := addr, msg_data := data\<rparr>))"
    by (simp add: ConfigureMSIRegister_def Let_def ReadMSICapability_def assms(3) h'_def)
  then show ?thesis using run fields multi da
    by (auto simp: WriteMSICapability_def Let_def ConfigureMSIXRegister_def)
qed

text \<open>the walk along the capability list has no bound: a device whose capability points to itself
  makes MSI set-up loop forever.\<close>

theorem ConfigureMSI_cyclic_list:
  assumes "a = ucast (ReadConfReg conf dev 0x34 AND 0xff)" and "a \<noteq> 0"
    and "next_ptr (ReadCapabilityHeader conf dev a) = a"
  shows "ConfigureMSI conf dev addr data n = None"
  using find_capabilities_cycle [OF assms(2,3)] by (simp add: ConfigureMSI_def flip: assms(1))

definition example_dev :: Device where
  "example_dev = \<lparr>bus = 0, device = 3, func = 0, header_type = 0,
     class_code = \<lparr>cc_base = 0xc, cc_sub = 3, cc_interface = 0x30\<rparr>\<rparr>"

theorem ConfigureMSI_programs_device_witness:
  "\<exists>err ws. ConfigureMSI (\<lambda>a. if a = MakeAddress 0 3 0 0x34 then 0x50 else 0x05) example_dev 0xfee00000 0x40 0
     = Some (err, ws) \<and> err = kSuccess"
  using ConfigureMSI_programs_device [of "\<lambda>a. if a = MakeAddress 0 3 0 0x34 then 0x50 else 0x05" example_dev
      "[0x50]" "0x50" "0x05" 0 "0xfee00000" "0x40"]
  by (auto simp: example_dev_def ReadConfReg_def MakeAddress_def ReadCapabilityHeader_def last_capability_def
      next_ptr_def cap_id_def bf_get_def kCapabilityMSI_def)

theorem ConfigureMSI_cyclic_list_witness:
  "ConfigureMSI (\<lambda>a. 0x5050) example_dev 0xfee00000 0x40 0 = None"
  by (rule ConfigureMSI_cyclic_list [of "0x50"])
    (simp_all add: example_dev_def ReadConfReg_def ReadCapabilityHeader_def next_ptr_def bf_get_def)

end
