(* ===== verification/Bit_Layout.thy ===== *)
theory Bit_Layout
  imports Kernel_Prelude
begin

text \<open>
  Packed structures of bit fields, as the \<open>bits\<close> members of the register, TRB and context unions of
  \<open>src/kernel/usb\<close>. A layout lists the fields with their widths from the lowest bit up; an
  unnamed field has the empty name. The union with an array of integers is the word that holds all
  bits, so reading and writing a field is reading and writing bits of that word.
\<close>

type_synonym layout = "(string \<times> nat) list"

fun field_pos :: "layout \<Rightarrow> string \<Rightarrow> (nat \<times> nat) option" where
  "field_pos [] f = None"
| "field_pos ((g, n) # l) f =
     (if f = g then Some (0, n) else map_option (\<lambda>(off, m). (n + off, m)) (field_pos l f))"

definition layout_bits :: "layout \<Rightarrow> nat" where
  "layout_bits l = sum_list (map snd l)"

definition field_names :: "layout \<Rightarrow> string list" where
  "field_names l = filter (\<lambda>f. f \<noteq> []) (map fst l)"

definition wf_layout :: "layout \<Rightarrow> nat \<Rightarrow> bool" where
  "wf_layout l n \<longleftrightarrow> layout_bits l \<le> n \<and> distinct (field_names l)"

definition get_field :: "layout \<Rightarrow> string \<Rightarrow> 'a::len word \<Rightarrow> 'a word" where
  "get_field l f w = (case field_pos l f of None \<Rightarrow> 0 | Some (off, n) \<Rightarrow> bf_get off n w)"

definition set_field :: "layout \<Rightarrow> string \<Rightarrow> 'a::len word \<Rightarrow> 'a word \<Rightarrow> 'a word" where
  "set_field l f v w = (case field_pos l f of None \<Rightarrow> w | Some (off, n) \<Rightarrow> bf_set off n v w)"

lemma field_pos_bound: "field_pos l f = Some (off, n) \<Longrightarrow> off + n \<le> layout_bits l"
  by (induction l f arbitrary: off n rule: field_pos.induct) (fastforce simp: layout_bits_def split: if_splits)+

lemma field_pos_mem: "field_pos l f = Some (off, n) \<Longrightarrow> (f, n) \<in> set l"
  by (induction l f arbitrary: off n rule: field_pos.induct) (auto split: if_splits)

text \<open>Different named fields lie apart.\<close>

lemma field_pos_disjoint:
  assumes "field_pos l f = Some (off, n)" and "field_pos l g = Some (off', n')" and "f \<noteq> g"
  shows "off + n \<le> off' \<or> off' + n' \<le> off"
  using assms
proof (induction l f arbitrary: off n off' n' rule: field_pos.induct)
  case (2 h k l f)
  then show ?case by (fastforce split: if_splits)
qed simp

lemma get_set_same:
  assumes "wf_layout l LENGTH('a::len)" and "field_pos l f = Some (off, n)"
  shows "get_field l f (set_field l f v (w :: 'a word)) = take_bit n v"
  using assms field_pos_bound [OF assms(2)] by (simp add: get_field_def set_field_def wf_layout_def)

lemma get_set_other:
  assumes "f \<noteq> g"
  shows "get_field l g (set_field l f v w) = get_field l g w"
  using field_pos_disjoint [of l f _ _ g] assms
  by (auto simp: get_field_def set_field_def split: option.splits)

lemma get_field_zero [simp]: "get_field l f 0 = 0"
  by (simp add: get_field_def split: option.split)

lemma bit_get_field:
  "field_pos l f = Some (off, n) \<Longrightarrow> bit (get_field l f w) k \<longleftrightarrow> k < n \<and> bit w (off + k)"
  by (simp add: get_field_def bit_bf_get)

lemma get_field_less:
  assumes "field_pos l f = Some (off, n)" and "n < LENGTH('a::len)"
  shows "unat (get_field l f (w :: 'a word)) < 2 ^ n"
proof -
  have "get_field l f w = take_bit n (get_field l f w)" using assms(1) bf_get_le by (simp add: get_field_def)
  then have "unat (get_field l f w) = take_bit n (unat (get_field l f w))" by (metis unsigned_take_bit_eq)
  then show ?thesis by (metis take_bit_nat_less_exp)
qed

text \<open>Pointer fields that drop \<open>s\<close> low bits: \<open>bits.f = value >> s\<close> and \<open>bits.f << s\<close>.\<close>

definition set_pointer :: "layout \<Rightarrow> string \<Rightarrow> nat \<Rightarrow> u64 \<Rightarrow> 'a::len word \<Rightarrow> 'a word" where
  "set_pointer l f s p w = set_field l f (ucast (drop_bit s p)) w"

definition get_pointer :: "layout \<Rightarrow> string \<Rightarrow> nat \<Rightarrow> 'a::len word \<Rightarrow> u64" where
  "get_pointer l f s w = push_bit s (ucast (get_field l f w))"

lemma get_set_pointer:
  assumes "wf_layout l LENGTH('a::len)" and "field_pos l f = Some (off, n)" and "64 \<le> LENGTH('a)"
    and "p = push_bit s (drop_bit s p)" and "unat p < 2 ^ (s + n)"
  shows "get_pointer l f s (set_pointer l f s p (w :: 'a word)) = p"
proof (rule bit_word_eqI)
  fix k assume k: "k < LENGTH(64)"
  have low: "bit p k \<Longrightarrow> s \<le> k" using assms(4) by (metis bit_push_bit_iff)
  have high: "bit p k \<Longrightarrow> k < s + n" using word_high_bit [OF assms(5)] by blast
  show "bit (get_pointer l f s (set_pointer l f s p w)) k = bit p k"
    unfolding get_pointer_def set_pointer_def get_set_same [OF assms(1,2)]
    using k low high assms(3) by (auto simp: bit_simps)
qed

text \<open>The words of the array member.\<close>

definition dword :: "nat \<Rightarrow> 'a::len word \<Rightarrow> u32" where
  "dword i w = ucast (drop_bit (32 * i) w)"

definition set_dword :: "nat \<Rightarrow> u32 \<Rightarrow> 'a::len word \<Rightarrow> 'a word" where
  "set_dword i v w = bf_set (32 * i) 32 (ucast v) w"

lemma bit_dword: "bit (dword i w) k \<longleftrightarrow> k < 32 \<and> bit w (32 * i + k)"
  by (auto simp: dword_def bit_simps)

lemma dword_set_same: "32 * Suc i \<le> LENGTH('a::len) \<Longrightarrow> dword i (set_dword i v (w :: 'a word)) = v"
  by (rule bit_word_eqI) (auto simp: bit_dword set_dword_def bit_bf_set bit_simps)

lemma dword_set_other: "i \<noteq> j \<Longrightarrow> dword j (set_dword i v w) = dword j w" for w :: "'a::len word"
proof (rule bit_word_eqI)
  fix k assume ne: "i \<noteq> j" and k: "k < LENGTH(32)"
  have "32 * i + 32 \<le> 32 * j \<or> 32 * j + 32 \<le> 32 * i" using ne by auto
  with k show "bit (dword j (set_dword i v w)) k = bit (dword j w) k"
  proof (cases "bit w (32 * j + k) \<or> 32 * j + k < LENGTH('a)")
    case True
    then have "32 * j + k < LENGTH('a)" by (auto dest: bit_imp_le_length)
    with k \<open>32 * i + 32 \<le> 32 * j \<or> 32 * j + 32 \<le> 32 * i\<close> show ?thesis by (auto simp: bit_dword set_dword_def bit_bf_set)
  next
    case False
    then show ?thesis by (auto simp: bit_dword dest: bit_imp_le_length)
  qed
qed

end
