(* ===== verification/Xhci_Registers.thy ===== *)
theory Xhci_Registers
  imports Bit_Layout Kernel_Error
begin

text \<open>
  \<open>src/kernel/usb/xhci/registers.hpp\<close>, \<open>registers.cpp\<close>, \<open>port.hpp\<close>, \<open>port.cpp\<close> and
  \<open>src/kernel/register.hpp\<close>: the registers of the xHCI host controller. Every \<open>_Bitmap\<close> union is a
  layout with the same fields in the same order; a register is the word it holds.
\<close>

subsection \<open>Layouts\<close>

definition HCSPARAMS1_Bitmap :: layout where
  "HCSPARAMS1_Bitmap =
     [(''max_device_slots'', 8), (''max_interrupters'', 11), ('''', 5), (''max_ports'', 8)]"

definition HCSPARAMS2_Bitmap :: layout where
  "HCSPARAMS2_Bitmap =
     [(''isochronous_scheduling_threshold'', 4), (''event_ring_segment_table_max'', 4), ('''', 13),
      (''max_scratchpad_buffers_high'', 5), (''scratchpad_restore'', 1), (''max_scratchpad_buffers_low'', 5)]"

definition HCSPARAMS3_Bitmap :: layout where
  "HCSPARAMS3_Bitmap =
     [(''u1_device_eixt_latency'', 8), ('''', 8), (''u2_device_eixt_latency'', 16)]"

definition HCCPARAMS1_Bitmap :: layout where
  "HCCPARAMS1_Bitmap =
     [(''addressing_capability_64'', 1), (''bw_negotiation_capability'', 1), (''context_size'', 1),
      (''port_power_control'', 1), (''port_indicators'', 1), (''light_hc_reset_capability'', 1),
      (''latency_tolerance_messaging_capability'', 1), (''no_secondary_sid_support'', 1),
      (''parse_all_event_data'', 1), (''stopped_short_packet_capability'', 1), (''stopped_edtla_capability'',
      1), (''contiguous_frame_id_capability'', 1), (''maximum_primary_stream_array_size'', 4),
      (''xhci_extended_capabilities_pointer'', 16)]"

definition DBOFF_Bitmap :: layout where
  "DBOFF_Bitmap =
     [('''', 2), (''doorbell_array_offset'', 30)]"

definition RTSOFF_Bitmap :: layout where
  "RTSOFF_Bitmap =
     [('''', 5), (''runtime_register_space_offset'', 27)]"

definition HCCPARAMS2_Bitmap :: layout where
  "HCCPARAMS2_Bitmap =
     [(''u3_entry_capability'', 1), (''configure_endpoint_command_max_exit_latency_too_large_capability'', 1),
      (''force_save_context_capability'', 1), (''compliance_transition_capability'', 1),
      (''large_esit_payload_capability'', 1), (''configuration_information_capability'', 1), ('''', 26)]"

definition USBCMD_Bitmap :: layout where
  "USBCMD_Bitmap =
     [(''run_stop'', 1), (''host_controller_reset'', 1), (''interrupter_enable'', 1),
      (''host_system_error_enable'', 1), ('''', 3), (''lignt_host_controller_reset'', 1),
      (''controller_save_state'', 1), (''controller_restore_state'', 1), (''enable_wrap_event'', 1),
      (''enable_u3_mfindex_stop'', 1), (''stopped_short_packet_enable'', 1), (''cem_enable'', 1), ('''', 18)]"

definition USBSTS_Bitmap :: layout where
  "USBSTS_Bitmap =
     [(''host_controller_halted'', 1), ('''', 1), (''host_system_error'', 1), (''event_interrupt'', 1),
      (''port_change_detect'', 1), ('''', 3), (''save_state_status'', 1), (''restore_state_status'', 1),
      (''save_restore_error'', 1), (''controller_not_ready'', 1), (''host_controller_error'', 1), ('''', 19)]"

definition CRCR_Bitmap :: layout where
  "CRCR_Bitmap =
     [(''ring_cycle_state'', 1), (''command_stop'', 1), (''command_abort'', 1), (''command_ring_running'', 1),
      ('''', 2), (''command_ring_pointer'', 58)]"

definition DCBAAP_Bitmap :: layout where
  "DCBAAP_Bitmap =
     [('''', 6), (''device_context_base_address_array_pointer'', 26)]"

definition CONFIG_Bitmap :: layout where
  "CONFIG_Bitmap =
     [(''max_device_slots_enabled'', 8), (''u3_entry_enable'', 1), (''configuration_information_enable'', 1),
      ('''', 22)]"

definition PORTSC_Bitmap :: layout where
  "PORTSC_Bitmap =
     [(''current_connect_status'', 1), (''port_enabled_disabled'', 1), ('''', 1), (''over_current_active'',
      1), (''port_reset'', 1), (''port_link_state'', 4), (''port_power'', 1), (''port_speed'', 4),
      (''port_indicator_control'', 2), (''port_link_state_write_strobe'', 1), (''connect_status_change'', 1),
      (''port_enabled_disabled_change'', 1), (''warm_port_reset_change'', 1), (''over_current_change'', 1),
      (''port_reset_change'', 1), (''port_link_state_change'', 1), (''port_config_error_change'', 1),
      (''cold_attach_status'', 1), (''wake_on_connect_enable'', 1), (''wake_on_disconnect_enable'', 1),
      (''wake_on_over_current_enable'', 1), ('''', 2), (''device_removable'', 1), (''warm_port_reset'', 1)]"

definition PORTPMSC_Bitmap :: layout where
  "PORTPMSC_Bitmap =
     [(''u1_timeout'', 8), (''u2_timeout'', 8), (''force_link_pm_accept'', 1), ('''', 15)]"

definition PORTLI_Bitmap :: layout where
  "PORTLI_Bitmap =
     [(''link_error_count'', 16), (''rx_lane_count'', 4), (''tx_lane_count'', 4), ('''', 8)]"

definition PORTHLPMC_Bitmap :: layout where
  "PORTHLPMC_Bitmap =
     [(''host_initiated_resume_duration_mode'', 2), (''l1_timeout'', 8),
      (''best_effort_service_latency_deep'', 4), ('''', 18)]"

definition IMAN_Bitmap :: layout where
  "IMAN_Bitmap =
     [(''interrupt_pending'', 1), (''interrupt_enable'', 1), ('''', 30)]"

definition IMOD_Bitmap :: layout where
  "IMOD_Bitmap =
     [(''interrupt_moderation_interval'', 16), (''interrupt_moderation_counter'', 16)]"

definition ERSTSZ_Bitmap :: layout where
  "ERSTSZ_Bitmap =
     [(''event_ring_segment_table_size'', 16), ('''', 16)]"

definition ERSTBA_Bitmap :: layout where
  "ERSTBA_Bitmap =
     [('''', 6), (''event_ring_segment_table_base_address'', 58)]"

definition ERDP_Bitmap :: layout where
  "ERDP_Bitmap =
     [(''dequeue_erst_segment_index'', 3), (''event_handler_busy'', 1), (''event_ring_dequeue_pointer'', 60)]"

definition Doorbell_Bitmap :: layout where
  "Doorbell_Bitmap =
     [(''db_target'', 8), ('''', 8), (''db_stream_id'', 16)]"

definition ExtendedRegister_Bitmap :: layout where
  "ExtendedRegister_Bitmap =
     [(''capability_id'', 8), (''next_pointer'', 8), (''value'', 16)]"

definition USBLEGSUP_Bitmap :: layout where
  "USBLEGSUP_Bitmap =
     [(''capability_id'', 8), (''next_pointer'', 8), (''hc_bios_owned_semaphore'', 1), ('''', 7),
      (''hc_os_owned_semaphore'', 1), ('''', 7)]"

definition register_layouts :: "(layout \<times> nat) list" where
  "register_layouts =
     [(HCSPARAMS1_Bitmap, 32), (HCSPARAMS2_Bitmap, 32), (HCSPARAMS3_Bitmap, 32), (HCCPARAMS1_Bitmap, 32),
      (DBOFF_Bitmap, 32), (RTSOFF_Bitmap, 32), (HCCPARAMS2_Bitmap, 32), (USBCMD_Bitmap, 32),
      (USBSTS_Bitmap, 32), (CRCR_Bitmap, 64), (DCBAAP_Bitmap, 64), (CONFIG_Bitmap, 32), (PORTSC_Bitmap,
      32), (PORTPMSC_Bitmap, 32), (PORTLI_Bitmap, 32), (PORTHLPMC_Bitmap, 32), (IMAN_Bitmap, 32),
      (IMOD_Bitmap, 32), (ERSTSZ_Bitmap, 32), (ERSTBA_Bitmap, 64), (ERDP_Bitmap, 64), (Doorbell_Bitmap,
      32), (ExtendedRegister_Bitmap, 32), (USBLEGSUP_Bitmap, 32)]"

lemma register_layouts_wf: "\<forall>(l, n) \<in> set register_layouts. wf_layout l n"
  unfolding register_layouts_def
  by (simp add: wf_layout_def layout_bits_def field_names_def
      HCSPARAMS1_Bitmap_def HCSPARAMS2_Bitmap_def HCSPARAMS3_Bitmap_def HCCPARAMS1_Bitmap_def
      DBOFF_Bitmap_def RTSOFF_Bitmap_def HCCPARAMS2_Bitmap_def USBCMD_Bitmap_def USBSTS_Bitmap_def
      CRCR_Bitmap_def DCBAAP_Bitmap_def CONFIG_Bitmap_def PORTSC_Bitmap_def PORTPMSC_Bitmap_def
      PORTLI_Bitmap_def PORTHLPMC_Bitmap_def IMAN_Bitmap_def IMOD_Bitmap_def ERSTSZ_Bitmap_def
      ERSTBA_Bitmap_def ERDP_Bitmap_def Doorbell_Bitmap_def ExtendedRegister_Bitmap_def
      USBLEGSUP_Bitmap_def)

subsection \<open>Methods of the bitmaps\<close>

definition DBOFF_Offset :: "u32 \<Rightarrow> u32" where
  "DBOFF_Offset r = push_bit 2 (get_field DBOFF_Bitmap ''doorbell_array_offset'' r)"

definition RTSOFF_Offset :: "u32 \<Rightarrow> u32" where
  "RTSOFF_Offset r = push_bit 5 (get_field RTSOFF_Bitmap ''runtime_register_space_offset'' r)"

definition CRCR_Pointer :: "u64 \<Rightarrow> u64" where
  "CRCR_Pointer r = get_pointer CRCR_Bitmap ''command_ring_pointer'' 6 r"

definition CRCR_SetPointer :: "u64 \<Rightarrow> u64 \<Rightarrow> u64" where
  "CRCR_SetPointer v r = set_pointer CRCR_Bitmap ''command_ring_pointer'' 6 v r"

definition DCBAAP_Pointer :: "u64 \<Rightarrow> u64" where
  "DCBAAP_Pointer r = get_pointer DCBAAP_Bitmap ''device_context_base_address_array_pointer'' 6 r"

definition DCBAAP_SetPointer :: "u64 \<Rightarrow> u64 \<Rightarrow> u64" where
  "DCBAAP_SetPointer v r = set_pointer DCBAAP_Bitmap ''device_context_base_address_array_pointer'' 6 v r"

definition ERSTSZ_Size :: "u32 \<Rightarrow> u16" where
  "ERSTSZ_Size r = ucast (get_field ERSTSZ_Bitmap ''event_ring_segment_table_size'' r)"

definition ERSTSZ_SetSize :: "u16 \<Rightarrow> u32 \<Rightarrow> u32" where
  "ERSTSZ_SetSize v r = set_field ERSTSZ_Bitmap ''event_ring_segment_table_size'' (ucast v) r"

definition ERSTBA_Pointer :: "u64 \<Rightarrow> u64" where
  "ERSTBA_Pointer r = get_pointer ERSTBA_Bitmap ''event_ring_segment_table_base_address'' 6 r"

definition ERSTBA_SetPointer :: "u64 \<Rightarrow> u64 \<Rightarrow> u64" where
  "ERSTBA_SetPointer v r = set_pointer ERSTBA_Bitmap ''event_ring_segment_table_base_address'' 6 v r"

definition ERDP_Pointer :: "u64 \<Rightarrow> u64" where
  "ERDP_Pointer r = get_pointer ERDP_Bitmap ''event_ring_dequeue_pointer'' 4 r"

definition ERDP_SetPointer :: "u64 \<Rightarrow> u64 \<Rightarrow> u64" where
  "ERDP_SetPointer v r = set_pointer ERDP_Bitmap ''event_ring_dequeue_pointer'' 4 v r"

text \<open>The value \<open>DoorbellRegister::Ring\<close> writes.\<close>

definition Doorbell_Ring :: "u8 \<Rightarrow> u16 \<Rightarrow> u32" where
  "Doorbell_Ring target stream_id =
     set_field Doorbell_Bitmap ''db_stream_id'' (ucast stream_id)
       (set_field Doorbell_Bitmap ''db_target'' (ucast target) 0)"

subsection \<open>Register sets\<close>

record CapabilityRegisters =
  CAPLENGTH :: u8
  HCIVERSION :: u16
  HCSPARAMS1 :: u32
  HCSPARAMS2 :: u32
  HCSPARAMS3 :: u32
  HCCPARAMS1 :: u32
  DBOFF :: u32
  RTSOFF :: u32
  HCCPARAMS2 :: u32

record OperationalRegisters =
  USBCMD :: u32
  USBSTS :: u32
  PAGESIZE :: u32
  DNCTRL :: u32
  CRCR :: u64
  DCBAAP :: u64
  CONFIG :: u32

record PortRegisterSet =
  PORTSC :: u32
  PORTPMSC :: u32
  PORTLI :: u32
  PORTHLPMC :: u32

record InterrupterRegisterSet =
  IMAN :: u32
  IMOD :: u32
  ERSTSZ :: u32
  ERSTBA :: u64
  ERDP :: u64

text \<open>A busy-waiting loop \<open>while (!stop());\<close> on a device that goes from \<open>r\<close> to \<open>hw r\<close> between two
  readings; \<open>None\<close> when it never ends.\<close>

partial_function (option) poll :: "('r \<Rightarrow> bool) \<Rightarrow> ('r \<Rightarrow> 'r) \<Rightarrow> 'r \<Rightarrow> 'r option" where
  [code]: "poll stop hw r = (if stop r then Some r else poll stop hw (hw r))"

lemma poll_returns: "stop ((hw ^^ n) r) \<Longrightarrow> \<exists>k \<le> n. poll stop hw r = Some ((hw ^^ k) r) \<and> stop ((hw ^^ k) r)"
proof (induction n arbitrary: r)
  case 0
  then show ?case by (simp add: poll.simps)
next
  case (Suc n)
  show ?case
  proof (cases "stop r")
    case True
    then show ?thesis by (intro exI [of _ 0]) (simp add: poll.simps)
  next
    case False
    have "stop ((hw ^^ n) (hw r))" using Suc.prems by (simp add: funpow_swap1)
    from Suc.IH [OF this] obtain k where "k \<le> n" "poll stop hw (hw r) = Some ((hw ^^ k) (hw r))" "stop ((hw ^^ k) (hw r))" by blast
    then show ?thesis using False by (intro exI [of _ "Suc k"]) (simp add: poll.simps funpow_swap1)
  qed
qed

lemma poll_Some:
  assumes "poll stop hw r = Some r'"
  shows "\<exists>n. r' = (hw ^^ n) r \<and> stop r'"
proof (rule poll.raw_induct [where P = "\<lambda>stop hw r r'. \<exists>n. r' = (hw ^^ n) r \<and> stop r'", OF _ assms])
  fix poll' stop and hw :: "'a \<Rightarrow> 'a" and r r'
  assume 1: "\<And>stop hw r r'. poll' stop hw r = Some r' \<Longrightarrow> \<exists>n. r' = (hw ^^ n) r \<and> stop r'"
    "(if stop r then Some r else poll' stop hw (hw r)) = Some r'"
  show "\<exists>n. r' = (hw ^^ n) r \<and> stop r'"
  proof (cases "stop r")
    case True
    with 1(2) show ?thesis by (intro exI [of _ 0]) simp
  next
    case False
    with 1(2) have "poll' stop hw (hw r) = Some r'" by simp
    with 1(1) obtain n where "r' = (hw ^^ n) (hw r)" "stop r'" by blast
    then show ?thesis by (intro exI [of _ "Suc n"]) (simp add: funpow_swap1)
  qed
qed

lemma poll_stuck: "(\<And>n. \<not> stop ((hw ^^ n) r)) \<Longrightarrow> poll stop hw r = None"
  using poll_Some [of stop hw r] by (cases "poll stop hw r") auto

subsection \<open>Ports\<close>

definition Port_IsConnected :: "PortRegisterSet \<Rightarrow> bool" where
  "Port_IsConnected p \<longleftrightarrow> get_field PORTSC_Bitmap ''current_connect_status'' (PORTSC p) \<noteq> 0"

definition Port_IsEnabled :: "PortRegisterSet \<Rightarrow> bool" where
  "Port_IsEnabled p \<longleftrightarrow> get_field PORTSC_Bitmap ''port_enabled_disabled'' (PORTSC p) \<noteq> 0"

definition Port_IsConnectStatusChanged :: "PortRegisterSet \<Rightarrow> bool" where
  "Port_IsConnectStatusChanged p \<longleftrightarrow> get_field PORTSC_Bitmap ''connect_status_change'' (PORTSC p) \<noteq> 0"

definition Port_IsPortResetChanged :: "PortRegisterSet \<Rightarrow> bool" where
  "Port_IsPortResetChanged p \<longleftrightarrow> get_field PORTSC_Bitmap ''port_reset_change'' (PORTSC p) \<noteq> 0"

definition Port_Speed :: "PortRegisterSet \<Rightarrow> int" where
  "Port_Speed p = uint (get_field PORTSC_Bitmap ''port_speed'' (PORTSC p))"

text \<open>\<open>Port::Reset\<close>: the write, then the wait for the reset bit to clear.\<close>

definition Port_Reset_value :: "u32 \<Rightarrow> u32" where
  "Port_Reset_value r = (r AND 0x0e00c3e0) OR 0x00020010"

definition Port_Reset :: "(PortRegisterSet \<Rightarrow> PortRegisterSet) \<Rightarrow> PortRegisterSet \<Rightarrow> (Code \<times> PortRegisterSet) option" where
  "Port_Reset hw p = do {
     p \<leftarrow> poll (\<lambda>p. get_field PORTSC_Bitmap ''port_reset'' (PORTSC p) = 0) hw (p\<lparr>PORTSC := Port_Reset_value (PORTSC p)\<rparr>);
     Some (kSuccess, p)
   }"

text \<open>\<open>CLEAR_STATUS_BIT\<close>: the value written.\<close>

definition clear_status_value :: "string \<Rightarrow> u32 \<Rightarrow> u32" where
  "clear_status_value bitname r = set_field PORTSC_Bitmap bitname 1 (r AND 0x0e01c3e0)"

definition ClearConnectStatusChanged :: "PortRegisterSet \<Rightarrow> PortRegisterSet" where
  "ClearConnectStatusChanged p = p\<lparr>PORTSC := clear_status_value ''connect_status_change'' (PORTSC p)\<rparr>"

definition ClearPortResetChange :: "PortRegisterSet \<Rightarrow> PortRegisterSet" where
  "ClearPortResetChange p = p\<lparr>PORTSC := clear_status_value ''port_reset_change'' (PORTSC p)\<rparr>"

subsection \<open>Extended capabilities\<close>

text \<open>Registers of the extended capability list, by their offset in 32-bit words from the base of the
  memory-mapped space; \<open>mmio\<close> is what the device shows there. \<open>None\<close> is the end iterator.\<close>

definition AddOrNull :: "nat \<Rightarrow> u32 \<Rightarrow> nat option" where
  "AddOrNull p d = (if d = 0 then None else Some (p + unat d))"

definition ext_next :: "(nat \<Rightarrow> u32) \<Rightarrow> nat option \<Rightarrow> nat option" where
  "ext_next mmio p = (case p of None \<Rightarrow> None
     | Some reg \<Rightarrow> AddOrNull reg (get_field ExtendedRegister_Bitmap ''next_pointer'' (mmio reg)))"

definition ext_first :: "u32 \<Rightarrow> nat option" where
  "ext_first hccp = AddOrNull 0 (get_field HCCPARAMS1_Bitmap ''xhci_extended_capabilities_pointer'' hccp)"

text \<open>\<open>std::find_if\<close> over the list; the outer \<open>None\<close> for a list that never ends.\<close>

partial_function (option) find_ext :: "(nat \<Rightarrow> u32) \<Rightarrow> u32 \<Rightarrow> nat option \<Rightarrow> nat option option" where
  [code]: "find_ext mmio cap p = (case p of
     None \<Rightarrow> Some None
   | Some reg \<Rightarrow> if get_field ExtendedRegister_Bitmap ''capability_id'' (mmio reg) = cap then Some (Some reg)
                  else find_ext mmio cap (ext_next mmio p))"

subsection \<open>Laws\<close>

lemmas bitmap_defs = CRCR_Bitmap_def DCBAAP_Bitmap_def ERSTSZ_Bitmap_def ERSTBA_Bitmap_def ERDP_Bitmap_def
  PORTSC_Bitmap_def Doorbell_Bitmap_def ExtendedRegister_Bitmap_def HCCPARAMS1_Bitmap_def

lemmas layout_eval = wf_layout_def layout_bits_def field_names_def

lemma ERDP_roundtrip:
  assumes "p = push_bit 4 (drop_bit 4 p)"
  shows "ERDP_Pointer (ERDP_SetPointer p r) = p"
  unfolding ERDP_Pointer_def ERDP_SetPointer_def
  by (rule get_set_pointer [where off = 4 and n = 60])
    (use assms unsigned_less [of p] in \<open>simp_all add: bitmap_defs layout_eval\<close>)

lemma CRCR_roundtrip:
  assumes "p = push_bit 6 (drop_bit 6 p)"
  shows "CRCR_Pointer (CRCR_SetPointer p r) = p"
  unfolding CRCR_Pointer_def CRCR_SetPointer_def
  by (rule get_set_pointer [where off = 6 and n = 58])
    (use assms unsigned_less [of p] in \<open>simp_all add: bitmap_defs layout_eval\<close>)

lemma ERSTBA_roundtrip:
  assumes "p = push_bit 6 (drop_bit 6 p)"
  shows "ERSTBA_Pointer (ERSTBA_SetPointer p r) = p"
  unfolding ERSTBA_Pointer_def ERSTBA_SetPointer_def
  by (rule get_set_pointer [where off = 6 and n = 58])
    (use assms unsigned_less [of p] in \<open>simp_all add: bitmap_defs layout_eval\<close>)

text \<open>\<open>DCBAAP_Bitmap\<close> gives the pointer 26 bits, so only the low 32 bits of the address survive.\<close>

lemma DCBAAP_truncates: "DCBAAP_Pointer (DCBAAP_SetPointer p r) = take_bit 32 (push_bit 6 (drop_bit 6 p))"
proof -
  have pos: "field_pos DCBAAP_Bitmap ''device_context_base_address_array_pointer'' = Some (6, 26)" "wf_layout DCBAAP_Bitmap 64"
    by (simp_all add: bitmap_defs layout_eval)
  have "get_field DCBAAP_Bitmap ''device_context_base_address_array_pointer''
      (set_field DCBAAP_Bitmap ''device_context_base_address_array_pointer'' v r) = take_bit 26 v" for v
    using get_set_same [where 'a = 64, OF _ pos(1)] pos(2) by simp
  then show ?thesis unfolding DCBAAP_Pointer_def DCBAAP_SetPointer_def get_pointer_def set_pointer_def
    by (simp add: bit_eq_iff) (auto simp: bit_simps)
qed

subsection \<open>Writes to the port status register\<close>

text \<open>In \<open>PORTSC\<close> the bits 1 and 17 to 23 are cleared by writing 1 to them (bit 1 would disable the
  port), bit 4 starts a reset, and the fields in \<open>portsc_rw\<close> keep what is written.\<close>

definition portsc_w1c :: "nat set" where "portsc_w1c = {1, 17, 18, 19, 20, 21, 22, 23}"
definition portsc_rw :: "nat set" where "portsc_rw = {5, 6, 7, 8, 9, 14, 15, 25, 26, 27}"

lemma bit_clear_status:
  assumes "field_pos PORTSC_Bitmap bitname = Some (b, 1)" and "k < 32"
  shows "bit (clear_status_value bitname r) k \<longleftrightarrow> k = b \<or> (k \<noteq> b \<and> bit r k \<and> bit (0x0e01c3e0 :: u32) k)"
  using assms by (auto simp: clear_status_value_def set_field_def bit_bf_set bit_simps)

text \<open>C32: acknowledging a port status change disturbs nothing else: of the write-1-to-clear bits of
  \<open>PORTSC\<close> exactly the named one is written as 1, so the port is not disabled and no other change is
  lost, no reset is started, and every read-write field keeps its value. \<open>Port::Reset\<close> writes 1 to
  the reset bit and acknowledges the connect status change only.\<close>

theorem PORTSC_writes_safe:
  shows "(\<forall>k \<in> portsc_w1c. bit (PORTSC (ClearPortResetChange p)) k \<longleftrightarrow> k = 21) \<and>
    (\<forall>k \<in> portsc_w1c. bit (PORTSC (ClearConnectStatusChanged p)) k \<longleftrightarrow> k = 17) \<and>
    (\<forall>k \<in> portsc_w1c. bit (Port_Reset_value r) k \<longleftrightarrow> k = 17) \<and>
    (\<forall>k \<in> portsc_rw. bit (PORTSC (ClearPortResetChange p)) k = bit (PORTSC p) k \<and>
       bit (PORTSC (ClearConnectStatusChanged p)) k = bit (PORTSC p) k \<and> bit (Port_Reset_value r) k = bit r k) \<and>
    \<not> bit (PORTSC (ClearPortResetChange p)) 4 \<and> \<not> bit (PORTSC (ClearConnectStatusChanged p)) 4 \<and> bit (Port_Reset_value r) 4"
proof -
  have prc: "field_pos PORTSC_Bitmap ''port_reset_change'' = Some (21, 1)"
    and csc: "field_pos PORTSC_Bitmap ''connect_status_change'' = Some (17, 1)"
    by (simp_all add: bitmap_defs)
  have reset: "bit (Port_Reset_value r) k \<longleftrightarrow> bit r k \<and> bit (0x0e00c3e0 :: u32) k \<or> bit (0x00020010 :: u32) k" for k
    by (simp add: Port_Reset_value_def bit_simps)
  show ?thesis
    unfolding portsc_w1c_def portsc_rw_def ClearPortResetChange_def ClearConnectStatusChanged_def
    using bit_clear_status [OF prc] bit_clear_status [OF csc] reset by (simp add: bit_numeral_rec)
qed

theorem PORTSC_writes_safe_witness:
  "let p = \<lparr>PORTSC = 0x00220203, PORTPMSC = 0, PORTLI = 0, PORTHLPMC = 0\<rparr> in
     bit (PORTSC (ClearPortResetChange p)) 21 \<and> \<not> bit (PORTSC (ClearPortResetChange p)) 1 \<and> bit (PORTSC (ClearPortResetChange p)) 9"
proof -
  have "bit (0x00220203 :: u32) 9" by (simp add: bit_numeral_rec)
  then show ?thesis
    using PORTSC_writes_safe [of "\<lparr>PORTSC = 0x00220203, PORTPMSC = 0, PORTLI = 0, PORTHLPMC = 0\<rparr>" 0]
    by (simp add: portsc_w1c_def portsc_rw_def)
qed

end
