(* ===== verification/Usb_Types.thy ===== *)
theory Usb_Types
  imports Kernel_Error
begin

text \<open>
  \<open>src/kernel/usb/endpoint.hpp\<close> and \<open>setupdata.hpp\<close>: endpoints, their configuration, and the setup
  packets of control transfers.
\<close>

subsection \<open>Endpoints\<close>

datatype EndpointType = kControl | kIsochronous | kBulk | kInterrupt

text \<open>The enumerators are 0 to 3; a two-bit transfer type is cast to them.\<close>

definition EndpointType_of :: "nat \<Rightarrow> EndpointType" where
  "EndpointType_of n = (if n = 0 then kControl else if n = 1 then kIsochronous else if n = 2 then kBulk else kInterrupt)"

datatype EndpointID = EndpointID (Address: int)

definition EndpointID_new :: "int \<Rightarrow> bool \<Rightarrow> EndpointID" where
  "EndpointID_new ep_num dir_in = EndpointID (push_bit 1 ep_num OR of_bool dir_in)"

definition ep_Number :: "EndpointID \<Rightarrow> int" where
  "ep_Number e = drop_bit 1 (Address e)"

definition ep_IsIn :: "EndpointID \<Rightarrow> bool" where
  "ep_IsIn e \<longleftrightarrow> Address e AND 1 \<noteq> 0"

definition kDefaultControlPipeID :: EndpointID where
  "kDefaultControlPipeID = EndpointID_new 0 True"

record EndpointConfig =
  ep_id :: EndpointID
  ep_type :: EndpointType
  max_packet_size :: int
  interval :: int

lemma Address_new: "Address (EndpointID_new n d) = 2 * n + of_bool d"
  by (cases d) (simp_all add: EndpointID_new_def push_bit_eq_mult or_one_eq)

lemma EndpointID_roundtrip [simp]:
  "ep_Number (EndpointID_new n d) = n" "ep_IsIn (EndpointID_new n d) = d"
  unfolding ep_Number_def ep_IsIn_def Address_new by (cases d; simp add: drop_bit_eq_div and_one_eq)+

subsection \<open>Setup packets\<close>

record SetupData =
  request_type :: u8
  request :: u8
  sd_value :: u16
  sd_index :: u16
  sd_length :: u16

text \<open>The three bit fields of \<open>request_type\<close>.\<close>

definition make_request_type :: "nat \<Rightarrow> nat \<Rightarrow> nat \<Rightarrow> u8" where
  "make_request_type direction type recipient =
     bf_set 0 5 (of_nat recipient) (bf_set 5 2 (of_nat type) (bf_set 7 1 (of_nat direction) 0))"

definition kDevice :: nat where "kDevice = 0"
definition kInterface :: nat where "kInterface = 1"
definition kStandard :: nat where "kStandard = 0"
definition kClass :: nat where "kClass = 1"
definition kOut :: nat where "kOut = 0"
definition kIn :: nat where "kIn = 1"

definition kGetDescriptor :: u8 where "kGetDescriptor = 6"
definition kSetConfiguration :: u8 where "kSetConfiguration = 9"
definition kSetProtocol :: u8 where "kSetProtocol = 11"

end
