(* ===== verification/Xhci_Trb.thy ===== *)
theory Xhci_Trb
  imports Xhci_Registers Usb_Types
begin

text \<open>
  \<open>src/kernel/usb/xhci/trb.hpp\<close>, \<open>trb.cpp\<close> and \<open>context.hpp\<close>: transfer request blocks and the slot
  and endpoint contexts. A TRB is the 128-bit word of its four 32-bit words, a context the 256-bit word
  of its eight; the \<open>bits\<close> structure of each union is a layout.
\<close>

type_synonym trb = "128 word"

subsection \<open>Layouts\<close>

definition TRB :: layout where
  "TRB =
     [(''parameter'', 64), (''status'', 32), (''cycle_bit'', 1), (''evaluate_next_trb'', 1), ('''', 8),
      (''trb_type'', 6), (''control'', 16)]"

definition NormalTRB :: layout where
  "NormalTRB =
     [(''data_buffer_pointer'', 64), (''trb_transfer_length'', 17), (''td_size'', 5), (''interrupter_target'',
      10), (''cycle_bit'', 1), (''evaluate_next_trb'', 1), (''interrupt_on_short_packet'', 1), (''no_snoop'',
      1), (''chain_bit'', 1), (''interrupt_on_completion'', 1), (''immediate_data'', 1), ('''', 2),
      (''block_event_interrupt'', 1), (''trb_type'', 6), ('''', 16)]"

definition SetupStageTRB :: layout where
  "SetupStageTRB =
     [(''request_type'', 8), (''request'', 8), (''value'', 16), (''index'', 16), (''length'', 16),
      (''trb_transfer_length'', 17), ('''', 5), (''interrupter_target'', 10), (''cycle_bit'', 1), ('''', 4),
      (''interrupt_on_completion'', 1), (''immediate_data'', 1), ('''', 3), (''trb_type'', 6),
      (''transfer_type'', 2), ('''', 14)]"

definition DataStageTRB :: layout where
  "DataStageTRB =
     [(''data_buffer_pointer'', 64), (''trb_transfer_length'', 17), (''td_size'', 5), (''interrupter_target'',
      10), (''cycle_bit'', 1), (''evaluate_next_trb'', 1), (''interrupt_on_short_packet'', 1), (''no_snoop'',
      1), (''chain_bit'', 1), (''interrupt_on_completion'', 1), (''immediate_data'', 1), ('''', 3),
      (''trb_type'', 6), (''direction'', 1), ('''', 15)]"

definition StatusStageTRB :: layout where
  "StatusStageTRB =
     [('''', 64), ('''', 22), (''interrupter_target'', 10), (''cycle_bit'', 1), (''evaluate_next_trb'', 1),
      ('''', 2), (''chain_bit'', 1), (''interrupt_on_completion'', 1), ('''', 4), (''trb_type'', 6),
      (''direction'', 1), ('''', 15)]"

definition LinkTRB :: layout where
  "LinkTRB =
     [('''', 4), (''ring_segment_pointer'', 60), ('''', 22), (''interrupter_target'', 10), (''cycle_bit'', 1),
      (''toggle_cycle'', 1), ('''', 2), (''chain_bit'', 1), (''interrupt_on_completion'', 1), ('''', 4),
      (''trb_type'', 6), ('''', 16)]"

definition NoOpTRB :: layout where
  "NoOpTRB =
     [('''', 64), ('''', 22), (''interrupter_target'', 10), (''cycle_bit'', 1), (''evaluate_next_trb'', 1),
      ('''', 2), (''chain_bit'', 1), (''interrupt_on_completion'', 1), ('''', 4), (''trb_type'', 6), ('''',
      16)]"

definition EnableSlotCommandTRB :: layout where
  "EnableSlotCommandTRB =
     [('''', 32), ('''', 32), ('''', 32), (''cycle_bit'', 1), ('''', 9), (''trb_type'', 6), (''slot_type'',
      5), ('''', 11)]"

definition AddressDeviceCommandTRB :: layout where
  "AddressDeviceCommandTRB =
     [('''', 4), (''input_context_pointer'', 60), ('''', 32), (''cycle_bit'', 1), ('''', 8),
      (''block_set_address_request'', 1), (''trb_type'', 6), ('''', 8), (''slot_id'', 8)]"

definition ConfigureEndpointCommandTRB :: layout where
  "ConfigureEndpointCommandTRB =
     [('''', 4), (''input_context_pointer'', 60), ('''', 32), (''cycle_bit'', 1), ('''', 8), (''deconfigure'',
      1), (''trb_type'', 6), ('''', 8), (''slot_id'', 8)]"

definition StopEndpointCommandTRB :: layout where
  "StopEndpointCommandTRB =
     [('''', 32), ('''', 32), ('''', 32), (''cycle_bit'', 1), ('''', 9), (''trb_type'', 6), (''endpoint_id'',
      5), ('''', 2), (''suspend'', 1), (''slot_id'', 8)]"

definition NoOpCommandTRB :: layout where
  "NoOpCommandTRB =
     [('''', 32), ('''', 32), ('''', 32), (''cycle_bit'', 1), ('''', 9), (''trb_type'', 6), ('''', 16)]"

definition TransferEventTRB :: layout where
  "TransferEventTRB =
     [(''trb_pointer'', 64), (''trb_transfer_length'', 24), (''completion_code'', 8), (''cycle_bit'', 1),
      ('''', 1), (''event_data'', 1), ('''', 7), (''trb_type'', 6), (''endpoint_id'', 5), ('''', 3),
      (''slot_id'', 8)]"

definition CommandCompletionEventTRB :: layout where
  "CommandCompletionEventTRB =
     [('''', 4), (''command_trb_pointer'', 60), (''command_completion_parameter'', 24), (''completion_code'',
      8), (''cycle_bit'', 1), ('''', 9), (''trb_type'', 6), (''vf_id'', 8), (''slot_id'', 8)]"

definition PortStatusChangeEventTRB :: layout where
  "PortStatusChangeEventTRB =
     [('''', 24), (''port_id'', 8), ('''', 32), ('''', 24), (''completion_code'', 8), (''cycle_bit'', 1),
      ('''', 9), (''trb_type'', 6)]"

definition SlotContext :: layout where
  "SlotContext =
     [(''route_string'', 20), (''speed'', 4), ('''', 1), (''mtt'', 1), (''hub'', 1), (''context_entries'', 5),
      (''max_exit_latency'', 16), (''root_hub_port_num'', 8), (''num_ports'', 8), (''tt_hub_slot_id'', 8),
      (''tt_port_num'', 8), (''ttt'', 2), ('''', 4), (''interrupter_target'', 10), (''usb_device_address'',
      8), ('''', 19), (''slot_state'', 5)]"

definition EndpointContext :: layout where
  "EndpointContext =
     [(''ep_state'', 3), ('''', 5), (''mult'', 2), (''max_primary_streams'', 5), (''linear_stream_array'', 1),
      (''interval'', 8), (''max_esit_payload_hi'', 8), ('''', 1), (''error_count'', 2), (''ep_type'', 3),
      ('''', 1), (''host_initiate_disable'', 1), (''max_burst_size'', 8), (''max_packet_size'', 16),
      (''dequeue_cycle_state'', 1), ('''', 3), (''tr_dequeue_pointer'', 60), (''average_trb_length'', 16),
      (''max_esit_payload_lo'', 16)]"

definition trb_layouts :: "layout list" where
  "trb_layouts =
     [TRB, NormalTRB, SetupStageTRB, DataStageTRB, StatusStageTRB, LinkTRB, NoOpTRB, EnableSlotCommandTRB,
      AddressDeviceCommandTRB, ConfigureEndpointCommandTRB, StopEndpointCommandTRB, NoOpCommandTRB,
      TransferEventTRB, CommandCompletionEventTRB, PortStatusChangeEventTRB]"

lemmas trb_layout_defs =
  TRB_def NormalTRB_def SetupStageTRB_def DataStageTRB_def StatusStageTRB_def LinkTRB_def NoOpTRB_def
  EnableSlotCommandTRB_def AddressDeviceCommandTRB_def ConfigureEndpointCommandTRB_def
  StopEndpointCommandTRB_def NoOpCommandTRB_def TransferEventTRB_def CommandCompletionEventTRB_def
  PortStatusChangeEventTRB_def

text \<open>All TRB layouts fit and put the cycle bit and the type where \<open>TRB\<close> has them.\<close>

lemma trb_layouts_wf:
  "\<forall>l \<in> set trb_layouts. wf_layout l 128 \<and> field_pos l ''cycle_bit'' = Some (96, 1) \<and> field_pos l ''trb_type'' = Some (106, 6)"
  unfolding trb_layouts_def by (simp add: layout_eval trb_layout_defs)

lemma context_layouts_wf: "wf_layout SlotContext 256" "wf_layout EndpointContext 256"
  by (simp_all add: layout_eval SlotContext_def EndpointContext_def)

subsection \<open>Types and names\<close>

definition NormalTRB_Type :: nat where "NormalTRB_Type = 1"
definition SetupStageTRB_Type :: nat where "SetupStageTRB_Type = 2"
definition DataStageTRB_Type :: nat where "DataStageTRB_Type = 3"
definition StatusStageTRB_Type :: nat where "StatusStageTRB_Type = 4"
definition LinkTRB_Type :: nat where "LinkTRB_Type = 6"
definition NoOpTRB_Type :: nat where "NoOpTRB_Type = 8"
definition EnableSlotCommandTRB_Type :: nat where "EnableSlotCommandTRB_Type = 9"
definition AddressDeviceCommandTRB_Type :: nat where "AddressDeviceCommandTRB_Type = 11"
definition ConfigureEndpointCommandTRB_Type :: nat where "ConfigureEndpointCommandTRB_Type = 12"
definition StopEndpointCommandTRB_Type :: nat where "StopEndpointCommandTRB_Type = 15"
definition NoOpCommandTRB_Type :: nat where "NoOpCommandTRB_Type = 23"
definition TransferEventTRB_Type :: nat where "TransferEventTRB_Type = 32"
definition CommandCompletionEventTRB_Type :: nat where "CommandCompletionEventTRB_Type = 33"
definition PortStatusChangeEventTRB_Type :: nat where "PortStatusChangeEventTRB_Type = 34"

definition kTRBCompletionCodeToName :: "string list" where
  "kTRBCompletionCodeToName =
     [''Invalid'', ''Success'', ''Data Buffer Error'', ''Babble Detected Error'',
      ''USB Transaction Error'', ''TRB Error'', ''Stall Error'', ''Resource Error'', ''Bandwidth Error'',
      ''No Slots Available Error'', ''Invalid Stream Type Error'', ''Slot Not Enabled Error'',
      ''Endpoint Not Enabled Error'', ''Short Packet'', ''Ring Underrun'', ''Ring Overrun'',
      ''VF Event Ring Full Error'', ''Parameter Error'', ''Bandwidth Overrun Error'',
      ''Context State Error'', ''No ping Response Error'', ''Event Ring Full Error'',
      ''Incompatible Device Error'', ''Missed Service Error'', ''Command Ring Stopped'',
      ''Command Aborted'', ''Stopped'', ''Stopped - Length Invalid'', ''Stopped - Short Packet'',
      ''Max Exit Latency Too Large Error'', ''Reserved'', ''Isoch Buffer Overrun'', ''Event Lost Error'',
      ''Undefined Error'', ''Invalid Stream ID Error'', ''Secondary Bandwidth Error'',
      ''Split Transaction Error'']"

definition kTRBTypeToName :: "string list" where
  "kTRBTypeToName =
     [''Reserved'', ''Normal'', ''Setup Stage'', ''Data Stage'', ''Status Stage'', ''Isoch'', ''Link'',
      ''EventData'', ''No-Op'', ''Enable Slot Command'', ''Disable Slot Command'',
      ''Address Device Command'', ''Configure Endpoint Command'', ''Evaluate Context Command'',
      ''Reset Endpoint Command'', ''Stop Endpoint Command'', ''Set TR Dequeue Pointer Command'',
      ''Reset Device Command'', ''Force Event Command'', ''Negotiate Bandwidth Command'',
      ''Set Latency Tolerance Value Command'', ''Get Port Bandwidth Command'', ''Force Header Command'',
      ''No Op Command'', ''Reserved'', ''Reserved'', ''Reserved'', ''Reserved'', ''Reserved'',
      ''Reserved'', ''Reserved'', ''Reserved'', ''Transfer Event'', ''Command Completion Event'',
      ''Port Status Change Event'', ''Bandwidth Request Event'', ''Doorbell Event'',
      ''Host Controller Event'', ''Device Notification Event'', ''MFINDEX Wrap Event'', ''Reserved'',
      ''Reserved'', ''Reserved'', ''Reserved'', ''Reserved'', ''Reserved'', ''Reserved'', ''Reserved'',
      ''Vendor Defined'', ''Vendor Defined'', ''Vendor Defined'', ''Vendor Defined'', ''Vendor Defined'',
      ''Vendor Defined'', ''Vendor Defined'', ''Vendor Defined'', ''Vendor Defined'', ''Vendor Defined'',
      ''Vendor Defined'', ''Vendor Defined'', ''Vendor Defined'', ''Vendor Defined'', ''Vendor Defined'',
      ''Vendor Defined'']"

subsection \<open>Constructors and methods\<close>

definition trb_new :: "layout \<Rightarrow> nat \<Rightarrow> trb" where
  "trb_new l ty = set_field l ''trb_type'' (of_nat ty) 0"

definition NormalTRB_new :: trb where "NormalTRB_new = trb_new NormalTRB NormalTRB_Type"

definition NormalTRB_Pointer :: "trb \<Rightarrow> u64" where
  "NormalTRB_Pointer t = get_pointer NormalTRB ''data_buffer_pointer'' 0 t"

definition NormalTRB_SetPointer :: "u64 \<Rightarrow> trb \<Rightarrow> trb" where
  "NormalTRB_SetPointer p t = set_pointer NormalTRB ''data_buffer_pointer'' 0 p t"

definition SetupStageTRB_new :: trb where
  "SetupStageTRB_new =
     set_field SetupStageTRB ''trb_transfer_length'' 8
       (set_field SetupStageTRB ''immediate_data'' 1 (trb_new SetupStageTRB SetupStageTRB_Type))"

definition kNoDataStage :: nat where "kNoDataStage = 0"
definition kOutDataStage :: nat where "kOutDataStage = 2"
definition kInDataStage :: nat where "kInDataStage = 3"

definition DataStageTRB_new :: trb where "DataStageTRB_new = trb_new DataStageTRB DataStageTRB_Type"

definition DataStageTRB_Pointer :: "trb \<Rightarrow> u64" where
  "DataStageTRB_Pointer t = get_pointer DataStageTRB ''data_buffer_pointer'' 0 t"

definition DataStageTRB_SetPointer :: "u64 \<Rightarrow> trb \<Rightarrow> trb" where
  "DataStageTRB_SetPointer p t = set_pointer DataStageTRB ''data_buffer_pointer'' 0 p t"

definition StatusStageTRB_new :: trb where "StatusStageTRB_new = trb_new StatusStageTRB StatusStageTRB_Type"

definition LinkTRB_Pointer :: "trb \<Rightarrow> u64" where
  "LinkTRB_Pointer t = get_pointer LinkTRB ''ring_segment_pointer'' 4 t"

definition LinkTRB_SetPointer :: "u64 \<Rightarrow> trb \<Rightarrow> trb" where
  "LinkTRB_SetPointer p t = set_pointer LinkTRB ''ring_segment_pointer'' 4 p t"

definition LinkTRB_new :: "u64 \<Rightarrow> trb" where
  "LinkTRB_new p = LinkTRB_SetPointer p (trb_new LinkTRB LinkTRB_Type)"

definition NoOpTRB_new :: trb where "NoOpTRB_new = trb_new NoOpTRB NoOpTRB_Type"

definition EnableSlotCommandTRB_new :: trb where
  "EnableSlotCommandTRB_new = trb_new EnableSlotCommandTRB EnableSlotCommandTRB_Type"

definition AddressDeviceCommandTRB_Pointer :: "trb \<Rightarrow> u64" where
  "AddressDeviceCommandTRB_Pointer t = get_pointer AddressDeviceCommandTRB ''input_context_pointer'' 4 t"

definition AddressDeviceCommandTRB_SetPointer :: "u64 \<Rightarrow> trb \<Rightarrow> trb" where
  "AddressDeviceCommandTRB_SetPointer p t = set_pointer AddressDeviceCommandTRB ''input_context_pointer'' 4 p t"

definition AddressDeviceCommandTRB_new :: "u64 \<Rightarrow> u8 \<Rightarrow> trb" where
  "AddressDeviceCommandTRB_new input_context slot_id =
     AddressDeviceCommandTRB_SetPointer input_context
       (set_field AddressDeviceCommandTRB ''slot_id'' (ucast slot_id)
         (trb_new AddressDeviceCommandTRB AddressDeviceCommandTRB_Type))"

definition ConfigureEndpointCommandTRB_Pointer :: "trb \<Rightarrow> u64" where
  "ConfigureEndpointCommandTRB_Pointer t = get_pointer ConfigureEndpointCommandTRB ''input_context_pointer'' 4 t"

definition ConfigureEndpointCommandTRB_SetPointer :: "u64 \<Rightarrow> trb \<Rightarrow> trb" where
  "ConfigureEndpointCommandTRB_SetPointer p t = set_pointer ConfigureEndpointCommandTRB ''input_context_pointer'' 4 p t"

definition ConfigureEndpointCommandTRB_new :: "u64 \<Rightarrow> u8 \<Rightarrow> trb" where
  "ConfigureEndpointCommandTRB_new input_context slot_id =
     ConfigureEndpointCommandTRB_SetPointer input_context
       (set_field ConfigureEndpointCommandTRB ''slot_id'' (ucast slot_id)
         (trb_new ConfigureEndpointCommandTRB ConfigureEndpointCommandTRB_Type))"

definition StopEndpointCommandTRB_new :: "EndpointID \<Rightarrow> u8 \<Rightarrow> trb" where
  "StopEndpointCommandTRB_new endpoint_id slot_id =
     set_field StopEndpointCommandTRB ''slot_id'' (ucast slot_id)
       (set_field StopEndpointCommandTRB ''endpoint_id'' (of_int (Address endpoint_id))
         (trb_new StopEndpointCommandTRB StopEndpointCommandTRB_Type))"

definition StopEndpointCommandTRB_EndpointID :: "trb \<Rightarrow> EndpointID" where
  "StopEndpointCommandTRB_EndpointID t = EndpointID (uint (get_field StopEndpointCommandTRB ''endpoint_id'' t))"

definition NoOpCommandTRB_new :: trb where "NoOpCommandTRB_new = trb_new NoOpCommandTRB NoOpCommandTRB_Type"

definition TransferEventTRB_new :: trb where
  "TransferEventTRB_new = trb_new TransferEventTRB TransferEventTRB_Type"

definition TransferEventTRB_Pointer :: "trb \<Rightarrow> u64" where
  "TransferEventTRB_Pointer t = get_pointer TransferEventTRB ''trb_pointer'' 0 t"

definition TransferEventTRB_SetPointer :: "u64 \<Rightarrow> trb \<Rightarrow> trb" where
  "TransferEventTRB_SetPointer p t = set_pointer TransferEventTRB ''trb_pointer'' 0 p t"

definition TransferEventTRB_EndpointID :: "trb \<Rightarrow> EndpointID" where
  "TransferEventTRB_EndpointID t = EndpointID (uint (get_field TransferEventTRB ''endpoint_id'' t))"

definition CommandCompletionEventTRB_new :: trb where
  "CommandCompletionEventTRB_new = trb_new CommandCompletionEventTRB CommandCompletionEventTRB_Type"

definition CommandCompletionEventTRB_Pointer :: "trb \<Rightarrow> u64" where
  "CommandCompletionEventTRB_Pointer t = get_pointer CommandCompletionEventTRB ''command_trb_pointer'' 4 t"

definition CommandCompletionEventTRB_SetPointer :: "u64 \<Rightarrow> trb \<Rightarrow> trb" where
  "CommandCompletionEventTRB_SetPointer p t = set_pointer CommandCompletionEventTRB ''command_trb_pointer'' 4 p t"

definition PortStatusChangeEventTRB_new :: trb where
  "PortStatusChangeEventTRB_new = trb_new PortStatusChangeEventTRB PortStatusChangeEventTRB_Type"

definition trb_type :: "trb \<Rightarrow> nat" where
  "trb_type t = unat (get_field TRB ''trb_type'' t)"

definition trb_cycle_bit :: "trb \<Rightarrow> bool" where
  "trb_cycle_bit t \<longleftrightarrow> get_field TRB ''cycle_bit'' t \<noteq> 0"

definition TRBDynamicCast :: "nat \<Rightarrow> trb \<Rightarrow> trb option" where
  "TRBDynamicCast ToType t = (if ToType = trb_type t then Some t else None)"

subsection \<open>Contexts\<close>

type_synonym context_word = "256 word"

definition EndpointContext_TransferRingBuffer :: "context_word \<Rightarrow> u64" where
  "EndpointContext_TransferRingBuffer c = get_pointer EndpointContext ''tr_dequeue_pointer'' 4 c"

definition EndpointContext_SetTransferRingBuffer :: "u64 \<Rightarrow> context_word \<Rightarrow> context_word" where
  "EndpointContext_SetTransferRingBuffer p c = set_pointer EndpointContext ''tr_dequeue_pointer'' 4 p c"

definition DeviceContextIndex_of :: "EndpointID \<Rightarrow> int" where
  "DeviceContextIndex_of e = Address e"

definition DeviceContextIndex_new :: "int \<Rightarrow> bool \<Rightarrow> int" where
  "DeviceContextIndex_new ep_num dir_in = 2 * ep_num + (if ep_num = 0 then 1 else of_bool dir_in)"

record DeviceContext =
  dc_slot_context :: context_word
  dc_ep_contexts :: "context_word list"

record InputControlContext =
  drop_context_flags :: u32
  add_context_flags :: u32
  configuration_value :: u8
  interface_number :: u8
  alternate_setting :: u8

record InputContext =
  input_control_context :: InputControlContext
  ic_slot_context :: context_word
  ic_ep_contexts :: "context_word list"

definition zero_control_context :: InputControlContext where
  "zero_control_context = \<lparr>drop_context_flags = 0, add_context_flags = 0, configuration_value = 0,
     interface_number = 0, alternate_setting = 0\<rparr>"

definition EnableSlotContext :: "InputContext \<Rightarrow> InputContext" where
  "EnableSlotContext c = c\<lparr>input_control_context := (input_control_context c)
     \<lparr>add_context_flags := add_context_flags (input_control_context c) OR 1\<rparr>\<rparr>"

text \<open>\<open>EnableEndpoint\<close> returns the index of the endpoint context; \<open>None\<close> when the index lies outside the
  array or the shift is not defined.\<close>

definition EnableEndpoint :: "int \<Rightarrow> InputContext \<Rightarrow> (nat \<times> InputContext) option" where
  "EnableEndpoint dci c =
     (if 1 \<le> dci \<and> dci \<le> 31
      then Some (nat (dci - 1), c\<lparr>input_control_context := (input_control_context c)
        \<lparr>add_context_flags := add_context_flags (input_control_context c) OR push_bit (nat dci) 1\<rparr>\<rparr>)
      else None)"

subsection \<open>The type and the cycle bit of every TRB\<close>

lemma trb_layout_pos:
  assumes "l \<in> set trb_layouts"
  shows "wf_layout l 128" "field_pos l ''cycle_bit'' = Some (96, 1)" "field_pos l ''trb_type'' = Some (106, 6)"
  using trb_layouts_wf assms by auto

lemma TRB_layout: "TRB \<in> set trb_layouts"
  by (simp add: trb_layouts_def)

lemma trb_type_layout: "l \<in> set trb_layouts \<Longrightarrow> trb_type t = unat (get_field l ''trb_type'' t)"
  by (simp add: trb_type_def get_field_def trb_layout_pos TRB_layout)

lemma trb_cycle_bit_layout: "l \<in> set trb_layouts \<Longrightarrow> trb_cycle_bit t \<longleftrightarrow> get_field l ''cycle_bit'' t \<noteq> 0"
  by (simp add: trb_cycle_bit_def get_field_def trb_layout_pos TRB_layout)

lemma trb_type_set_other:
  "l \<in> set trb_layouts \<Longrightarrow> f \<noteq> ''trb_type'' \<Longrightarrow> trb_type (set_field l f v t) = trb_type t"
  by (simp add: trb_type_layout [of l] get_set_other)

lemma trb_type_new: "l \<in> set trb_layouts \<Longrightarrow> ty < 64 \<Longrightarrow> trb_type (trb_new l ty) = ty"
proof -
  assume l: "l \<in> set trb_layouts" and ty: "ty < 64"
  have "get_field l ''trb_type'' (trb_new l ty) = take_bit 6 (of_nat ty)"
    unfolding trb_new_def by (rule get_set_same) (use trb_layout_pos [OF l] in simp_all)
  also have "\<dots> = of_nat ty" using ty by (simp add: take_bit_of_nat take_bit_nat_eq_self)
  finally show ?thesis using ty by (simp add: trb_type_layout [OF l] unat_of_nat take_bit_nat_eq_self)
qed

lemmas trb_members = trb_layouts_def
lemmas trb_news = NormalTRB_new_def SetupStageTRB_new_def DataStageTRB_new_def StatusStageTRB_new_def
  LinkTRB_new_def LinkTRB_SetPointer_def NoOpTRB_new_def EnableSlotCommandTRB_new_def
  AddressDeviceCommandTRB_new_def AddressDeviceCommandTRB_SetPointer_def
  ConfigureEndpointCommandTRB_new_def ConfigureEndpointCommandTRB_SetPointer_def
  StopEndpointCommandTRB_new_def NoOpCommandTRB_new_def TransferEventTRB_new_def
  CommandCompletionEventTRB_new_def PortStatusChangeEventTRB_new_def
lemmas trb_types = NormalTRB_Type_def SetupStageTRB_Type_def DataStageTRB_Type_def StatusStageTRB_Type_def
  LinkTRB_Type_def NoOpTRB_Type_def EnableSlotCommandTRB_Type_def AddressDeviceCommandTRB_Type_def
  ConfigureEndpointCommandTRB_Type_def StopEndpointCommandTRB_Type_def NoOpCommandTRB_Type_def
  TransferEventTRB_Type_def CommandCompletionEventTRB_Type_def PortStatusChangeEventTRB_Type_def

text \<open>A TRB as the controller reads it: the type in bits 10 to 15 of its last 32-bit word, the slot in bits 24 to
  31, the endpoint in bits 16 to 20, and the pointer in the first two words.\<close>

definition hw_type :: "trb \<Rightarrow> nat" where "hw_type t = unat (take_bit 6 (drop_bit 10 (dword 3 t)))"
definition hw_slot :: "trb \<Rightarrow> u8" where "hw_slot t = ucast (drop_bit 24 (dword 3 t))"
definition hw_endpoint :: "trb \<Rightarrow> int" where "hw_endpoint t = uint (take_bit 5 (drop_bit 16 (dword 3 t)))"
definition hw_pointer :: "trb \<Rightarrow> u64" where "hw_pointer t = ucast t"

lemmas hw_defs = hw_type_def hw_slot_def hw_endpoint_def hw_pointer_def

text \<open>All TRBs the driver can build, the type each is built with, and the pointer, slot and endpoint it carries.\<close>

definition built_trbs :: "u64 \<Rightarrow> u64 \<Rightarrow> u8 \<Rightarrow> EndpointID \<Rightarrow> (trb \<times> nat \<times> u64 option \<times> u8 option \<times> int option) list" where
  "built_trbs p q slot ep =
     [(NormalTRB_new, NormalTRB_Type, None, None, None), (NormalTRB_SetPointer q NormalTRB_new, NormalTRB_Type, Some q, None, None),
      (SetupStageTRB_new, SetupStageTRB_Type, None, None, None),
      (DataStageTRB_new, DataStageTRB_Type, None, None, None), (DataStageTRB_SetPointer q DataStageTRB_new, DataStageTRB_Type, Some q, None, None),
      (StatusStageTRB_new, StatusStageTRB_Type, None, None, None), (LinkTRB_new p, LinkTRB_Type, Some p, None, None),
      (NoOpTRB_new, NoOpTRB_Type, None, None, None), (EnableSlotCommandTRB_new, EnableSlotCommandTRB_Type, None, None, None),
      (AddressDeviceCommandTRB_new p slot, AddressDeviceCommandTRB_Type, Some p, Some slot, None),
      (ConfigureEndpointCommandTRB_new p slot, ConfigureEndpointCommandTRB_Type, Some p, Some slot, None),
      (StopEndpointCommandTRB_new ep slot, StopEndpointCommandTRB_Type, None, Some slot, Some (Address ep)),
      (NoOpCommandTRB_new, NoOpCommandTRB_Type, None, None, None), (TransferEventTRB_new, TransferEventTRB_Type, None, None, None),
      (CommandCompletionEventTRB_new, CommandCompletionEventTRB_Type, None, None, None),
      (PortStatusChangeEventTRB_new, PortStatusChangeEventTRB_Type, None, None, None)]"

lemma built_trb_type: "(t, ty, c) \<in> set (built_trbs p q slot ep) \<Longrightarrow> trb_type t = ty"
  unfolding built_trbs_def
  by (auto simp: trb_news NormalTRB_SetPointer_def DataStageTRB_SetPointer_def set_pointer_def trb_type_set_other trb_members trb_type_new trb_types)

lemma trb_type_names_total: "(t, ty, c) \<in> set (built_trbs p q slot ep) \<Longrightarrow> trb_type t < length kTRBTypeToName"
proof -
  have "length kTRBTypeToName = 64" by (simp add: kTRBTypeToName_def)
  moreover have "trb_type t < 64" unfolding trb_type_def
    using get_field_less [OF trb_layout_pos(3) [OF TRB_layout], where 'a = 128, of t] by simp
  ultimately show ?thesis by simp
qed

lemma ucast_slot: "take_bit 8 (ucast (slot :: u8) :: trb) = ucast slot"
  by (rule bit_word_eqI) (auto simp: bit_simps dest: bit_imp_le_length)

lemma link_pointer: "p = push_bit 4 (drop_bit 4 p) \<Longrightarrow> LinkTRB_Pointer (LinkTRB_SetPointer p t) = p"
  unfolding LinkTRB_Pointer_def LinkTRB_SetPointer_def
  by (rule get_set_pointer [where off = 4 and n = 60])
    (use unsigned_less [of p] in \<open>simp_all add: LinkTRB_def layout_eval\<close>)

text \<open>Reading a field at its place in the last word or in the first two.\<close>

lemma hw_type_field: "hw_type t = trb_type t"
proof -
  have "take_bit 6 (drop_bit 10 (dword 3 t)) = (ucast (get_field TRB ''trb_type'' t) :: u32)"
    by (rule bit_word_eqI) (auto simp: bit_simps bit_dword bit_get_field [OF trb_layout_pos(3) [OF TRB_layout]])
  moreover have "unat (ucast (get_field TRB ''trb_type'' t) :: u32) = unat (get_field TRB ''trb_type'' t)"
    using get_field_less [OF trb_layout_pos(3) [OF TRB_layout], where 'a = 128, of t]
    by (simp add: unsigned_ucast_eq take_bit_nat_eq_self)
  ultimately show ?thesis by (simp add: hw_type_def trb_type_def)
qed

lemma hw_slot_field: "field_pos l ''slot_id'' = Some (120, 8) \<Longrightarrow> hw_slot t = ucast (get_field l ''slot_id'' t)"
  by (rule bit_word_eqI) (simp add: hw_slot_def bit_simps bit_dword bit_get_field)

lemma hw_endpoint_field:
  assumes "field_pos l ''endpoint_id'' = Some (112, 5)"
  shows "hw_endpoint t = uint (get_field l ''endpoint_id'' t)"
proof -
  have "take_bit 5 (drop_bit 16 (dword 3 t)) = (ucast (get_field l ''endpoint_id'' t) :: u32)"
    by (rule bit_word_eqI) (auto simp: bit_simps bit_dword bit_get_field [OF assms])
  moreover have "unat (ucast (get_field l ''endpoint_id'' t) :: u32) = unat (get_field l ''endpoint_id'' t)"
    using get_field_less [OF assms, where 'a = 128, of t] by (simp add: unsigned_ucast_eq take_bit_nat_eq_self)
  ultimately show ?thesis by (simp only: hw_endpoint_def uint_nat)
qed

lemma hw_pointer_field:
  "field_pos l f = Some (s, 64 - s) \<Longrightarrow> s \<le> 64 \<Longrightarrow> get_pointer l f s t = push_bit s (drop_bit s (hw_pointer t))"
  by (rule bit_word_eqI) (auto simp: get_pointer_def hw_pointer_def bit_simps bit_get_field)

lemma hw_pointer_set:
  assumes "field_pos l f = Some (s, 64 - s)" and "s \<le> 64" and "p = push_bit s (drop_bit s p)" and "\<And>k. k < s \<Longrightarrow> \<not> bit t k"
  shows "hw_pointer (set_pointer l f s p t) = p"
proof (rule bit_word_eqI)
  fix k assume k: "k < LENGTH(64)"
  have "bit p k \<Longrightarrow> s \<le> k" using assms(3) by (metis bit_push_bit_iff)
  then show "bit (hw_pointer (set_pointer l f s p t)) k = bit p k"
    using k assms(1,2,4) by (auto simp: hw_pointer_def set_pointer_def set_field_def bit_bf_set bit_simps)
qed

lemma trb_new_low: "l \<in> set trb_layouts \<Longrightarrow> k < 96 \<Longrightarrow> \<not> bit (trb_new l ty) k"
  using trb_layout_pos(3) [of l] by (simp add: trb_new_def set_field_def bit_bf_set)

text \<open>Where the fields lie.\<close>

lemma trb_positions:
  "field_pos NormalTRB ''data_buffer_pointer'' = Some (0, 64)" "field_pos DataStageTRB ''data_buffer_pointer'' = Some (0, 64)"
  "field_pos LinkTRB ''ring_segment_pointer'' = Some (4, 60)" "field_pos AddressDeviceCommandTRB ''input_context_pointer'' = Some (4, 60)"
  "field_pos ConfigureEndpointCommandTRB ''input_context_pointer'' = Some (4, 60)"
  "field_pos TransferEventTRB ''trb_pointer'' = Some (0, 64)" "field_pos CommandCompletionEventTRB ''command_trb_pointer'' = Some (4, 60)"
  "field_pos AddressDeviceCommandTRB ''slot_id'' = Some (120, 8)" "field_pos ConfigureEndpointCommandTRB ''slot_id'' = Some (120, 8)"
  "field_pos StopEndpointCommandTRB ''slot_id'' = Some (120, 8)" "field_pos TransferEventTRB ''slot_id'' = Some (120, 8)"
  "field_pos CommandCompletionEventTRB ''slot_id'' = Some (120, 8)"
  "field_pos StopEndpointCommandTRB ''endpoint_id'' = Some (112, 5)" "field_pos TransferEventTRB ''endpoint_id'' = Some (112, 5)"
  by (simp_all add: trb_layout_defs layout_eval)

lemma command_slots:
  "hw_slot (AddressDeviceCommandTRB_new p slot) = slot" "hw_slot (ConfigureEndpointCommandTRB_new p slot) = slot"
  "hw_slot (StopEndpointCommandTRB_new ep slot) = slot"
proof -
  have low: "ucast (ucast (slot :: u8) :: trb) = slot" by (rule bit_word_eqI) (simp add: bit_simps)
  have wf: "wf_layout AddressDeviceCommandTRB 128" "wf_layout ConfigureEndpointCommandTRB 128" "wf_layout StopEndpointCommandTRB 128"
    by (simp_all add: trb_layout_pos(1) trb_layouts_def)
  note pos = trb_positions(8-10)
  show "hw_slot (AddressDeviceCommandTRB_new p slot) = slot" unfolding hw_slot_field [OF pos(1)] trb_news set_pointer_def
    using wf pos by (simp add: get_set_other get_set_same ucast_slot low)
  show "hw_slot (ConfigureEndpointCommandTRB_new p slot) = slot" unfolding hw_slot_field [OF pos(2)] trb_news set_pointer_def
    using wf pos by (simp add: get_set_other get_set_same ucast_slot low)
  show "hw_slot (StopEndpointCommandTRB_new ep slot) = slot" unfolding hw_slot_field [OF pos(3)] trb_news set_pointer_def
    using wf pos by (simp add: get_set_other get_set_same ucast_slot low)
qed

lemma stop_endpoint:
  assumes "0 \<le> Address ep" "Address ep < 32"
  shows "hw_endpoint (StopEndpointCommandTRB_new ep slot) = Address ep"
proof -
  have wf: "wf_layout StopEndpointCommandTRB LENGTH(128)" by (simp add: trb_layout_pos(1) trb_layouts_def)
  have "get_field StopEndpointCommandTRB ''endpoint_id'' (StopEndpointCommandTRB_new ep slot) = take_bit 5 (of_int (Address ep))"
    unfolding StopEndpointCommandTRB_new_def
    by (simp add: get_set_other get_set_same [OF wf trb_positions(13)])
  then show ?thesis unfolding hw_endpoint_field [OF trb_positions(13)] using assms
    by (simp add: unsigned_take_bit_eq uint_word_of_int_eq take_bit_int_eq_self)
qed

lemma built_pointers:
  assumes p: "p = push_bit 4 (drop_bit 4 p)"
  shows "hw_pointer (NormalTRB_SetPointer q NormalTRB_new) = q" "hw_pointer (DataStageTRB_SetPointer q DataStageTRB_new) = q"
    "hw_pointer (LinkTRB_new p) = p" "hw_pointer (AddressDeviceCommandTRB_new p slot) = p"
    "hw_pointer (ConfigureEndpointCommandTRB_new p slot) = p"
proof -
  have m: "NormalTRB \<in> set trb_layouts" "DataStageTRB \<in> set trb_layouts" "LinkTRB \<in> set trb_layouts"
    "AddressDeviceCommandTRB \<in> set trb_layouts" "ConfigureEndpointCommandTRB \<in> set trb_layouts" by (simp_all add: trb_layouts_def)
  have slot: "\<not> bit (set_field l ''slot_id'' v (trb_new l ty)) k"
    if "l \<in> set trb_layouts" "field_pos l ''slot_id'' = Some (120, 8)" "k < 4" for l v ty k
    using trb_new_low [OF that(1)] that(2,3) by (simp add: set_field_def bit_bf_set)
  note pos = trb_positions(1-5)
  show "hw_pointer (NormalTRB_SetPointer q NormalTRB_new) = q" "hw_pointer (DataStageTRB_SetPointer q DataStageTRB_new) = q"
    unfolding NormalTRB_SetPointer_def DataStageTRB_SetPointer_def by (rule hw_pointer_set; simp add: pos)+
  show "hw_pointer (LinkTRB_new p) = p"
    unfolding LinkTRB_new_def LinkTRB_SetPointer_def using p by (intro hw_pointer_set) (simp_all add: pos trb_new_low m)
  show "hw_pointer (AddressDeviceCommandTRB_new p slot) = p" "hw_pointer (ConfigureEndpointCommandTRB_new p slot) = p"
    unfolding AddressDeviceCommandTRB_new_def AddressDeviceCommandTRB_SetPointer_def
      ConfigureEndpointCommandTRB_new_def ConfigureEndpointCommandTRB_SetPointer_def
    using p by (intro hw_pointer_set; simp add: pos slot m trb_positions(8,9))+
qed

text \<open>What the accessors of the program read from any TRB is what the controller has put there.\<close>

definition reads_back :: "trb \<Rightarrow> bool" where
  "reads_back t \<longleftrightarrow> trb_type t = hw_type t \<and>
     NormalTRB_Pointer t = hw_pointer t \<and> DataStageTRB_Pointer t = hw_pointer t \<and> TransferEventTRB_Pointer t = hw_pointer t \<and>
     LinkTRB_Pointer t = push_bit 4 (drop_bit 4 (hw_pointer t)) \<and>
     AddressDeviceCommandTRB_Pointer t = push_bit 4 (drop_bit 4 (hw_pointer t)) \<and>
     ConfigureEndpointCommandTRB_Pointer t = push_bit 4 (drop_bit 4 (hw_pointer t)) \<and>
     CommandCompletionEventTRB_Pointer t = push_bit 4 (drop_bit 4 (hw_pointer t)) \<and>
     StopEndpointCommandTRB_EndpointID t = EndpointID (hw_endpoint t) \<and> TransferEventTRB_EndpointID t = EndpointID (hw_endpoint t) \<and>
     ucast (get_field TransferEventTRB ''slot_id'' t) = hw_slot t \<and> ucast (get_field CommandCompletionEventTRB ''slot_id'' t) = hw_slot t"

lemma all_read_back: "reads_back t"
proof -
  have "get_pointer l f 0 t = hw_pointer t" if "field_pos l f = Some (0, 64)" for l f
    using hw_pointer_field [of l f 0 t] that by simp
  moreover have "get_pointer l f 4 t = push_bit 4 (drop_bit 4 (hw_pointer t))" if "field_pos l f = Some (4, 60)" for l f
    using hw_pointer_field [of l f 4 t] that by simp
  ultimately show ?thesis
    by (simp add: reads_back_def hw_type_field NormalTRB_Pointer_def DataStageTRB_Pointer_def TransferEventTRB_Pointer_def LinkTRB_Pointer_def
        AddressDeviceCommandTRB_Pointer_def ConfigureEndpointCommandTRB_Pointer_def CommandCompletionEventTRB_Pointer_def
        StopEndpointCommandTRB_EndpointID_def TransferEventTRB_EndpointID_def trb_positions
        flip: hw_slot_field [OF trb_positions(11)] hw_slot_field [OF trb_positions(12)] hw_endpoint_field [OF trb_positions(13)] hw_endpoint_field [OF trb_positions(14)])
qed

text \<open>C40: the tags and the contents of TRBs are sound: every TRB the driver builds is recognised by
  \<open>TRBDynamicCast\<close> as its own type and as no other; the controller, which reads a TRB by the positions of its bits,
  finds in it the type, the pointer (16-byte aligned where four bits are dropped), the slot and the endpoint the
  driver has put there; and every accessor reads from any TRB, an event above all, what is at the position where the
  controller puts it.\<close>

theorem TRB_tag_sound:
  assumes "(t, ty, ptr, sl, e) \<in> set (built_trbs p q slot ep)" and "p = push_bit 4 (drop_bit 4 p)" and "0 \<le> Address ep" "Address ep < 32"
  shows "TRBDynamicCast ty t = Some t \<and> (ty' \<noteq> ty \<longrightarrow> TRBDynamicCast ty' t = None) \<and>
    hw_type t = ty \<and> ptr \<in> {None, Some (hw_pointer t)} \<and> sl \<in> {None, Some (hw_slot t)} \<and> e \<in> {None, Some (hw_endpoint t)} \<and>
    reads_back ev"
proof -
  have ty: "trb_type t = ty" using assms(1) by (rule built_trb_type)
  have "ptr \<in> {None, Some (hw_pointer t)} \<and> sl \<in> {None, Some (hw_slot t)} \<and> e \<in> {None, Some (hw_endpoint t)}"
    using assms(1) unfolding built_trbs_def
    by (auto simp: built_pointers [OF assms(2)] command_slots stop_endpoint [OF assms(3,4)])
  then show ?thesis using ty all_read_back by (auto simp: TRBDynamicCast_def hw_type_field)
qed

theorem TRB_tag_sound_witness:
  "TRBDynamicCast AddressDeviceCommandTRB_Type (StopEndpointCommandTRB_new (EndpointID 3) 5) = None \<and>
   hw_slot (StopEndpointCommandTRB_new (EndpointID 3) 5) = 5 \<and> hw_endpoint (StopEndpointCommandTRB_new (EndpointID 3) 5) = 3 \<and>
   hw_pointer (LinkTRB_new 0x1000) = 0x1000"
  using TRB_tag_sound [of "StopEndpointCommandTRB_new (EndpointID 3) 5" StopEndpointCommandTRB_Type None "Some 5" "Some 3" "0x1000" 0 5 "EndpointID 3"
      AddressDeviceCommandTRB_Type 0]
    TRB_tag_sound [of "LinkTRB_new 0x1000" LinkTRB_Type "Some 0x1000" None None "0x1000" 0 5 "EndpointID 3" AddressDeviceCommandTRB_Type 0]
  by (simp add: built_trbs_def trb_types)

end
