(* ===== verification/Usb_Memory.thy ===== *)
theory Usb_Memory
  imports Kernel_Prelude
begin

text \<open>
  \<open>src/kernel/usb/memory.hpp\<close>, \<open>memory.cpp\<close> and \<open>arraymap.hpp\<close>: the bump allocator of the USB
  driver and its fixed-size map. The address of \<open>memory_pool\<close> is chosen by the linker and is an
  argument; the global \<open>alloc_ptr\<close> is passed as state. A null pointer is the address 0.
\<close>

subsection \<open>The allocator\<close>

definition kMemoryPoolSize :: u64 where
  "kMemoryPoolSize = 4096 * 32"

definition Ceil :: "u64 \<Rightarrow> u32 \<Rightarrow> u64" where
  "Ceil value alignment = (value + ucast alignment - 1) AND NOT (ucast (alignment - 1))"

definition MaskBits :: "u64 \<Rightarrow> u64 \<Rightarrow> u64" where
  "MaskBits value m = value AND NOT (m - 1)"

text \<open>Where the next block would begin, with the alignment and the boundary taken into account.\<close>

definition alloc_place :: "u64 \<Rightarrow> u32 \<Rightarrow> u32 \<Rightarrow> u64 \<Rightarrow> u64" where
  "alloc_place sz alignment boundary alloc_ptr =
     (let alloc_ptr = if alignment > 0 then Ceil alloc_ptr alignment else alloc_ptr
      in if boundary > 0 then
           (let next_boundary = Ceil alloc_ptr boundary
            in if next_boundary < alloc_ptr + sz then next_boundary else alloc_ptr)
         else alloc_ptr)"

definition AllocMem :: "u64 \<Rightarrow> u64 \<Rightarrow> u32 \<Rightarrow> u32 \<Rightarrow> u64 \<Rightarrow> u64 \<times> u64" where
  "AllocMem memory_pool sz alignment boundary alloc_ptr =
     (let alloc_ptr = alloc_place sz alignment boundary alloc_ptr
      in if memory_pool + kMemoryPoolSize < alloc_ptr + sz then (0, alloc_ptr)
         else (alloc_ptr, alloc_ptr + sz))"

definition AllocArray :: "u64 \<Rightarrow> u64 \<Rightarrow> u64 \<Rightarrow> u32 \<Rightarrow> u32 \<Rightarrow> u64 \<Rightarrow> u64 \<times> u64" where
  "AllocArray sizeof_T memory_pool num_obj alignment boundary = AllocMem memory_pool (sizeof_T * num_obj) alignment boundary"

definition FreeMem :: "u64 \<Rightarrow> u64 \<Rightarrow> u64" where
  "FreeMem p alloc_ptr = alloc_ptr"

definition Allocator_allocate :: "u64 \<Rightarrow> u64 \<Rightarrow> u64 \<Rightarrow> u64 \<Rightarrow> u64 \<times> u64" where
  "Allocator_allocate sizeof_T memory_pool n = AllocArray sizeof_T memory_pool n 64 4096"

definition Allocator_deallocate :: "u64 \<Rightarrow> u64 \<Rightarrow> u64 \<Rightarrow> u64" where
  "Allocator_deallocate p num = FreeMem p"

subsection \<open>The array map\<close>

type_synonym ('k, 'v) ArrayMap = "('k option \<times> 'v) list"

definition ArrayMap_new :: "nat \<Rightarrow> 'v \<Rightarrow> ('k, 'v) ArrayMap" where
  "ArrayMap_new n v = replicate n (None, v)"

fun ArrayMap_Get :: "'k \<Rightarrow> ('k, 'v) ArrayMap \<Rightarrow> 'v option" where
  "ArrayMap_Get key [] = None"
| "ArrayMap_Get key ((opt_k, v) # table) = (if opt_k = Some key then Some v else ArrayMap_Get key table)"

fun ArrayMap_Put :: "'k \<Rightarrow> 'v \<Rightarrow> ('k, 'v) ArrayMap \<Rightarrow> ('k, 'v) ArrayMap" where
  "ArrayMap_Put key value [] = []"
| "ArrayMap_Put key value ((opt_k, v) # table) =
     (if opt_k = None then (Some key, value) # table else (opt_k, v) # ArrayMap_Put key value table)"

fun ArrayMap_Delete :: "'k \<Rightarrow> ('k, 'v) ArrayMap \<Rightarrow> ('k, 'v) ArrayMap" where
  "ArrayMap_Delete key [] = []"
| "ArrayMap_Delete key ((opt_k, v) # table) =
     (if opt_k = Some key then (None, v) # table else (opt_k, v) # ArrayMap_Delete key table)"

subsection \<open>Rounding up\<close>

definition round_up :: "nat \<Rightarrow> nat \<Rightarrow> nat" where
  "round_up n m = (n + m - 1) div m * m"

lemma round_up_props:
  assumes "0 < m"
  shows "m dvd round_up n m" "n \<le> round_up n m" "round_up n m < n + m"
proof -
  let ?q = "(n + m - 1) div m" and ?r = "(n + m - 1) mod m"
  have e: "?q * m + ?r = n + m - 1" by (rule div_mult_mod_eq)
  have r: "?r < m" using assms by simp
  show "m dvd round_up n m" by (simp add: round_up_def)
  show "n \<le> round_up n m" "round_up n m < n + m" unfolding round_up_def using e r assms by linarith+
qed

lemma round_up_least: "0 < m \<Longrightarrow> m dvd k \<Longrightarrow> n \<le> k \<Longrightarrow> round_up n m \<le> k"
proof -
  assume m: "0 < m" and k: "m dvd k" "n \<le> k"
  obtain c d where c: "round_up n m = m * c" and d: "k = m * d" using round_up_props(1) [OF m, of n] k(1) by (auto simp: dvd_def)
  have "round_up n m < k + m" using round_up_props(3) [OF m, of n] k by linarith
  then have "m * c < m * Suc d" by (simp add: c d)
  then have "c \<le> d" unfolding mult_less_cancel1 by simp
  then show ?thesis by (simp add: c d)
qed

lemma round_up_same: "0 < m \<Longrightarrow> m dvd n \<Longrightarrow> round_up n m = n"
  using round_up_least [of m n n] round_up_props(2) [of m n] by simp

lemma and_not_mask: "w AND NOT (mask a) = push_bit a (drop_bit a w)" for w :: "'a::len word"
  by (rule bit_word_eqI) (auto simp: bit_simps)

lemma unat_push_drop: "unat (push_bit a (drop_bit a w)) = unat w div 2 ^ a * 2 ^ a" for w :: u64
proof -
  have "unat w div 2 ^ a * 2 ^ a \<le> unat w" by simp
  also have "\<dots> < 2 ^ 64" using unsigned_less [of w] by simp
  finally have "unat w div 2 ^ a * 2 ^ a < 2 ^ 64" .
  then show ?thesis
    unfolding unsigned_push_bit_eq unat_drop_bit_eq by (simp add: push_bit_eq_mult drop_bit_eq_div take_bit_nat_eq_self)
qed

lemma unat_Ceil:
  assumes "a < 32" and "unat v + 2 ^ a \<le> 2 ^ 64"
  shows "unat (Ceil v (2 ^ a)) = round_up (unat v) (2 ^ a)"
proof -
  have m: "ucast ((2 :: u32) ^ a - 1) = (mask a :: u64)"
    unfolding mask_eq_exp_minus_1 [symmetric] using assms(1) by (rule_tac bit_word_eqI) (auto simp: bit_simps)
  have u: "ucast ((2 :: u32) ^ a) = (2 :: u64) ^ a"
    using assms(1) by (rule_tac bit_word_eqI) (auto simp: bit_simps)
  have "1 \<le> unat v + 2 ^ a" by (simp add: Suc_le_eq)
  then have "v + 2 ^ a - 1 = of_nat (unat v + 2 ^ a - 1)" by (simp only: of_nat_diff) simp
  then have "unat (v + 2 ^ a - 1) = unat v + 2 ^ a - 1"
    using assms(2) by (simp add: unat_of_nat take_bit_nat_eq_self)
  then show ?thesis unfolding Ceil_def m u and_not_mask unat_push_drop round_up_def by simp
qed

subsection \<open>Placement of a block\<close>

definition within_boundary :: "nat \<Rightarrow> nat \<Rightarrow> nat \<Rightarrow> bool" where
  "within_boundary B p n \<longleftrightarrow> (\<forall>m. B dvd m \<longrightarrow> \<not> (p < m \<and> m < p + n))"

definition place :: "nat \<Rightarrow> nat \<Rightarrow> nat \<Rightarrow> nat \<Rightarrow> nat" where
  "place n A B ptr = (let p = round_up ptr A; q = round_up p B in if q < p + n then q else p)"

lemma place_props:
  assumes "0 < A" and "0 < B" and "A dvd B"
  shows "A dvd place n A B ptr" "ptr \<le> place n A B ptr" "n \<le> B \<Longrightarrow> within_boundary B (place n A B ptr) n"
proof -
  let ?p = "round_up ptr A" let ?q = "round_up ?p B"
  note p = round_up_props [OF assms(1), of ptr] and q = round_up_props [OF assms(2), of ?p]
  show "A dvd place n A B ptr" using p(1) dvd_trans [OF assms(3) q(1)] by (simp add: place_def Let_def)
  show "ptr \<le> place n A B ptr" using p(2) q(2) by (simp add: place_def Let_def)
  show "within_boundary B (place n A B ptr) n" if n: "n \<le> B"
    unfolding within_boundary_def
  proof (intro allI impI notI)
    fix m assume m: "B dvd m" "place n A B ptr < m \<and> m < place n A B ptr + n"
    show False
    proof (cases "?q < ?p + n")
      case True
      with m(2) have "?q < m" "m < ?q + B" using n by (simp_all add: place_def Let_def)
      moreover obtain c d where "?q = B * c" "m = B * d" using q(1) m(1) by (auto simp: dvd_def)
      ultimately have "B * c < B * d" "B * d < B * Suc c" by simp_all
      then show False unfolding mult_less_cancel1 by simp
    next
      case False
      with m(2) have "?p \<le> m" "m < ?q" by (simp_all add: place_def Let_def)
      with round_up_least [OF assms(2) m(1), of ?p] show False by simp
    qed
  qed
qed

lemma place_least:
  assumes "0 < A" and "0 < B" and "0 < n" and "A dvd k" and "ptr \<le> k" and "within_boundary B k n"
  shows "place n A B ptr \<le> k"
proof -
  let ?p = "round_up ptr A" let ?q = "round_up ?p B"
  have pk: "?p \<le> k" using assms by (simp add: round_up_least)
  show ?thesis
  proof (cases "?q < ?p + n \<and> k < ?q")
    case True
    then have "k < ?q" "?q < k + n" using pk by simp_all
    then have False using assms(6) round_up_props(1) [OF assms(2), of ?p] unfolding within_boundary_def by blast
    then show ?thesis ..
  next
    case False
    then show ?thesis using pk by (auto simp: place_def Let_def)
  qed
qed

lemma place_le: "0 < A \<Longrightarrow> 0 < B \<Longrightarrow> A dvd E \<Longrightarrow> B dvd E \<Longrightarrow> ptr \<le> E \<Longrightarrow> place n A B ptr \<le> E"
  by (simp add: place_def Let_def round_up_least)

lemma unat_alloc_place:
  assumes "a \<le> b" and "b < 32" and "unat ptr + 2 ^ a + 2 ^ b + unat sz < 2 ^ 64"
  shows "unat (alloc_place sz (2 ^ a) (2 ^ b) ptr) = place (unat sz) (2 ^ a) (2 ^ b) (unat ptr)"
proof -
  have pos: "(0 :: u32) < 2 ^ a" "(0 :: u32) < 2 ^ b" using assms by (simp_all add: word_gt_0)
  let ?p = "Ceil ptr (2 ^ a)"
  have p: "unat ?p = round_up (unat ptr) (2 ^ a)" using assms by (simp add: unat_Ceil)
  have lt: "unat ?p < unat ptr + 2 ^ a" unfolding p by (rule round_up_props) simp
  then have q: "unat (Ceil ?p (2 ^ b)) = round_up (unat ?p) (2 ^ b)" using assms by (intro unat_Ceil) simp_all
  have "unat (?p + sz) = unat ?p + unat sz" using lt assms(3) by (simp add: unat_add_lem [symmetric])
  then show ?thesis using pos by (simp add: alloc_place_def place_def Let_def word_less_nat_alt p q)
qed

subsection \<open>Blocks of a run of requests\<close>

text \<open>A request asks for \<open>sz\<close> bytes with an alignment and a boundary, each zero (none) or a power of two of
  at most 64 KiB, and the boundary no smaller than the alignment when both are given, as in every call of the
  driver.\<close>

type_synonym request = "u64 \<times> u32 \<times> u32"

definition pow2_or_0 :: "u32 \<Rightarrow> bool" where
  "pow2_or_0 v \<longleftrightarrow> v = 0 \<or> (\<exists>a \<in> {..16::nat}. v = 2 ^ a)"

definition request_ok :: "request \<Rightarrow> bool" where
  "request_ok r = (case r of (sz, al, bd) \<Rightarrow> unat sz < 2 ^ 32 \<and> pow2_or_0 al \<and> pow2_or_0 bd \<and> (bd \<noteq> 0 \<longrightarrow> al \<le> bd))"

definition pool_ok :: "u64 \<Rightarrow> bool" where
  "pool_ok pool \<longleftrightarrow> 0 < pool \<and> unat pool < 2 ^ 48"

definition pool_end :: "u64 \<Rightarrow> nat" where
  "pool_end pool = unat pool + unat kMemoryPoolSize"

definition ptr_ok :: "u64 \<Rightarrow> u64 \<Rightarrow> bool" where
  "ptr_ok pool ptr \<longleftrightarrow> unat pool \<le> unat ptr \<and> unat ptr \<le> round_up (pool_end pool) (2 ^ 16)"

text \<open>Blocks handed out, with their requests; a refused request hands out none.\<close>

fun alloc_run :: "u64 \<Rightarrow> request list \<Rightarrow> u64 \<Rightarrow> (u64 \<times> request) list \<times> u64" where
  "alloc_run pool [] ptr = ([], ptr)"
| "alloc_run pool ((sz, al, bd) # rs) ptr =
     (let (p, ptr) = AllocMem pool sz al bd ptr; (bs, ptr) = alloc_run pool rs ptr
      in (if p = 0 then bs else (p, sz, al, bd) # bs, ptr))"

lemma ptr_bound: "pool_ok pool \<Longrightarrow> ptr_ok pool ptr \<Longrightarrow> unat ptr < 2 ^ 49"
  using round_up_props(3) [of "2 ^ 16" "pool_end pool"] by (simp add: pool_ok_def ptr_ok_def pool_end_def kMemoryPoolSize_def)

lemma unat_pow2: "a < 32 \<Longrightarrow> unat (2 ^ a :: u32) = 2 ^ a"
proof -
  assume "a < 32"
  then have "(2 :: nat) ^ a < 2 ^ 32" by (intro power_strict_increasing) simp_all
  moreover have "(2 ^ a :: u32) = of_nat (2 ^ a)" by simp
  ultimately show ?thesis by (simp only: unat_of_nat) (simp add: take_bit_nat_eq_self)
qed

text \<open>No alignment is alignment 1; without a boundary only the alignment counts.\<close>

lemma alloc_place_unaligned: "alloc_place sz 0 bd = alloc_place sz 1 bd"
  by (simp add: fun_eq_iff alloc_place_def Ceil_def)

definition placed :: "nat \<Rightarrow> nat \<Rightarrow> nat \<Rightarrow> nat \<Rightarrow> nat" where
  "placed n A B ptr = (if B = 0 then round_up ptr (max (Suc 0) A) else place n (max (Suc 0) A) B ptr)"

lemma request_powers:
  assumes "request_ok (sz, al, bd)"
  obtains a where "a \<le> 16" "max (Suc 0) (unat al) = 2 ^ a" "alloc_place sz al bd = alloc_place sz (2 ^ a) bd"
    "bd = 0 \<or> (\<exists>b. b \<le> 16 \<and> a \<le> b \<and> bd = 2 ^ b \<and> unat bd = 2 ^ b)"
proof -
  obtain a where a: "a \<le> 16" "al = 0 \<and> a = 0 \<or> al = 2 ^ a" using assms by (auto simp: request_ok_def pow2_or_0_def)
  have "bd = 0 \<or> (\<exists>b. b \<le> 16 \<and> a \<le> b \<and> bd = 2 ^ b \<and> unat bd = 2 ^ b)"
  proof (cases "bd = 0")
    case False
    then obtain b where b: "b \<le> 16" "bd = 2 ^ b" "al \<le> bd" using assms by (auto simp: request_ok_def pow2_or_0_def)
    have "a \<le> b" if "al = 2 ^ a"
      using b a(1) that unat_pow2 [of a] unat_pow2 [of b] by (simp add: word_le_nat_alt)
    then show ?thesis using a(2) b unat_pow2 [of b] by auto
  qed simp
  moreover have "max (Suc 0) (unat al) = 2 ^ a" using a unat_pow2 [of a] by (auto simp: max_def)
  moreover have "alloc_place sz al bd = alloc_place sz (2 ^ a) bd" using a(2) by (auto simp: alloc_place_unaligned)
  ultimately show ?thesis using that a(1) by blast
qed

lemma placed_props:
  assumes "request_ok (sz, al, bd)"
  shows "ptr \<le> placed n (unat al) (unat bd) ptr" "al \<noteq> 0 \<Longrightarrow> unat al dvd placed n (unat al) (unat bd) ptr"
    "bd \<noteq> 0 \<Longrightarrow> n \<le> unat bd \<Longrightarrow> within_boundary (unat bd) (placed n (unat al) (unat bd) ptr) n"
    "ptr \<le> E \<Longrightarrow> 2 ^ 16 dvd E \<Longrightarrow> placed n (unat al) (unat bd) ptr \<le> E"
proof -
  obtain a where a: "a \<le> 16" "max (Suc 0) (unat al) = 2 ^ a" and "alloc_place sz al bd = alloc_place sz (2 ^ a) bd"
    and bd: "bd = 0 \<or> (\<exists>b. b \<le> 16 \<and> a \<le> b \<and> bd = 2 ^ b \<and> unat bd = 2 ^ b)" by (rule request_powers [OF assms])
  have cases: "placed n (unat al) (unat bd) ptr = round_up ptr (2 ^ a) \<and> bd = 0 \<or>
      (\<exists>b. b \<le> 16 \<and> a \<le> b \<and> unat bd = 2 ^ b \<and> bd \<noteq> 0 \<and> placed n (unat al) (unat bd) ptr = place n (2 ^ a) (2 ^ b) ptr)"
    using bd by (auto simp: placed_def a(2))
  have al: "unat al = 2 ^ a" if "al \<noteq> 0"
  proof -
    have "0 < unat al" using that by (simp add: unat_gt_0)
    then show ?thesis using a(2) by (simp add: max_def split: if_splits)
  qed
  have d: "2 ^ x dvd E" if "x \<le> 16" "2 ^ 16 dvd E" for x E :: nat by (rule dvd_trans [OF le_imp_power_dvd that(2)]) (rule that(1))
  note pl = place_props [where A = "2 ^ a" and n = n and ptr = ptr]
  have "ptr \<le> placed n (unat al) (unat bd) ptr \<and> 2 ^ a dvd placed n (unat al) (unat bd) ptr \<and>
      (bd \<noteq> 0 \<longrightarrow> n \<le> unat bd \<longrightarrow> within_boundary (unat bd) (placed n (unat al) (unat bd) ptr) n)"
    using cases
  proof (elim disjE exE conjE)
    assume "placed n (unat al) (unat bd) ptr = round_up ptr (2 ^ a)" "bd = 0"
    then show ?thesis using round_up_props(1,2) [of "2 ^ a" ptr] by simp
  next
    fix b assume "a \<le> b" "unat bd = 2 ^ b" "placed n (unat al) (unat bd) ptr = place n (2 ^ a) (2 ^ b) ptr"
    then show ?thesis using pl [of "2 ^ b"] by (simp add: le_imp_power_dvd)
  qed
  then show "ptr \<le> placed n (unat al) (unat bd) ptr" "al \<noteq> 0 \<Longrightarrow> unat al dvd placed n (unat al) (unat bd) ptr"
    "bd \<noteq> 0 \<Longrightarrow> n \<le> unat bd \<Longrightarrow> within_boundary (unat bd) (placed n (unat al) (unat bd) ptr) n"
    using al by simp_all
  show "placed n (unat al) (unat bd) ptr \<le> E" if "ptr \<le> E" "2 ^ 16 dvd E"
    using cases
  proof (elim disjE exE conjE)
    assume "placed n (unat al) (unat bd) ptr = round_up ptr (2 ^ a)"
    then show ?thesis using round_up_least [of "2 ^ a" E ptr] d [OF a(1) that(2)] that(1) by simp
  next
    fix b assume "b \<le> 16" "placed n (unat al) (unat bd) ptr = place n (2 ^ a) (2 ^ b) ptr"
    then show ?thesis using place_le [of "2 ^ a" "2 ^ b" E ptr n] d [OF a(1) that(2)] d [OF _ that(2), of b] that(1) by simp
  qed
qed

text \<open>One request: the new pointer is the end of the block, or its refused place.\<close>

lemma AllocMem_step:
  assumes "pool_ok pool" and "ptr_ok pool ptr" and ok: "request_ok (sz, al, bd)"
  defines "k \<equiv> placed (unat sz) (unat al) (unat bd) (unat ptr)"
  shows "AllocMem pool sz al bd ptr =
    (if k + unat sz \<le> pool_end pool then (of_nat k, of_nat (k + unat sz)) else (0, of_nat k))"
    and "ptr_ok pool (snd (AllocMem pool sz al bd ptr))" and "k < 2 ^ 49" and "unat ptr \<le> k"
proof -
  let ?E = "round_up (pool_end pool) (2 ^ 16)"
  obtain a where a: "a \<le> 16" "max (Suc 0) (unat al) = 2 ^ a" "alloc_place sz al bd = alloc_place sz (2 ^ a) bd"
    "bd = 0 \<or> (\<exists>b. b \<le> 16 \<and> a \<le> b \<and> bd = 2 ^ b \<and> unat bd = 2 ^ b)" by (rule request_powers [OF ok])
  have sz: "unat sz < 2 ^ 32" using ok by (simp add: request_ok_def)
  have pw: "(2 :: nat) ^ x \<le> 2 ^ 16" if "x \<le> 16" for x by (rule power_increasing; use that in simp)
  note pt = ptr_bound [OF assms(1,2)]
  have E: "(2 ^ 16) dvd ?E" "?E < pool_end pool + 2 ^ 16" "pool_end pool \<le> ?E" by (rule round_up_props, simp)+
  have e: "pool_end pool < 2 ^ 48 + 2 ^ 18" "unat pool < 2 ^ 48"
    using assms(1) by (simp_all add: pool_end_def pool_ok_def kMemoryPoolSize_def)
  have kE: "k \<le> ?E" unfolding k_def using placed_props(4) [OF ok _ E(1)] assms(2) by (simp add: ptr_ok_def)
  then show k: "k < 2 ^ 49" using E e by simp
  show low: "unat ptr \<le> k" unfolding k_def by (rule placed_props(1) [OF ok])
  have "unat (alloc_place sz (2 ^ a) bd ptr) = k"
  proof (cases "bd = 0")
    case True
    have "(0 :: u32) < 2 ^ a" using a(1) by (simp add: word_gt_0)
    then have "alloc_place sz (2 ^ a) bd ptr = Ceil ptr (2 ^ a)" using True by (simp add: alloc_place_def)
    then show ?thesis using True a(1,2) unat_Ceil [of a ptr] pt pw [OF a(1)] by (simp add: k_def placed_def)
  next
    case False
    then obtain b where b: "b \<le> 16" "a \<le> b" "bd = 2 ^ b" "unat bd = 2 ^ b" using a(4) by blast
    have "unat (alloc_place sz (2 ^ a) (2 ^ b) ptr) = place (unat sz) (2 ^ a) (2 ^ b) (unat ptr)"
      by (rule unat_alloc_place) (use b(1,2) pt sz pw [OF a(1)] pw [OF b(1)] in simp_all)
    then show ?thesis using False b(4) a(2) by (simp add: k_def placed_def b(3))
  qed
  then have "of_nat (unat (alloc_place sz (2 ^ a) bd ptr)) = (of_nat k :: u64)" by simp
  then have pl: "alloc_place sz al bd ptr = of_nat k" by (simp add: a(3))
  have uk: "unat (of_nat k :: u64) = k" using k by (simp add: unat_of_nat take_bit_nat_eq_self)
  have s: "unat (of_nat k + sz) = k + unat sz" using unat_add_lem [of "of_nat k :: u64" sz] uk k sz by simp
  have p: "unat (pool + kMemoryPoolSize) = pool_end pool"
    unfolding pool_end_def using e by (intro iffD1 [OF unat_add_lem]) (simp add: kMemoryPoolSize_def)
  show st: "AllocMem pool sz al bd ptr =
      (if k + unat sz \<le> pool_end pool then (of_nat k, of_nat (k + unat sz)) else (0, of_nat k))"
    by (simp add: AllocMem_def pl Let_def word_less_nat_alt s p)
  show "ptr_ok pool (snd (AllocMem pool sz al bd ptr))"
    using assms(2) low kE uk s E(3) by (auto simp: st ptr_ok_def)
qed

definition block_ok :: "u64 \<Rightarrow> u64 \<times> request \<Rightarrow> bool" where
  "block_ok pool blk = (case blk of (p, sz, al, bd) \<Rightarrow>
     unat pool \<le> unat p \<and> unat p + unat sz \<le> pool_end pool \<and> (al \<noteq> 0 \<longrightarrow> unat al dvd unat p) \<and>
     (bd \<noteq> 0 \<and> unat sz \<le> unat bd \<longrightarrow> within_boundary (unat bd) (unat p) (unat sz)))"

definition block_before :: "u64 \<times> request \<Rightarrow> u64 \<times> request \<Rightarrow> bool" where
  "block_before x y = (case (x, y) of ((p, sz, _), (q, _)) \<Rightarrow> unat p + unat sz \<le> unat q)"

lemma AllocMem_block:
  assumes "pool_ok pool" and "ptr_ok pool ptr" and "request_ok (sz, al, bd)"
    and "AllocMem pool sz al bd ptr = (p, ptr')"
  shows "ptr_ok pool ptr'" and "unat ptr \<le> unat ptr'"
    and "p \<noteq> 0 \<Longrightarrow> block_ok pool (p, sz, al, bd) \<and> unat ptr \<le> unat p \<and> unat ptr' = unat p + unat sz"
proof -
  define k where "k = placed (unat sz) (unat al) (unat bd) (unat ptr)"
  note st = AllocMem_step [OF assms(1-3), folded k_def]
  have sz: "unat sz < 2 ^ 32" using assms(3) by (simp add: request_ok_def)
  have u: "unat (of_nat k :: u64) = k" "unat (of_nat (k + unat sz) :: u64) = k + unat sz"
    using st(3) sz unsigned_less [of sz] by (simp_all add: unat_of_nat take_bit_nat_eq_self del: of_nat_add)
  show "ptr_ok pool ptr'" using st(2) by (simp add: assms(4))
  show "unat ptr \<le> unat ptr'" using st(1) st(4) u by (auto simp: assms(4) split: if_splits)
  assume "p \<noteq> 0"
  then have "p = of_nat k" "ptr' = of_nat (k + unat sz)" "k + unat sz \<le> pool_end pool"
    using st(1) by (auto simp: assms(4) split: if_splits)
  moreover have "al \<noteq> 0 \<longrightarrow> unat al dvd k" "bd \<noteq> 0 \<and> unat sz \<le> unat bd \<longrightarrow> within_boundary (unat bd) k (unat sz)"
    unfolding k_def using placed_props(2,3) [OF assms(3)] by blast+
  ultimately show "block_ok pool (p, sz, al, bd) \<and> unat ptr \<le> unat p \<and> unat ptr' = unat p + unat sz"
    using u st(4) assms(2) by (auto simp: block_ok_def ptr_ok_def simp del: of_nat_add)
qed

lemma alloc_run_blocks:
  assumes "pool_ok pool" and "ptr_ok pool ptr" and "list_all request_ok rs"
  shows "list_all (block_ok pool) (fst (alloc_run pool rs ptr)) \<and>
    sorted_wrt block_before (fst (alloc_run pool rs ptr)) \<and>
    list_all (\<lambda>(p, _). unat ptr \<le> unat p) (fst (alloc_run pool rs ptr))"
  using assms(2,3)
proof (induction rs arbitrary: ptr)
  case (Cons r rs)
  obtain sz al bd where r: "r = (sz, al, bd)" by (cases r) auto
  obtain p ptr' where s: "AllocMem pool sz al bd ptr = (p, ptr')" by fastforce
  obtain bs ptr'' where bs: "alloc_run pool rs ptr' = (bs, ptr'')" by fastforce
  have ok: "request_ok (sz, al, bd)" using Cons.prems r by simp
  note blk = AllocMem_block [OF assms(1) Cons.prems(1) ok s]
  have ih: "list_all (block_ok pool) bs" "sorted_wrt block_before bs" "list_all (\<lambda>(p, _). unat ptr' \<le> unat p) bs"
    using Cons.IH [OF blk(1)] Cons.prems bs by simp_all
  have up: "list_all (\<lambda>(p, _). unat ptr \<le> unat p) bs"
    by (rule list.pred_mono_strong [OF ih(3)]) (use blk(2) in auto)
  show ?case
  proof (cases "p = 0")
    case True
    with ih up show ?thesis by (simp add: r s bs)
  next
    case False
    note b = blk(3) [OF False]
    have "\<forall>y \<in> set bs. block_before (p, sz, al, bd) y"
      using ih(3) b by (auto simp: block_before_def list_all_iff)
    with False b ih up show ?thesis by (simp add: r s bs)
  qed
qed simp

text \<open>C28: for any run of requests, each with an alignment and a boundary that are zero (none) or a power of two
  of at most 64 KiB, the boundary no smaller than the alignment, as in every call of the USB driver: every block
  \<open>AllocMem\<close> hands out lies inside the memory pool, starts at a multiple of the alignment if there is one, does
  not cross a multiple of the boundary if there is one and it is no larger than the boundary, and ends before the
  next block begins, so no two blocks overlap.\<close>

theorem AllocMem_blocks_safe:
  assumes "pool_ok pool" and "list_all request_ok rs"
  shows "list_all (block_ok pool) (fst (alloc_run pool rs pool)) \<and>
    sorted_wrt block_before (fst (alloc_run pool rs pool))"
proof -
  have "ptr_ok pool pool" using round_up_props(2) [of "2 ^ 16" "pool_end pool"] by (simp add: ptr_ok_def pool_end_def)
  then show ?thesis using alloc_run_blocks [OF assms(1) _ assms(2)] by blast
qed

text \<open>The requests of \<open>DeviceManager::Initialize\<close>, of a command ring and of a keyboard driver.\<close>

theorem AllocMem_blocks_safe_witness:
  "sorted_wrt block_before (fst (alloc_run 0x100040 [(72, 0, 0), (72, 64, 4096), (512, 64, 0x10000), (2240, 0, 0), (4096, 4096, 4096)] 0x100040)) \<and>
   alloc_run 0x100040 [(72, 0, 0), (72, 64, 4096), (2240, 0, 0)] 0x100040 =
     ([(0x100040, 72, 0, 0), (0x1000C0, 72, 64, 4096), (0x100108, 2240, 0, 0)], 0x1009C8)"
proof -
  let ?rs = "[(72, 0, 0), (72, 64, 4096), (512, 64, 0x10000), (2240, 0, 0), (4096, 4096, 4096)] :: request list"
  have "pow2_or_0 0" "pow2_or_0 (2 ^ 6)" "pow2_or_0 (2 ^ 12)" "pow2_or_0 (2 ^ 16)" by (auto simp: pow2_or_0_def simp del: power_numeral)
  then have "list_all request_ok ?rs" by (simp add: request_ok_def)
  moreover have "pool_ok 0x100040" by (simp add: pool_ok_def)
  ultimately show ?thesis using AllocMem_blocks_safe [of "0x100040" ?rs]
    by (simp add: AllocMem_def alloc_place_def Ceil_def kMemoryPoolSize_def)
qed

text \<open>a request is refused only when it does not fit: the block handed out is the lowest
  address at or above the allocation pointer with the alignment and boundary asked for, and \<open>nullptr\<close>
  is returned exactly when no such block ends inside the pool.\<close>

theorem AllocMem_first_fit:
  assumes "pool_ok pool" and "ptr_ok pool ptr" and "0 < sz" "unat sz < 2 ^ 32" and "a \<le> b" "b \<le> 16" and "unat sz \<le> 2 ^ b"
  defines "fits \<equiv> \<lambda>k. unat ptr \<le> k \<and> 2 ^ a dvd k \<and> within_boundary (2 ^ b) k (unat sz) \<and> k + unat sz \<le> pool_end pool"
  shows "fst (AllocMem pool sz (2 ^ a) (2 ^ b) ptr) = (if \<exists>k. fits k then of_nat (LEAST k. fits k) else 0)"
proof -
  define k where "k = place (unat sz) (2 ^ a) (2 ^ b) (unat ptr)"
  have u: "unat (2 ^ a :: u32) = 2 ^ a" "unat (2 ^ b :: u32) = 2 ^ b" using assms(5,6) by (simp_all add: unat_pow2)
  have "(2 :: nat) ^ a \<le> 2 ^ b" using assms(5) by (intro power_increasing) simp_all
  then have "request_ok (sz, 2 ^ a, 2 ^ b)" using assms(4-6) u by (auto simp: request_ok_def pow2_or_0_def word_le_nat_alt)
  moreover have "placed (unat sz) (unat (2 ^ a :: u32)) (unat (2 ^ b :: u32)) (unat ptr) = k" by (simp add: u k_def placed_def max_def)
  ultimately have st: "AllocMem pool sz (2 ^ a) (2 ^ b) ptr =
      (if k + unat sz \<le> pool_end pool then (of_nat k, of_nat (k + unat sz)) else (0, of_nat k))"
    using AllocMem_step(1) [OF assms(1,2)] by metis
  have ab: "a \<le> b" "0 < unat sz" using assms(3,5) by (auto simp: unat_gt_0)
  have k: "2 ^ a dvd k" "unat ptr \<le> k" "within_boundary (2 ^ b) k (unat sz)"
    unfolding k_def by (rule place_props; use ab assms(7) in \<open>simp add: le_imp_power_dvd\<close>)+
  have least: "fits j \<Longrightarrow> k \<le> j" for j
    unfolding k_def fits_def by (rule place_least) (use ab in auto)
  show ?thesis
  proof (cases "k + unat sz \<le> pool_end pool")
    case True
    with k have "fits k" by (simp add: fits_def)
    moreover from this have "(LEAST k. fits k) = k" by (rule Least_equality) (rule least)
    ultimately show ?thesis using True st by auto
  next
    case False
    then have "\<not> fits j" for j using least [of j] by (auto simp: fits_def)
    with False show ?thesis using st by auto
  qed
qed

theorem AllocMem_first_fit_witness:
  "fst (AllocMem 0x100040 64 (2 ^ 6) (2 ^ 12) 0x100041) = 0x100080 \<and>
   (\<exists>k. unat (0x100041 :: u64) \<le> k \<and> 2 ^ 6 dvd k \<and> within_boundary (2 ^ 12) k (unat (64 :: u64)) \<and>
     k + unat (64 :: u64) \<le> pool_end 0x100040)"
proof -
  have "pool_ok 0x100040" by (simp add: pool_ok_def)
  moreover have "ptr_ok 0x100040 0x100041" by (simp add: ptr_ok_def pool_end_def kMemoryPoolSize_def round_up_def)
  moreover have "fst (AllocMem 0x100040 64 (2 ^ 6) (2 ^ 12) 0x100041) = 0x100080"
    by (simp add: AllocMem_def alloc_place_def Ceil_def kMemoryPoolSize_def)
  ultimately show ?thesis using AllocMem_first_fit [of "0x100040" "0x100041" 64 6 12] by (auto split: if_splits)
qed

subsection \<open>The array map as a finite map\<close>

text \<open>What a driver relies on when it remembers a value under a fresh key, finds it again and forgets it.\<close>

locale keyed_store =
  fixes get :: "'k \<Rightarrow> 's \<Rightarrow> 'v option" and put :: "'k \<Rightarrow> 'v \<Rightarrow> 's \<Rightarrow> 's" and del :: "'k \<Rightarrow> 's \<Rightarrow> 's"
    and room :: "'s \<Rightarrow> nat" and good :: "'s \<Rightarrow> bool"
  assumes put_good: "good s \<Longrightarrow> get k s = None \<Longrightarrow> good (put k v s)"
    and del_good: "good s \<Longrightarrow> good (del k s)"
    and get_put: "get k s = None \<Longrightarrow> 0 < room s \<Longrightarrow> get j (put k v s) = (if j = k then Some v else get j s)"
    and get_del: "good s \<Longrightarrow> get j (del k s) = (if j = k then None else get j s)"
    and room_put: "0 < room s \<Longrightarrow> room (put k v s) = room s - 1"
    and room_del: "get k s = Some v \<Longrightarrow> room (del k s) = Suc (room s)"
    and put_full: "room s = 0 \<Longrightarrow> put k v s = s"
begin

lemma del_put_other:
  "good s \<Longrightarrow> get k s = None \<Longrightarrow> 0 < room s \<Longrightarrow> get j (del k (put k v s)) = get j s"
  by (simp add: get_del put_good get_put)

lemma room_cycle: "get k s = None \<Longrightarrow> 0 < room s \<Longrightarrow> room (del k (put k v s)) = room s"
  using room_del [of k "put k v s" v] by (simp add: get_put room_put)

lemma lost_when_full: "room s = 0 \<Longrightarrow> get k s = None \<Longrightarrow> get k (put k v s) = None"
  by (simp add: put_full)

lemma remembers_all:
  "good s \<Longrightarrow> length kvs \<le> room s \<Longrightarrow> distinct (map fst kvs) \<Longrightarrow> \<forall>k \<in> fst ` set kvs. get k s = None \<Longrightarrow>
   (k, v) \<in> set kvs \<Longrightarrow> get k (fold (\<lambda>(k, v). put k v) kvs s) = Some v"
proof (induction kvs arbitrary: s rule: rev_induct)
  case (snoc x xs)
  have keep: "\<forall>k \<in> - fst ` set ys. get k (fold (\<lambda>(k, v). put k v) ys s) = get k s \<and>
      room (fold (\<lambda>(k, v). put k v) ys s) = room s - length ys"
    if "length ys \<le> room s" "distinct (map fst ys)" "\<forall>k \<in> fst ` set ys. get k s = None" for ys
    using that
  proof (induction ys rule: rev_induct)
    case (snoc y ys)
    then have "fst y \<notin> fst ` set ys" "get (fst y) s = None" by auto
    with snoc have "get (fst y) (fold (\<lambda>(k, v). put k v) ys s) = None" "0 < room (fold (\<lambda>(k, v). put k v) ys s)" by auto
    with snoc show ?case by (auto simp: get_put room_put split: prod.splits)
  qed simp
  obtain k' v' where x: "x = (k', v')" by (cases x)
  let ?t = "fold (\<lambda>(k, v). put k v) xs s"
  have "get k' ?t = None" "0 < room ?t" using keep [of xs] snoc.prems x by auto
  then have put: "get j (put k' v' ?t) = (if j = k' then Some v' else get j ?t)" for j by (rule get_put)
  show ?case
  proof (cases "(k, v) \<in> set xs")
    case True
    with snoc.prems x have "k \<noteq> k'" by (auto simp: image_iff)
    with snoc.IH [OF snoc.prems(1)] snoc.prems True show ?thesis by (simp add: x put)
  next
    case False
    with snoc.prems x show ?thesis by (simp add: put)
  qed
qed simp

end

definition am_keys :: "('k, 'v) ArrayMap \<Rightarrow> 'k list" where
  "am_keys t = List.map_filter fst t"

definition am_room :: "('k, 'v) ArrayMap \<Rightarrow> nat" where
  "am_room t = length (filter (\<lambda>(k, _). k = None) t)"

definition am_good :: "('k, 'v) ArrayMap \<Rightarrow> bool" where
  "am_good t \<longleftrightarrow> distinct (am_keys t)"

lemma am_keys_simps [simp]:
  "am_keys [] = []" "am_keys ((None, v) # t) = am_keys t" "am_keys ((Some k, v) # t) = k # am_keys t"
  by (simp_all add: am_keys_def map_filter_simps)

lemma am_room_simps [simp]:
  "am_room [] = 0" "am_room ((None, v) # t) = Suc (am_room t)" "am_room ((Some k, v) # t) = am_room t"
  by (simp_all add: am_room_def)

lemma Get_None: "ArrayMap_Get k t = None \<longleftrightarrow> k \<notin> set (am_keys t)"
proof (induction k t rule: ArrayMap_Get.induct)
  case (2 key opt_k v t) then show ?case by (cases opt_k) auto
qed simp

lemma Put_keys: "set (am_keys (ArrayMap_Put k v t)) \<subseteq> insert k (set (am_keys t))"
proof (induction k v t rule: ArrayMap_Put.induct)
  case (2 k v opt_k w t) then show ?case by (cases opt_k) auto
qed simp

lemma Delete_keys: "set (am_keys (ArrayMap_Delete k t)) \<subseteq> set (am_keys t)"
proof (induction k t rule: ArrayMap_Delete.induct)
  case (2 k opt_k w t) then show ?case by (cases opt_k) auto
qed simp

interpretation amap: keyed_store ArrayMap_Get ArrayMap_Put ArrayMap_Delete am_room am_good
proof
  fix s :: "('k, 'v) ArrayMap" and k j :: 'k and v :: 'v
  show "am_good s \<Longrightarrow> ArrayMap_Get k s = None \<Longrightarrow> am_good (ArrayMap_Put k v s)"
    unfolding Get_None am_good_def
  proof (induction k v s rule: ArrayMap_Put.induct)
    case (2 k v opt_k w t) then show ?case using Put_keys [of k v t] by (cases opt_k) auto
  qed simp
  show "am_good s \<Longrightarrow> am_good (ArrayMap_Delete k s)"
    unfolding am_good_def
  proof (induction k s rule: ArrayMap_Delete.induct)
    case (2 k opt_k w t) then show ?case using Delete_keys [of k t] by (cases opt_k) auto
  qed simp
  show "ArrayMap_Get k s = None \<Longrightarrow> 0 < am_room s \<Longrightarrow>
      ArrayMap_Get j (ArrayMap_Put k v s) = (if j = k then Some v else ArrayMap_Get j s)"
  proof (induction k v s rule: ArrayMap_Put.induct)
    case (2 k v opt_k w t) then show ?case by (cases opt_k) (auto split: if_splits)
  qed simp
  show "am_good s \<Longrightarrow> ArrayMap_Get j (ArrayMap_Delete k s) = (if j = k then None else ArrayMap_Get j s)"
    unfolding am_good_def
  proof (induction k s rule: ArrayMap_Delete.induct)
    case (2 k opt_k w t) then show ?case by (cases opt_k) (auto simp: Get_None)
  qed simp
  show "0 < am_room s \<Longrightarrow> am_room (ArrayMap_Put k v s) = am_room s - 1"
  proof (induction k v s rule: ArrayMap_Put.induct)
    case (2 k v opt_k w t) then show ?case by (cases opt_k) auto
  qed simp
  show "ArrayMap_Get k s = Some v \<Longrightarrow> am_room (ArrayMap_Delete k s) = Suc (am_room s)"
  proof (induction k s rule: ArrayMap_Delete.induct)
    case (2 k opt_k w t) then show ?case by (cases opt_k) (auto split: if_splits)
  qed simp
  show "am_room s = 0 \<Longrightarrow> ArrayMap_Put k v s = s"
  proof (induction k v s rule: ArrayMap_Put.induct)
    case (2 k v opt_k w t) then show ?case by (cases opt_k) auto
  qed simp
qed

lemma ArrayMap_new [simp]:
  "am_good (ArrayMap_new n v)" "am_room (ArrayMap_new n v) = n" "ArrayMap_Get k (ArrayMap_new n v) = None"
  by (induction n) (auto simp: ArrayMap_new_def am_good_def)

text \<open>an \<open>ArrayMap\<close> behaves as a finite map of at most \<open>N\<close> entries: starting from the empty
  table, up to \<open>N\<close> values put under different keys are all found again, deleting a key forgets that
  entry and no other, and a \<open>Put\<close> into a full table is silently dropped.\<close>

theorem ArrayMap_is_finite_map:
  fixes kvs :: "('k \<times> 'v) list" and v0 :: 'v
  assumes "length kvs \<le> n" and "distinct (map fst kvs)"
  defines "t \<equiv> fold (\<lambda>(k, v). ArrayMap_Put k v) kvs (ArrayMap_new n v0)"
  shows "((k, v) \<in> set kvs \<longrightarrow> ArrayMap_Get k t = Some v) \<and>
    (am_good t' \<longrightarrow> ArrayMap_Get j (ArrayMap_Delete k t') = (if j = k then None else ArrayMap_Get j t')) \<and>
    (am_room t' = 0 \<longrightarrow> ArrayMap_Put k v t' = t')"
  using amap.remembers_all [of "ArrayMap_new n v0" kvs k v] amap.get_del [of t' j k] amap.put_full [of t' k v] assms(1,2)
  by (simp add: t_def)

theorem ArrayMap_is_finite_map_witness:
  "ArrayMap_Get (3::nat) (fold (\<lambda>(k, v). ArrayMap_Put k v) [(2, ''a''), (3, ''b'')] (ArrayMap_new 2 [])) = Some ''b''"
  using ArrayMap_is_finite_map [of "[(2 :: nat, ''a''), (3, ''b'')]" 2 3 "''b''" "[]" "ArrayMap_new 0 []" 1] by simp

end
