(* ===== verification/Xhci_Ring.thy ===== *)
theory Xhci_Ring
  imports Xhci_Trb Usb_Memory
begin

text \<open>
  \<open>src/kernel/usb/xhci/ring.hpp\<close> and \<open>ring.cpp\<close>: the command and transfer rings the driver fills for
  the host controller, and the event ring the host controller fills for the driver. The memory of a ring
  is the list of its TRBs together with the address it was allocated at; a pointer into it is an address.
  The other side of each ring is the host controller, specified as the xHCI standard describes it: a TRB
  belongs to the reader when its cycle bit equals the reader's cycle state, which toggles at the end of
  the ring.
\<close>

subsection \<open>Command and transfer rings\<close>

record Ring =
  rg_buf :: u64
  rg_mem :: "trb list"
  rg_buf_size :: nat
  rg_cycle_bit :: bool
  rg_write_index :: nat

text \<open>\<open>Ring ring;\<close> only the buffer and its size are initialised; nothing can be written yet.\<close>

definition Ring_new :: Ring where
  "Ring_new = \<lparr>rg_buf = 0, rg_mem = [], rg_buf_size = 0, rg_cycle_bit = False, rg_write_index = 0\<rparr>"

definition Ring_delete :: "Ring \<Rightarrow> u64 \<Rightarrow> u64" where
  "Ring_delete r alloc_ptr = (if rg_buf r \<noteq> 0 then FreeMem (rg_buf r) alloc_ptr else alloc_ptr)"

definition Ring_Initialize :: "u64 \<Rightarrow> nat \<Rightarrow> Ring \<Rightarrow> u64 \<Rightarrow> Code \<times> Ring \<times> u64" where
  "Ring_Initialize pool buf_size r alloc_ptr =
     (let alloc_ptr = if rg_buf r \<noteq> 0 then FreeMem (rg_buf r) alloc_ptr else alloc_ptr;
          r = r\<lparr>rg_cycle_bit := True, rg_write_index := 0, rg_buf_size := buf_size\<rparr>;
          (buf, alloc_ptr) = AllocArray 16 pool (of_nat buf_size) 64 (64 * 1024) alloc_ptr
      in if buf = 0 then (kNoEnoughMemory, r\<lparr>rg_buf := buf, rg_mem := []\<rparr>, alloc_ptr)
         else (kSuccess, r\<lparr>rg_buf := buf, rg_mem := replicate buf_size 0\<rparr>, alloc_ptr))"

definition CopyToLast :: "trb \<Rightarrow> Ring \<Rightarrow> Ring option" where
  "CopyToLast data r = do {
     t \<leftarrow> arr_get (rg_mem r) (rg_write_index r);
     let t = fold (\<lambda>i. set_dword i (dword i data)) [0..<3] t;
     let t = set_dword 3 ((dword 3 data AND 0xfffffffe) OR of_bool (rg_cycle_bit r)) t;
     m \<leftarrow> arr_set (rg_mem r) (rg_write_index r) t;
     Some (r\<lparr>rg_mem := m\<rparr>)
   }"

text \<open>The address of the pushed TRB and the ring.\<close>

definition Ring_Push :: "trb \<Rightarrow> Ring \<Rightarrow> (u64 \<times> Ring) option" where
  "Ring_Push data r = do {
     let trb_ptr = rg_buf r + 16 * of_nat (rg_write_index r);
     r \<leftarrow> CopyToLast data r;
     let r = r\<lparr>rg_write_index := sz_add (rg_write_index r) 1\<rparr>;
     if rg_write_index r = sz_add (rg_buf_size r) (2 ^ 64 - 1)
     then do {
       let link = set_field LinkTRB ''toggle_cycle'' 1 (LinkTRB_new (rg_buf r));
       r \<leftarrow> CopyToLast link r;
       Some (trb_ptr, r\<lparr>rg_write_index := 0, rg_cycle_bit := \<not> rg_cycle_bit r\<rparr>)
     }
     else Some (trb_ptr, r)
   }"

definition Ring_Buffer :: "Ring \<Rightarrow> u64" where
  "Ring_Buffer r = rg_buf r"

subsection \<open>The event ring\<close>

definition EventRingSegmentTableEntry :: layout where
  "EventRingSegmentTableEntry = [(''ring_segment_base_address'', 64), (''ring_segment_size'', 16), ('''', 16), ('''', 32)]"

record EventRing =
  er_buf :: u64
  er_mem :: "trb list"
  er_buf_size :: nat
  er_cycle_bit :: bool
  er_erst :: "u64 \<times> 128 word"
  er_interrupter :: InterrupterRegisterSet

definition ReadDequeuePointer :: "EventRing \<Rightarrow> u64" where
  "ReadDequeuePointer e = ERDP_Pointer (ERDP (er_interrupter e))"

definition WriteDequeuePointer :: "u64 \<Rightarrow> EventRing \<Rightarrow> EventRing" where
  "WriteDequeuePointer p e = e\<lparr>er_interrupter := (er_interrupter e)
     \<lparr>ERDP := ERDP_SetPointer p (ERDP (er_interrupter e))\<rparr>\<rparr>"

text \<open>The TRB at an address inside the ring.\<close>

definition trb_at :: "u64 \<Rightarrow> trb list \<Rightarrow> u64 \<Rightarrow> trb option" where
  "trb_at buf m p =
     (let off = unat (p - buf) in if off mod 16 = 0 then arr_get m (off div 16) else None)"

definition EventRing_Front :: "EventRing \<Rightarrow> trb option" where
  "EventRing_Front e = trb_at (er_buf e) (er_mem e) (ReadDequeuePointer e)"

definition HasFront :: "EventRing \<Rightarrow> bool option" where
  "HasFront e = map_option (\<lambda>t. trb_cycle_bit t = er_cycle_bit e) (EventRing_Front e)"

definition EventRing_Pop :: "EventRing \<Rightarrow> EventRing" where
  "EventRing_Pop e =
     (let p = ReadDequeuePointer e + 16;
          segment_begin = get_pointer EventRingSegmentTableEntry ''ring_segment_base_address'' 0 (snd (er_erst e));
          segment_end = segment_begin +
            16 * ucast (get_field EventRingSegmentTableEntry ''ring_segment_size'' (snd (er_erst e)))
      in if p = segment_end then WriteDequeuePointer segment_begin (e\<lparr>er_cycle_bit := \<not> er_cycle_bit e\<rparr>)
         else WriteDequeuePointer p e)"

definition EventRing_Initialize :: "u64 \<Rightarrow> nat \<Rightarrow> InterrupterRegisterSet \<Rightarrow> EventRing \<Rightarrow> u64 \<Rightarrow> Code \<times> EventRing \<times> u64" where
  "EventRing_Initialize pool buf_size interrupter e alloc_ptr =
     (let alloc_ptr = if er_buf e \<noteq> 0 then FreeMem (er_buf e) alloc_ptr else alloc_ptr;
          e = e\<lparr>er_cycle_bit := True, er_buf_size := buf_size, er_interrupter := interrupter\<rparr>;
          (buf, alloc_ptr) = AllocArray 16 pool (of_nat buf_size) 64 (64 * 1024) alloc_ptr;
          e = e\<lparr>er_buf := buf, er_mem := []\<rparr>
      in if buf = 0 then (kNoEnoughMemory, e, alloc_ptr) else
     (let e = e\<lparr>er_mem := replicate buf_size 0\<rparr>;
          (erst, alloc_ptr) = AllocArray 16 pool 1 64 (64 * 1024) alloc_ptr;
          e = e\<lparr>er_erst := (erst, 0)\<rparr>
      in if erst = 0 then (kNoEnoughMemory, e, FreeMem (er_buf e) alloc_ptr) else
     (let entry = set_field EventRingSegmentTableEntry ''ring_segment_size'' (of_nat buf_size)
            (set_pointer EventRingSegmentTableEntry ''ring_segment_base_address'' 0 (er_buf e) 0);
          e = e\<lparr>er_erst := (erst, entry)\<rparr>;
          e = e\<lparr>er_interrupter := (er_interrupter e)\<lparr>ERSTSZ := ERSTSZ_SetSize 1 (ERSTSZ (er_interrupter e))\<rparr>\<rparr>;
          e = WriteDequeuePointer (er_buf e) e;
          e = e\<lparr>er_interrupter := (er_interrupter e)\<lparr>ERSTBA := ERSTBA_SetPointer erst (ERSTBA (er_interrupter e))\<rparr>\<rparr>
      in (kSuccess, e, alloc_ptr))))"

subsection \<open>Channels\<close>

text \<open>What either ring promises: elements come out in the order they went in, as long as no more than
  \<open>cap\<close> are outstanding. \<open>send\<close> and \<open>recv\<close> may be undefined; \<open>recv\<close> tells whether there
  was an element. \<open>view\<close> is what the reader uses of an element.\<close>

datatype 'a chan_op = Send 'a | Recv

fun fifo_run :: "('a \<Rightarrow> 'b) \<Rightarrow> 'a chan_op list \<Rightarrow> 'a list \<Rightarrow> 'b option list" where
  "fifo_run view [] q = []"
| "fifo_run view (Send t # ops) q = fifo_run view ops (q @ [t])"
| "fifo_run view (Recv # ops) [] = None # fifo_run view ops []"
| "fifo_run view (Recv # ops) (t # q) = Some (view t) # fifo_run view ops q"

text \<open>Schedules that never have more than \<open>cap\<close> elements outstanding.\<close>

fun within_cap :: "nat \<Rightarrow> ('a \<Rightarrow> bool) \<Rightarrow> 'a chan_op list \<Rightarrow> nat \<Rightarrow> bool" where
  "within_cap cap ok [] n = True"
| "within_cap cap ok (Send t # ops) n \<longleftrightarrow> n < cap \<and> ok t \<and> within_cap cap ok ops (Suc n)"
| "within_cap cap ok (Recv # ops) n = within_cap cap ok ops (n - 1)"

fun chan_run :: "('a \<Rightarrow> 's \<Rightarrow> 's option) \<Rightarrow> ('s \<Rightarrow> ('a option \<times> 's) option) \<Rightarrow> ('a \<Rightarrow> 'b) \<Rightarrow> 'a chan_op list \<Rightarrow> 's \<Rightarrow> 'b option list option" where
  "chan_run send recv view [] s = Some []"
| "chan_run send recv view (Send t # ops) s = Option.bind (send t s) (chan_run send recv view ops)"
| "chan_run send recv view (Recv # ops) s =
     do { (x, s) \<leftarrow> recv s; xs \<leftarrow> chan_run send recv view ops s; Some (map_option view x # xs) }"

locale channel =
  fixes send :: "'a \<Rightarrow> 's \<Rightarrow> 's option" and recv :: "'s \<Rightarrow> ('a option \<times> 's) option" and view :: "'a \<Rightarrow> 'b"
    and cap :: nat and ok :: "'a \<Rightarrow> bool" and holds :: "'s \<Rightarrow> 'a list \<Rightarrow> bool"
  assumes send_ok: "holds s q \<Longrightarrow> length q < cap \<Longrightarrow> ok t \<Longrightarrow> \<exists>s'. send t s = Some s' \<and> holds s' (q @ [t])"
    and recv_ok: "holds s (t # q) \<Longrightarrow> \<exists>t' s'. recv s = Some (Some t', s') \<and> view t' = view t \<and> holds s' q"
    and recv_empty: "holds s [] \<Longrightarrow> \<exists>s'. recv s = Some (None, s') \<and> holds s' []"
begin

lemma refines_fifo:
  "holds s q \<Longrightarrow> within_cap cap ok ops (length q) \<Longrightarrow> chan_run send recv view ops s = Some (fifo_run view ops q)"
proof (induction ops arbitrary: s q)
  case (Cons op ops)
  show ?case
  proof (cases op)
    case (Send t)
    with Cons.prems obtain s' where "send t s = Some s'" "holds s' (q @ [t])" using send_ok [of s q t] by auto
    with Cons Send show ?thesis by simp
  next
    case Recv
    show ?thesis
    proof (cases q)
      case Nil
      with Cons.prems obtain s' where "recv s = Some (None, s')" "holds s' []" using recv_empty by blast
      with Cons Recv Nil show ?thesis by simp
    next
      case (Cons t q')
      with Cons.prems obtain t' s' where "recv s = Some (Some t', s')" "view t' = view t" "holds s' q'" using recv_ok by blast
      with Cons.prems Cons.IH [of s' q'] Recv Cons show ?thesis by simp
    qed
  qed
qed simp

end

subsection \<open>Slots stamped with a cycle bit\<close>

definition stamp :: "bool \<Rightarrow> trb \<Rightarrow> trb" where
  "stamp c t = set_field TRB ''cycle_bit'' (of_bool c) t"

lemmas TRB_pos = trb_layout_pos [OF TRB_layout]

lemma stamp_bf: "stamp c t = bf_set 96 1 (of_bool c) t"
  by (simp add: stamp_def set_field_def TRB_pos)

lemma stamp_cycle [simp]: "trb_cycle_bit (stamp c t) = c"
  unfolding trb_cycle_bit_def stamp_def by (subst get_set_same [OF _ TRB_pos(2)]) (simp_all add: TRB_pos)

lemma stamp_type [simp]: "trb_type (stamp c t) = trb_type t"
  unfolding stamp_def by (rule trb_type_set_other) (simp_all add: TRB_layout)

lemma stamp_stamp [simp]: "stamp c (stamp d t) = stamp c t"
  unfolding stamp_bf by (rule bit_word_eqI) (auto simp: bit_bf_set)

lemma cycle_bit_zero [simp]: "\<not> trb_cycle_bit 0"
  by (simp add: trb_cycle_bit_def)

text \<open>The four word stores of \<open>CopyToLast\<close> leave the TRB with the ring's cycle bit.\<close>

lemma copy_words:
  "set_dword 3 ((dword 3 data AND 0xfffffffe) OR of_bool c) (fold (\<lambda>i. set_dword i (dword i data)) [0..<3] t) = stamp c data"
  for data :: trb
proof (rule bit_word_eqI)
  fix k assume k: "k < LENGTH(128)"
  have m: "bit (0xfffffffe :: u32) j \<longleftrightarrow> j \<noteq> 0 \<and> j < 32" for j
  proof -
    have "(0xfffffffe :: u32) = NOT 1" by simp
    then show ?thesis by (simp only: bit_not_iff) (auto simp: bit_1_iff)
  qed
  define v where "v = (dword 3 data AND 0xfffffffe) OR of_bool c"
  have v: "bit v j \<longleftrightarrow> j < 32 \<and> (if j = 0 then c else bit data (96 + j))" for j
    unfolding v_def bit_or_iff bit_and_iff m bit_dword by (auto simp: bit_simps)
  have "[0..<3] = [0, 1, 2]" by (simp add: upt_rec)
  then show "bit (set_dword 3 ((dword 3 data AND 0xfffffffe) OR of_bool c) (fold (\<lambda>i. set_dword i (dword i data)) [0..<3] t)) k =
      bit (stamp c data) k"
    unfolding v_def [symmetric] using k by (auto simp: set_dword_def stamp_bf bit_bf_set bit_dword bit_simps v)
qed

lemma CopyToLast_Some:
  "rg_write_index r < length (rg_mem r) \<Longrightarrow>
   CopyToLast data r = Some (r\<lparr>rg_mem := (rg_mem r)[rg_write_index r := stamp (rg_cycle_bit r) data]\<rparr>)"
  by (simp add: CopyToLast_def ub_simps copy_words)

text \<open>The slots after the writes \<open>h\<close>, the \<open>p\<close>-th of which goes to slot \<open>p mod N\<close> in cycle \<open>p div N\<close>.\<close>

definition slot_write :: "nat \<Rightarrow> nat \<Rightarrow> trb \<Rightarrow> trb list \<Rightarrow> trb list" where
  "slot_write N w t m = m[w mod N := stamp (even (w div N)) t]"

definition slots :: "nat \<Rightarrow> trb list \<Rightarrow> trb list" where
  "slots N h = fold (\<lambda>(w, t). slot_write N w t) (enumerate 0 h) (replicate N 0)"

lemma slots_Nil [simp]: "slots N [] = replicate N 0"
  by (simp add: slots_def)

lemma slots_snoc: "slots N (h @ [t]) = slot_write N (length h) t (slots N h)"
  by (simp add: slots_def enumerate_append_eq)

lemma length_slots [simp]: "length (slots N h) = N"
  by (induction h rule: rev_induct) (simp_all add: slots_snoc slot_write_def)

lemma mod_eq_window: "p < w \<Longrightarrow> w < p + N \<Longrightarrow> p mod N \<noteq> w mod N" for p w N :: nat
  by (metis add_diff_cancel_left' less_imp_le_nat mod_eq_dvd_iff_nat nat_dvd_not_less nat_less_iff zero_less_diff
      add.commute less_diff_conv2)

lemma slots_recent:
  "0 < N \<Longrightarrow> p < length h \<Longrightarrow> length h \<le> p + N \<Longrightarrow> slots N h ! (p mod N) = stamp (even (p div N)) (h ! p)"
proof (induction h rule: rev_induct)
  case (snoc t h)
  show ?case
  proof (cases "p = length h")
    case True
    with snoc.prems show ?thesis by (simp add: slots_snoc slot_write_def)
  next
    case False
    then have "p mod N \<noteq> length h mod N" using snoc.prems mod_eq_window [of p "length h" N] by simp
    with False snoc show ?thesis by (simp add: slots_snoc slot_write_def nth_append)
  qed
qed simp

lemma slots_free:
  "0 < N \<Longrightarrow> length h \<le> p \<Longrightarrow> p < length h + N \<Longrightarrow> trb_cycle_bit (slots N h ! (p mod N)) = odd (p div N)"
proof (induction h rule: rev_induct)
  case Nil
  then show ?case by simp
next
  case (snoc t h)
  show ?case
  proof (cases "p = length h + N")
    case True
    then have "p div N = Suc (length h div N)" using snoc.prems by (simp add: div_add_self2)
    with True snoc.prems show ?thesis by (simp add: slots_snoc slot_write_def)
  next
    case False
    then have "length h mod N \<noteq> p mod N" using snoc.prems mod_eq_window [of "length h" p N] by simp
    with False snoc show ?thesis by (simp add: slots_snoc slot_write_def)
  qed
qed

subsection \<open>The driver sends, the host controller receives\<close>

text \<open>The host controller's side of a command or transfer ring: its dequeue position and consumer cycle
  state. A link TRB it owns moves it to the segment pointer, and toggles the cycle state when asked to.\<close>

type_synonym ring_channel = "Ring \<times> nat \<times> bool"

definition follow_link :: "Ring \<Rightarrow> nat \<Rightarrow> bool \<Rightarrow> (nat \<times> bool) option" where
  "follow_link r d ccs = do {
     t \<leftarrow> arr_get (rg_mem r) d;
     Some (if trb_cycle_bit t = ccs \<and> trb_type t = LinkTRB_Type
       then (unat (LinkTRB_Pointer t - rg_buf r) div 16, ccs \<noteq> (get_field LinkTRB ''toggle_cycle'' t \<noteq> 0))
       else (d, ccs))
   }"

definition hc_fetch :: "ring_channel \<Rightarrow> (trb option \<times> ring_channel) option" where
  "hc_fetch = (\<lambda>(r, d, ccs). do {
     (d, ccs) \<leftarrow> follow_link r d ccs;
     t \<leftarrow> arr_get (rg_mem r) d;
     Some (if trb_cycle_bit t = ccs then (Some t, r, Suc d, ccs) else (None, r, d, ccs))
   })"

definition ring_send :: "trb \<Rightarrow> ring_channel \<Rightarrow> ring_channel option" where
  "ring_send t = (\<lambda>(r, d, ccs). map_option (\<lambda>(_, r). (r, d, ccs)) (Ring_Push t r))"

text \<open>The state of a ring of \<open>Suc N\<close> TRBs after the pushes \<open>h\<close>, the last slot holding the link.\<close>

definition link_trb :: "u64 \<Rightarrow> trb" where
  "link_trb buf = set_field LinkTRB ''toggle_cycle'' 1 (LinkTRB_new buf)"

definition ring_after :: "nat \<Rightarrow> trb list \<Rightarrow> Ring \<Rightarrow> bool" where
  "ring_after N h r \<longleftrightarrow> rg_buf r = push_bit 4 (drop_bit 4 (rg_buf r)) \<and> rg_buf_size r = Suc N \<and> length (rg_mem r) = Suc N \<and>
     take N (rg_mem r) = slots N h \<and>
     rg_mem r ! N = (if length h < N then 0 else stamp (odd (length h div N)) (link_trb (rg_buf r))) \<and>
     rg_write_index r = length h mod N \<and> rg_cycle_bit r = even (length h div N)"

lemma link_trb_type [simp]: "trb_type (link_trb buf) = LinkTRB_Type"
proof -
  have l: "LinkTRB \<in> set trb_layouts" by (simp add: trb_layouts_def)
  show ?thesis unfolding link_trb_def LinkTRB_new_def LinkTRB_SetPointer_def set_pointer_def
    by (simp add: trb_type_set_other [OF l] trb_type_new [OF l] LinkTRB_Type_def)
qed

lemma link_stamp:
  "LinkTRB_Pointer (stamp c t) = LinkTRB_Pointer t"
  "get_field LinkTRB ''toggle_cycle'' (stamp c t) = get_field LinkTRB ''toggle_cycle'' t"
proof -
  have "stamp c t = set_field LinkTRB ''cycle_bit'' (of_bool c) t"
    by (simp add: stamp_bf set_field_def LinkTRB_def)
  then show "LinkTRB_Pointer (stamp c t) = LinkTRB_Pointer t"
      "get_field LinkTRB ''toggle_cycle'' (stamp c t) = get_field LinkTRB ''toggle_cycle'' t"
    by (simp_all add: LinkTRB_Pointer_def get_pointer_def get_set_other)
qed

lemma link_trb_fields:
  assumes "buf = push_bit 4 (drop_bit 4 buf)"
  shows "LinkTRB_Pointer (stamp c (link_trb buf)) = buf" "get_field LinkTRB ''toggle_cycle'' (stamp c (link_trb buf)) \<noteq> 0"
proof -
  have "LinkTRB_Pointer (link_trb buf) = LinkTRB_Pointer (LinkTRB_new buf)"
    by (simp add: link_trb_def LinkTRB_Pointer_def get_pointer_def get_set_other)
  then show "LinkTRB_Pointer (stamp c (link_trb buf)) = buf"
    using link_pointer [OF assms] by (simp add: link_stamp LinkTRB_new_def)
  have "get_field LinkTRB ''toggle_cycle'' (link_trb buf) = take_bit 1 1" unfolding link_trb_def
    by (rule get_set_same [where off = 97]) (simp_all add: LinkTRB_def layout_eval)
  then show "get_field LinkTRB ''toggle_cycle'' (stamp c (link_trb buf)) \<noteq> 0" by (simp add: link_stamp)
qed

lemma Ring_Push_after:
  assumes "ring_after N h r" and "0 < N" and "N < 2 ^ 60"
  shows "\<exists>r'. Ring_Push t r = Some (rg_buf r + 16 * of_nat (rg_write_index r), r') \<and> ring_after N (h @ [t]) r' \<and> rg_buf r' = rg_buf r"
proof -
  let ?w = "length h mod N" and ?m = "rg_mem r"
  note a = assms(1) [unfolded ring_after_def]
  have w: "?w < N" using assms(2) by simp
  define r1 where "r1 = r\<lparr>rg_mem := ?m[?w := stamp (rg_cycle_bit r) t], rg_write_index := Suc ?w\<rparr>"
  have c1: "CopyToLast t r = Some (r\<lparr>rg_mem := ?m[?w := stamp (rg_cycle_bit r) t]\<rparr>)"
    using a w by (simp add: CopyToLast_Some)
  have sz: "sz_add ?w (Suc 0) = Suc ?w" "sz_add (Suc N) 18446744073709551615 = N"
  proof -
    show "sz_add ?w (Suc 0) = Suc ?w" using w assms(3) by (simp add: SIZE_MAX_def)
    have "(Suc N + 18446744073709551615) mod 2 ^ 64 = (N + 2 ^ 64) mod 2 ^ 64" by (simp add: add.commute)
    also have "\<dots> = N" using assms(3) by (simp only: mod_add_self2) simp
    finally show "sz_add (Suc N) 18446744073709551615 = N" by (simp only: sz_add_def)
  qed
  have tk: "take N (rg_mem r1) = slots N (h @ [t])"
    using a w by (simp add: r1_def take_update_swap slots_snoc slot_write_def)
  have p: "Ring_Push t r = (if Suc ?w = N
      then do { r2 \<leftarrow> CopyToLast (link_trb (rg_buf r)) r1; Some (rg_buf r + 16 * of_nat ?w, r2\<lparr>rg_write_index := 0, rg_cycle_bit := \<not> rg_cycle_bit r2\<rparr>) }
      else Some (rg_buf r + 16 * of_nat ?w, r1))"
    using a by (simp add: Ring_Push_def c1 sz r1_def link_trb_def Let_def)
  show ?thesis
  proof (cases "Suc ?w = N")
    case True
    let ?r' = "r1\<lparr>rg_mem := (rg_mem r1)[N := stamp (rg_cycle_bit r) (link_trb (rg_buf r))], rg_write_index := 0, rg_cycle_bit := \<not> rg_cycle_bit r\<rparr>"
    have d: "Suc (length h) div N = Suc (length h div N)" "Suc (length h) mod N = 0"
      using True by (simp_all add: div_Suc mod_Suc)
    have "CopyToLast (link_trb (rg_buf r)) r1 = Some (r1\<lparr>rg_mem := (rg_mem r1)[N := stamp (rg_cycle_bit r) (link_trb (rg_buf r))]\<rparr>)"
      using a True by (simp add: CopyToLast_Some r1_def)
    then have "Ring_Push t r = Some (rg_buf r + 16 * of_nat ?w, ?r')" using True by (simp add: p r1_def)
    moreover have "N \<le> Suc (length h)" using d by (metis dvd_imp_le mod_0_imp_dvd zero_less_Suc)
    then have "ring_after N (h @ [t]) ?r'" using a d tk by (simp add: ring_after_def) (simp add: r1_def)
    ultimately show ?thesis using a by (auto simp: r1_def)
  next
    case False
    then have d: "Suc (length h) div N = length h div N" "Suc (length h) mod N = Suc ?w"
      by (simp_all add: div_Suc mod_Suc)
    have "length h < N \<longleftrightarrow> Suc (length h) < N"
    proof
      assume "length h < N" then show "Suc (length h) < N" using False by simp
    qed simp
    then have "ring_after N (h @ [t]) r1" using a d tk w by (simp add: ring_after_def) (simp add: r1_def)
    then show ?thesis using False a by (simp add: p r1_def)
  qed
qed

definition reader_at :: "nat \<Rightarrow> nat \<Rightarrow> nat \<Rightarrow> bool \<Rightarrow> bool" where
  "reader_at N c d ccs \<longleftrightarrow> d = c mod N \<and> ccs = even (c div N) \<or> d = N \<and> 0 < c \<and> c mod N = 0 \<and> ccs = odd (c div N)"

definition not_link :: "trb \<Rightarrow> bool" where
  "not_link t \<longleftrightarrow> trb_type t \<noteq> LinkTRB_Type"

definition ring_holds :: "nat \<Rightarrow> ring_channel \<Rightarrow> trb list \<Rightarrow> bool" where
  "ring_holds N = (\<lambda>(r, d, ccs) q. 0 < N \<and> N < 2 ^ 60 \<and> (\<exists>h c. ring_after N h r \<and> q = drop c h \<and> c \<le> length h \<and> length h < c + N \<and>
     list_all not_link h \<and> reader_at N c d ccs))"

lemma ring_slot: "ring_after N h r \<Longrightarrow> i < N \<Longrightarrow> rg_mem r ! i = slots N h ! i"
  unfolding ring_after_def by (metis nth_take)

lemma ring_front:
  assumes "ring_after N h r" and "0 < N" and "c \<le> length h" and "length h < c + N"
  shows "trb_cycle_bit (rg_mem r ! (c mod N)) = (if c < length h then even (c div N) else odd (c div N))"
    and "c < length h \<Longrightarrow> rg_mem r ! (c mod N) = stamp (even (c div N)) (h ! c)"
    and "c mod N < length (rg_mem r)"
proof -
  have lt: "c mod N < N" using assms(2) by simp
  then show "c mod N < length (rg_mem r)" using assms(1) by (simp add: ring_after_def)
  show slot: "rg_mem r ! (c mod N) = stamp (even (c div N)) (h ! c)" if "c < length h"
    using that assms lt by (simp add: ring_slot slots_recent)
  show "trb_cycle_bit (rg_mem r ! (c mod N)) = (if c < length h then even (c div N) else odd (c div N))"
    using slot slots_free [of N h c] assms lt by (auto simp: ring_slot)
qed

lemma follow_link_reader:
  assumes r: "ring_after N h r" and N: "0 < N" and c: "c \<le> length h" "length h < c + N" and ok: "list_all not_link h"
    and at: "reader_at N c d ccs"
  shows "follow_link r d ccs = Some (c mod N, even (c div N))"
  using at unfolding reader_at_def
proof (elim disjE conjE)
  assume d: "d = c mod N" "ccs = even (c div N)"
  note f = ring_front [OF r N c]
  have "c < length h \<Longrightarrow> trb_type (h ! c) \<noteq> LinkTRB_Type" using ok by (simp add: list_all_length not_link_def)
  then show ?thesis using f by (simp add: follow_link_def d ub_simps)
next
  assume d: "d = N" "0 < c" "c mod N = 0" "ccs = odd (c div N)"
  then obtain k where k: "c = k * N" by (metis div_mult_mod_eq add_0_right)
  then have w: "length h div N = k" using c N by (metis div_nat_eqI mult.commute mult_Suc_right add.commute)
  have "N \<le> length h" using d k c by (cases k) auto
  then have "arr_get (rg_mem r) d = Some (stamp ccs (link_trb (rg_buf r)))"
    using r d w k N by (simp add: ring_after_def ub_simps)
  moreover have "rg_buf r = push_bit 4 (drop_bit 4 (rg_buf r))" using r by (simp only: ring_after_def)
  note link_trb_fields [OF this]
  ultimately show ?thesis using d(3,4) by (simp add: follow_link_def del: arr_get_eq_Some)
qed

interpretation ring_fifo: channel ring_send hc_fetch "stamp False" "N - 1" not_link "ring_holds N" for N
proof
  fix s :: ring_channel and q t
  assume s [unfolded ring_holds_def]: "ring_holds N s q"
  then obtain r d ccs h c where e: "s = (r, d, ccs)" and r: "ring_after N h r" and q: "q = drop c h" and c: "c \<le> length h" "length h < c + N"
    and ok: "list_all not_link h" and at: "reader_at N c d ccs"
    and nn: "0 < N" "N < 2 ^ 60" by (cases s) auto
  assume t: "not_link t" "length q < N - 1"
  obtain p r' where p: "Ring_Push t r = Some (p, r')" "ring_after N (h @ [t]) r'"
    using Ring_Push_after [OF r nn] by blast
  have "ring_holds N (r', d, ccs) (q @ [t])" unfolding ring_holds_def prod.case
    by (intro conjI nn exI [of _ "h @ [t]"] exI [of _ c]) (use p(2) q c t ok at in simp_all)
  then show "\<exists>s'. ring_send t s = Some s' \<and> ring_holds N s' (q @ [t])" by (simp add: ring_send_def e p(1))
next
  fix s :: ring_channel and q t
  assume s [unfolded ring_holds_def]: "ring_holds N s (t # q)"
  then obtain r d ccs h c where e: "s = (r, d, ccs)" and r: "ring_after N h r" and q: "t # q = drop c h" and c: "c \<le> length h" "length h < c + N"
    and ok: "list_all not_link h" and at: "reader_at N c d ccs"
    and nn: "0 < N" "N < 2 ^ 60" by (cases s) auto
  note f = ring_front [OF r nn(1) c]
  have lt: "c < length h" "h ! c = t" "drop (Suc c) h = q"
    using q by (metis drop_eq_Nil2 linorder_not_less list.distinct(1)) (metis q nth_via_drop, metis q drop_Suc tl_drop list.sel(3))
  have "hc_fetch s = Some (Some (stamp (even (c div N)) t), r, Suc (c mod N), even (c div N))"
    using f lt by (simp add: hc_fetch_def e follow_link_reader [OF r nn(1) c ok at] ub_simps)
  moreover have "reader_at N (Suc c) (Suc (c mod N)) (even (c div N))"
    by (cases "Suc (c mod N) = N") (simp_all add: reader_at_def mod_Suc div_Suc)
  then have "ring_holds N (r, Suc (c mod N), even (c div N)) q" unfolding ring_holds_def prod.case
    by (intro conjI nn exI [of _ h] exI [of _ "Suc c"]) (use r lt c ok in simp_all)
  ultimately show "\<exists>t' s'. hc_fetch s = Some (Some t', s') \<and> stamp False t' = stamp False t \<and> ring_holds N s' q" by auto
next
  fix s :: ring_channel
  assume s [unfolded ring_holds_def]: "ring_holds N s []"
  then obtain r d ccs h c where e: "s = (r, d, ccs)" and r: "ring_after N h r" and q: "[] = drop c h" and c: "c \<le> length h" "length h < c + N"
    and ok: "list_all not_link h" and at: "reader_at N c d ccs"
    and nn: "0 < N" "N < 2 ^ 60" by (cases s) auto
  then have c': "c = length h" by simp
  have "hc_fetch s = Some (None, r, c mod N, even (c div N))"
    using ring_front [OF r nn(1) c] c' by (simp add: hc_fetch_def e follow_link_reader [OF r nn(1) c ok at] ub_simps)
  moreover have "ring_holds N (r, c mod N, even (c div N)) []" unfolding ring_holds_def prod.case
    by (intro conjI nn exI [of _ h] exI [of _ c]) (use r c c' ok in \<open>simp_all add: reader_at_def\<close>)
  ultimately show "\<exists>s'. hc_fetch s = Some (None, s') \<and> ring_holds N s' []" by blast
qed

lemma aligned_push_drop:
  fixes p :: u64
  assumes "2 ^ a dvd unat p" and "s \<le> a"
  shows "p = push_bit s (drop_bit s p)"
proof -
  have "2 ^ s dvd unat p" using assms by (meson dvd_trans le_imp_power_dvd)
  then have "unat (push_bit s (drop_bit s p)) = unat p" by (simp add: unat_push_drop)
  then show ?thesis by (simp add: word_unat_eq_iff)
qed

text \<open>\<open>AllocArray<TRB>(n, 64, 64 * 1024)\<close>.\<close>

lemma alloc_trbs:
  assumes "pool_ok pool" and "ptr_ok pool ptr" and "0 < n" and "n < 2 ^ 28"
    and "AllocArray 16 pool (of_nat n) 64 (64 * 1024) ptr = (p, ptr')" and "p \<noteq> 0"
  shows "p = push_bit 6 (drop_bit 6 p)" "ptr_ok pool ptr'" "unat p + 16 * n \<le> pool_end pool"
proof -
  have u: "unat (16 * of_nat n :: u64) = 16 * n"
  proof -
    have "(16 * of_nat n :: u64) = of_nat (16 * n)" by simp
    then show ?thesis using assms(4) by (simp only: unat_of_nat) (simp add: take_bit_nat_eq_self)
  qed
  have "pow2_or_0 (2 ^ 6)" "pow2_or_0 (2 ^ 16)" by (auto simp: pow2_or_0_def simp del: power_numeral)
  then have ok: "request_ok (16 * of_nat n, 64, 0x10000)" using assms(4) u by (simp add: request_ok_def)
  have a: "AllocMem pool (16 * of_nat n) 64 0x10000 ptr = (p, ptr')" using assms(5) by (simp add: AllocArray_def)
  from AllocMem_block [OF assms(1,2) ok a] assms(6) u
  have "ptr_ok pool ptr'" "2 ^ 6 dvd unat p" "unat p + 16 * n \<le> pool_end pool" by (simp_all add: block_ok_def)
  then show "p = push_bit 6 (drop_bit 6 p)" "ptr_ok pool ptr'" "unat p + 16 * n \<le> pool_end pool"
    using aligned_push_drop [of 6 p 6] by simp_all
qed

lemma push_drop_weaken: "p = push_bit 6 (drop_bit 6 p) \<Longrightarrow> p = push_bit 4 (drop_bit 4 p)" for p :: u64
proof -
  assume "p = push_bit 6 (drop_bit 6 p)"
  then have "bit p k \<Longrightarrow> 6 \<le> k" for k by (metis bit_push_bit_iff)
  then have "bit p k \<Longrightarrow> 4 \<le> k" for k by fastforce
  then show ?thesis by (intro bit_word_eqI) (auto simp: bit_simps)
qed

lemma Ring_Initialize_holds:
  assumes "pool_ok pool" and "ptr_ok pool ptr" and "2 \<le> n" and "n < 2 ^ 28"
    and "Ring_Initialize pool n r0 ptr = (kSuccess, r, ptr')"
  shows "ring_holds (n - 1) (r, 0, True) []"
proof -
  obtain p ptr'' where a: "AllocArray 16 pool (of_nat n) 64 (64 * 1024) ptr = (p, ptr'')" by fastforce
  have p: "p \<noteq> 0" "r = r0\<lparr>rg_cycle_bit := True, rg_write_index := 0, rg_buf_size := n, rg_buf := p, rg_mem := replicate n 0\<rparr>"
    using assms(5) a by (auto simp: Ring_Initialize_def FreeMem_def Let_def split: if_splits)
  have al: "p = push_bit 4 (drop_bit 4 p)"
    by (rule push_drop_weaken, rule alloc_trbs [OF assms(1,2) _ assms(4) a p(1)]) (use assms(3) in simp)
  have "ring_after (n - 1) [] r" unfolding ring_after_def
  proof (intro conjI)
    show "rg_buf r = push_bit 4 (drop_bit 4 (rg_buf r))" using al p(2) by simp
  qed (use p(2) assms(3) in simp_all)
  then show ?thesis using assms(3,4) unfolding ring_holds_def prod.case
    by (intro conjI exI [of _ "[]"] exI [of _ 0]) (simp_all add: reader_at_def)
qed

text \<open>C12: a command or transfer ring that was initialised with \<open>n\<close> TRBs is a FIFO channel to the
  host controller: for every interleaving of \<open>Push\<close> with fetches of the controller that keeps at most
  \<open>n - 2\<close> TRBs outstanding, no write leaves the buffer, the controller fetches exactly the pushed TRBs in
  order (the cycle bit apart), across every wrap over the link TRB, and finds nothing when the ring is
  empty.\<close>

theorem Ring_refines_fifo:
  assumes "pool_ok pool" and "ptr_ok pool ptr" and "2 \<le> n" and "n < 2 ^ 28"
    and "Ring_Initialize pool n r0 ptr = (kSuccess, r, ptr')"
    and "within_cap (n - 2) not_link ops 0"
  shows "chan_run ring_send hc_fetch (stamp False) ops (r, 0, True) = Some (fifo_run (stamp False) ops [])"
proof -
  have "n - 1 - 1 = n - 2" by simp
  then show ?thesis using ring_fifo.refines_fifo [OF Ring_Initialize_holds [OF assms(1-5)]] assms(6) by simp
qed

theorem Ring_refines_fifo_witness:
  "chan_run ring_send hc_fetch (stamp False) [Send 0x20, Recv, Send 0x40, Recv, Recv]
     (fst (snd (Ring_Initialize 0x100040 3 Ring_new 0x100040)), 0, True)
   = Some [Some (stamp False 0x20), Some (stamp False 0x40), None]"
proof -
  have "pool_ok 0x100040" by (simp add: pool_ok_def)
  moreover have "ptr_ok 0x100040 0x100040" by (simp add: ptr_ok_def pool_end_def kMemoryPoolSize_def round_up_def)
  moreover have i: "Ring_Initialize 0x100040 3 Ring_new 0x100040 =
      (kSuccess, \<lparr>rg_buf = 0x100040, rg_mem = replicate 3 0, rg_buf_size = 3, rg_cycle_bit = True, rg_write_index = 0\<rparr>, 0x100070)"
    by (simp add: Ring_Initialize_def Ring_new_def AllocArray_def AllocMem_def alloc_place_def Ceil_def kMemoryPoolSize_def Let_def)
  moreover have "not_link 0x20" "not_link 0x40"
    by (simp_all add: not_link_def trb_type_def get_field_def TRB_pos bf_get_def LinkTRB_Type_def)
  ultimately show ?thesis
    using Ring_refines_fifo [of "0x100040" "0x100040" 3 Ring_new _ _ "[Send 0x20, Recv, Send 0x40, Recv, Recv]"] by simp
qed

subsection \<open>The host controller sends, the driver receives\<close>

text \<open>The host controller posts its \<open>w\<close>-th event into the segment the table entry describes, with its
  producer cycle state. The driver takes an event the way \<open>ProcessEvent\<close> does.\<close>

type_synonym event_channel = "EventRing \<times> nat"

definition segment_size :: "EventRing \<Rightarrow> nat" where
  "segment_size e = unat (get_field EventRingSegmentTableEntry ''ring_segment_size'' (snd (er_erst e)))"

definition hc_post :: "trb \<Rightarrow> event_channel \<Rightarrow> event_channel option" where
  "hc_post t = (\<lambda>(e, w). Some (e\<lparr>er_mem := slot_write (segment_size e) w t (er_mem e)\<rparr>, Suc w))"

definition take_event :: "event_channel \<Rightarrow> (trb option \<times> event_channel) option" where
  "take_event = (\<lambda>(e, w). do {
     has \<leftarrow> HasFront e;
     if has then do { t \<leftarrow> EventRing_Front e; Some (Some t, EventRing_Pop e, w) }
     else Some (None, e, w)
   })"

definition segment_base :: "EventRing \<Rightarrow> u64" where
  "segment_base e = get_pointer EventRingSegmentTableEntry ''ring_segment_base_address'' 0 (snd (er_erst e))"

definition event_wf :: "nat \<Rightarrow> EventRing \<Rightarrow> bool" where
  "event_wf N e \<longleftrightarrow> 0 < N \<and> 16 dvd unat (er_buf e) \<and> unat (er_buf e) + 16 * N < 2 ^ 64 \<and>
     segment_size e = N \<and> segment_base e = er_buf e"

definition event_holds :: "nat \<Rightarrow> event_channel \<Rightarrow> trb list \<Rightarrow> bool" where
  "event_holds N = (\<lambda>(e, w) q. event_wf N e \<and> (\<exists>h c. w = length h \<and> er_mem e = slots N h \<and> q = drop c h \<and>
     c \<le> length h \<and> length h \<le> c + N \<and> er_cycle_bit e = even (c div N) \<and>
     ReadDequeuePointer e = er_buf e + 16 * of_nat (c mod N)))"

lemma unat_slot:
  assumes "unat buf + 16 * n < 2 ^ 64" and "i \<le> n"
  shows "unat (buf + 16 * of_nat i :: u64) = unat buf + 16 * i" "unat (16 * of_nat i :: u64) = 16 * i"
proof -
  have "(16 * of_nat i :: u64) = of_nat (16 * i)" by simp
  then show u: "unat (16 * of_nat i :: u64) = 16 * i"
    using assms by (simp only: unat_of_nat) (simp add: take_bit_nat_eq_self)
  show "unat (buf + 16 * of_nat i :: u64) = unat buf + 16 * i"
    using u assms unat_add_lem [of buf "16 * of_nat i"] by simp
qed

lemma trb_at_slot:
  assumes "unat buf + 16 * length m < 2 ^ 64" and "i < length m"
  shows "trb_at buf m (buf + 16 * of_nat i) = Some (m ! i)"
  using unat_slot(2) [OF assms(1), of i] assms(2) by (simp add: trb_at_def ub_simps)

lemma Read_Write_pointer: "16 dvd unat p \<Longrightarrow> ReadDequeuePointer (WriteDequeuePointer p e) = p"
  using aligned_push_drop [of 4 p 4] by (simp add: ReadDequeuePointer_def WriteDequeuePointer_def ERDP_roundtrip)

lemma Write_frame [simp]:
  "er_buf (WriteDequeuePointer p e) = er_buf e" "er_mem (WriteDequeuePointer p e) = er_mem e"
  "er_cycle_bit (WriteDequeuePointer p e) = er_cycle_bit e" "er_erst (WriteDequeuePointer p e) = er_erst e"
  by (simp_all add: WriteDequeuePointer_def)

lemma Pop_moves:
  assumes wf: "event_wf N e" and p: "ReadDequeuePointer e = er_buf e + 16 * of_nat (c mod N)" and cy: "er_cycle_bit e = even (c div N)"
  shows "ReadDequeuePointer (EventRing_Pop e) = er_buf e + 16 * of_nat (Suc c mod N)"
    and "er_cycle_bit (EventRing_Pop e) = even (Suc c div N)" and "er_buf (EventRing_Pop e) = er_buf e"
    and "er_mem (EventRing_Pop e) = er_mem e" and "er_erst (EventRing_Pop e) = er_erst e"
proof -
  let ?i = "c mod N" and ?buf = "er_buf e"
  note w = wf [unfolded event_wf_def]
  have i: "Suc ?i \<le> N" using w by (simp add: Suc_le_eq)
  note us = unat_slot(1) [of ?buf N]
  have end': "16 * ucast (get_field EventRingSegmentTableEntry ''ring_segment_size'' (snd (er_erst e))) = 16 * (of_nat N :: u64)"
    using w by (auto simp: segment_size_def)
  have nx: "ReadDequeuePointer e + 16 = ?buf + 16 * of_nat (Suc ?i)" by (simp add: p distrib_left)
  have e: "ReadDequeuePointer e + 16 = ?buf + 16 * of_nat N \<longleftrightarrow> Suc ?i = N"
    using us [of "Suc ?i"] us [of N] i w unfolding nx by (metis add_left_cancel le_refl mult_cancel1 zero_neq_numeral)
  have pop: "EventRing_Pop e = (if Suc ?i = N then WriteDequeuePointer ?buf (e\<lparr>er_cycle_bit := \<not> er_cycle_bit e\<rparr>)
      else WriteDequeuePointer (?buf + 16 * of_nat (Suc ?i)) e)"
  proof -
    have b: "segment_base e = ?buf" using w by simp
    show ?thesis unfolding EventRing_Pop_def Let_def end' segment_base_def [symmetric] b e unfolding nx ..
  qed
  have al: "16 dvd unat (?buf + 16 * of_nat (Suc ?i))" using us [of "Suc ?i"] i w by simp
  show "er_buf (EventRing_Pop e) = er_buf e" "er_mem (EventRing_Pop e) = er_mem e" "er_erst (EventRing_Pop e) = er_erst e"
    by (simp_all add: pop)
  show "er_cycle_bit (EventRing_Pop e) = even (Suc c div N)" using cy by (simp add: pop div_Suc mod_Suc)
  show "ReadDequeuePointer (EventRing_Pop e) = er_buf e + 16 * of_nat (Suc c mod N)"
    using al w by (simp add: pop mod_Suc Read_Write_pointer del: of_nat_Suc)
qed

lemma event_front:
  assumes "event_wf N e" and "er_mem e = slots N h" and "c \<le> length h" "length h \<le> c + N"
    and "ReadDequeuePointer e = er_buf e + 16 * of_nat (c mod N)" and "er_cycle_bit e = even (c div N)"
  shows "c < length h \<Longrightarrow> EventRing_Front e = Some (stamp (even (c div N)) (h ! c))" and "HasFront e = Some (c < length h)"
proof -
  have N: "0 < N" "unat (er_buf e) + 16 * N < 2 ^ 64" using assms(1) by (simp_all add: event_wf_def)
  have f: "EventRing_Front e = Some (slots N h ! (c mod N))"
    unfolding EventRing_Front_def assms(2,5) by (rule trb_at_slot) (use N in simp_all)
  then show fr: "EventRing_Front e = Some (stamp (even (c div N)) (h ! c))" if "c < length h"
    using that assms(4) N by (simp add: slots_recent)
  show "HasFront e = Some (c < length h)"
  proof (cases "c < length h")
    case True
    then show ?thesis using fr assms(6) by (simp add: HasFront_def)
  next
    case False
    then have "trb_cycle_bit (slots N h ! (c mod N)) = odd (c div N)" using assms(3) N by (intro slots_free) simp_all
    then show ?thesis using False f assms(6) by (simp add: HasFront_def)
  qed
qed

interpretation event_fifo: channel hc_post take_event "stamp False" N "\<lambda>_. True" "event_holds N" for N
proof
  fix s :: event_channel and q t
  assume "event_holds N s q" "length q < N"
  then obtain e h c where h: "s = (e, length h)" "event_wf N e" "er_mem e = slots N h" "q = drop c h" "c \<le> length h" "length h < c + N"
      "er_cycle_bit e = even (c div N)" "ReadDequeuePointer e = er_buf e + 16 * of_nat (c mod N)"
    unfolding event_holds_def by (cases s) auto
  have "event_holds N (e\<lparr>er_mem := slots N (h @ [t])\<rparr>, Suc (length h)) (q @ [t])" unfolding event_holds_def prod.case
    by (intro conjI exI [of _ "h @ [t]"] exI [of _ c])
      (use h in \<open>simp_all add: event_wf_def segment_size_def segment_base_def ReadDequeuePointer_def\<close>)
  moreover have "segment_size e = N" using h(2) by (simp add: event_wf_def)
  ultimately show "\<exists>s'. hc_post t s = Some s' \<and> event_holds N s' (q @ [t])" using h(1,3) by (simp add: hc_post_def slots_snoc)
next
  fix s :: event_channel and q t
  assume "event_holds N s (t # q)"
  then obtain e h c where h: "s = (e, length h)" "event_wf N e" "er_mem e = slots N h" "t # q = drop c h" "c \<le> length h" "length h \<le> c + N"
      "er_cycle_bit e = even (c div N)" "ReadDequeuePointer e = er_buf e + 16 * of_nat (c mod N)"
    unfolding event_holds_def by (cases s) auto
  have lt: "c < length h" "h ! c = t" "drop (Suc c) h = q"
    using h(4) by (metis drop_eq_Nil2 linorder_not_less list.distinct(1)) (metis h(4) nth_via_drop, metis h(4) drop_Suc tl_drop list.sel(3))
  note f = event_front [OF h(2,3,5,6,8,7)] and p = Pop_moves [OF h(2,8,7)]
  have "take_event s = Some (Some (stamp (even (c div N)) t), EventRing_Pop e, length h)"
    using f lt by (simp add: take_event_def h(1))
  moreover have "event_holds N (EventRing_Pop e, length h) q" unfolding event_holds_def prod.case
    by (intro conjI exI [of _ h] exI [of _ "Suc c"])
      (use h lt p in \<open>simp_all add: event_wf_def segment_size_def segment_base_def\<close>)
  ultimately show "\<exists>t' s'. take_event s = Some (Some t', s') \<and> stamp False t' = stamp False t \<and> event_holds N s' q" by auto
next
  fix s :: event_channel
  assume s: "event_holds N s []"
  then obtain e h c where h: "s = (e, length h)" "event_wf N e" "er_mem e = slots N h" "[] = drop c h" "c \<le> length h" "length h \<le> c + N"
      "er_cycle_bit e = even (c div N)" "ReadDequeuePointer e = er_buf e + 16 * of_nat (c mod N)"
    unfolding event_holds_def by (cases s) auto
  have "take_event s = Some (None, s)" using event_front(2) [OF h(2,3,5,6,8,7)] h(1,4) by (simp add: take_event_def)
  with s show "\<exists>s'. take_event s = Some (None, s') \<and> event_holds N s' []" by blast
qed

lemma erst_entry:
  assumes "n < 2 ^ 16" and "er_erst e = (erst, set_field EventRingSegmentTableEntry ''ring_segment_size'' (of_nat n)
    (set_pointer EventRingSegmentTableEntry ''ring_segment_base_address'' 0 buf 0))"
  shows "segment_size e = n" "segment_base e = buf"
proof -
  let ?E = EventRingSegmentTableEntry
  have pos: "wf_layout ?E 128" "field_pos ?E ''ring_segment_size'' = Some (64, 16)" "field_pos ?E ''ring_segment_base_address'' = Some (0, 64)"
    by (simp_all add: EventRingSegmentTableEntry_def layout_eval)
  have "get_field ?E ''ring_segment_size'' (snd (er_erst e)) = take_bit 16 (of_nat n)"
    unfolding assms(2) snd_conv by (rule get_set_same [OF _ pos(2)]) (simp add: pos)
  then show "segment_size e = n" using assms(1)
    by (simp add: segment_size_def take_bit_of_nat unat_of_nat take_bit_nat_eq_self)
  have "segment_base e = get_pointer ?E ''ring_segment_base_address'' 0 (set_pointer ?E ''ring_segment_base_address'' 0 buf (0 :: trb))"
    unfolding segment_base_def assms(2) snd_conv by (simp add: get_pointer_def get_set_other)
  also have "\<dots> = buf" by (rule get_set_pointer [OF _ pos(3)]) (use unsigned_less [of buf] in \<open>simp_all add: pos\<close>)
  finally show "segment_base e = buf" .
qed

lemma EventRing_Initialize_success:
  assumes "EventRing_Initialize pool n intr e0 ptr = (kSuccess, e, ptr')"
  shows "\<exists>buf ptr1 erst. AllocArray 16 pool (of_nat n) 64 (64 * 1024) ptr = (buf, ptr1) \<and> buf \<noteq> 0 \<and> er_buf e = buf \<and>
    er_mem e = replicate n 0 \<and> er_cycle_bit e \<and>
    er_erst e = (erst, set_field EventRingSegmentTableEntry ''ring_segment_size'' (of_nat n)
      (set_pointer EventRingSegmentTableEntry ''ring_segment_base_address'' 0 buf 0)) \<and>
    ERDP (er_interrupter e) = ERDP_SetPointer buf (ERDP intr)"
proof -
  obtain buf ptr1 where a: "AllocArray 16 pool (of_nat n) 64 (64 * 1024) ptr = (buf, ptr1)" by fastforce
  obtain erst ptr2 where b: "AllocArray 16 pool 1 64 (64 * 1024) ptr1 = (erst, ptr2)" by fastforce
  show ?thesis using assms a b
    by (auto simp: EventRing_Initialize_def FreeMem_def Let_def WriteDequeuePointer_def split: if_splits)
qed

lemma EventRing_Initialize_holds:
  assumes "pool_ok pool" and "ptr_ok pool ptr" and "0 < n" and "n < 2 ^ 16"
    and "EventRing_Initialize pool n intr e0 ptr = (kSuccess, e, ptr')"
  shows "event_holds n (e, 0) []"
proof -
  obtain buf ptr1 erst where a: "AllocArray 16 pool (of_nat n) 64 (64 * 1024) ptr = (buf, ptr1)" "buf \<noteq> 0"
    and e: "er_buf e = buf" "er_mem e = replicate n 0" "er_cycle_bit e" "ERDP (er_interrupter e) = ERDP_SetPointer buf (ERDP intr)"
    and entry: "er_erst e = (erst, set_field EventRingSegmentTableEntry ''ring_segment_size'' (of_nat n)
      (set_pointer EventRingSegmentTableEntry ''ring_segment_base_address'' 0 buf 0))"
    using EventRing_Initialize_success [OF assms(5)] by blast
  have n: "n < 2 ^ 28" using assms(4) by simp
  note al = alloc_trbs [OF assms(1,2,3) n a]
  have al4: "buf = push_bit 4 (drop_bit 4 buf)" using al(1) by (rule push_drop_weaken)
  have "unat buf = unat (push_bit 4 (drop_bit 4 buf))" using al4 by (rule arg_cong)
  then have "unat buf = unat buf div 16 * 16" unfolding unat_push_drop by simp
  then have dvd: "16 dvd unat buf" by (metis dvd_triv_right)
  have "pool_end pool < 2 ^ 63" using assms(1) by (simp add: pool_end_def pool_ok_def kMemoryPoolSize_def)
  then have "event_wf n e" using dvd al(3) assms(3) e(1) erst_entry [OF assms(4) entry] by (simp add: event_wf_def)
  moreover have "ReadDequeuePointer e = buf" using ERDP_roundtrip [OF al4] by (simp add: ReadDequeuePointer_def e(4))
  ultimately show ?thesis using e unfolding event_holds_def prod.case
    by (intro conjI exI [of _ "[]"] exI [of _ 0]) simp_all
qed

text \<open>C23: the initialised event ring is a FIFO channel from the host controller: for every
  interleaving of events posted by the controller (never more unread events than the ring has entries)
  with \<open>HasFront\<close>, \<open>Front\<close> and \<open>Pop\<close> of the driver, the driver reads every event once and in order
  across the wraps of the ring, never reads outside the segment, and \<open>HasFront\<close> is false exactly when
  all events have been read.\<close>

theorem EventRing_refines_fifo:
  assumes "pool_ok pool" and "ptr_ok pool ptr" and "0 < n" and "n < 2 ^ 16"
    and "EventRing_Initialize pool n intr e0 ptr = (kSuccess, e, ptr')"
    and "within_cap n (\<lambda>_. True) ops 0"
  shows "chan_run hc_post take_event (stamp False) ops (e, 0) = Some (fifo_run (stamp False) ops [])"
  using event_fifo.refines_fifo [OF EventRing_Initialize_holds [OF assms(1-5)]] assms(6) by simp

theorem EventRing_refines_fifo_witness:
  "chan_run hc_post take_event (stamp False) [Send 0x20, Send 0x40, Recv, Send 0x60, Recv, Recv, Recv]
     (fst (snd (EventRing_Initialize 0x100040 2 \<lparr>IMAN = 0, IMOD = 0, ERSTSZ = 0, ERSTBA = 0, ERDP = 0\<rparr>
        \<lparr>er_buf = 0, er_mem = [], er_buf_size = 0, er_cycle_bit = False, er_erst = (0, 0),
         er_interrupter = \<lparr>IMAN = 0, IMOD = 0, ERSTSZ = 0, ERSTBA = 0, ERDP = 0\<rparr>\<rparr> 0x100040)), 0)
   = Some [Some (stamp False 0x20), Some (stamp False 0x40), Some (stamp False 0x60), None]"
proof -
  let ?i = "\<lparr>IMAN = 0, IMOD = 0, ERSTSZ = 0, ERSTBA = 0, ERDP = 0\<rparr>"
  let ?I = "EventRing_Initialize 0x100040 2 ?i
        \<lparr>er_buf = 0, er_mem = [], er_buf_size = 0, er_cycle_bit = False, er_erst = (0, 0), er_interrupter = ?i\<rparr> 0x100040"
  have "pool_ok 0x100040" by (simp add: pool_ok_def)
  moreover have "ptr_ok 0x100040 0x100040" by (simp add: ptr_ok_def pool_end_def kMemoryPoolSize_def round_up_def)
  moreover have "fst ?I = kSuccess"
    by (simp add: EventRing_Initialize_def AllocArray_def AllocMem_def alloc_place_def Ceil_def kMemoryPoolSize_def Let_def)
  then have "?I = (kSuccess, fst (snd ?I), snd (snd ?I))" by (metis prod.collapse)
  ultimately show ?thesis
    using EventRing_refines_fifo [of "0x100040" "0x100040" 2 ?i _ "fst (snd ?I)" "snd (snd ?I)"
        "[Send 0x20, Send 0x40, Recv, Send 0x60, Recv, Recv, Recv]"] by simp
qed

end
