(* ===== verification/Usb_Descriptor.thy ===== *)
theory Usb_Descriptor
  imports Usb_Types Bit_Layout
begin

text \<open>
  \<open>src/kernel/usb/descriptor.hpp\<close> and the descriptor reader of \<open>src/kernel/usb/device.cpp\<close>. A packed
  descriptor structure is a layout of its fields; a descriptor is a position in a byte buffer, and
  reading a field through a pointer reads the bytes there (\<open>None\<close> outside the buffer). The loops of the
  reader follow lengths supplied by the device, so they need not end: they are partial functions.
\<close>

subsection \<open>Descriptor structures\<close>

definition DeviceDescriptor :: layout where
  "DeviceDescriptor =
     [(''length'', 8), (''descriptor_type'', 8), (''usb_release'', 16), (''device_class'', 8),
      (''device_sub_class'', 8), (''device_protocol'', 8), (''max_packet_size'', 8), (''vendor_id'', 16),
      (''product_id'', 16), (''device_release'', 16), (''manufacturer'', 8), (''product'', 8),
      (''serial_number'', 8), (''num_configurations'', 8)]"

definition ConfigurationDescriptor :: layout where
  "ConfigurationDescriptor =
     [(''length'', 8), (''descriptor_type'', 8), (''total_length'', 16), (''num_interfaces'', 8),
      (''configuration_value'', 8), (''configuration_id'', 8), (''attributes'', 8), (''max_power'', 8)]"

definition InterfaceDescriptor :: layout where
  "InterfaceDescriptor =
     [(''length'', 8), (''descriptor_type'', 8), (''interface_number'', 8), (''alternate_setting'', 8),
      (''num_endpoints'', 8), (''interface_class'', 8), (''interface_sub_class'', 8),
      (''interface_protocol'', 8), (''interface_id'', 8)]"

definition EndpointDescriptor :: layout where
  "EndpointDescriptor =
     [(''length'', 8), (''descriptor_type'', 8), (''number'', 4), ('''', 3), (''dir_in'', 1),
      (''transfer_type'', 2), (''sync_type'', 2), (''usage_type'', 2), ('''', 2),
      (''max_packet_size'', 16), (''interval'', 8)]"

definition HIDDescriptor :: layout where
  "HIDDescriptor =
     [(''length'', 8), (''descriptor_type'', 8), (''hid_release'', 16), (''country_code'', 8), (''num_descriptors'', 8)]"

definition ClassDescriptor :: layout where
  "ClassDescriptor = [(''descriptor_type'', 8), (''descriptor_length'', 16)]"

definition DeviceDescriptor_kType :: u8 where "DeviceDescriptor_kType = 1"
definition ConfigurationDescriptor_kType :: u8 where "ConfigurationDescriptor_kType = 2"
definition InterfaceDescriptor_kType :: u8 where "InterfaceDescriptor_kType = 4"
definition EndpointDescriptor_kType :: u8 where "EndpointDescriptor_kType = 5"
definition HIDDescriptor_kType :: u8 where "HIDDescriptor_kType = 33"

lemmas descriptor_defs = DeviceDescriptor_def ConfigurationDescriptor_def InterfaceDescriptor_def
  EndpointDescriptor_def HIDDescriptor_def ClassDescriptor_def
lemmas descriptor_types = DeviceDescriptor_kType_def ConfigurationDescriptor_kType_def
  InterfaceDescriptor_kType_def EndpointDescriptor_kType_def HIDDescriptor_kType_def

definition sizeof_layout :: "layout \<Rightarrow> nat" where
  "sizeof_layout l = layout_bits l div 8"

text \<open>A field of a structure at byte \<open>p\<close>: part of a byte, or two bytes in little-endian order.\<close>

definition read_field :: "layout \<Rightarrow> string \<Rightarrow> u8 list \<Rightarrow> nat \<Rightarrow> u16 option" where
  "read_field l f buf p = (case field_pos l f of None \<Rightarrow> None | Some (off, n) \<Rightarrow> do {
     b \<leftarrow> arr_get buf (p + off div 8);
     if n \<le> 8 then Some (ucast (bf_get (off mod 8) n b))
     else do { b1 \<leftarrow> arr_get buf (p + off div 8 + 1); Some (ucast b OR push_bit 8 (ucast b1)) }
   })"

definition GetClassDescriptor :: "u8 list \<Rightarrow> nat \<Rightarrow> nat \<Rightarrow> nat option option" where
  "GetClassDescriptor buf p index = do {
     num_descriptors \<leftarrow> read_field HIDDescriptor ''num_descriptors'' buf p;
     if index \<ge> unat num_descriptors then Some None
     else Some (Some (p + sizeof_layout HIDDescriptor + sizeof_layout ClassDescriptor * index))
   }"

text \<open>\<open>DescriptorDynamicCast\<close>: whether the descriptor has the type; a null pointer is dereferenced.\<close>

definition DescriptorDynamicCast :: "u8 \<Rightarrow> u8 list \<Rightarrow> nat option \<Rightarrow> nat option option" where
  "DescriptorDynamicCast kType buf desc_data = do {
     p \<leftarrow> desc_data;
     ty \<leftarrow> arr_get buf (p + 1);
     Some (if ty = kType then Some p else None)
   }"

subsection \<open>The reader\<close>

text \<open>The reader's position \<open>p_\<close>; \<open>Next\<close> returns a pointer or null, and the new position.\<close>

definition reader_Next :: "u8 list \<Rightarrow> int \<Rightarrow> nat \<Rightarrow> (nat option \<times> nat) option" where
  "reader_Next desc_buf desc_buf_len p = do {
     l \<leftarrow> arr_get desc_buf p;
     let p = p + unat l;
     Some (if int p < desc_buf_len then Some p else None, p)
   }"

partial_function (option) reader_NextT :: "u8 \<Rightarrow> u8 list \<Rightarrow> int \<Rightarrow> nat \<Rightarrow> (nat option \<times> nat) option" where
  "reader_NextT kType desc_buf desc_buf_len p = do {
     (n, p) \<leftarrow> reader_Next desc_buf desc_buf_len p;
     if n = None then Some (None, p)
     else do {
       d \<leftarrow> DescriptorDynamicCast kType desc_buf n;
       if d \<noteq> None then Some (d, p) else reader_NextT kType desc_buf desc_buf_len p
     }
   }"

definition MakeEPConfig :: "u8 list \<Rightarrow> nat \<Rightarrow> EndpointConfig option" where
  "MakeEPConfig buf p = do {
     number \<leftarrow> read_field EndpointDescriptor ''number'' buf p;
     dir_in \<leftarrow> read_field EndpointDescriptor ''dir_in'' buf p;
     transfer_type \<leftarrow> read_field EndpointDescriptor ''transfer_type'' buf p;
     mps \<leftarrow> read_field EndpointDescriptor ''max_packet_size'' buf p;
     itv \<leftarrow> read_field EndpointDescriptor ''interval'' buf p;
     Some \<lparr>ep_id = EndpointID_new (uint number) (dir_in = 1), ep_type = EndpointType_of (unat transfer_type),
       max_packet_size = uint mps, interval = uint itv\<rparr>
   }"

subsection \<open>Reading well-formed descriptors\<close>

text \<open>A descriptor as the USB standard defines it: its first byte is its length, its second its type.\<close>

definition wf_desc :: "u8 list \<Rightarrow> bool" where
  "wf_desc d \<longleftrightarrow> 2 \<le> length d \<and> length d < 256 \<and> unat (d ! 0) = length d"

definition desc_type :: "u8 list \<Rightarrow> u8" where
  "desc_type d = d ! 1"

text \<open>A buffer that holds descriptors from position 0 on, the valid length being theirs.\<close>

definition holds_descs :: "u8 list \<Rightarrow> int \<Rightarrow> u8 list list \<Rightarrow> bool" where
  "holds_descs buf len ds \<longleftrightarrow> list_all wf_desc ds \<and> take (length (concat ds)) buf = concat ds \<and> len = int (length (concat ds))"

lemma holds_descs_nth:
  assumes "holds_descs buf len (pre @ d # post)" and "i < length d"
  shows "buf ! (length (concat pre) + i) = d ! i" "length (concat pre) + i < length buf"
proof -
  have t: "take (length (concat (pre @ d # post))) buf = concat (pre @ d # post)"
    using assms(1) unfolding holds_descs_def by (elim conjE)
  have l: "length (concat pre) + i < length (concat (pre @ d # post))" using assms(2) by simp
  have "length (concat (pre @ d # post)) \<le> length buf" using t by (metis length_take min.cobounded1)
  with l show "length (concat pre) + i < length buf" by simp
  have "buf ! (length (concat pre) + i) = concat (pre @ d # post) ! (length (concat pre) + i)"
    using t l by (metis nth_take)
  also have "\<dots> = d ! i" using assms(2) by (simp add: nth_append)
  finally show "buf ! (length (concat pre) + i) = d ! i" .
qed

lemma wf_of_holds: "holds_descs buf len (pre @ d # post) \<Longrightarrow> wf_desc d"
  by (simp add: holds_descs_def)

lemma arr_get_desc:
  "holds_descs buf len (pre @ d # post) \<Longrightarrow> i < length d \<Longrightarrow> arr_get buf (length (concat pre) + i) = Some (d ! i)"
  by (simp add: holds_descs_nth)

lemma reader_Next_descs:
  assumes "holds_descs buf len (pre @ d # post)"
  shows "reader_Next buf len (length (concat pre)) =
    Some (if post = [] then None else Some (length (concat (pre @ [d]))), length (concat (pre @ [d])))"
proof -
  have wf: "list_all wf_desc (pre @ d # post)" "len = int (length (concat (pre @ d # post)))"
    using assms by (simp_all add: holds_descs_def)
  then have d: "unat (d ! 0) = length d" "0 < length d" by (auto simp: wf_desc_def)
  have "int (length (concat pre) + length d) < len \<longleftrightarrow> post \<noteq> []"
    using wf by (cases post) (auto simp: wf_desc_def)
  moreover have "uint (d ! 0) = int (length d)" using d(1) by (metis uint_nat)
  ultimately show ?thesis
    using arr_get_desc [OF assms d(2)] d(1) by (simp add: reader_Next_def Let_def del: arr_get_eq_Some)
qed

lemma cast_desc:
  assumes "holds_descs buf len (pre @ d # post)"
  shows "DescriptorDynamicCast ty buf (Some (length (concat pre))) = Some (if desc_type d = ty then Some (length (concat pre)) else None)"
proof -
  have "1 < length d" using wf_of_holds [OF assms] by (simp add: wf_desc_def)
  from arr_get_desc [OF assms this] show ?thesis
    by (simp add: DescriptorDynamicCast_def desc_type_def del: arr_get_eq_Some)
qed

text \<open>\<open>Next<T>\<close> returns on well-formed descriptors, with the next one of the type.\<close>

lemma reader_NextT_descs:
  assumes "holds_descs buf len (pre @ d # post)"
  shows "reader_NextT ty buf len (length (concat pre)) =
    (let sk = takeWhile (\<lambda>e. desc_type e \<noteq> ty) post; p = length (concat (pre @ d # sk))
     in Some (if sk = post then None else Some p, p))"
  using assms
proof (induction post arbitrary: pre d)
  case Nil
  then show ?case by (simp add: reader_NextT.simps [of ty buf len "length (concat pre)"] reader_Next_descs)
next
  case (Cons e post)
  have h: "holds_descs buf len ((pre @ [d]) @ e # post)" using Cons.prems by simp
  have n: "reader_Next buf len (length (concat pre)) = Some (Some (length (concat (pre @ [d]))), length (concat (pre @ [d])))"
    using reader_Next_descs [OF Cons.prems] by simp
  show ?case
  proof (cases "desc_type e = ty")
    case True
    then show ?thesis using n cast_desc [OF h, of ty]
      by (simp add: reader_NextT.simps [of ty buf len "length (concat pre)"] Let_def)
  next
    case False
    then have "reader_NextT ty buf len (length (concat pre)) = reader_NextT ty buf len (length (concat (pre @ [d])))"
      using n cast_desc [OF h, of ty] by (subst reader_NextT.simps) simp
    also have "\<dots> = (let sk = takeWhile (\<lambda>e. desc_type e \<noteq> ty) post; p = length (concat ((pre @ [d]) @ e # sk))
        in Some (if sk = post then None else Some p, p))" by (rule Cons.IH [OF h])
    finally show ?thesis using False by (simp add: Let_def)
  qed
qed

text \<open>A field of a structure that lies inside a descriptor depends on that descriptor only.\<close>

lemma read_field_desc:
  assumes "holds_descs buf len (pre @ d # post)" and "field_pos l f = Some (off, n)" and "off div 8 + (if n \<le> 8 then 0 else 1) < length d"
  shows "read_field l f buf (length (concat pre)) = read_field l f d 0"
  using arr_get_desc [OF assms(1), of "off div 8"] arr_get_desc [OF assms(1), of "off div 8 + 1"] assms(2,3)
  by (simp add: read_field_def ub_simps add.assoc split: if_splits del: arr_get_eq_Some)

lemma MakeEPConfig_desc:
  assumes "holds_descs buf len (pre @ d # post)" and "7 \<le> length d"
  shows "MakeEPConfig buf (length (concat pre)) = MakeEPConfig d 0"
proof -
  have pos: "field_pos EndpointDescriptor ''number'' = Some (16, 4)" "field_pos EndpointDescriptor ''dir_in'' = Some (23, 1)"
    "field_pos EndpointDescriptor ''transfer_type'' = Some (24, 2)" "field_pos EndpointDescriptor ''max_packet_size'' = Some (32, 16)"
    "field_pos EndpointDescriptor ''interval'' = Some (48, 8)"
    by (simp_all add: EndpointDescriptor_def)
  show ?thesis unfolding MakeEPConfig_def using assms(2) by (simp add: pos [THEN read_field_desc [OF assms(1)]])
qed

text \<open>A descriptor of length zero that is not of the type looked for: the reader never moves on.\<close>

lemma reader_NextT_stuck:
  assumes "p < length buf" and "buf ! p = 0" and "p + 1 < length buf" and "buf ! (p + 1) \<noteq> ty" and "int p < len"
  shows "reader_NextT ty buf len p = None"
proof (rule ccontr)
  assume "reader_NextT ty buf len p \<noteq> None"
  then obtain r where "reader_NextT ty buf len p = Some r" by auto
  moreover have "reader_NextT ty buf len p = Some r \<Longrightarrow> \<not> (p < length buf \<and> buf ! p = 0 \<and> p + 1 < length buf \<and> buf ! (p + 1) \<noteq> ty \<and> int p < len)"
    for ty buf len p and r :: "nat option \<times> nat"
  proof (rule reader_NextT.raw_induct [where P = "\<lambda>ty buf len p r. \<not> (p < length buf \<and> buf ! p = 0 \<and> p + 1 < length buf \<and> buf ! (p + 1) \<noteq> ty \<and> int p < len)"])
    fix f ty buf len p and r :: "nat option \<times> nat"
    assume ih: "\<And>ty buf len p r. f ty buf len p = Some r \<Longrightarrow> \<not> (p < length buf \<and> buf ! p = 0 \<and> p + 1 < length buf \<and> buf ! (p + 1) \<noteq> ty \<and> int p < len)"
      and eq: "do { (n, p) \<leftarrow> reader_Next buf len p; if n = None then Some (None, p)
        else do { d \<leftarrow> DescriptorDynamicCast ty buf n; if d \<noteq> None then Some (d, p) else f ty buf len p } } = Some r"
    show "\<not> (p < length buf \<and> buf ! p = 0 \<and> p + 1 < length buf \<and> buf ! (p + 1) \<noteq> ty \<and> int p < len)"
    proof
      assume a: "p < length buf \<and> buf ! p = 0 \<and> p + 1 < length buf \<and> buf ! (p + 1) \<noteq> ty \<and> int p < len"
      then have "f ty buf len p = Some r" using eq by (simp add: reader_Next_def DescriptorDynamicCast_def ub_simps)
      with ih a show False by blast
    qed
  qed
  ultimately show False using assms by blast
qed

end
