(* ===== verification/Xhci_Device.thy ===== *)
theory Xhci_Device
  imports Xhci_Ring Usb_Descriptor
begin

text \<open>
  \<open>src/kernel/usb/xhci/device.hpp\<close> and the transfers of \<open>src/kernel/usb/xhci/device.cpp\<close>. The state of a
  device joins the members of \<open>usb::Device\<close> and of its only subclass \<open>usb::xhci::Device\<close>; class
  drivers are objects numbered in the order they were created, and a \<open>ClassDriver*\<close> is such a number.
  A transfer ring belongs to one device and is stored in its array. Addresses and sizes of objects that
  the compiler and the linker choose are gathered in \<open>Env\<close>. Memory from the pool is never handed out
  twice, so members that no constructor sets are still zero.
\<close>

record Env =
  memory_pool :: u64
  sizeof_Ring :: u64
  sizeof_Device :: u64
  sizeof_HIDKeyboardDriver :: u64
  sizeof_HIDMouseDriver :: u64
  off_buf :: u64
  off_ctx :: u64
  off_input_ctx :: u64
  off_hid_buf :: u64
  keyboard_default_observer :: bool
  mouse_default_observer :: bool

datatype DriverKind = HIDKeyboardDriver | HIDMouseDriver

record ClassDriver =
  drv_kind :: DriverKind
  drv_addr :: u64
  ep_interrupt_in :: EndpointID
  ep_interrupt_out :: EndpointID
  interface_index :: int
  in_packet_size :: int
  hid_phase :: int
  hid_buf :: "u8 list"
  previous_buf :: "u8 list"
  num_observers :: nat

text \<open>Calls of the observers of the drivers.\<close>

datatype hid_event = KeyPush u8 u8 | MouseMove u8 int int

datatype State = kInvalid | kBlank | kSlotAssigning | kSlotAssigned

record Device =
  dev_addr :: u64
  class_drivers :: "nat option list"
  drivers :: "ClassDriver list"
  dev_buf :: "u8 list"
  num_configurations :: u8
  config_index :: u8
  is_initialized :: bool
  initialize_phase :: int
  ep_configs :: "EndpointConfig list"
  num_ep_configs :: int
  event_waiters :: "(SetupData, nat) ArrayMap"
  ctx :: DeviceContext
  input_ctx :: InputContext
  dev_slot_id :: u8
  dev_state :: State
  transfer_rings :: "Ring option list"
  setup_stage_map :: "(u64, u64) ArrayMap"
  doorbell :: "u32 list"
  hid_events :: "hid_event list"

definition zero_config :: EndpointConfig where
  "zero_config = \<lparr>ep_id = EndpointID 0, ep_type = kControl, max_packet_size = 0, interval = 0\<rparr>"

definition Device_new :: "u64 \<Rightarrow> u8 \<Rightarrow> Device" where
  "Device_new addr slot_id =
     \<lparr>dev_addr = addr, class_drivers = replicate 16 None, drivers = [], dev_buf = replicate 256 0,
      num_configurations = 0, config_index = 0, is_initialized = False, initialize_phase = 0,
      ep_configs = replicate 16 zero_config, num_ep_configs = 0, event_waiters = ArrayMap_new 4 0,
      ctx = \<lparr>dc_slot_context = 0, dc_ep_contexts = replicate 31 0\<rparr>,
      input_ctx = \<lparr>input_control_context = zero_control_context, ic_slot_context = 0, ic_ep_contexts = replicate 31 0\<rparr>,
      dev_slot_id = slot_id, dev_state = kInvalid, transfer_rings = replicate 31 None,
      setup_stage_map = ArrayMap_new 16 0, doorbell = [], hid_events = []\<rparr>"

definition Device_Initialize :: "Device \<Rightarrow> Code \<times> Device" where
  "Device_Initialize d = (kSuccess, d\<lparr>dev_state := kBlank\<rparr>)"

definition SelectForSlotAssignment :: "Device \<Rightarrow> Device" where
  "SelectForSlotAssignment d = d\<lparr>dev_state := kSlotAssigning\<rparr>"

definition buf_data :: "Env \<Rightarrow> Device \<Rightarrow> u64" where
  "buf_data env d = dev_addr d + off_buf env"

subsection \<open>Transfer rings\<close>

text \<open>Whether a ring was obtained, and the new state; an allocated ring keeps the error of its
  \<open>Initialize\<close> to itself, as the code does.\<close>

definition AllocTransferRing :: "Env \<Rightarrow> int \<Rightarrow> nat \<Rightarrow> Device \<Rightarrow> u64 \<Rightarrow> (Ring option \<times> Device \<times> u64) option" where
  "AllocTransferRing env index buf_size d alloc_ptr = do {
     let i = index - 1;
     let (tr, alloc_ptr) = AllocArray (sizeof_Ring env) (memory_pool env) 1 64 4096 alloc_ptr;
     let (ring, alloc_ptr) = (if tr \<noteq> 0
       then (let (_, r, alloc_ptr) = Ring_Initialize (memory_pool env) buf_size Ring_new alloc_ptr in (Some r, alloc_ptr))
       else (None, alloc_ptr));
     rings \<leftarrow> (if 0 \<le> i then arr_set (transfer_rings d) (nat i) ring else None);
     Some (ring, d\<lparr>transfer_rings := rings\<rparr>, alloc_ptr)
   }"

definition get_ring :: "int \<Rightarrow> Device \<Rightarrow> Ring option option" where
  "get_ring dci d = (if 1 \<le> dci then arr_get (transfer_rings d) (nat (dci - 1)) else None)"

definition push_ring :: "int \<Rightarrow> trb \<Rightarrow> Device \<Rightarrow> (u64 \<times> Device) option" where
  "push_ring dci t d = do {
     tr \<leftarrow> get_ring dci d;
     r \<leftarrow> tr;
     (p, r) \<leftarrow> Ring_Push t r;
     Some (p, d\<lparr>transfer_rings := (transfer_rings d)[nat (dci - 1) := Some r]\<rparr>)
   }"

text \<open>The TRB an address points to, in one of the device's rings.\<close>

fun deref_trb :: "Ring option list \<Rightarrow> u64 \<Rightarrow> trb option" where
  "deref_trb [] p = None"
| "deref_trb (r # rs) p =
     (case Option.bind r (\<lambda>r. trb_at (rg_buf r) (rg_mem r) p) of Some t \<Rightarrow> Some t | None \<Rightarrow> deref_trb rs p)"

text \<open>\<open>TRBDynamicCast<T>(p)\<close>: \<open>p\<close> itself or null.\<close>

definition cast_trb :: "nat \<Rightarrow> u64 \<Rightarrow> Device \<Rightarrow> u64 option" where
  "cast_trb ty p d = do { t \<leftarrow> deref_trb (transfer_rings d) p; Some (if trb_type t = ty then p else 0) }"

definition ring_doorbell :: "int \<Rightarrow> Device \<Rightarrow> Device" where
  "ring_doorbell dci d = d\<lparr>doorbell := doorbell d @ [Doorbell_Ring (of_int dci) 0]\<rparr>"

subsection \<open>Transfers\<close>

definition MakeSetupStageTRB :: "SetupData \<Rightarrow> nat \<Rightarrow> trb" where
  "MakeSetupStageTRB sd ty =
     set_field SetupStageTRB ''transfer_type'' (of_nat ty)
       (set_field SetupStageTRB ''length'' (ucast (sd_length sd))
         (set_field SetupStageTRB ''index'' (ucast (sd_index sd))
           (set_field SetupStageTRB ''value'' (ucast (sd_value sd))
             (set_field SetupStageTRB ''request'' (ucast (request sd))
               (set_field SetupStageTRB ''request_type'' (ucast (request_type sd)) SetupStageTRB_new)))))"

definition MakeDataStageTRB :: "u64 \<Rightarrow> int \<Rightarrow> bool \<Rightarrow> trb" where
  "MakeDataStageTRB buf len dir_in =
     set_field DataStageTRB ''direction'' (of_bool dir_in)
       (set_field DataStageTRB ''td_size'' 0
         (set_field DataStageTRB ''trb_transfer_length'' (of_int len)
           (DataStageTRB_SetPointer buf DataStageTRB_new)))"

text \<open>\<open>usb::Device::ControlIn\<close> and \<open>usb::Device::ControlOut\<close>.\<close>

definition base_Control :: "SetupData \<Rightarrow> nat option \<Rightarrow> Device \<Rightarrow> Code \<times> Device" where
  "base_Control sd issuer d =
     (kSuccess, case issuer of None \<Rightarrow> d | Some w \<Rightarrow> d\<lparr>event_waiters := ArrayMap_Put sd w (event_waiters d)\<rparr>)"

definition put_setup :: "u64 \<Rightarrow> u64 \<Rightarrow> Device \<Rightarrow> Device" where
  "put_setup p s d = d\<lparr>setup_stage_map := ArrayMap_Put p s (setup_stage_map d)\<rparr>"

definition ControlIn :: "EndpointID \<Rightarrow> SetupData \<Rightarrow> u64 \<Rightarrow> int \<Rightarrow> nat option \<Rightarrow> Device \<Rightarrow> (Code \<times> Device) option" where
  "ControlIn ep sd buf len issuer d = do {
     let (err, d) = base_Control sd issuer d;
     if err \<noteq> kSuccess then Some (err, d)
     else if ep_Number ep < 0 \<or> 15 < ep_Number ep then Some (kInvalidEndpointNumber, d)
     else do {
       let dci = DeviceContextIndex_of ep;
       tr \<leftarrow> get_ring dci d;
       if tr = None then Some (kTransferRingNotSet, d)
       else do {
         let status = StatusStageTRB_new;
         d \<leftarrow> (if buf \<noteq> 0 then do {
             (p, d) \<leftarrow> push_ring dci (MakeSetupStageTRB sd kInDataStage) d;
             setup_trb_position \<leftarrow> cast_trb SetupStageTRB_Type p d;
             let data = set_field DataStageTRB ''interrupt_on_completion'' 1 (MakeDataStageTRB buf len True);
             (data_trb_position, d) \<leftarrow> push_ring dci data d;
             (_, d) \<leftarrow> push_ring dci status d;
             Some (put_setup data_trb_position setup_trb_position d)
           } else do {
             (p, d) \<leftarrow> push_ring dci (MakeSetupStageTRB sd kNoDataStage) d;
             setup_trb_position \<leftarrow> cast_trb SetupStageTRB_Type p d;
             let status = set_field StatusStageTRB ''interrupt_on_completion'' 1 (set_field StatusStageTRB ''direction'' 1 status);
             (status_trb_position, d) \<leftarrow> push_ring dci status d;
             Some (put_setup status_trb_position setup_trb_position d)
           });
         Some (kSuccess, ring_doorbell dci d)
       }
     }
   }"

definition ControlOut :: "EndpointID \<Rightarrow> SetupData \<Rightarrow> u64 \<Rightarrow> int \<Rightarrow> nat option \<Rightarrow> Device \<Rightarrow> (Code \<times> Device) option" where
  "ControlOut ep sd buf len issuer d = do {
     let (err, d) = base_Control sd issuer d;
     if err \<noteq> kSuccess then Some (err, d)
     else if ep_Number ep < 0 \<or> 15 < ep_Number ep then Some (kInvalidEndpointNumber, d)
     else do {
       let dci = DeviceContextIndex_of ep;
       tr \<leftarrow> get_ring dci d;
       if tr = None then Some (kTransferRingNotSet, d)
       else do {
         let status = set_field StatusStageTRB ''direction'' 1 StatusStageTRB_new;
         d \<leftarrow> (if buf \<noteq> 0 then do {
             (p, d) \<leftarrow> push_ring dci (MakeSetupStageTRB sd kOutDataStage) d;
             setup_trb_position \<leftarrow> cast_trb SetupStageTRB_Type p d;
             let data = set_field DataStageTRB ''interrupt_on_completion'' 1 (MakeDataStageTRB buf len False);
             (data_trb_position, d) \<leftarrow> push_ring dci data d;
             (_, d) \<leftarrow> push_ring dci status d;
             Some (put_setup data_trb_position setup_trb_position d)
           } else do {
             (p, d) \<leftarrow> push_ring dci (MakeSetupStageTRB sd kNoDataStage) d;
             setup_trb_position \<leftarrow> cast_trb SetupStageTRB_Type p d;
             let status = set_field StatusStageTRB ''interrupt_on_completion'' 1 status;
             (status_trb_position, d) \<leftarrow> push_ring dci status d;
             Some (put_setup status_trb_position setup_trb_position d)
           });
         Some (kSuccess, ring_doorbell dci d)
       }
     }
   }"

definition InterruptIn :: "EndpointID \<Rightarrow> u64 \<Rightarrow> int \<Rightarrow> Device \<Rightarrow> (Code \<times> Device) option" where
  "InterruptIn ep buf len d = do {
     let dci = DeviceContextIndex_of ep;
     tr \<leftarrow> get_ring dci d;
     if tr = None then Some (kTransferRingNotSet, d)
     else do {
       let normal = NormalTRB_SetPointer buf NormalTRB_new;
       let normal = set_field NormalTRB ''trb_transfer_length'' (of_int len) normal;
       let normal = set_field NormalTRB ''interrupt_on_short_packet'' 1 normal;
       let normal = set_field NormalTRB ''interrupt_on_completion'' 1 normal;
       (_, d) \<leftarrow> push_ring dci normal d;
       Some (kSuccess, ring_doorbell dci d)
     }
   }"

definition InterruptOut :: "EndpointID \<Rightarrow> u64 \<Rightarrow> int \<Rightarrow> Device \<Rightarrow> Code \<times> Device" where
  "InterruptOut ep buf len d = (kNotImplemented, d)"

text \<open>\<open>GetDescriptor\<close> and \<open>SetConfiguration\<close> of \<open>usb/device.cpp\<close>.\<close>

definition GetDescriptor :: "EndpointID \<Rightarrow> u8 \<Rightarrow> u8 \<Rightarrow> u64 \<Rightarrow> int \<Rightarrow> Device \<Rightarrow> (Code \<times> Device) option" where
  "GetDescriptor ep ty desc_index buf len d =
     ControlIn ep \<lparr>request_type = make_request_type kIn kStandard kDevice, request = kGetDescriptor,
       sd_value = push_bit 8 (ucast ty) OR ucast desc_index, sd_index = 0, sd_length = of_int len\<rparr> buf len None d"

definition SetConfiguration :: "EndpointID \<Rightarrow> u8 \<Rightarrow> Device \<Rightarrow> (Code \<times> Device) option" where
  "SetConfiguration ep config_value d =
     ControlOut ep \<lparr>request_type = make_request_type kOut kStandard kDevice, request = kSetConfiguration,
       sd_value = ucast config_value, sd_index = 0, sd_length = 0\<rparr> 0 0 None d"

subsection \<open>Addresses of TRBs\<close>

definition apart :: "Ring \<Rightarrow> Ring \<Rightarrow> bool" where
  "apart a b \<longleftrightarrow> unat (rg_buf a) + 16 * length (rg_mem a) \<le> unat (rg_buf b) \<or> unat (rg_buf b) + 16 * length (rg_mem b) \<le> unat (rg_buf a)"

text \<open>The rings of a device do not overlap, as blocks of the allocator.\<close>

definition rings_ok :: "Ring option list \<Rightarrow> bool" where
  "rings_ok rs \<longleftrightarrow> (\<forall>i < length rs. \<forall>r. rs ! i = Some r \<longrightarrow> unat (rg_buf r) + 16 * length (rg_mem r) < 2 ^ 64) \<and>
     (\<forall>i < length rs. \<forall>j < length rs. i \<noteq> j \<longrightarrow> (\<forall>a b. rs ! i = Some a \<longrightarrow> rs ! j = Some b \<longrightarrow> apart a b))"

lemma deref_trb_unique:
  "i < length rs \<Longrightarrow> (\<And>j r. j < length rs \<Longrightarrow> rs ! j = Some r \<Longrightarrow> j \<noteq> i \<Longrightarrow> trb_at (rg_buf r) (rg_mem r) p = None) \<Longrightarrow>
   rs ! i = Some r \<Longrightarrow> trb_at (rg_buf r) (rg_mem r) p = Some t \<Longrightarrow> deref_trb rs p = Some t"
proof (induction rs arbitrary: i)
  case (Cons a rs)
  show ?case
  proof (cases i)
    case 0
    then show ?thesis using Cons.prems by simp
  next
    case (Suc k)
    have "Option.bind a (\<lambda>r. trb_at (rg_buf r) (rg_mem r) p) = None"
      using Cons.prems(2) [of 0] Suc by (cases a) auto
    moreover have "deref_trb rs p = Some t"
      by (rule Cons.IH [of k]) (use Cons.prems Suc Cons.prems(2) [of "Suc _"] in auto)
    ultimately show ?thesis by simp
  qed
qed simp

lemma trb_at_apart:
  assumes "apart a b" and "unat (rg_buf a) + 16 * length (rg_mem a) < 2 ^ 64" and "unat (rg_buf b) + 16 * length (rg_mem b) < 2 ^ 64"
    and "k < length (rg_mem b)"
  shows "trb_at (rg_buf a) (rg_mem a) (rg_buf b + 16 * of_nat k) = None"
proof -
  let ?p = "rg_buf b + 16 * of_nat k"
  have p: "unat ?p = unat (rg_buf b) + 16 * k" using unat_slot(1) [OF assms(3), of k] assms(4) by simp
  have "16 * length (rg_mem a) \<le> unat (?p - rg_buf a)"
  proof (cases "unat (rg_buf a) \<le> unat ?p")
    case True
    then have "unat (?p - rg_buf a) = unat ?p - unat (rg_buf a)" by (simp add: unat_sub word_le_nat_alt)
    then show ?thesis using assms(1,4) p True unfolding apart_def by linarith
  next
    case False
    then have "unat (?p - rg_buf a) = unat ?p + 2 ^ 64 - unat (rg_buf a)" by (simp add: unat_sub_if' word_le_nat_alt)
    then show ?thesis using assms(2) by linarith
  qed
  then have "length (rg_mem a) \<le> unat (?p - rg_buf a) div 16" by simp
  then show ?thesis by (simp add: trb_at_def Let_def ub_simps)
qed

lemma deref_ring:
  assumes "rings_ok rs" and "i < length rs" and "rs ! i = Some r" and "k < length (rg_mem r)"
  shows "deref_trb rs (rg_buf r + 16 * of_nat k) = Some (rg_mem r ! k)"
proof (rule deref_trb_unique [OF assms(2) _ assms(3)])
  have sz: "unat (rg_buf r) + 16 * length (rg_mem r) < 2 ^ 64" using assms unfolding rings_ok_def by blast
  show "trb_at (rg_buf r) (rg_mem r) (rg_buf r + 16 * of_nat k) = Some (rg_mem r ! k)" by (rule trb_at_slot [OF sz assms(4)])
  fix j a assume j: "j < length rs" "rs ! j = Some a" "j \<noteq> i"
  show "trb_at (rg_buf a) (rg_mem a) (rg_buf r + 16 * of_nat k) = None"
    by (rule trb_at_apart [OF _ _ sz assms(4)]) (use assms j in \<open>unfold rings_ok_def, blast+\<close>)
qed

lemma rings_ok_update:
  assumes "rings_ok rs" and "rs ! i = Some r" and "rg_buf r' = rg_buf r" and "length (rg_mem r') = length (rg_mem r)"
  shows "rings_ok (rs[i := Some r'])"
proof -
  have old: "\<exists>a0. rs ! j = Some a0 \<and> rg_buf a0 = rg_buf a \<and> length (rg_mem a0) = length (rg_mem a)"
    if "j < length rs" "rs[i := Some r'] ! j = Some a" for j a
    using that assms(2-4) by (cases "j = i") auto
  show ?thesis unfolding rings_ok_def length_list_update
  proof (intro conjI allI impI)
    fix j a assume j: "j < length rs" "rs[i := Some r'] ! j = Some a"
    then show "unat (rg_buf a) + 16 * length (rg_mem a) < 2 ^ 64" using old [OF j] assms(1) unfolding rings_ok_def by metis
    fix k b assume k: "k < length rs" "rs[i := Some r'] ! k = Some b" "j \<noteq> k"
    then show "apart a b" using old [OF j] old [OF k(1,2)] assms(1) j(1) unfolding rings_ok_def apart_def by metis
  qed
qed

text \<open>Pushing to a ring of a device.\<close>

definition on_ring :: "nat \<Rightarrow> trb list \<Rightarrow> int \<Rightarrow> Ring \<Rightarrow> Device \<Rightarrow> bool" where
  "on_ring N h dci r d \<longleftrightarrow> get_ring dci d = Some (Some r) \<and> ring_after N h r \<and> 0 < N \<and> N < 2 ^ 60 \<and> rings_ok (transfer_rings d)"

definition slot_addr :: "Ring \<Rightarrow> nat \<Rightarrow> nat \<Rightarrow> u64" where
  "slot_addr r N k = rg_buf r + 16 * of_nat (k mod N)"

lemma push_ring_after:
  assumes "on_ring N h dci r d"
  shows "\<exists>r'. push_ring dci t d = Some (slot_addr r N (length h), d\<lparr>transfer_rings := (transfer_rings d)[nat (dci - 1) := Some r']\<rparr>) \<and>
    on_ring N (h @ [t]) dci r' (d\<lparr>transfer_rings := (transfer_rings d)[nat (dci - 1) := Some r']\<rparr>) \<and> rg_buf r' = rg_buf r"
proof -
  note a = assms [unfolded on_ring_def]
  obtain r' where r': "Ring_Push t r = Some (rg_buf r + 16 * of_nat (rg_write_index r), r')" "ring_after N (h @ [t]) r'" "rg_buf r' = rg_buf r"
    using Ring_Push_after [of N h r t] a by blast
  have ix: "1 \<le> dci" "nat (dci - 1) < length (transfer_rings d)" "transfer_rings d ! nat (dci - 1) = Some r"
    using a by (auto simp: get_ring_def split: if_splits)
  have "length (rg_mem r') = length (rg_mem r)" using r'(2) a by (simp add: ring_after_def)
  then have "rings_ok ((transfer_rings d)[nat (dci - 1) := Some r'])" using a ix(3) r'(3) by (intro rings_ok_update) simp_all
  moreover have "push_ring dci t d = Some (slot_addr r N (length h), d\<lparr>transfer_rings := (transfer_rings d)[nat (dci - 1) := Some r']\<rparr>)"
  proof -
    have "rg_write_index r = length h mod N" using a by (simp add: ring_after_def)
    then show ?thesis using a r'(1) by (simp add: push_ring_def slot_addr_def)
  qed
  moreover have "get_ring dci (d\<lparr>transfer_rings := (transfer_rings d)[nat (dci - 1) := Some r']\<rparr>) = Some (Some r')"
    using ix by (simp add: get_ring_def)
  ultimately show ?thesis using a r'(2,3) unfolding on_ring_def by auto
qed

lemma deref_recent:
  assumes "on_ring N h dci r d" and "k < length h" and "length h \<le> k + N"
  shows "deref_trb (transfer_rings d) (slot_addr r N k) = Some (stamp (even (k div N)) (h ! k))"
proof -
  note a = assms(1) [unfolded on_ring_def]
  have ix: "nat (dci - 1) < length (transfer_rings d)" "transfer_rings d ! nat (dci - 1) = Some r"
    using a by (auto simp: get_ring_def split: if_splits)
  have k: "k mod N < N" using a by simp
  then have "rg_mem r ! (k mod N) = stamp (even (k div N)) (h ! k)" "k mod N < length (rg_mem r)"
    using a assms(2,3) ring_slot [of N h r "k mod N"] less_SucI [OF k] by (simp_all add: slots_recent ring_after_def)
  then show ?thesis using deref_ring [OF _ ix, of "k mod N"] a by (simp add: slot_addr_def)
qed

subsection \<open>What a control transfer leaves in the ring\<close>

lemma stamp_layout: "l \<in> set trb_layouts \<Longrightarrow> stamp c t = set_field l ''cycle_bit'' (of_bool c) t"
  by (simp add: stamp_def set_field_def trb_layout_pos TRB_layout)

lemma get_field_stamp: "l \<in> set trb_layouts \<Longrightarrow> f \<noteq> ''cycle_bit'' \<Longrightarrow> get_field l f (stamp c t) = get_field l f t"
  by (simp add: stamp_layout get_set_other)

lemma control_types [simp]:
  "trb_type (MakeSetupStageTRB sd ty) = SetupStageTRB_Type" "trb_type (MakeDataStageTRB buf len dir) = DataStageTRB_Type"
  "trb_type (set_field DataStageTRB ''interrupt_on_completion'' v t) = trb_type t"
  "trb_type (set_field StatusStageTRB ''interrupt_on_completion'' v t) = trb_type t"
  "trb_type (set_field StatusStageTRB ''direction'' v t) = trb_type t" "trb_type StatusStageTRB_new = StatusStageTRB_Type"
proof -
  have l: "SetupStageTRB \<in> set trb_layouts" "DataStageTRB \<in> set trb_layouts" "StatusStageTRB \<in> set trb_layouts"
    by (simp_all add: trb_layouts_def)
  note o = l [THEN trb_type_set_other]
  have b: "trb_type SetupStageTRB_new = SetupStageTRB_Type" "trb_type DataStageTRB_new = DataStageTRB_Type"
    "trb_type StatusStageTRB_new = StatusStageTRB_Type"
    by (rule built_trb_type [of _ _ "(None, None, None)" 0 0 0 kDefaultControlPipeID], simp add: built_trbs_def)+
  show "trb_type (MakeSetupStageTRB sd ty) = SetupStageTRB_Type" "trb_type (MakeDataStageTRB buf len dir) = DataStageTRB_Type"
    by (simp_all add: MakeSetupStageTRB_def MakeDataStageTRB_def DataStageTRB_SetPointer_def set_pointer_def o b)
  show "trb_type StatusStageTRB_new = StatusStageTRB_Type" by (rule b)
  show "trb_type (set_field DataStageTRB ''interrupt_on_completion'' v t) = trb_type t"
      "trb_type (set_field StatusStageTRB ''interrupt_on_completion'' v t) = trb_type t"
      "trb_type (set_field StatusStageTRB ''direction'' v t) = trb_type t"
    by (simp_all add: o)
qed

definition data_trb :: "u64 \<Rightarrow> int \<Rightarrow> bool \<Rightarrow> trb" where
  "data_trb buf len dir = set_field DataStageTRB ''interrupt_on_completion'' 1 (MakeDataStageTRB buf len dir)"

lemma data_trb_fields:
  assumes "0 \<le> len" and "len < 2 ^ 17"
  shows "DataStageTRB_Pointer (stamp c (data_trb buf len dir)) = buf"
    "get_field DataStageTRB ''trb_transfer_length'' (stamp c (data_trb buf len dir)) = of_int len"
proof -
  have l: "DataStageTRB \<in> set trb_layouts" by (simp add: trb_layouts_def)
  have pos: "wf_layout DataStageTRB 128" "field_pos DataStageTRB ''data_buffer_pointer'' = Some (0, 64)"
    "field_pos DataStageTRB ''trb_transfer_length'' = Some (64, 17)"
    by (simp_all add: DataStageTRB_def layout_eval)
  have "get_field DataStageTRB ''trb_transfer_length'' (stamp c (data_trb buf len dir)) = take_bit 17 (of_int len)"
    unfolding get_field_stamp [OF l, of "''trb_transfer_length''", simplified] data_trb_def MakeDataStageTRB_def
    using get_set_same [where 'a = 128, OF _ pos(3)] pos(1) by (simp add: get_set_other)
  also have "\<dots> = of_int len" using assms by (simp add: take_bit_of_int take_bit_int_eq_self)
  finally show "get_field DataStageTRB ''trb_transfer_length'' (stamp c (data_trb buf len dir)) = of_int len" .
  have "DataStageTRB_Pointer (stamp c (data_trb buf len dir)) = DataStageTRB_Pointer (DataStageTRB_SetPointer buf DataStageTRB_new)"
    unfolding DataStageTRB_Pointer_def get_pointer_def get_field_stamp [OF l, of "''data_buffer_pointer''", simplified] data_trb_def MakeDataStageTRB_def
    by (simp add: get_set_other)
  also have "\<dots> = buf" unfolding DataStageTRB_Pointer_def DataStageTRB_SetPointer_def
    by (rule get_set_pointer [OF _ pos(2)]) (use unsigned_less [of buf] in \<open>simp_all add: pos\<close>)
  finally show "DataStageTRB_Pointer (stamp c (data_trb buf len dir)) = buf" .
qed

lemma on_ring_frame: "on_ring N h dci r d \<Longrightarrow> transfer_rings d' = transfer_rings d \<Longrightarrow> on_ring N h dci r d'"
  by (auto simp: on_ring_def get_ring_def split: if_splits)

lemma cast_pushed:
  assumes "on_ring N (h @ [t]) dci r' d" and "rg_buf r' = rg_buf r" and "trb_type t = ty"
  shows "cast_trb ty (slot_addr r N (length h)) d = Some (slot_addr r N (length h))"
proof -
  have "1 \<le> N" using assms(1) by (simp add: on_ring_def)
  then have "deref_trb (transfer_rings d) (slot_addr r' N (length h)) = Some (stamp (even (length h div N)) t)"
    using deref_recent [OF assms(1), of "length h"] by simp
  moreover have "slot_addr r' N (length h) = slot_addr r N (length h)" by (simp add: slot_addr_def assms(2))
  ultimately show ?thesis using assms(3) by (simp add: cast_trb_def)
qed

lemma ControlIn_pushes:
  assumes "on_ring N h (Address ep) r d" and "0 \<le> ep_Number ep" "ep_Number ep \<le> 15" and "buf \<noteq> 0"
  shows "\<exists>d' r'. ControlIn ep sd buf len issuer d = Some (kSuccess, d') \<and>
    on_ring N (h @ [MakeSetupStageTRB sd kInDataStage, data_trb buf len True, StatusStageTRB_new]) (Address ep) r' d' \<and>
    rg_buf r' = rg_buf r \<and> doorbell d' = doorbell d @ [Doorbell_Ring (of_int (Address ep)) 0] \<and>
    setup_stage_map d' = ArrayMap_Put (slot_addr r N (Suc (length h))) (slot_addr r N (length h)) (setup_stage_map d)"
proof -
  let ?dci = "Address ep" and ?up = "\<lambda>d r. d\<lparr>transfer_rings := (transfer_rings d)[nat (Address ep - 1) := Some r]\<rparr>"
  define d0 where "d0 = snd (base_Control sd issuer d)"
  have d0: "transfer_rings d0 = transfer_rings d" "setup_stage_map d0 = setup_stage_map d" "doorbell d0 = doorbell d"
    by (simp_all add: d0_def base_Control_def split: option.split)
  have o0: "on_ring N h ?dci r d0" using on_ring_frame [OF assms(1) d0(1)] .
  obtain r1 where 1: "push_ring ?dci (MakeSetupStageTRB sd kInDataStage) d0 = Some (slot_addr r N (length h), ?up d0 r1)"
      "on_ring N (h @ [MakeSetupStageTRB sd kInDataStage]) ?dci r1 (?up d0 r1)" "rg_buf r1 = rg_buf r"
    using push_ring_after [OF o0] by blast
  obtain r2 where 2: "push_ring ?dci (data_trb buf len True) (?up d0 r1) = Some (slot_addr r1 N (Suc (length h)), ?up (?up d0 r1) r2)"
      "on_ring N ((h @ [MakeSetupStageTRB sd kInDataStage]) @ [data_trb buf len True]) ?dci r2 (?up (?up d0 r1) r2)" "rg_buf r2 = rg_buf r1"
    using push_ring_after [OF 1(2)] by (metis length_append_singleton)
  let ?d2 = "?up (?up d0 r1) r2"
  obtain r3 where 3: "push_ring ?dci StatusStageTRB_new ?d2 = Some (slot_addr r2 N (Suc (Suc (length h))), ?up ?d2 r3)"
      "on_ring N (((h @ [MakeSetupStageTRB sd kInDataStage]) @ [data_trb buf len True]) @ [StatusStageTRB_new]) ?dci r3 (?up ?d2 r3)" "rg_buf r3 = rg_buf r2"
    using push_ring_after [OF 2(2)] by (metis length_append_singleton)
  have c: "cast_trb SetupStageTRB_Type (slot_addr r N (length h)) (?up d0 r1) = Some (slot_addr r N (length h))"
    by (rule cast_pushed [OF 1(2,3)]) simp
  have sa: "slot_addr r1 N (Suc (length h)) = slot_addr r N (Suc (length h))" by (simp add: slot_addr_def 1(3))
  have gr: "get_ring ?dci d0 = Some (Some r)" using o0 by (simp add: on_ring_def)
  have bc: "base_Control sd issuer d = (kSuccess, d0)" by (simp add: d0_def base_Control_def)
  let ?d' = "ring_doorbell ?dci (put_setup (slot_addr r N (Suc (length h))) (slot_addr r N (length h)) (?up ?d2 r3))"
  have "ControlIn ep sd buf len issuer d = Some (kSuccess, ?d')"
    unfolding ControlIn_def using assms(2-4) gr 1(1) 2(1) 3(1) c
    by (simp add: bc DeviceContextIndex_of_def data_trb_def [symmetric] sa Let_def)
  moreover have "on_ring N (h @ [MakeSetupStageTRB sd kInDataStage, data_trb buf len True, StatusStageTRB_new]) ?dci r3 ?d'"
    using on_ring_frame [OF 3(2), of ?d'] by (simp add: ring_doorbell_def put_setup_def)
  ultimately show ?thesis using 1(3) 2(3) 3(3) d0 by (auto simp: ring_doorbell_def put_setup_def)
qed

end
