(* ===== verification/Usb_Class.thy ===== *)
theory Usb_Class
  imports Xhci_Device
begin

text \<open>
  \<open>src/kernel/usb/device.cpp\<close>, \<open>src/kernel/usb/classdriver\<close> and the transfer events of
  \<open>src/kernel/usb/xhci/device.cpp\<close>: the HID class drivers and the initialisation of a device in phases.
  The bytes a device sends are in \<open>dev_buf\<close> and in the \<open>hid_buf\<close> of its drivers, where the host
  controller puts them before it posts the event. A function that may allocate takes and returns
  \<open>alloc_ptr\<close>.
\<close>

subsection \<open>HID drivers\<close>

definition get_driver :: "nat \<Rightarrow> Device \<Rightarrow> ClassDriver option" where
  "get_driver w d = arr_get (drivers d) w"

definition set_driver :: "nat \<Rightarrow> (ClassDriver \<Rightarrow> ClassDriver) \<Rightarrow> Device \<Rightarrow> Device" where
  "set_driver w f d = d\<lparr>drivers := (drivers d)[w := f (drivers d ! w)]\<rparr>"

definition HIDBaseDriver_new :: "DriverKind \<Rightarrow> u64 \<Rightarrow> int \<Rightarrow> int \<Rightarrow> ClassDriver" where
  "HIDBaseDriver_new kind addr iface packet_size =
     \<lparr>drv_kind = kind, drv_addr = addr, ep_interrupt_in = EndpointID 0, ep_interrupt_out = EndpointID 0,
      interface_index = iface, in_packet_size = packet_size, hid_phase = 0,
      hid_buf = replicate 1024 0, previous_buf = replicate 1024 0, num_observers = 0\<rparr>"

definition HIDKeyboardDriver_new :: "u64 \<Rightarrow> int \<Rightarrow> ClassDriver" where
  "HIDKeyboardDriver_new addr iface = HIDBaseDriver_new HIDKeyboardDriver addr iface 8"

definition HIDMouseDriver_new :: "u64 \<Rightarrow> int \<Rightarrow> ClassDriver" where
  "HIDMouseDriver_new addr iface = HIDBaseDriver_new HIDMouseDriver addr iface 3"

definition HIDBaseDriver_Initialize :: Code where
  "HIDBaseDriver_Initialize = kNotImplemented"

definition SetEndpoint :: "EndpointConfig \<Rightarrow> ClassDriver \<Rightarrow> ClassDriver" where
  "SetEndpoint config c =
     (if ep_type config = kInterrupt \<and> ep_IsIn (ep_id config) then c\<lparr>ep_interrupt_in := ep_id config\<rparr>
      else if ep_type config = kInterrupt \<and> \<not> ep_IsIn (ep_id config) then c\<lparr>ep_interrupt_out := ep_id config\<rparr>
      else c)"

text \<open>\<open>observers_[num_observers_++] = observer\<close> in an array of four.\<close>

definition Subscribe :: "ClassDriver \<Rightarrow> ClassDriver option" where
  "Subscribe c = (if num_observers c < 4 then Some (c\<lparr>num_observers := num_observers c + 1\<rparr>) else None)"

definition NotifyKeyPush :: "u8 \<Rightarrow> u8 \<Rightarrow> ClassDriver \<Rightarrow> hid_event list" where
  "NotifyKeyPush modifier keycode c = replicate (num_observers c) (KeyPush modifier keycode)"

definition NotifyMouseMove :: "u8 \<Rightarrow> int \<Rightarrow> int \<Rightarrow> ClassDriver \<Rightarrow> hid_event list" where
  "NotifyMouseMove buttons displacement_x displacement_y c =
     replicate (num_observers c) (MouseMove buttons displacement_x displacement_y)"

definition keyboard_key :: "ClassDriver \<Rightarrow> nat \<Rightarrow> hid_event list \<Rightarrow> hid_event list option" where
  "keyboard_key c i out = do {
     key \<leftarrow> arr_get (hid_buf c) i;
     if key = 0 then Some out
     else if key \<in> set (drop 2 (previous_buf c)) then Some out
     else do { modifier \<leftarrow> arr_get (hid_buf c) 0; Some (out @ NotifyKeyPush modifier key c) }
   }"

definition keyboard_OnDataReceived :: "ClassDriver \<Rightarrow> hid_event list option" where
  "keyboard_OnDataReceived c = foldM (keyboard_key c) [2..<8] []"

definition mouse_OnDataReceived :: "ClassDriver \<Rightarrow> hid_event list option" where
  "mouse_OnDataReceived c = do {
     buttons \<leftarrow> arr_get (hid_buf c) 0;
     x \<leftarrow> arr_get (hid_buf c) 1;
     y \<leftarrow> arr_get (hid_buf c) 2;
     Some (NotifyMouseMove buttons (sint x) (sint y) c)
   }"

definition OnDataReceived :: "ClassDriver \<Rightarrow> hid_event list option" where
  "OnDataReceived c = (case drv_kind c of HIDKeyboardDriver \<Rightarrow> keyboard_OnDataReceived c | HIDMouseDriver \<Rightarrow> mouse_OnDataReceived c)"

definition driver_OnEndpointsConfigured :: "nat \<Rightarrow> Device \<Rightarrow> (Code \<times> Device) option" where
  "driver_OnEndpointsConfigured w d = do {
     c \<leftarrow> get_driver w d;
     let sd = \<lparr>request_type = make_request_type kOut kClass kInterface, request = kSetProtocol, sd_value = 0,
       sd_index = of_int (interface_index c), sd_length = 0\<rparr>;
     let d = set_driver w (hid_phase_update (\<lambda>_. 1)) d;
     ControlOut kDefaultControlPipeID sd 0 0 (Some w) d
   }"

definition driver_OnControlCompleted :: "Env \<Rightarrow> nat \<Rightarrow> Device \<Rightarrow> (Code \<times> Device) option" where
  "driver_OnControlCompleted env w d = do {
     c \<leftarrow> get_driver w d;
     if hid_phase c = 1 then
       InterruptIn (ep_interrupt_in c) (drv_addr c + off_hid_buf env) (in_packet_size c)
         (set_driver w (hid_phase_update (\<lambda>_. 2)) d)
     else Some (kNotImplemented, d)
   }"

text \<open>\<open>std::copy_n(buf_.begin(), len, previous_buf_.begin())\<close>.\<close>

definition copy_previous :: "int \<Rightarrow> ClassDriver \<Rightarrow> ClassDriver option" where
  "copy_previous len c =
     (if nat len \<le> length (hid_buf c) \<and> nat len \<le> length (previous_buf c)
      then Some (c\<lparr>previous_buf := take (nat len) (hid_buf c) @ drop (nat len) (previous_buf c)\<rparr>)
      else None)"

definition driver_OnInterruptCompleted :: "Env \<Rightarrow> nat \<Rightarrow> EndpointID \<Rightarrow> int \<Rightarrow> Device \<Rightarrow> (Code \<times> Device) option" where
  "driver_OnInterruptCompleted env w ep len d = do {
     c \<leftarrow> get_driver w d;
     if ep_IsIn ep then do {
       evs \<leftarrow> OnDataReceived c;
       c \<leftarrow> copy_previous len c;
       let d = d\<lparr>drivers := (drivers d)[w := c], hid_events := hid_events d @ evs\<rparr>;
       InterruptIn (ep_interrupt_in c) (drv_addr c + off_hid_buf env) (in_packet_size c) d
     }
     else Some (kNotImplemented, d)
   }"

subsection \<open>Initialisation\<close>

text \<open>\<open>operator new\<close> of the drivers does not check the pool; the constructor then writes through null.\<close>

definition new_driver :: "Env \<Rightarrow> u64 \<Rightarrow> (u64 \<Rightarrow> ClassDriver) \<Rightarrow> bool \<Rightarrow> Device \<Rightarrow> u64 \<Rightarrow> (nat option \<times> Device \<times> u64) option" where
  "new_driver env sz mk observed d alloc_ptr = do {
     let (p, alloc_ptr) = AllocMem (memory_pool env) sz 0 0 alloc_ptr;
     if p = 0 then None
     else do {
       c \<leftarrow> (if observed then Subscribe (mk p) else Some (mk p));
       Some (Some (length (drivers d)), d\<lparr>drivers := drivers d @ [c]\<rparr>, alloc_ptr)
     }
   }"

definition NewClassDriver :: "Env \<Rightarrow> u8 list \<Rightarrow> nat \<Rightarrow> Device \<Rightarrow> u64 \<Rightarrow> (nat option \<times> Device \<times> u64) option" where
  "NewClassDriver env buf if_desc d alloc_ptr = do {
     cls \<leftarrow> read_field InterfaceDescriptor ''interface_class'' buf if_desc;
     sub \<leftarrow> read_field InterfaceDescriptor ''interface_sub_class'' buf if_desc;
     protocol \<leftarrow> read_field InterfaceDescriptor ''interface_protocol'' buf if_desc;
     number \<leftarrow> read_field InterfaceDescriptor ''interface_number'' buf if_desc;
     if cls = 3 \<and> sub = 1 \<and> protocol = 1
     then new_driver env (sizeof_HIDKeyboardDriver env) (\<lambda>p. HIDKeyboardDriver_new p (uint number))
            (keyboard_default_observer env) d alloc_ptr
     else if cls = 3 \<and> sub = 1 \<and> protocol = 2
     then new_driver env (sizeof_HIDMouseDriver env) (\<lambda>p. HIDMouseDriver_new p (uint number))
            (mouse_default_observer env) d alloc_ptr
     else Some (None, d, alloc_ptr)
   }"

definition StartInitialize :: "Env \<Rightarrow> Device \<Rightarrow> (Code \<times> Device) option" where
  "StartInitialize env d =
     (let d = d\<lparr>is_initialized := False, initialize_phase := 1\<rparr>
      in GetDescriptor kDefaultControlPipeID DeviceDescriptor_kType 0 (buf_data env d) 256 d)"

fun OnEndpointsConfigured_loop :: "nat option list \<Rightarrow> Device \<Rightarrow> (Code \<times> Device) option" where
  "OnEndpointsConfigured_loop [] d = Some (kSuccess, d)"
| "OnEndpointsConfigured_loop (None # ws) d = OnEndpointsConfigured_loop ws d"
| "OnEndpointsConfigured_loop (Some w # ws) d = do {
     (err, d) \<leftarrow> driver_OnEndpointsConfigured w d;
     if err \<noteq> kSuccess then Some (err, d) else OnEndpointsConfigured_loop ws d
   }"

definition OnEndpointsConfigured :: "Device \<Rightarrow> (Code \<times> Device) option" where
  "OnEndpointsConfigured d = OnEndpointsConfigured_loop (class_drivers d) d"

definition InitializePhase1 :: "Env \<Rightarrow> u8 list \<Rightarrow> Device \<Rightarrow> (Code \<times> Device) option" where
  "InitializePhase1 env buf d = do {
     n \<leftarrow> read_field DeviceDescriptor ''num_configurations'' buf 0;
     let d = d\<lparr>num_configurations := ucast n, config_index := 0, initialize_phase := 2\<rparr>;
     GetDescriptor kDefaultControlPipeID ConfigurationDescriptor_kType (config_index d) (buf_data env d) 256 d
   }"

text \<open>What the log of a HID descriptor reads.\<close>

definition Log_HIDDescriptor :: "u8 list \<Rightarrow> nat \<Rightarrow> unit option" where
  "Log_HIDDescriptor buf p = do {
     release \<leftarrow> read_field HIDDescriptor ''hid_release'' buf p;
     n \<leftarrow> read_field HIDDescriptor ''num_descriptors'' buf p;
     foldM (\<lambda>i _. do {
       q \<leftarrow> GetClassDescriptor buf p i;
       q \<leftarrow> q;
       t \<leftarrow> read_field ClassDescriptor ''descriptor_type'' buf q;
       l \<leftarrow> read_field ClassDescriptor ''descriptor_length'' buf q;
       Some ()
     }) [0..<unat n] ()
   }"

definition add_ep_config :: "nat \<Rightarrow> EndpointConfig \<Rightarrow> Device \<Rightarrow> Device option" where
  "add_ep_config w conf d = do {
     confs \<leftarrow> arr_set (ep_configs d) (nat (num_ep_configs d)) conf;
     ws \<leftarrow> arr_set (class_drivers d) (nat (ep_Number (ep_id conf))) (Some w);
     Some (d\<lparr>ep_configs := confs, num_ep_configs := num_ep_configs d + 1, class_drivers := ws\<rparr>)
   }"

partial_function (option) endpoint_loop :: "nat \<Rightarrow> int \<Rightarrow> u8 list \<Rightarrow> int \<Rightarrow> nat \<Rightarrow> Device \<Rightarrow> Device option" where
  "endpoint_loop w num_endpoints buf len p d =
     (if num_ep_configs d < num_endpoints then do {
        (desc, p) \<leftarrow> reader_Next buf len p;
        ep_desc \<leftarrow> DescriptorDynamicCast EndpointDescriptor_kType buf desc;
        if ep_desc \<noteq> None then do {
          q \<leftarrow> ep_desc;
          conf \<leftarrow> MakeEPConfig buf q;
          d \<leftarrow> add_ep_config w conf d;
          endpoint_loop w num_endpoints buf len p d
        } else do {
          hid_desc \<leftarrow> DescriptorDynamicCast HIDDescriptor_kType buf desc;
          u \<leftarrow> (case hid_desc of Some q \<Rightarrow> Log_HIDDescriptor buf q | None \<Rightarrow> Some ());
          endpoint_loop w num_endpoints buf len p d
        }
      } else Some d)"

partial_function (option) interface_loop :: "Env \<Rightarrow> u8 list \<Rightarrow> int \<Rightarrow> nat \<Rightarrow> Device \<Rightarrow> u64 \<Rightarrow> (nat option \<times> Device \<times> u64) option" where
  "interface_loop env buf len p d alloc_ptr = do {
     (if_desc, p) \<leftarrow> reader_NextT InterfaceDescriptor_kType buf len p;
     case if_desc of
       None \<Rightarrow> Some (None, d, alloc_ptr)
     | Some q \<Rightarrow> do {
         (class_driver, d, alloc_ptr) \<leftarrow> NewClassDriver env buf q d alloc_ptr;
         case class_driver of
           None \<Rightarrow> interface_loop env buf len p d alloc_ptr
         | Some w \<Rightarrow> do {
             n \<leftarrow> read_field InterfaceDescriptor ''num_endpoints'' buf q;
             d \<leftarrow> endpoint_loop w (uint n) buf len p (d\<lparr>num_ep_configs := 0\<rparr>);
             Some (Some w, d, alloc_ptr)
           }
       }
   }"

definition InitializePhase2 :: "Env \<Rightarrow> u8 list \<Rightarrow> int \<Rightarrow> Device \<Rightarrow> u64 \<Rightarrow> (Code \<times> Device \<times> u64) option" where
  "InitializePhase2 env buf len d alloc_ptr = do {
     conf_desc \<leftarrow> DescriptorDynamicCast ConfigurationDescriptor_kType buf (Some 0);
     if conf_desc = None then Some (kInvalidDescriptor, d, alloc_ptr)
     else do {
       (class_driver, d, alloc_ptr) \<leftarrow> interface_loop env buf len 0 d alloc_ptr;
       if class_driver = None then Some (kSuccess, d, alloc_ptr)
       else do {
         v \<leftarrow> read_field ConfigurationDescriptor ''configuration_value'' buf 0;
         (err, d) \<leftarrow> SetConfiguration kDefaultControlPipeID (ucast v) (d\<lparr>initialize_phase := 3\<rparr>);
         Some (err, d, alloc_ptr)
       }
     }
   }"

definition InitializePhase3_step :: "nat \<Rightarrow> Device \<Rightarrow> Device option" where
  "InitializePhase3_step i d = do {
     conf \<leftarrow> arr_get (ep_configs d) i;
     w \<leftarrow> arr_get (class_drivers d) (nat (ep_Number (ep_id conf)));
     w \<leftarrow> w;
     c \<leftarrow> get_driver w d;
     Some (set_driver w (SetEndpoint conf) d)
   }"

definition InitializePhase3 :: "Device \<Rightarrow> (Code \<times> Device) option" where
  "InitializePhase3 d = do {
     d \<leftarrow> foldM InitializePhase3_step [0..<nat (num_ep_configs d)] d;
     Some (kSuccess, d\<lparr>initialize_phase := 4, is_initialized := True\<rparr>)
   }"

subsection \<open>Completions\<close>

definition buf_at :: "Env \<Rightarrow> u64 \<Rightarrow> Device \<Rightarrow> u8 list option" where
  "buf_at env p d = (if p = buf_data env d then Some (dev_buf d) else None)"

definition is_descriptor :: "Env \<Rightarrow> u8 \<Rightarrow> u64 \<Rightarrow> Device \<Rightarrow> bool option" where
  "is_descriptor env kType buf d = do {
     bytes \<leftarrow> buf_at env buf d;
     c \<leftarrow> DescriptorDynamicCast kType bytes (Some 0);
     Some (c \<noteq> None)
   }"

definition OnControlCompleted :: "Env \<Rightarrow> SetupData \<Rightarrow> u64 \<Rightarrow> int \<Rightarrow> Device \<Rightarrow> u64 \<Rightarrow> (Code \<times> Device \<times> u64) option" where
  "OnControlCompleted env sd buf len d alloc_ptr =
     (if is_initialized d then
        (case ArrayMap_Get sd (event_waiters d) of
           Some w \<Rightarrow> map_option (\<lambda>(err, d). (err, d, alloc_ptr)) (driver_OnControlCompleted env w d)
         | None \<Rightarrow> Some (kNoWaiter, d, alloc_ptr))
      else if initialize_phase d = 1 then do {
        ok \<leftarrow> (if request sd = kGetDescriptor then is_descriptor env DeviceDescriptor_kType buf d else Some False);
        if ok then map_option (\<lambda>(err, d). (err, d, alloc_ptr)) (Option.bind (buf_at env buf d) (\<lambda>b. InitializePhase1 env b d))
        else Some (kInvalidPhase, d, alloc_ptr)
      }
      else if initialize_phase d = 2 then do {
        ok \<leftarrow> (if request sd = kGetDescriptor then is_descriptor env ConfigurationDescriptor_kType buf d else Some False);
        if ok then Option.bind (buf_at env buf d) (\<lambda>b. InitializePhase2 env b len d alloc_ptr)
        else Some (kInvalidPhase, d, alloc_ptr)
      }
      else if initialize_phase d = 3 then
        (if request sd = kSetConfiguration
         then map_option (\<lambda>(err, d). (err, d, alloc_ptr)) (InitializePhase3 d)
         else Some (kInvalidPhase, d, alloc_ptr))
      else Some (kNotImplemented, d, alloc_ptr))"

definition OnInterruptCompleted :: "Env \<Rightarrow> EndpointID \<Rightarrow> int \<Rightarrow> Device \<Rightarrow> (Code \<times> Device) option" where
  "OnInterruptCompleted env ep len d = do {
     w \<leftarrow> (if 0 \<le> ep_Number ep then arr_get (class_drivers d) (nat (ep_Number ep)) else None);
     case w of Some w \<Rightarrow> driver_OnInterruptCompleted env w ep len d | None \<Rightarrow> Some (kNoWaiter, d)
   }"

text \<open>What the log of a transfer event reads: the name of the completion code and the issuing TRB.\<close>

definition Log_TransferEvent :: "trb \<Rightarrow> Device \<Rightarrow> unit option" where
  "Log_TransferEvent t d = do {
     name \<leftarrow> arr_get kTRBCompletionCodeToName (unat (get_field TransferEventTRB ''completion_code'' t));
     if get_field TransferEventTRB ''event_data'' t \<noteq> 0 then Some ()
     else do {
       i \<leftarrow> deref_trb (transfer_rings d) (TransferEventTRB_Pointer t);
       ty \<leftarrow> arr_get kTRBTypeToName (trb_type i);
       Some ()
     }
   }"

definition setup_data_of :: "trb \<Rightarrow> SetupData" where
  "setup_data_of t =
     \<lparr>request_type = ucast (get_field SetupStageTRB ''request_type'' t), request = ucast (get_field SetupStageTRB ''request'' t),
      sd_value = ucast (get_field SetupStageTRB ''value'' t), sd_index = ucast (get_field SetupStageTRB ''index'' t),
      sd_length = ucast (get_field SetupStageTRB ''length'' t)\<rparr>"

text \<open>Lengths are subtracted as \<open>uint32_t\<close> and passed as \<open>int\<close>.\<close>

definition transferred :: "layout \<Rightarrow> trb \<Rightarrow> trb \<Rightarrow> int" where
  "transferred l issuer event =
     sint ((ucast (get_field l ''trb_transfer_length'' issuer) :: u32) - ucast (get_field TransferEventTRB ''trb_transfer_length'' event))"

definition OnTransferEventReceived :: "Env \<Rightarrow> trb \<Rightarrow> Device \<Rightarrow> u64 \<Rightarrow> (Code \<times> Device \<times> u64) option" where
  "OnTransferEventReceived env t d alloc_ptr = do {
     let code = get_field TransferEventTRB ''completion_code'' t;
     u \<leftarrow> Log_TransferEvent t d;
     if code \<noteq> 1 \<and> code \<noteq> 13 then Some (kTransferFailed, d, alloc_ptr)
     else do {
       let issuer = TransferEventTRB_Pointer t;
       i \<leftarrow> deref_trb (transfer_rings d) issuer;
       if trb_type i = NormalTRB_Type
       then map_option (\<lambda>(err, d). (err, d, alloc_ptr))
              (OnInterruptCompleted env (TransferEventTRB_EndpointID t) (transferred NormalTRB i t) d)
       else (case ArrayMap_Get issuer (setup_stage_map d) of
           None \<Rightarrow> Some (kNoCorrespondingSetupStage, d, alloc_ptr)
         | Some p \<Rightarrow> do {
             let d = d\<lparr>setup_stage_map := ArrayMap_Delete issuer (setup_stage_map d)\<rparr>;
             setup \<leftarrow> deref_trb (transfer_rings d) p;
             let sd = setup_data_of setup;
             if trb_type i = DataStageTRB_Type
             then OnControlCompleted env sd (DataStageTRB_Pointer i) (transferred DataStageTRB i t) d alloc_ptr
             else if trb_type i = StatusStageTRB_Type then OnControlCompleted env sd 0 0 d alloc_ptr
             else Some (kNotImplemented, d, alloc_ptr)
           })
     }
   }"

subsection \<open>Endpoints of an interface\<close>

definition is_endpoint :: "u8 list \<Rightarrow> bool" where
  "is_endpoint e \<longleftrightarrow> desc_type e = EndpointDescriptor_kType"

definition ep_conf :: "u8 list \<Rightarrow> EndpointConfig" where
  "ep_conf e = the (MakeEPConfig e 0)"

text \<open>Descriptors long enough for their type.\<close>

definition full_desc :: "u8 list \<Rightarrow> bool" where
  "full_desc e \<longleftrightarrow> (is_endpoint e \<longrightarrow> 7 \<le> length e) \<and> (desc_type e = InterfaceDescriptor_kType \<longrightarrow> 9 \<le> length e) \<and>
     (desc_type e = HIDDescriptor_kType \<longrightarrow> 6 \<le> length e \<and> 6 + 3 * unat (e ! 5) \<le> length e)"

lemma take_bit_byte [simp]: "take_bit 8 (b :: u8) = b"
  by (rule bit_word_eqI) (auto simp: bit_simps)

lemma read_field_Some: "field_pos l f = Some (off, n) \<Longrightarrow> p + off div 8 + (if n \<le> 8 then 0 else 1) < length d \<Longrightarrow> \<exists>v. read_field l f d p = Some v"
  by (auto simp: read_field_def ub_simps split: if_splits)

lemma MakeEPConfig_Some:
  assumes "7 \<le> length e"
  shows "MakeEPConfig e 0 = Some (ep_conf e)" "0 \<le> ep_Number (ep_id (ep_conf e))" "ep_Number (ep_id (ep_conf e)) < 16"
proof -
  have n: "read_field EndpointDescriptor ''number'' e 0 = Some (ucast (bf_get 0 4 (e ! 2)))"
    using assms by (simp add: read_field_def EndpointDescriptor_def ub_simps)
  have others: "\<exists>v. read_field EndpointDescriptor ''dir_in'' e 0 = Some v" "\<exists>v. read_field EndpointDescriptor ''transfer_type'' e 0 = Some v"
    "\<exists>v. read_field EndpointDescriptor ''max_packet_size'' e 0 = Some v" "\<exists>v. read_field EndpointDescriptor ''interval'' e 0 = Some v"
    using assms by (auto intro!: read_field_Some simp: EndpointDescriptor_def)
  then obtain c where c: "MakeEPConfig e 0 = Some c" "ep_Number (ep_id c) = uint (ucast (bf_get 0 4 (e ! 2)) :: u16)"
    by (auto simp: MakeEPConfig_def n)
  show "MakeEPConfig e 0 = Some (ep_conf e)" by (simp add: ep_conf_def c)
  have "uint (ucast (bf_get 0 4 (e ! 2)) :: u16) = take_bit 4 (uint (e ! 2))"
    by (simp add: bf_get_def unsigned_ucast_eq unsigned_take_bit_eq)
  then show "0 \<le> ep_Number (ep_id (ep_conf e))" "ep_Number (ep_id (ep_conf e)) < 16"
    by (simp_all add: ep_conf_def c take_bit_int_less_exp [of 4, simplified])
qed

lemma Log_HID_ok:
  assumes h: "holds_descs buf len (pre @ e # post)" and f: "full_desc e" and t: "desc_type e = HIDDescriptor_kType"
  shows "Log_HIDDescriptor buf (length (concat pre)) = Some ()"
proof -
  let ?p = "length (concat pre)"
  have l: "6 \<le> length e" "6 + 3 * unat (e ! 5) \<le> length e" using f t by (auto simp: full_desc_def)
  have g: "arr_get buf (?p + i) = Some (e ! i)" if "i < length e" for i using arr_get_desc [OF h that] .
  have n: "read_field HIDDescriptor ''num_descriptors'' buf ?p = Some (ucast (e ! 5))"
    using g [of 5] l by (simp add: read_field_def HIDDescriptor_def bf_get_def del: arr_get_eq_Some)
  have r: "\<exists>v. read_field HIDDescriptor ''hid_release'' buf ?p = Some v"
    using holds_descs_nth(2) [OF h, of 3] l by (intro read_field_Some [where off = 16 and n = 16]) (simp_all add: HIDDescriptor_def)
  have sz: "sizeof_layout HIDDescriptor = 6" "sizeof_layout ClassDescriptor = 3"
    by (simp_all add: sizeof_layout_def layout_bits_def descriptor_defs)
  have u: "unat (ucast (e ! 5) :: u16) = unat (e ! 5)"
    using unsigned_less [of "e ! 5", where 'a = nat] by (simp add: unsigned_ucast_eq take_bit_nat_eq_self)
  have body: "do {
       q \<leftarrow> GetClassDescriptor buf ?p i;
       q \<leftarrow> q;
       t \<leftarrow> read_field ClassDescriptor ''descriptor_type'' buf q;
       l \<leftarrow> read_field ClassDescriptor ''descriptor_length'' buf q;
       Some ()
     } = Some ()" if i: "i < unat (e ! 5)" for i
  proof -
    let ?q = "?p + 6 + 3 * i"
    have lt: "?q + 2 < length buf" using holds_descs_nth(2) [OF h, of "6 + 3 * i + 2"] l i by simp
    have "\<exists>v. read_field ClassDescriptor ''descriptor_type'' buf ?q = Some v"
      by (rule read_field_Some [where off = 0 and n = 8]) (use lt in \<open>simp_all add: ClassDescriptor_def\<close>)
    moreover have "\<exists>v. read_field ClassDescriptor ''descriptor_length'' buf ?q = Some v"
      by (rule read_field_Some [where off = 8 and n = 16]) (use lt in \<open>simp_all add: ClassDescriptor_def\<close>)
    moreover have "GetClassDescriptor buf ?p i = Some (Some ?q)" using i by (simp add: GetClassDescriptor_def n u sz)
    ultimately show ?thesis by (auto simp del: One_nat_def)
  qed
  obtain v where v: "read_field HIDDescriptor ''hid_release'' buf ?p = Some v" using r by blast
  have "foldM f [0..<k] () = Some ()" if "\<And>i. i < k \<Longrightarrow> f i () = Some ()" for f :: "nat \<Rightarrow> unit \<Rightarrow> unit option" and k
    using foldM_upt_invariant [of "\<lambda>_ _. True" 0 "()" k f] that by auto
  note fold = this
  show ?thesis unfolding Log_HIDDescriptor_def n v u bind.bind_lunit by (rule fold) (rule body)
qed

definition dev_arrays :: "Device \<Rightarrow> bool" where
  "dev_arrays d \<longleftrightarrow> length (ep_configs d) = 16 \<and> length (class_drivers d) = 16"

lemma add_ep_config_Some:
  assumes "dev_arrays d" and "0 \<le> num_ep_configs d" "num_ep_configs d < 16" and "7 \<le> length e"
  shows "\<exists>d'. add_ep_config w (ep_conf e) d = Some d' \<and> dev_arrays d' \<and> num_ep_configs d' = num_ep_configs d + 1 \<and>
    ep_configs d' = (ep_configs d)[nat (num_ep_configs d) := ep_conf e] \<and>
    class_drivers d' = (class_drivers d)[nat (ep_Number (ep_id (ep_conf e))) := Some w] \<and> drivers d' = drivers d"
  using assms MakeEPConfig_Some(2,3) [OF assms(4)] by (simp add: add_ep_config_def dev_arrays_def ub_simps)

lemma endpoint_loop_descs:
  assumes "holds_descs buf len (pre @ x # post)" and "list_all full_desc post" and "dev_arrays d"
    and "0 \<le> num_ep_configs d" and "num_ep_configs d \<le> n" and "n \<le> 16"
    and "n - num_ep_configs d \<le> int (length (filter is_endpoint post))"
  shows "endpoint_loop w n buf len (length (concat pre)) d =
    foldM (\<lambda>e. add_ep_config w (ep_conf e)) (take (nat (n - num_ep_configs d)) (filter is_endpoint post)) d"
  using assms
proof (induction post arbitrary: pre x d)
  case Nil
  then show ?case by (subst endpoint_loop.simps) simp
next
  case (Cons e post)
  show ?case
  proof (cases "num_ep_configs d < n")
    case False
    then show ?thesis using Cons.prems by (subst endpoint_loop.simps) simp
  next
    case True
    let ?p = "length (concat (pre @ [x]))"
    have h: "holds_descs buf len ((pre @ [x]) @ e # post)" using Cons.prems by simp
    have nx: "reader_Next buf len (length (concat pre)) = Some (Some ?p, ?p)"
      using reader_Next_descs [OF Cons.prems(1)] by simp
    show ?thesis
    proof (cases "is_endpoint e")
      case ep: True
      have l: "7 \<le> length e" using Cons.prems ep by (simp add: full_desc_def)
      have n16: "num_ep_configs d < 16" using True Cons.prems by simp
      obtain d' where d': "add_ep_config w (ep_conf e) d = Some d'" "dev_arrays d'" "num_ep_configs d' = num_ep_configs d + 1"
        using add_ep_config_Some [OF Cons.prems(3,4) n16 l] by blast
      have "endpoint_loop w n buf len (length (concat pre)) d = endpoint_loop w n buf len ?p d'"
        using True nx cast_desc [OF h, of EndpointDescriptor_kType] ep MakeEPConfig_desc [OF h l] MakeEPConfig_Some(1) [OF l] d'(1)
        by (subst endpoint_loop.simps) (simp add: is_endpoint_def)
      also have "\<dots> = foldM (\<lambda>e. add_ep_config w (ep_conf e)) (take (nat (n - num_ep_configs d')) (filter is_endpoint post)) d'"
        by (rule Cons.IH [OF h]) (use Cons.prems True d' ep in auto)
      moreover have "nat (n - num_ep_configs d) = Suc (nat (n - num_ep_configs d'))" using d'(3) True by simp
      ultimately show ?thesis using ep d'(1) by simp
    next
      case False
      have "(case if desc_type e = HIDDescriptor_kType then Some ?p else None of Some q \<Rightarrow> Log_HIDDescriptor buf q | None \<Rightarrow> Some ()) = Some ()"
        using Log_HID_ok [OF h] Cons.prems by simp
      then have "endpoint_loop w n buf len (length (concat pre)) d = endpoint_loop w n buf len ?p d"
        using True nx cast_desc [OF h] False
        by (subst endpoint_loop.simps) (simp add: is_endpoint_def)
      also have "\<dots> = foldM (\<lambda>e. add_ep_config w (ep_conf e)) (take (nat (n - num_ep_configs d)) (filter is_endpoint post)) d"
        by (rule Cons.IH [OF h]) (use Cons.prems False in auto)
      finally show ?thesis using False by simp
    qed
  qed
qed

text \<open>What the loop has stored: the configurations in order, and the driver for each endpoint number.\<close>

lemma add_ep_configs:
  assumes "list_all (\<lambda>e. 7 \<le> length e) es" and "dev_arrays d" and "0 \<le> num_ep_configs d" and "num_ep_configs d + int (length es) \<le> 16"
  shows "\<exists>d'. foldM (\<lambda>e. add_ep_config w (ep_conf e)) es d = Some d' \<and> dev_arrays d' \<and>
    num_ep_configs d' = num_ep_configs d + int (length es) \<and> drivers d' = drivers d \<and>
    (\<forall>i < nat (num_ep_configs d). ep_configs d' ! i = ep_configs d ! i) \<and>
    (\<forall>i < length es. ep_configs d' ! (nat (num_ep_configs d) + i) = ep_conf (es ! i)) \<and>
    (\<forall>n. class_drivers d ! n = Some w \<longrightarrow> class_drivers d' ! n = Some w) \<and>
    (\<forall>e \<in> set es. class_drivers d' ! nat (ep_Number (ep_id (ep_conf e))) = Some w)"
  using assms
proof (induction es arbitrary: d)
  case (Cons e es)
  then have l: "7 \<le> length e" "num_ep_configs d < 16" by simp_all
  obtain d1 where d1: "add_ep_config w (ep_conf e) d = Some d1" "dev_arrays d1" "num_ep_configs d1 = num_ep_configs d + 1"
      "ep_configs d1 = (ep_configs d)[nat (num_ep_configs d) := ep_conf e]"
      "class_drivers d1 = (class_drivers d)[nat (ep_Number (ep_id (ep_conf e))) := Some w]" "drivers d1 = drivers d"
    using add_ep_config_Some [OF Cons.prems(2,3) l(2,1)] by blast
  obtain d' where d': "foldM (\<lambda>e. add_ep_config w (ep_conf e)) es d1 = Some d'" "dev_arrays d'"
      "num_ep_configs d' = num_ep_configs d1 + int (length es)" "drivers d' = drivers d1"
      "\<forall>i < nat (num_ep_configs d1). ep_configs d' ! i = ep_configs d1 ! i"
      "\<forall>i < length es. ep_configs d' ! (nat (num_ep_configs d1) + i) = ep_conf (es ! i)"
      "\<forall>n. class_drivers d1 ! n = Some w \<longrightarrow> class_drivers d' ! n = Some w"
      "\<forall>e \<in> set es. class_drivers d' ! nat (ep_Number (ep_id (ep_conf e))) = Some w"
    using Cons.IH [of d1] Cons.prems d1(2,3) by auto
  let ?k = "nat (num_ep_configs d)"
  have k: "nat (num_ep_configs d1) = Suc ?k" "?k < 16" using d1(3) Cons.prems(3) l by simp_all
  have w: "class_drivers d1 ! nat (ep_Number (ep_id (ep_conf e))) = Some w"
    using MakeEPConfig_Some(2,3) [OF l(1)] Cons.prems(2) d1(5) by (simp add: dev_arrays_def)
  have "ep_configs d' ! ?k = ep_conf e" using d'(5) k d1(4) Cons.prems(2) by (simp add: dev_arrays_def)
  then have "ep_configs d' ! (?k + i) = ep_conf ((e # es) ! i)" if "i < length (e # es)" for i
    using that d'(6) k by (cases i) auto
  moreover have "\<forall>n. class_drivers d ! n = Some w \<longrightarrow> class_drivers d' ! n = Some w"
    using d'(7) d1(5) by (auto simp: nth_upd)
  ultimately show ?case using d1 d' w k by auto
qed simp

subsection \<open>Interfaces\<close>

definition is_interface :: "u8 list \<Rightarrow> bool" where
  "is_interface e \<longleftrightarrow> desc_type e = InterfaceDescriptor_kType"

text \<open>HID boot interfaces of a keyboard or a mouse.\<close>

definition supported :: "u8 list \<Rightarrow> bool" where
  "supported e \<longleftrightarrow> is_interface e \<and> e ! 5 = 3 \<and> e ! 6 = 1 \<and> (e ! 7 = 1 \<or> e ! 7 = 2)"

definition driver_of :: "Env \<Rightarrow> u8 list \<Rightarrow> u64 \<Rightarrow> ClassDriver" where
  "driver_of env e p =
     (if e ! 7 = 1 then (HIDKeyboardDriver_new p (uint (e ! 2)))\<lparr>num_observers := of_bool (keyboard_default_observer env)\<rparr>
      else (HIDMouseDriver_new p (uint (e ! 2)))\<lparr>num_observers := of_bool (mouse_default_observer env)\<rparr>)"

definition driver_size :: "Env \<Rightarrow> u8 list \<Rightarrow> u64" where
  "driver_size env e = (if e ! 7 = 1 then sizeof_HIDKeyboardDriver env else sizeof_HIDMouseDriver env)"

lemma interface_fields:
  assumes h: "holds_descs buf len (pre @ e # post)" and l: "9 \<le> length e"
  shows "read_field InterfaceDescriptor ''interface_class'' buf (length (concat pre)) = Some (ucast (e ! 5))"
    and "read_field InterfaceDescriptor ''interface_sub_class'' buf (length (concat pre)) = Some (ucast (e ! 6))"
    and "read_field InterfaceDescriptor ''interface_protocol'' buf (length (concat pre)) = Some (ucast (e ! 7))"
    and "read_field InterfaceDescriptor ''interface_number'' buf (length (concat pre)) = Some (ucast (e ! 2))"
    and "read_field InterfaceDescriptor ''num_endpoints'' buf (length (concat pre)) = Some (ucast (e ! 4))"
proof -
  have g: "arr_get buf (length (concat pre) + i) = Some (e ! i)" if "i < length e" for i using arr_get_desc [OF h that] .
  have rd: "read_field InterfaceDescriptor f buf (length (concat pre)) = Some (ucast (e ! i))"
    if "field_pos InterfaceDescriptor f = Some (8 * i, 8)" "i < 9" for f i
    using that g [of i] l by (simp add: read_field_def bf_get_def del: arr_get_eq_Some)
  show "read_field InterfaceDescriptor ''interface_class'' buf (length (concat pre)) = Some (ucast (e ! 5))"
      "read_field InterfaceDescriptor ''interface_sub_class'' buf (length (concat pre)) = Some (ucast (e ! 6))"
      "read_field InterfaceDescriptor ''interface_protocol'' buf (length (concat pre)) = Some (ucast (e ! 7))"
      "read_field InterfaceDescriptor ''interface_number'' buf (length (concat pre)) = Some (ucast (e ! 2))"
      "read_field InterfaceDescriptor ''num_endpoints'' buf (length (concat pre)) = Some (ucast (e ! 4))"
    by (rule rd; simp add: InterfaceDescriptor_def)+
qed

lemma uint_ucast_byte [simp]: "uint (ucast b :: u16) = uint b" for b :: u8
  using unsigned_less [of b, where 'a = int] by (simp add: unsigned_ucast_eq take_bit_int_eq_self)

lemma ucast_byte_eq: "ucast b = (ucast c :: u16) \<longleftrightarrow> b = c" for b c :: u8
  by (metis uint_ucast_byte word_uint_eq_iff)

lemma NewClassDriver_desc:
  assumes "holds_descs buf len (pre @ e # post)" and "9 \<le> length e" and "is_interface e"
  shows "NewClassDriver env buf (length (concat pre)) d ptr =
    (if supported e then
       (case AllocMem (memory_pool env) (driver_size env e) 0 0 ptr of (p, ptr') \<Rightarrow>
          if p = 0 then None
          else Some (Some (length (drivers d)), d\<lparr>drivers := drivers d @ [driver_of env e p]\<rparr>, ptr'))
     else Some (None, d, ptr))"
proof -
  note f = interface_fields [OF assms(1,2)]
  have nums: "ucast (b :: u8) = (3 :: u16) \<longleftrightarrow> b = 3" "ucast b = (1 :: u16) \<longleftrightarrow> b = 1" "ucast b = (2 :: u16) \<longleftrightarrow> b = 2" for b
    using ucast_byte_eq [of b 3] ucast_byte_eq [of b 1] ucast_byte_eq [of b 2] by simp_all
  show ?thesis
    using assms(3) by (simp add: NewClassDriver_def f nums supported_def new_driver_def driver_of_def driver_size_def
        HIDKeyboardDriver_new_def HIDMouseDriver_new_def HIDBaseDriver_new_def Subscribe_def split: prod.split)
qed

text \<open>One turn of the loop, for an interface that follows descriptors of other types.\<close>

lemma interface_loop_turn:
  assumes "holds_descs buf len (pre @ x # sk @ e # post)" and "list_all (\<lambda>e. \<not> is_interface e) sk" and "is_interface e" and "9 \<le> length e"
  defines "p \<equiv> length (concat (pre @ x # sk))"
  shows "interface_loop env buf len (length (concat pre)) d ptr = do {
      (cd, d, ptr) \<leftarrow> NewClassDriver env buf p d ptr;
      case cd of None \<Rightarrow> interface_loop env buf len p d ptr
      | Some w \<Rightarrow> do {
          d \<leftarrow> endpoint_loop w (uint (e ! 4)) buf len p (d\<lparr>num_ep_configs := 0\<rparr>);
          Some (Some w, d, ptr)
        }
    }"
proof -
  have tw: "takeWhile (\<lambda>e. desc_type e \<noteq> InterfaceDescriptor_kType) (sk @ e # post) = sk"
    using assms(2,3) by (simp add: takeWhile_append list_all_iff is_interface_def)
  have nt: "reader_NextT InterfaceDescriptor_kType buf len (length (concat pre)) = Some (Some p, p)"
    using reader_NextT_descs [OF assms(1), of InterfaceDescriptor_kType] unfolding tw by (simp add: Let_def p_def)
  have h: "holds_descs buf len ((pre @ x # sk) @ e # post)" using assms(1) by simp
  have n: "read_field InterfaceDescriptor ''num_endpoints'' buf p = Some (ucast (e ! 4))"
    using interface_fields(5) [OF h assms(4)] by (simp add: p_def)
  show ?thesis by (subst interface_loop.simps) (simp add: nt n cong: option.case_cong)
qed

text \<open>Interfaces no driver supports are skipped; the first supported one decides.\<close>

lemma interface_loop_first:
  assumes "holds_descs buf len (pre @ x # skip @ e # post)" and "list_all full_desc (skip @ e # post)"
    and "list_all (\<lambda>e. \<not> supported e) skip" and "supported e"
  shows "interface_loop env buf len (length (concat pre)) d ptr = do {
      (cd, d, ptr) \<leftarrow> NewClassDriver env buf (length (concat (pre @ x # skip))) d ptr;
      w \<leftarrow> cd;
      d \<leftarrow> endpoint_loop w (uint (e ! 4)) buf len (length (concat (pre @ x # skip))) (d\<lparr>num_ep_configs := 0\<rparr>);
      Some (Some w, d, ptr)
    }"
  using assms
proof (induction "length (filter is_interface skip)" arbitrary: pre x skip)
  case 0
  then have none: "list_all (\<lambda>e. \<not> is_interface e) skip" by (simp add: filter_empty_conv list_all_iff)
  have e: "is_interface e" "9 \<le> length e" using 0 by (auto simp: supported_def is_interface_def full_desc_def)
  have h: "holds_descs buf len ((pre @ x # skip) @ e # post)" using 0 by simp
  show ?case unfolding interface_loop_turn [OF 0(2) none e] NewClassDriver_desc [OF h e(2,1)]
    using 0(5) by (simp split: prod.split)
next
  case (Suc n)
  then have "filter is_interface skip \<noteq> []" by auto
  then have "\<exists>u \<in> set skip. is_interface u" by (simp add: filter_empty_conv)
  from split_list_first_prop [OF this] obtain sk u rest
    where s: "skip = sk @ u # rest" "list_all (\<lambda>e. \<not> is_interface e) sk" "is_interface u" by (auto simp: list_all_iff)
  have u: "9 \<le> length u" "\<not> supported u" using Suc.prems s by (auto simp: full_desc_def is_interface_def)
  have h: "holds_descs buf len ((pre @ x # sk) @ u # (rest @ e # post))" using Suc.prems s by simp
  have "interface_loop env buf len (length (concat pre)) d ptr = interface_loop env buf len (length (concat (pre @ x # sk))) d ptr"
    using interface_loop_turn [of buf len pre x sk u "rest @ e # post", OF _ s(2,3) u(1)] Suc.prems(1) s(1)
      NewClassDriver_desc [OF h u(1) s(3)] u(2) by simp
  also have "\<dots> = do {
      (cd, d, ptr) \<leftarrow> NewClassDriver env buf (length (concat ((pre @ x # sk) @ u # rest))) d ptr;
      w \<leftarrow> cd;
      d \<leftarrow> endpoint_loop w (uint (e ! 4)) buf len (length (concat ((pre @ x # sk) @ u # rest))) (d\<lparr>num_ep_configs := 0\<rparr>);
      Some (Some w, d, ptr)
    }"
  proof (rule Suc.hyps(1))
    have "filter is_interface sk = []" using s(2) by (simp add: filter_empty_conv list_all_iff)
    then show "n = length (filter is_interface rest)" using Suc.hyps(2) s by simp
  qed (use Suc.prems s in simp_all)
  finally show ?case by (simp add: s(1))
qed

text \<open>C25: on a well-formed configuration descriptor, the search of \<open>InitializePhase2\<close> ends: it skips
  every interface no class driver supports, creates one driver for the first HID boot keyboard or mouse
  interface, and records exactly the first \<open>num_endpoints\<close> endpoint descriptors after it, in order, each
  endpoint number being assigned to the new driver.\<close>

theorem InitializePhase2_finds_interface:
  assumes "holds_descs buf len (cfg # skip @ e # post)" and "list_all full_desc (skip @ e # post)"
    and "list_all (\<lambda>e. \<not> supported e) skip" and "supported e" and "dev_arrays d"
    and "unat (e ! 4) \<le> 16" and "unat (e ! 4) \<le> length (filter is_endpoint post)"
    and "AllocMem (memory_pool env) (driver_size env e) 0 0 ptr = (p, ptr')" and "p \<noteq> 0"
  shows "\<exists>d'. interface_loop env buf len 0 d ptr = Some (Some (length (drivers d)), d', ptr') \<and>
    drivers d' = drivers d @ [driver_of env e p] \<and> num_ep_configs d' = int (unat (e ! 4)) \<and>
    (\<forall>i < unat (e ! 4). ep_configs d' ! i = ep_conf (filter is_endpoint post ! i)) \<and>
    (\<forall>x \<in> set (take (unat (e ! 4)) (filter is_endpoint post)).
       class_drivers d' ! nat (ep_Number (ep_id (ep_conf x))) = Some (length (drivers d)))"
proof -
  let ?n = "unat (e ! 4)" and ?w = "length (drivers d)"
  define es where "es = take (unat (e ! 4)) (filter is_endpoint post)"
  let ?d1 = "d\<lparr>drivers := drivers d @ [driver_of env e p], num_ep_configs := 0\<rparr>"
  have h: "holds_descs buf len ((cfg # skip) @ e # post)" using assms(1) by simp
  have e: "9 \<le> length e" "is_interface e" using assms(2,4) by (auto simp: supported_def is_interface_def full_desc_def)
  have n: "uint (e ! 4) = int ?n" by (rule uint_nat)
  have n': "uint (e ! 4) \<le> 16" "uint (e ! 4) \<le> int (length (filter is_endpoint post))" using assms(6,7) unfolding n by linarith+
  have nw: "NewClassDriver env buf (length (concat (cfg # skip))) d ptr = Some (Some ?w, d\<lparr>drivers := drivers d @ [driver_of env e p]\<rparr>, ptr')"
    using NewClassDriver_desc [OF h e] assms(4,8,9) by simp
  have lo: "endpoint_loop ?w (int ?n) buf len (length (concat (cfg # skip))) ?d1 = foldM (\<lambda>e. add_ep_config ?w (ep_conf e)) es ?d1"
    using endpoint_loop_descs [OF h, of ?d1 "int ?n" ?w] assms(2,5) n' by (simp add: dev_arrays_def es_def)
  have "list_all (\<lambda>e. 7 \<le> length e) es"
    using assms(2) by (auto simp: es_def list_all_iff full_desc_def dest!: in_set_takeD)
  moreover have len: "length es = ?n" using assms(7) by (simp add: es_def)
  ultimately obtain d' where d': "foldM (\<lambda>e. add_ep_config ?w (ep_conf e)) es ?d1 = Some d'" "num_ep_configs d' = int ?n"
      "drivers d' = drivers ?d1" "\<forall>i < ?n. ep_configs d' ! i = ep_conf (es ! i)"
      "\<forall>e \<in> set es. class_drivers d' ! nat (ep_Number (ep_id (ep_conf e))) = Some ?w"
    using add_ep_configs [of es ?d1 ?w] assms(5,6) n'(1) by (auto simp: dev_arrays_def)
  have "interface_loop env buf len (length (concat [])) d ptr = Some (Some ?w, d', ptr')"
    using interface_loop_first [of buf len "[]" cfg skip e post, OF _ assms(2-4), of env d ptr] assms(1) nw lo d'(1) by simp
  then show ?thesis using d' by (auto simp: es_def)
qed

definition keyboard_config :: "u8 list list" where
  "keyboard_config =
     [[9, 2, 34, 0, 1, 1, 0, 0xa0, 50], [9, 4, 0, 0, 1, 3, 1, 1, 0], [9, 33, 0x11, 1, 0, 1, 34, 63, 0], [7, 5, 0x81, 3, 8, 0, 10]]"

definition example_env :: Env where
  "example_env = \<lparr>memory_pool = 0x100040, sizeof_Ring = 40, sizeof_Device = 4096, sizeof_HIDKeyboardDriver = 2240,
     sizeof_HIDMouseDriver = 2240, off_buf = 136, off_ctx = 768, off_input_ctx = 1792, off_hid_buf = 36,
     keyboard_default_observer = True, mouse_default_observer = True\<rparr>"

theorem InitializePhase2_finds_interface_witness:
  "\<exists>d'. interface_loop example_env (concat keyboard_config @ replicate 222 0) 34 0 (Device_new 0x100080 1) 0x102000 =
     Some (Some 0, d', 0x102000 + 2240) \<and> num_ep_configs d' = 1 \<and> class_drivers d' ! 1 = Some 0"
proof -
  let ?post = "[[9, 33, 0x11, 1, 0, 1, 34, 63, 0], [7, 5, 0x81, 3, 8, 0, 10]] :: u8 list list" and ?e = "[9, 4, 0, 0, 1, 3, 1, 1, 0] :: u8 list"
  have h: "holds_descs (concat keyboard_config @ replicate 222 0) 34 ([9, 2, 34, 0, 1, 1, 0, 0xa0, 50] # [] @ ?e # ?post)"
    by (simp add: holds_descs_def keyboard_config_def wf_desc_def)
  have f: "list_all full_desc ([] @ ?e # ?post)"
    by (simp add: full_desc_def is_endpoint_def desc_type_def descriptor_types)
  have fl: "filter is_endpoint ?post = [[7, 5, 0x81, 3, 8, 0, 10]]"
    by (simp add: is_endpoint_def desc_type_def descriptor_types)
  have a: "AllocMem (memory_pool example_env) (driver_size example_env ?e) 0 0 0x102000 = (0x102000, 0x102000 + 2240)"
    by (simp add: AllocMem_def alloc_place_def kMemoryPoolSize_def example_env_def driver_size_def)
  have ep: "nat (ep_Number (ep_id (ep_conf [7, 5, 0x81, 3, 8, 0, 10]))) = 1"
    by (simp add: ep_conf_def MakeEPConfig_def read_field_def EndpointDescriptor_def arr_get_def bf_get_def)
  have s: "supported ?e" by (simp add: supported_def is_interface_def desc_type_def descriptor_types)
  have da: "dev_arrays (Device_new 0x100080 1)" "drivers (Device_new 0x100080 1) = []" by (simp_all add: dev_arrays_def Device_new_def)
  show ?thesis
    using InitializePhase2_finds_interface [OF h f _ s da(1) _ _ a] fl ep da(2) by auto
qed

text \<open>a configuration descriptor whose first byte is zero makes \<open>InitializePhase2\<close> spin: the
  reader never advances, so the call does not return.\<close>

theorem InitializePhase2_zero_length:
  assumes "2 \<le> length buf" and "buf ! 0 = 0" and "0 < len"
  shows "InitializePhase2 env buf len d ptr =
    (if buf ! 1 = ConfigurationDescriptor_kType then None else Some (kInvalidDescriptor, d, ptr))"
proof -
  have "reader_NextT InterfaceDescriptor_kType buf len 0 = None" if "buf ! 1 = ConfigurationDescriptor_kType"
    by (rule reader_NextT_stuck) (use assms that in \<open>auto simp: descriptor_types\<close>)
  then have "interface_loop env buf len 0 d ptr = None" if "buf ! 1 = ConfigurationDescriptor_kType"
    using that by (subst interface_loop.simps) simp
  then show ?thesis using assms(1) by (simp add: InitializePhase2_def DescriptorDynamicCast_def ub_simps)
qed

theorem InitializePhase2_zero_length_witness:
  "InitializePhase2 example_env [0, 2] 2 (Device_new 0x100080 1) 0x102000 = None"
  using InitializePhase2_zero_length [of "[0, 2]" 2] by (simp add: ConfigurationDescriptor_kType_def)

subsection \<open>Control transfers\<close>

lemma ucast_field_u8: "ucast (take_bit 8 (ucast x :: trb)) = x" for x :: u8
  by (rule bit_word_eqI) (auto simp: bit_simps)

lemma ucast_field_u16: "ucast (take_bit 16 (ucast x :: trb)) = x" for x :: u16
  by (rule bit_word_eqI) (auto simp: bit_simps)

lemma setup_roundtrip: "setup_data_of (stamp c (MakeSetupStageTRB sd ty)) = sd"
proof -
  let ?S = SetupStageTRB
  have l: "?S \<in> set trb_layouts" by (simp add: trb_layouts_def)
  have pos: "wf_layout ?S 128" "field_pos ?S ''request_type'' = Some (0, 8)" "field_pos ?S ''request'' = Some (8, 8)"
    "field_pos ?S ''value'' = Some (16, 16)" "field_pos ?S ''index'' = Some (32, 16)" "field_pos ?S ''length'' = Some (48, 16)"
    by (simp_all add: SetupStageTRB_def layout_eval)
  note gs = pos(2-6) [THEN get_set_same [where 'a = 128, rotated]]
  have "setup_data_of (stamp c (MakeSetupStageTRB sd ty)) = setup_data_of (MakeSetupStageTRB sd ty)"
    by (simp add: setup_data_of_def get_field_stamp [OF l])
  also have "\<dots> = sd" unfolding setup_data_of_def MakeSetupStageTRB_def
    by (simp add: get_set_other gs pos(1) ucast_field_u8 ucast_field_u16)
  finally show ?thesis .
qed

lemma transferred_data:
  assumes "0 \<le> len" "len < 2 ^ 17" and "uint (get_field TransferEventTRB ''trb_transfer_length'' ev) = res" and "res \<le> len"
  shows "transferred DataStageTRB (stamp c (data_trb buf len dir)) ev = len - res"
proof -
  have r: "0 \<le> res" using assms(3) by (metis uint_ge_0)
  have u: "ucast (get_field TransferEventTRB ''trb_transfer_length'' ev) = (of_int res :: u32)"
    using assms(3) by (metis of_int_uint)
  have l: "ucast (of_int len :: trb) = (of_int len :: u32)"
  proof -
    have "uint (of_int len :: trb) = len" using assms(1,2) by (simp add: uint_word_of_int take_bit_int_eq_self)
    then show ?thesis by (metis of_int_uint)
  qed
  have "transferred DataStageTRB (stamp c (data_trb buf len dir)) ev = sint (of_int (len - res) :: u32)"
    unfolding transferred_def data_trb_fields(2) [OF assms(1,2)] l u by simp
  also have "\<dots> = len - res"
  proof -
    have "sint (of_int k :: u32) = k" if "0 \<le> k" "k < 2 ^ 17" for k
      using that by (simp add: signed_of_int signed_take_bit_int_eq_self)
    then show ?thesis using r assms(1,2,4) by (simp del: of_int_diff)
  qed
  finally show ?thesis .
qed

text \<open>C24: a control transfer with a data stage is a round trip: \<open>ControlIn\<close> leaves the setup, data
  and status TRBs in the transfer ring and rings the doorbell of the endpoint; when the controller reports
  the data TRB as done with \<open>res\<close> bytes left, \<open>OnTransferEventReceived\<close> finds the request again and
  completes it with exactly the setup packet and the buffer it was issued with, the length being that of
  the transferred bytes, and forgets the request.\<close>

theorem control_transfer_roundtrip:
  assumes "on_ring N h (Address ep) r d" and "3 \<le> N" and "0 \<le> ep_Number ep" "ep_Number ep \<le> 15" and "buf \<noteq> 0"
    and "0 \<le> len" "len < 2 ^ 17"
    and "am_good (setup_stage_map d)" "0 < am_room (setup_stage_map d)"
    and "ArrayMap_Get (slot_addr r N (Suc (length h))) (setup_stage_map d) = None"
    and "TransferEventTRB_Pointer ev = slot_addr r N (Suc (length h))"
    and "get_field TransferEventTRB ''completion_code'' ev \<in> {1, 13}"
    and "uint (get_field TransferEventTRB ''trb_transfer_length'' ev) = res" "res \<le> len"
  shows "\<exists>d1 d2. ControlIn ep sd buf len issuer d = Some (kSuccess, d1) \<and>
    doorbell d1 = doorbell d @ [Doorbell_Ring (of_int (Address ep)) 0] \<and>
    OnTransferEventReceived env ev d1 ptr = OnControlCompleted env sd buf (len - res) d2 ptr \<and>
    d2 = d1\<lparr>setup_stage_map := setup_stage_map d2\<rparr> \<and>
    (\<forall>p. ArrayMap_Get p (setup_stage_map d2) = ArrayMap_Get p (setup_stage_map d))"
proof -
  let ?s = "slot_addr r N (length h)" and ?p = "slot_addr r N (Suc (length h))"
  let ?su = "MakeSetupStageTRB sd kInDataStage" and ?da = "data_trb buf len True"
  obtain d1 r' where d1: "ControlIn ep sd buf len issuer d = Some (kSuccess, d1)"
      "on_ring N (h @ [?su, ?da, StatusStageTRB_new]) (Address ep) r' d1" "rg_buf r' = rg_buf r"
      "doorbell d1 = doorbell d @ [Doorbell_Ring (of_int (Address ep)) 0]" "setup_stage_map d1 = ArrayMap_Put ?p ?s (setup_stage_map d)"
    using ControlIn_pushes [OF assms(1,3,4,5)] by blast
  define d2 where "d2 = d1\<lparr>setup_stage_map := ArrayMap_Delete ?p (setup_stage_map d1)\<rparr>"
  have sa: "slot_addr r' N k = slot_addr r N k" for k by (simp add: slot_addr_def d1(3))
  have su: "deref_trb (transfer_rings d1) ?s = Some (stamp (even (length h div N)) ?su)"
    using deref_recent [OF d1(2), of "length h"] assms(2) by (simp add: sa)
  have da: "deref_trb (transfer_rings d1) ?p = Some (stamp (even (Suc (length h) div N)) ?da)"
    using deref_recent [OF d1(2), of "Suc (length h)"] assms(2) by (simp add: sa nth_append)
  have ty: "trb_type ?da = DataStageTRB_Type" by (simp add: data_trb_def)
  have get: "ArrayMap_Get ?p (setup_stage_map d1) = Some ?s" using assms(9,10) by (simp add: d1(5) amap.get_put)
  have cc: "get_field TransferEventTRB ''completion_code'' ev = 1 \<or> get_field TransferEventTRB ''completion_code'' ev = 13"
    using assms(12) by blast
  then have "Log_TransferEvent ev d1 = Some ()"
    using da ty by (auto simp: Log_TransferEvent_def assms(11) arr_get_def kTRBCompletionCodeToName_def kTRBTypeToName_def DataStageTRB_Type_def)
  then have "OnTransferEventReceived env ev d1 ptr =
      OnControlCompleted env sd buf (len - res) d2 ptr"
    using cc da ty get su transferred_data [OF assms(6,7,13,14)] data_trb_fields(1) [OF assms(6,7)]
    unfolding OnTransferEventReceived_def
    by (auto simp: assms(11) d2_def trb_types setup_roundtrip Let_def)
  moreover have "ArrayMap_Get q (setup_stage_map d2) = ArrayMap_Get q (setup_stage_map d)" for q
    using amap.del_put_other [OF assms(8,10,9)] by (simp add: d2_def d1(5))
  ultimately show ?thesis using d1(1,4) by (intro exI [of _ d1] exI [of _ d2]) (simp add: d2_def)
qed

definition example_ring :: Ring where
  "example_ring = \<lparr>rg_buf = 0x103000, rg_mem = replicate 32 0, rg_buf_size = 32, rg_cycle_bit = True, rg_write_index = 0\<rparr>"

definition example_device :: Device where
  "example_device = (Device_new 0x100080 1)\<lparr>transfer_rings := Some example_ring # replicate 30 None\<rparr>"

lemma example_on_ring: "on_ring 31 [] 1 example_ring example_device"
proof -
  have "ring_after 31 [] example_ring" by (simp add: ring_after_def example_ring_def)
  moreover have "rings_ok (Some example_ring # replicate 30 None)"
    unfolding rings_ok_def by (auto simp: nth_Cons' example_ring_def split: if_splits)
  ultimately show ?thesis by (simp add: on_ring_def get_ring_def example_device_def)
qed

theorem control_transfer_roundtrip_witness:
  "\<exists>d1 d2. ControlIn kDefaultControlPipeID \<lparr>request_type = 0x80, request = 6, sd_value = 0x100, sd_index = 0, sd_length = 256\<rparr>
      0x100108 256 None example_device = Some (kSuccess, d1) \<and>
    OnTransferEventReceived example_env (0x103010 + 238 * 2 ^ 64 + 2 ^ 88) d1 0x104000 =
      OnControlCompleted example_env \<lparr>request_type = 0x80, request = 6, sd_value = 0x100, sd_index = 0, sd_length = 256\<rparr>
        0x100108 18 d2 0x104000"
proof -
  let ?ev = "0x103010 + 238 * 2 ^ 64 + 2 ^ 88 :: trb"
  have ep: "Address kDefaultControlPipeID = 1" "ep_Number kDefaultControlPipeID = 0"
    by (simp_all add: kDefaultControlPipeID_def Address_new)
  have ev: "get_field TransferEventTRB ''completion_code'' ?ev \<in> {1, 13}" "uint (get_field TransferEventTRB ''trb_transfer_length'' ?ev) = 238"
    "TransferEventTRB_Pointer ?ev = slot_addr example_ring 31 (Suc (length []))"
    by (simp_all add: get_field_def TransferEventTRB_def bf_get_def TransferEventTRB_Pointer_def get_pointer_def slot_addr_def example_ring_def)
  show ?thesis
    using control_transfer_roundtrip [of 31 "[]" kDefaultControlPipeID example_ring example_device "0x100108" 256 ?ev 238
        "\<lparr>request_type = 0x80, request = 6, sd_value = 0x100, sd_index = 0, sd_length = 256\<rparr>" None example_env "0x104000"]
      example_on_ring ev by (auto simp: ep example_device_def Device_new_def simp del: One_nat_def)
qed

subsection \<open>Keyboard reports\<close>

definition normal_trb :: "u64 \<Rightarrow> int \<Rightarrow> trb" where
  "normal_trb buf len =
     set_field NormalTRB ''interrupt_on_completion'' 1 (set_field NormalTRB ''interrupt_on_short_packet'' 1
       (set_field NormalTRB ''trb_transfer_length'' (of_int len) (NormalTRB_SetPointer buf NormalTRB_new)))"

lemma normal_trb_fields: "trb_type (normal_trb buf len) = NormalTRB_Type" "NormalTRB_Pointer (normal_trb buf len) = buf"
proof -
  have l: "NormalTRB \<in> set trb_layouts" by (simp add: trb_layouts_def)
  have "trb_type NormalTRB_new = NormalTRB_Type"
    by (rule built_trb_type [of _ _ "(None, None, None)" 0 0 0 kDefaultControlPipeID]) (simp add: built_trbs_def)
  then show "trb_type (normal_trb buf len) = NormalTRB_Type"
    by (simp add: normal_trb_def NormalTRB_SetPointer_def set_pointer_def trb_type_set_other [OF l])
  have "NormalTRB_Pointer (normal_trb buf len) = NormalTRB_Pointer (NormalTRB_SetPointer buf NormalTRB_new)"
    by (simp add: normal_trb_def NormalTRB_Pointer_def get_pointer_def get_set_other)
  also have "\<dots> = buf" unfolding NormalTRB_Pointer_def NormalTRB_SetPointer_def
    by (rule get_set_pointer [where off = 0 and n = 64]) (use unsigned_less [of buf] in \<open>simp_all add: NormalTRB_def layout_eval\<close>)
  finally show "NormalTRB_Pointer (normal_trb buf len) = buf" .
qed

lemma InterruptIn_pushes:
  assumes "on_ring N h (Address ep) r d"
  shows "\<exists>d' r'. InterruptIn ep buf len d = Some (kSuccess, d') \<and> on_ring N (h @ [normal_trb buf len]) (Address ep) r' d' \<and>
    drivers d' = drivers d \<and> hid_events d' = hid_events d \<and> doorbell d' = doorbell d @ [Doorbell_Ring (of_int (Address ep)) 0]"
proof -
  have g: "get_ring (Address ep) d = Some (Some r)" using assms by (simp add: on_ring_def)
  obtain r' where r': "push_ring (Address ep) (normal_trb buf len) d =
        Some (slot_addr r N (length h), d\<lparr>transfer_rings := (transfer_rings d)[nat (Address ep - 1) := Some r']\<rparr>)"
      "on_ring N (h @ [normal_trb buf len]) (Address ep) r' (d\<lparr>transfer_rings := (transfer_rings d)[nat (Address ep - 1) := Some r']\<rparr>)"
    using push_ring_after [OF assms] by blast
  let ?d' = "ring_doorbell (Address ep) (d\<lparr>transfer_rings := (transfer_rings d)[nat (Address ep - 1) := Some r']\<rparr>)"
  have "InterruptIn ep buf len d = Some (kSuccess, ?d')"
    using g r'(1) by (simp add: InterruptIn_def DeviceContextIndex_of_def normal_trb_def Let_def)
  moreover have "on_ring N (h @ [normal_trb buf len]) (Address ep) r' ?d'"
    using on_ring_frame [OF r'(2), of ?d'] by (simp add: ring_doorbell_def)
  ultimately show ?thesis by (auto simp: ring_doorbell_def)
qed

lemma map_nth_upt: "n \<le> length xs \<Longrightarrow> map ((!) xs) [m..<n] = take (n - m) (drop m xs)"
  by (rule nth_equalityI) auto

text \<open>The keys of a report that were not in the previous one.\<close>

definition new_keys :: "u8 list \<Rightarrow> u8 list \<Rightarrow> u8 list" where
  "new_keys prev buf = filter (\<lambda>k. k \<noteq> 0 \<and> k \<notin> set (drop 2 prev)) (take 6 (drop 2 buf))"

lemma keyboard_OnDataReceived_spec:
  assumes "8 \<le> length (hid_buf c)"
  shows "keyboard_OnDataReceived c =
    Some (concat (map (\<lambda>k. NotifyKeyPush (hid_buf c ! 0) k c) (new_keys (previous_buf c) (hid_buf c))))"
proof -
  let ?new = "\<lambda>k. k \<noteq> 0 \<and> k \<notin> set (drop 2 (previous_buf c))"
  let ?ev = "\<lambda>k. NotifyKeyPush (hid_buf c ! 0) k c"
  let ?P = "\<lambda>i out. out = concat (map ?ev (filter ?new (map ((!) (hid_buf c)) [2..<i])))"
  have "\<exists>out. foldM (keyboard_key c) [2..<8] [] = Some out \<and> ?P 8 out"
  proof (rule foldM_upt_invariant)
    fix i out assume "2 \<le> i" "i < 8" "?P i out"
    then show "\<exists>out'. keyboard_key c i out = Some out' \<and> ?P (Suc i) out'"
      using assms by (auto simp: keyboard_key_def arr_get_def)
  qed simp_all
  moreover have "map ((!) (hid_buf c)) [2..<8] = take 6 (drop 2 (hid_buf c))"
    using map_nth_upt [of 8 "hid_buf c" 2] assms by simp
  ultimately show ?thesis unfolding keyboard_OnDataReceived_def new_keys_def by metis
qed

text \<open>C26: when a keyboard's report arrives, the observers are told of exactly the keys that are down
  now and were not in the previous report, with the report's modifiers and in its order; the report
  becomes the previous one, so that a key held down is announced once, and the next report is requested
  from the interrupt endpoint into the same buffer.\<close>

theorem keyboard_report_handled:
  assumes "get_driver w d = Some c" and "drv_kind c = HIDKeyboardDriver" and "ep_IsIn ep" and "0 \<le> len"
    and "nat len \<le> 1024" and "length (hid_buf c) = 1024" "length (previous_buf c) = 1024"
    and "on_ring N h (Address (ep_interrupt_in c)) r d"
  shows "\<exists>d' r'. driver_OnInterruptCompleted env w ep len d = Some (kSuccess, d') \<and>
    hid_events d' = hid_events d @ concat (map (\<lambda>k. NotifyKeyPush (hid_buf c ! 0) k c) (new_keys (previous_buf c) (hid_buf c))) \<and>
    drivers d' ! w = c\<lparr>previous_buf := take (nat len) (hid_buf c) @ drop (nat len) (previous_buf c)\<rparr> \<and>
    on_ring N (h @ [normal_trb (drv_addr c + off_hid_buf env) (in_packet_size c)]) (Address (ep_interrupt_in c)) r' d'"
proof -
  let ?c = "c\<lparr>previous_buf := take (nat len) (hid_buf c) @ drop (nat len) (previous_buf c)\<rparr>"
  let ?evs = "concat (map (\<lambda>k. NotifyKeyPush (hid_buf c ! 0) k c) (new_keys (previous_buf c) (hid_buf c)))"
  let ?d = "d\<lparr>drivers := (drivers d)[w := ?c], hid_events := hid_events d @ ?evs\<rparr>"
  have o: "OnDataReceived c = Some ?evs" using assms(2,6) by (simp add: OnDataReceived_def keyboard_OnDataReceived_spec)
  have cp: "copy_previous len c = Some ?c" using assms(5-7) by (simp add: copy_previous_def)
  have on: "on_ring N h (Address (ep_interrupt_in ?c)) r ?d" using on_ring_frame [OF assms(8), of ?d] by simp
  from InterruptIn_pushes [OF on] obtain d' r'
    where d': "InterruptIn (ep_interrupt_in ?c) (drv_addr c + off_hid_buf env) (in_packet_size c) ?d = Some (kSuccess, d')"
      "on_ring N (h @ [normal_trb (drv_addr c + off_hid_buf env) (in_packet_size c)]) (Address (ep_interrupt_in ?c)) r' d'"
      "drivers d' = drivers ?d" "hid_events d' = hid_events ?d" by blast
  have w: "w < length (drivers d)" using assms(1) by (simp add: get_driver_def)
  have "driver_OnInterruptCompleted env w ep len d = Some (kSuccess, d')"
    using assms(1,3) o cp d'(1) by (simp add: driver_OnInterruptCompleted_def)
  then show ?thesis using d' w by auto
qed

theorem keyboard_report_handled_witness:
  "\<exists>d' r'. driver_OnInterruptCompleted example_env 0 (EndpointID 3) 8
      (example_device\<lparr>drivers := [(HIDKeyboardDriver_new 0x110000 0)\<lparr>ep_interrupt_in := EndpointID 1, num_observers := 1,
        hid_buf := [2, 0, 4, 5, 0, 0, 0, 0] @ replicate 1016 0, previous_buf := [2, 0, 4, 0, 0, 0, 0, 0] @ replicate 1016 0\<rparr>]\<rparr>)
      = Some (kSuccess, d') \<and> hid_events d' = [KeyPush 2 5]"
proof -
  let ?c = "(HIDKeyboardDriver_new 0x110000 0)\<lparr>ep_interrupt_in := EndpointID 1, num_observers := 1,
        hid_buf := [2, 0, 4, 5, 0, 0, 0, 0] @ replicate 1016 0, previous_buf := [2, 0, 4, 0, 0, 0, 0, 0] @ replicate 1016 0\<rparr>"
  let ?d = "example_device\<lparr>drivers := [?c]\<rparr>"
  have on: "on_ring 31 [] (Address (ep_interrupt_in ?c)) example_ring ?d"
    using on_ring_frame [OF example_on_ring, of ?d] by simp
  have k: "drv_kind ?c = HIDKeyboardDriver" by (simp add: HIDKeyboardDriver_new_def HIDBaseDriver_new_def)
  have n: "new_keys (previous_buf ?c) (hid_buf ?c) = [5]" by (simp add: new_keys_def)
  have ev: "hid_events ?d = []" by (simp add: example_device_def Device_new_def)
  show ?thesis
    using keyboard_report_handled [of 0 ?d ?c "EndpointID 3" 8 31 "[]" example_ring example_env, OF _ k _ _ _ _ _ on] n ev
    by (auto simp: get_driver_def arr_get_def ep_IsIn_def NotifyKeyPush_def)
qed

end
