(* ===== verification/Xhci_Controller.thy ===== *)
theory Xhci_Controller
  imports Usb_Class
begin

text \<open>
  \<open>src/kernel/usb/xhci/devmgr.cpp\<close> and \<open>xhci.cpp\<close>: the device manager, the initialisation of the host
  controller and the handlers of its events, which take every port through the phases of its
  configuration. Registers are the state the driver last wrote or the hardware last showed; how the
  hardware changes them between two readings of a busy-waiting loop is the argument \<open>Hw\<close>. The file-level
  variables \<open>port_config_phase\<close> and \<open>addressing_port\<close> are part of the state.
\<close>

subsection \<open>State\<close>

datatype ConfigPhase =
    kNotConnected | kWaitingAddressed | kResettingPort | kEnablingSlot | kAddressingDevice
  | kInitializingDevice | kConfiguringEndpoints | kConfigured

record DeviceManager =
  dm_contexts_addr :: u64
  device_context_pointers :: "u64 list"
  max_slots :: nat
  dm_devices :: "Xhci_Device.Device option list"

record Controller =
  xhc_cap :: CapabilityRegisters
  xhc_op :: OperationalRegisters
  ext_regs :: "nat \<Rightarrow> u32"
  xhc_ports :: "PortRegisterSet list"
  devmgr :: DeviceManager
  cmd_ring :: Ring
  event_ring :: EventRing
  scratchpad :: "u64 list"
  doorbell_0 :: "u32 list"
  port_config_phase :: "u8 \<Rightarrow> ConfigPhase"
  addressing_port :: u8
  alloc_ptr :: u64

record Hw =
  hw_port :: "PortRegisterSet \<Rightarrow> PortRegisterSet"
  hw_op :: "OperationalRegisters \<Rightarrow> OperationalRegisters"
  hw_ext :: "u32 \<Rightarrow> u32"

text \<open>The constructor, on the registers found at the base address; members it does not initialise are 0 and
  the file-level variables have their initial values. \<open>alloc_ptr\<close> is the allocation pointer of the pool.\<close>

definition Controller_new :: "CapabilityRegisters \<Rightarrow> OperationalRegisters \<Rightarrow> (nat \<Rightarrow> u32) \<Rightarrow> (nat \<Rightarrow> PortRegisterSet) \<Rightarrow> u64 \<Rightarrow> Controller" where
  "Controller_new cap opr ext ports ptr =
     \<lparr>xhc_cap = cap, xhc_op = opr, ext_regs = ext,
      xhc_ports = map ports [0..<unat (get_field HCSPARAMS1_Bitmap ''max_ports'' (HCSPARAMS1 cap))],
      devmgr = \<lparr>dm_contexts_addr = 0, device_context_pointers = [], max_slots = 0, dm_devices = []\<rparr>,
      cmd_ring = Ring_new,
      event_ring = \<lparr>er_buf = 0, er_mem = [], er_buf_size = 0, er_cycle_bit = False, er_erst = (0, 0),
        er_interrupter = \<lparr>IMAN = 0, IMOD = 0, ERSTSZ = 0, ERSTBA = 0, ERDP = 0\<rparr>\<rparr>,
      scratchpad = [], doorbell_0 = [], port_config_phase = (\<lambda>_. kNotConnected), addressing_port = 0, alloc_ptr = ptr\<rparr>"

subsection \<open>The device manager\<close>

definition DeviceManager_Initialize :: "Env \<Rightarrow> nat \<Rightarrow> DeviceManager \<Rightarrow> u64 \<Rightarrow> Code \<times> DeviceManager \<times> u64" where
  "DeviceManager_Initialize env n_slots m ptr =
     (let m = m\<lparr>max_slots := n_slots\<rparr>;
          (devs, ptr) = AllocArray 8 (memory_pool env) (of_nat (n_slots + 1)) 0 0 ptr
      in if devs = 0 then (kNoEnoughMemory, m\<lparr>dm_devices := []\<rparr>, ptr) else
     (let (ctxs, ptr) = AllocArray 8 (memory_pool env) (of_nat (n_slots + 1)) 64 4096 ptr;
          m = m\<lparr>dm_contexts_addr := ctxs\<rparr>
      in if ctxs = 0 then (kNoEnoughMemory, m\<lparr>device_context_pointers := []\<rparr>, FreeMem devs ptr)
         else (kSuccess, m\<lparr>dm_devices := replicate (n_slots + 1) None, device_context_pointers := replicate (n_slots + 1) 0\<rparr>, ptr)))"

definition DeviceContexts :: "DeviceManager \<Rightarrow> u64" where
  "DeviceContexts m = dm_contexts_addr m"

text \<open>A \<open>Device*\<close> is the slot it is stored in; the outer \<open>None\<close> is an access outside the array.\<close>

fun find_slot :: "(Xhci_Device.Device \<Rightarrow> bool) \<Rightarrow> DeviceManager \<Rightarrow> nat list \<Rightarrow> nat option option" where
  "find_slot P m [] = Some None"
| "find_slot P m (i # ks) = do {
     dev \<leftarrow> arr_get (dm_devices m) i;
     case dev of Some d \<Rightarrow> if P d then Some (Some i) else find_slot P m ks | None \<Rightarrow> find_slot P m ks
   }"

definition root_hub_port_num :: "context_word \<Rightarrow> u8" where
  "root_hub_port_num s = ucast (get_field SlotContext ''root_hub_port_num'' s)"

definition FindByPort :: "u8 \<Rightarrow> u32 \<Rightarrow> DeviceManager \<Rightarrow> nat option option" where
  "FindByPort port_num route_string m =
     find_slot (\<lambda>d. root_hub_port_num (dc_slot_context (ctx d)) = port_num) m [1..<Suc (max_slots m)]"

definition FindByState :: "State \<Rightarrow> DeviceManager \<Rightarrow> nat option option" where
  "FindByState st m = find_slot (\<lambda>d. dev_state d = st) m [1..<Suc (max_slots m)]"

definition FindBySlot :: "u8 \<Rightarrow> DeviceManager \<Rightarrow> Xhci_Device.Device option option" where
  "FindBySlot slot_id m = (if unat slot_id > max_slots m then Some None else arr_get (dm_devices m) (unat slot_id))"

definition AllocDevice :: "Env \<Rightarrow> u8 \<Rightarrow> DeviceManager \<Rightarrow> u64 \<Rightarrow> (Code \<times> DeviceManager \<times> u64) option" where
  "AllocDevice env slot_id m ptr =
     (if unat slot_id > max_slots m then Some (kInvalidSlotID, m, ptr)
      else do {
        dev \<leftarrow> arr_get (dm_devices m) (unat slot_id);
        if dev \<noteq> None then Some (kAlreadyAllocated, m, ptr)
        else do {
          let (p, ptr) = AllocArray (sizeof_Device env) (memory_pool env) 1 64 4096 ptr;
          if p = 0 then None
          else Some (kSuccess, m\<lparr>dm_devices := (dm_devices m)[unat slot_id := Some (Device_new p slot_id)]\<rparr>, ptr)
        }
      })"

definition LoadDCBAA :: "Env \<Rightarrow> u8 \<Rightarrow> DeviceManager \<Rightarrow> (Code \<times> DeviceManager) option" where
  "LoadDCBAA env slot_id m =
     (if unat slot_id > max_slots m then Some (kInvalidSlotID, m)
      else do {
        dev \<leftarrow> arr_get (dm_devices m) (unat slot_id);
        d \<leftarrow> dev;
        ps \<leftarrow> arr_set (device_context_pointers m) (unat slot_id) (dev_addr d + off_ctx env);
        Some (kSuccess, m\<lparr>device_context_pointers := ps\<rparr>)
      })"

definition Remove :: "u8 \<Rightarrow> DeviceManager \<Rightarrow> (Code \<times> DeviceManager) option" where
  "Remove slot_id m = do {
     ps \<leftarrow> arr_set (device_context_pointers m) (unat slot_id) 0;
     ds \<leftarrow> arr_set (dm_devices m) (unat slot_id) None;
     Some (kSuccess, m\<lparr>device_context_pointers := ps, dm_devices := ds\<rparr>)
   }"

subsection \<open>Access to the controller\<close>

definition set_phase :: "u8 \<Rightarrow> ConfigPhase \<Rightarrow> Controller \<Rightarrow> Controller" where
  "set_phase p ph c = c\<lparr>port_config_phase := (port_config_phase c)(p := ph)\<rparr>"

definition PortAt :: "u8 \<Rightarrow> Controller \<Rightarrow> PortRegisterSet option" where
  "PortAt n c = (if n = 0 then None else arr_get (xhc_ports c) (unat n - 1))"

definition set_port :: "u8 \<Rightarrow> PortRegisterSet \<Rightarrow> Controller \<Rightarrow> Controller" where
  "set_port n p c = c\<lparr>xhc_ports := (xhc_ports c)[unat n - 1 := p]\<rparr>"

definition push_command :: "trb \<Rightarrow> Controller \<Rightarrow> Controller option" where
  "push_command t c = do {
     (p, r) \<leftarrow> Ring_Push t (cmd_ring c);
     Some (c\<lparr>cmd_ring := r, doorbell_0 := doorbell_0 c @ [Doorbell_Ring 0 0]\<rparr>)
   }"

definition set_device :: "u8 \<Rightarrow> Xhci_Device.Device \<Rightarrow> Controller \<Rightarrow> Controller" where
  "set_device slot_id d c = c\<lparr>devmgr := (devmgr c)\<lparr>dm_devices := (dm_devices (devmgr c))[unat slot_id := Some d]\<rparr>\<rparr>"

subsection \<open>Helpers\<close>

definition RegisterCommandRing :: "Ring \<Rightarrow> u64 \<Rightarrow> Code \<times> u64" where
  "RegisterCommandRing ring crcr =
     (let value = set_field CRCR_Bitmap ''ring_cycle_state'' 1 crcr;
          value = set_field CRCR_Bitmap ''command_stop'' 0 value;
          value = set_field CRCR_Bitmap ''command_abort'' 0 value
      in (kSuccess, CRCR_SetPointer (Ring_Buffer ring) value))"

definition InitializeSlotContext :: "u8 \<Rightarrow> PortRegisterSet \<Rightarrow> context_word \<Rightarrow> context_word" where
  "InitializeSlotContext port_num port s =
     set_field SlotContext ''speed'' (of_int (Port_Speed port))
       (set_field SlotContext ''context_entries'' 1
         (set_field SlotContext ''root_hub_port_num'' (ucast port_num)
           (set_field SlotContext ''route_string'' 0 s)))"

definition DetermineMaxPacketSizeForControlPipe :: "nat \<Rightarrow> nat" where
  "DetermineMaxPacketSizeForControlPipe slot_speed = (if slot_speed = 4 then 512 else if slot_speed = 3 then 64 else 8)"

text \<open>The instruction \<open>bsr\<close>: the index of the highest bit set.\<close>

definition MostSignificantBit :: "u32 \<Rightarrow> int" where
  "MostSignificantBit value = (if value = 0 then - 1 else (case find (bit value) (rev [0..<32]) of Some n \<Rightarrow> int n | None \<Rightarrow> - 1))"

definition InitializeEP0Context :: "Ring \<Rightarrow> nat \<Rightarrow> context_word \<Rightarrow> context_word" where
  "InitializeEP0Context transfer_ring mps e =
     set_field EndpointContext ''error_count'' 3
       (set_field EndpointContext ''mult'' 0
         (set_field EndpointContext ''max_primary_streams'' 0
           (set_field EndpointContext ''interval'' 0
             (set_field EndpointContext ''dequeue_cycle_state'' 1
               (EndpointContext_SetTransferRingBuffer (Ring_Buffer transfer_ring)
                 (set_field EndpointContext ''max_burst_size'' 0
                   (set_field EndpointContext ''max_packet_size'' (of_nat mps)
                     (set_field EndpointContext ''ep_type'' 4 e))))))))"

subsection \<open>Configuration of a port\<close>

definition ResetPort :: "Hw \<Rightarrow> u8 \<Rightarrow> Controller \<Rightarrow> (Code \<times> Controller) option" where
  "ResetPort hw n c = do {
     port \<leftarrow> PortAt n c;
     if \<not> Port_IsConnected port then Some (kSuccess, c)
     else if addressing_port c \<noteq> 0 then Some (kSuccess, set_phase n kWaitingAddressed c)
     else if port_config_phase c n \<noteq> kNotConnected \<and> port_config_phase c n \<noteq> kWaitingAddressed then Some (kInvalidPhase, c)
     else do {
       let c = set_phase n kResettingPort (c\<lparr>addressing_port := n\<rparr>);
       (err, port) \<leftarrow> Port_Reset (hw_port hw) port;
       Some (kSuccess, set_port n port c)
     }
   }"

definition EnableSlot :: "u8 \<Rightarrow> Controller \<Rightarrow> (Code \<times> Controller) option" where
  "EnableSlot n c = do {
     port \<leftarrow> PortAt n c;
     if Port_IsEnabled port \<and> Port_IsPortResetChanged port then do {
       let c = set_phase n kEnablingSlot (set_port n (ClearPortResetChange port) c);
       c \<leftarrow> push_command EnableSlotCommandTRB_new c;
       Some (kSuccess, c)
     }
     else Some (kSuccess, c)
   }"

definition AddressDevice :: "Env \<Rightarrow> u8 \<Rightarrow> u8 \<Rightarrow> Controller \<Rightarrow> (Code \<times> Controller) option" where
  "AddressDevice env port_id slot_id c = do {
     (_, m, ptr) \<leftarrow> AllocDevice env slot_id (devmgr c) (alloc_ptr c);
     let c = c\<lparr>devmgr := m, alloc_ptr := ptr\<rparr>;
     dev \<leftarrow> FindBySlot slot_id m;
     case dev of None \<Rightarrow> Some (kInvalidSlotID, c)
     | Some d \<Rightarrow> do {
         let ic = (input_ctx d)\<lparr>input_control_context := zero_control_context\<rparr>;
         let ep0_dci = DeviceContextIndex_new 0 False;
         let ic = EnableSlotContext ic;
         (i, ic) \<leftarrow> EnableEndpoint ep0_dci ic;
         port \<leftarrow> PortAt port_id c;
         let slot_ctx = InitializeSlotContext port_id port (ic_slot_context ic);
         (ring, d, ptr) \<leftarrow> AllocTransferRing env ep0_dci 32 d ptr;
         tr \<leftarrow> ring;
         ep0 \<leftarrow> arr_get (ic_ep_contexts ic) i;
         let ep0 = InitializeEP0Context tr
           (DetermineMaxPacketSizeForControlPipe (unat (get_field SlotContext ''speed'' slot_ctx))) ep0;
         let ic = ic\<lparr>ic_slot_context := slot_ctx, ic_ep_contexts := (ic_ep_contexts ic)[i := ep0]\<rparr>;
         let d = d\<lparr>input_ctx := ic\<rparr>;
         let c = (set_device slot_id d c)\<lparr>alloc_ptr := ptr\<rparr>;
         (_, m) \<leftarrow> LoadDCBAA env slot_id (devmgr c);
         let c = set_phase port_id kAddressingDevice (c\<lparr>devmgr := m\<rparr>);
         c \<leftarrow> push_command (AddressDeviceCommandTRB_new (dev_addr d + off_input_ctx env) slot_id) c;
         Some (kSuccess, c)
       }
   }"

definition InitializeDevice :: "Env \<Rightarrow> u8 \<Rightarrow> u8 \<Rightarrow> Controller \<Rightarrow> (Code \<times> Controller) option" where
  "InitializeDevice env port_id slot_id c = do {
     dev \<leftarrow> FindBySlot slot_id (devmgr c);
     case dev of None \<Rightarrow> Some (kInvalidSlotID, c)
     | Some d \<Rightarrow> do {
         let c = set_phase port_id kInitializingDevice c;
         (err, d) \<leftarrow> StartInitialize env d;
         Some (kSuccess, set_device slot_id d c)
       }
   }"

definition CompleteConfiguration :: "u8 \<Rightarrow> u8 \<Rightarrow> Controller \<Rightarrow> (Code \<times> Controller) option" where
  "CompleteConfiguration port_id slot_id c = do {
     dev \<leftarrow> FindBySlot slot_id (devmgr c);
     case dev of None \<Rightarrow> Some (kInvalidSlotID, c)
     | Some d \<Rightarrow> do {
         (err, d) \<leftarrow> OnEndpointsConfigured d;
         Some (kSuccess, set_phase port_id kConfigured (set_device slot_id d c))
       }
   }"

definition kFullSpeed :: int where "kFullSpeed = 1"
definition kLowSpeed :: int where "kLowSpeed = 2"
definition kSuperSpeedPlus :: int where "kSuperSpeedPlus = 5"

definition convert_interval :: "int \<Rightarrow> EndpointType \<Rightarrow> int \<Rightarrow> int" where
  "convert_interval port_speed ty itv =
     (if port_speed = kFullSpeed \<or> port_speed = kLowSpeed
      then (if ty = kIsochronous then itv + 2 else MostSignificantBit (of_int itv) + 3)
      else itv - 1)"

definition ep_type_code :: "EndpointConfig \<Rightarrow> nat" where
  "ep_type_code conf = (case ep_type conf of
       kControl \<Rightarrow> 4
     | kIsochronous \<Rightarrow> (if ep_IsIn (ep_id conf) then 5 else 1)
     | kBulk \<Rightarrow> (if ep_IsIn (ep_id conf) then 6 else 2)
     | kInterrupt \<Rightarrow> (if ep_IsIn (ep_id conf) then 7 else 3))"

text \<open>The body of the loop over the endpoint configurations.\<close>

definition configure_endpoint :: "Env \<Rightarrow> int \<Rightarrow> nat \<Rightarrow> Xhci_Device.Device \<times> u64 \<Rightarrow> (Xhci_Device.Device \<times> u64) option" where
  "configure_endpoint env port_speed k = (\<lambda>(d, ptr). do {
     conf \<leftarrow> arr_get (ep_configs d) k;
     let ep_dci = DeviceContextIndex_of (ep_id conf);
     (i, ic) \<leftarrow> EnableEndpoint ep_dci (input_ctx d);
     e \<leftarrow> arr_get (ic_ep_contexts ic) i;
     let e = set_field EndpointContext ''ep_type'' (of_nat (ep_type_code conf)) e;
     let e = set_field EndpointContext ''max_packet_size'' (of_int (max_packet_size conf)) e;
     let e = set_field EndpointContext ''interval'' (of_int (convert_interval port_speed (ep_type conf) (interval conf))) e;
     let e = set_field EndpointContext ''average_trb_length'' 1 e;
     (ring, d, ptr) \<leftarrow> AllocTransferRing env ep_dci 32 d ptr;
     tr \<leftarrow> ring;
     let e = EndpointContext_SetTransferRingBuffer (Ring_Buffer tr) e;
     let e = set_field EndpointContext ''dequeue_cycle_state'' 1 e;
     let e = set_field EndpointContext ''max_primary_streams'' 0 e;
     let e = set_field EndpointContext ''mult'' 0 e;
     let e = set_field EndpointContext ''error_count'' 3 e;
     Some (d\<lparr>input_ctx := ic\<lparr>ic_ep_contexts := (ic_ep_contexts ic)[i := e]\<rparr>\<rparr>, ptr)
   })"

definition ConfigureEndpoints :: "Env \<Rightarrow> u8 \<Rightarrow> Xhci_Device.Device \<Rightarrow> Controller \<Rightarrow> (Code \<times> Controller) option" where
  "ConfigureEndpoints env slot d c = do {
     let ic = (input_ctx d)\<lparr>input_control_context := zero_control_context, ic_slot_context := dc_slot_context (ctx d)\<rparr>;
     let ic = EnableSlotContext ic;
     let ic = ic\<lparr>ic_slot_context := set_field SlotContext ''context_entries'' 31 (ic_slot_context ic)\<rparr>;
     let d = d\<lparr>input_ctx := ic\<rparr>;
     let port_id = root_hub_port_num (dc_slot_context (ctx d));
     port \<leftarrow> PortAt port_id c;
     let port_speed = Port_Speed port;
     if port_speed = 0 \<or> port_speed > kSuperSpeedPlus then Some (kUnknownXHCISpeedID, set_device slot d c)
     else do {
       (d, ptr) \<leftarrow> foldM (configure_endpoint env port_speed) [0..<nat (num_ep_configs d)] (d, alloc_ptr c);
       let c = set_phase port_id kConfiguringEndpoints ((set_device slot d c)\<lparr>alloc_ptr := ptr\<rparr>);
       c \<leftarrow> push_command (ConfigureEndpointCommandTRB_new (dev_addr d + off_input_ctx env) (dev_slot_id d)) c;
       Some (kSuccess, c)
     }
   }"

definition ConfigurePort :: "Hw \<Rightarrow> u8 \<Rightarrow> Controller \<Rightarrow> (Code \<times> Controller) option" where
  "ConfigurePort hw n c = (if port_config_phase c n = kNotConnected then ResetPort hw n c else Some (kSuccess, c))"

subsection \<open>Events\<close>

definition OnEvent_PortStatusChange :: "Hw \<Rightarrow> trb \<Rightarrow> Controller \<Rightarrow> (Code \<times> Controller) option" where
  "OnEvent_PortStatusChange hw t c = do {
     let port_id = ucast (get_field PortStatusChangeEventTRB ''port_id'' t);
     if port_config_phase c port_id = kNotConnected then ResetPort hw port_id c
     else if port_config_phase c port_id = kResettingPort then EnableSlot port_id c
     else Some (kInvalidPhase, c)
   }"

definition OnEvent_Transfer :: "Env \<Rightarrow> trb \<Rightarrow> Controller \<Rightarrow> (Code \<times> Controller) option" where
  "OnEvent_Transfer env t c = do {
     let slot_id = ucast (get_field TransferEventTRB ''slot_id'' t);
     dev \<leftarrow> FindBySlot slot_id (devmgr c);
     case dev of None \<Rightarrow> Some (kInvalidSlotID, c)
     | Some d \<Rightarrow> do {
         (err, d, ptr) \<leftarrow> OnTransferEventReceived env t d (alloc_ptr c);
         let c = (set_device slot_id d c)\<lparr>alloc_ptr := ptr\<rparr>;
         if err \<noteq> kSuccess then Some (err, c)
         else do {
           let port_id = root_hub_port_num (dc_slot_context (ctx d));
           if is_initialized d \<and> port_config_phase c port_id = kInitializingDevice
           then ConfigureEndpoints env slot_id d c
           else Some (kSuccess, c)
         }
       }
   }"

text \<open>After a device was addressed, the first waiting port is reset.\<close>

definition reset_next_waiting :: "Hw \<Rightarrow> Controller \<Rightarrow> (Code \<times> Controller) option" where
  "reset_next_waiting hw c = (case find (\<lambda>i. port_config_phase c (of_nat i) = kWaitingAddressed) [0..<256] of
       None \<Rightarrow> Some (kSuccess, c)
     | Some i \<Rightarrow> ResetPort hw (of_nat i) c)"

definition OnEvent_CommandCompletion :: "Env \<Rightarrow> Hw \<Rightarrow> trb \<Rightarrow> Controller \<Rightarrow> (Code \<times> Controller) option" where
  "OnEvent_CommandCompletion env hw t c = do {
     issuer \<leftarrow> trb_at (rg_buf (cmd_ring c)) (rg_mem (cmd_ring c)) (CommandCompletionEventTRB_Pointer t);
     let issuer_type = trb_type issuer;
     let slot_id = ucast (get_field CommandCompletionEventTRB ''slot_id'' t);
     if issuer_type = EnableSlotCommandTRB_Type then
       (if port_config_phase c (addressing_port c) \<noteq> kEnablingSlot then Some (kInvalidPhase, c)
        else AddressDevice env (addressing_port c) slot_id c)
     else if issuer_type = AddressDeviceCommandTRB_Type then do {
       dev \<leftarrow> FindBySlot slot_id (devmgr c);
       case dev of None \<Rightarrow> Some (kInvalidSlotID, c)
       | Some d \<Rightarrow> do {
           let port_id = root_hub_port_num (dc_slot_context (ctx d));
           if port_id \<noteq> addressing_port c then Some (kInvalidPhase, c)
           else if port_config_phase c port_id \<noteq> kAddressingDevice then Some (kInvalidPhase, c)
           else do {
             (err, c) \<leftarrow> reset_next_waiting hw (c\<lparr>addressing_port := 0\<rparr>);
             if err \<noteq> kSuccess then Some (err, c) else InitializeDevice env port_id slot_id c
           }
         }
     }
     else if issuer_type = ConfigureEndpointCommandTRB_Type then do {
       dev \<leftarrow> FindBySlot slot_id (devmgr c);
       case dev of None \<Rightarrow> Some (kInvalidSlotID, c)
       | Some d \<Rightarrow> do {
           let port_id = root_hub_port_num (dc_slot_context (ctx d));
           if port_config_phase c port_id \<noteq> kConfiguringEndpoints then Some (kInvalidPhase, c)
           else CompleteConfiguration port_id slot_id c
         }
     }
     else Some (kInvalidPhase, c)
   }"

definition ProcessEvent :: "Env \<Rightarrow> Hw \<Rightarrow> Controller \<Rightarrow> (Code \<times> Controller) option" where
  "ProcessEvent env hw c = do {
     has \<leftarrow> HasFront (event_ring c);
     if \<not> has then Some (kSuccess, c)
     else do {
       t \<leftarrow> EventRing_Front (event_ring c);
       (err, c) \<leftarrow>
         (if trb_type t = TransferEventTRB_Type then OnEvent_Transfer env t c
          else if trb_type t = PortStatusChangeEventTRB_Type then OnEvent_PortStatusChange hw t c
          else if trb_type t = CommandCompletionEventTRB_Type then OnEvent_CommandCompletion env hw t c
          else Some (kNotImplemented, c));
       Some (err, c\<lparr>event_ring := EventRing_Pop (event_ring c)\<rparr>)
     }
   }"

text \<open>\<open>ProcessEvents\<close> goes on until the event ring is empty; errors are only logged.\<close>

partial_function (option) ProcessEvents :: "Env \<Rightarrow> Hw \<Rightarrow> Controller \<Rightarrow> Controller option" where
  "ProcessEvents env hw c = do {
     has \<leftarrow> HasFront (event_ring c);
     if has then do { (err, c) \<leftarrow> ProcessEvent env hw c; ProcessEvents env hw c }
     else Some c
   }"

subsection \<open>Starting the controller\<close>

definition kDeviceSize :: nat where "kDeviceSize = 8"

definition RequestHCOwnership :: "Hw \<Rightarrow> Controller \<Rightarrow> Controller option" where
  "RequestHCOwnership hw c = do {
     ext_usblegsup \<leftarrow> find_ext (ext_regs c) 1 (ext_first (HCCPARAMS1 (xhc_cap c)));
     case ext_usblegsup of None \<Rightarrow> Some c
     | Some reg \<Rightarrow>
         (let r = ext_regs c reg
          in if get_field USBLEGSUP_Bitmap ''hc_os_owned_semaphore'' r \<noteq> 0 then Some c
             else do {
               r \<leftarrow> poll (\<lambda>r. get_field USBLEGSUP_Bitmap ''hc_bios_owned_semaphore'' r = 0 \<and>
                        get_field USBLEGSUP_Bitmap ''hc_os_owned_semaphore'' r \<noteq> 0)
                      (hw_ext hw) (set_field USBLEGSUP_Bitmap ''hc_os_owned_semaphore'' 1 r);
               Some (c\<lparr>ext_regs := (ext_regs c)(reg := r)\<rparr>)
             })
   }"

definition poll_op :: "Hw \<Rightarrow> (OperationalRegisters \<Rightarrow> bool) \<Rightarrow> Controller \<Rightarrow> Controller option" where
  "poll_op hw stop c = map_option (\<lambda>o'. c\<lparr>xhc_op := o'\<rparr>) (poll stop (hw_op hw) (xhc_op c))"

definition write_usbcmd :: "u32 \<Rightarrow> Controller \<Rightarrow> Controller" where
  "write_usbcmd v c = c\<lparr>xhc_op := (xhc_op c)\<lparr>USBCMD := v\<rparr>\<rparr>"

definition halted :: "OperationalRegisters \<Rightarrow> bool" where
  "halted r \<longleftrightarrow> get_field USBSTS_Bitmap ''host_controller_halted'' (USBSTS r) \<noteq> 0"

text \<open>Halting and resetting the controller.\<close>

definition reset_controller :: "Hw \<Rightarrow> Controller \<Rightarrow> Controller option" where
  "reset_controller hw c = do {
     let usbcmd = set_field USBCMD_Bitmap ''interrupter_enable'' 0 (USBCMD (xhc_op c));
     let usbcmd = set_field USBCMD_Bitmap ''host_system_error_enable'' 0 usbcmd;
     let usbcmd = set_field USBCMD_Bitmap ''enable_wrap_event'' 0 usbcmd;
     let usbcmd = (if \<not> halted (xhc_op c) then set_field USBCMD_Bitmap ''run_stop'' 0 usbcmd else usbcmd);
     c \<leftarrow> poll_op hw halted (write_usbcmd usbcmd c);
     let c = write_usbcmd (set_field USBCMD_Bitmap ''host_controller_reset'' 1 (USBCMD (xhc_op c))) c;
     c \<leftarrow> poll_op hw (\<lambda>r. get_field USBCMD_Bitmap ''host_controller_reset'' (USBCMD r) = 0) c;
     poll_op hw (\<lambda>r. get_field USBSTS_Bitmap ''controller_not_ready'' (USBSTS r) = 0) c
   }"

definition max_scratchpad_buffers :: "u32 \<Rightarrow> nat" where
  "max_scratchpad_buffers hcsparams2 =
     unat (ucast (get_field HCSPARAMS2_Bitmap ''max_scratchpad_buffers_low'' hcsparams2 OR
       push_bit 5 (get_field HCSPARAMS2_Bitmap ''max_scratchpad_buffers_high'' hcsparams2)) :: u16)"

fun alloc_scratchpads :: "Env \<Rightarrow> nat \<Rightarrow> u64 \<Rightarrow> u64 list \<times> u64" where
  "alloc_scratchpads env 0 ptr = ([], ptr)"
| "alloc_scratchpads env (Suc n) ptr =
     (let (p, ptr) = AllocMem (memory_pool env) 4096 4096 4096 ptr; (ps, ptr) = alloc_scratchpads env n ptr in (p # ps, ptr))"

definition setup_scratchpads :: "Env \<Rightarrow> Controller \<Rightarrow> Controller option" where
  "setup_scratchpads env c =
     (let n = max_scratchpad_buffers (HCSPARAMS2 (xhc_cap c))
      in if n > 0 then do {
           let (arr, ptr) = AllocArray 8 (memory_pool env) (of_nat n) 64 4096 (alloc_ptr c);
           let (bufs, ptr) = alloc_scratchpads env n ptr;
           if arr = 0 then None
           else do {
             ps \<leftarrow> arr_set (device_context_pointers (devmgr c)) 0 arr;
             Some (c\<lparr>scratchpad := bufs, alloc_ptr := ptr, devmgr := (devmgr c)\<lparr>device_context_pointers := ps\<rparr>\<rparr>)
           }
         }
         else Some c)"

definition enable_interrupts :: "Controller \<Rightarrow> Controller" where
  "enable_interrupts c =
     (let i = er_interrupter (event_ring c);
          iman = set_field IMAN_Bitmap ''interrupt_enable'' 1 (set_field IMAN_Bitmap ''interrupt_pending'' 1 (IMAN i));
          c = c\<lparr>event_ring := (event_ring c)\<lparr>er_interrupter := i\<lparr>IMAN := iman\<rparr>\<rparr>\<rparr>
      in write_usbcmd (set_field USBCMD_Bitmap ''interrupter_enable'' 1 (USBCMD (xhc_op c))) c)"

definition Controller_Initialize :: "Env \<Rightarrow> Hw \<Rightarrow> InterrupterRegisterSet \<Rightarrow> Controller \<Rightarrow> (Code \<times> Controller) option" where
  "Controller_Initialize env hw primary_interrupter c = do {
     let (err, m, ptr) = DeviceManager_Initialize env kDeviceSize (devmgr c) (alloc_ptr c);
     let c = c\<lparr>devmgr := m, alloc_ptr := ptr\<rparr>;
     if err \<noteq> kSuccess then Some (err, c)
     else do {
       c \<leftarrow> RequestHCOwnership hw c;
       c \<leftarrow> reset_controller hw c;
       let c = c\<lparr>xhc_op := (xhc_op c)\<lparr>CONFIG :=
         set_field CONFIG_Bitmap ''max_device_slots_enabled'' (of_nat kDeviceSize) (CONFIG (xhc_op c))\<rparr>\<rparr>;
       c \<leftarrow> setup_scratchpads env c;
       let c = c\<lparr>xhc_op := (xhc_op c)\<lparr>DCBAAP := DCBAAP_SetPointer (DeviceContexts (devmgr c)) 0\<rparr>\<rparr>;
       let (err, r, ptr) = Ring_Initialize (memory_pool env) 32 (cmd_ring c) (alloc_ptr c);
       let c = c\<lparr>cmd_ring := r, alloc_ptr := ptr\<rparr>;
       if err \<noteq> kSuccess then Some (err, c)
       else do {
         let (err, crcr) = RegisterCommandRing (cmd_ring c) (CRCR (xhc_op c));
         let c = c\<lparr>xhc_op := (xhc_op c)\<lparr>CRCR := crcr\<rparr>\<rparr>;
         let (err, e, ptr) = EventRing_Initialize (memory_pool env) 32 primary_interrupter (event_ring c) (alloc_ptr c);
         let c = c\<lparr>event_ring := e, alloc_ptr := ptr\<rparr>;
         if err \<noteq> kSuccess then Some (err, c) else Some (kSuccess, enable_interrupts c)
       }
     }
   }"

definition Controller_Run :: "Hw \<Rightarrow> Controller \<Rightarrow> (Code \<times> Controller) option" where
  "Controller_Run hw c = do {
     let c = write_usbcmd (set_field USBCMD_Bitmap ''run_stop'' 1 (USBCMD (xhc_op c))) c;
     c \<leftarrow> poll_op hw (\<lambda>r. \<not> halted r) c;
     Some (kSuccess, c)
   }"

subsection \<open>The phases of the ports\<close>

text \<open>What the handlers do to the two file-level variables; everything else is left open.\<close>

type_synonym phase_view = "(u8 \<Rightarrow> ConfigPhase) \<times> u8"

definition phase_view :: "Controller \<Rightarrow> phase_view" where
  "phase_view c = (port_config_phase c, addressing_port c)"

lemma phase_view_simps [simp]:
  "phase_view (set_phase p ph c) = ((fst (phase_view c))(p := ph), snd (phase_view c))"
  "phase_view (set_port n port c) = phase_view c" "phase_view (set_device s d c) = phase_view c"
  "phase_view (c\<lparr>addressing_port := a\<rparr>) = (fst (phase_view c), a)"
  "phase_view (c\<lparr>devmgr := m\<rparr>) = phase_view c" "phase_view (c\<lparr>alloc_ptr := ptr\<rparr>) = phase_view c"
  "phase_view (c\<lparr>event_ring := e\<rparr>) = phase_view c" "phase_view (c\<lparr>cmd_ring := r, doorbell_0 := db\<rparr>) = phase_view c"
  by (simp_all add: phase_view_def set_phase_def set_port_def set_device_def)

lemma push_command_view: "push_command t c = Some c' \<Longrightarrow> phase_view c' = phase_view c"
  by (auto simp: push_command_def split: Option.bind_splits)

definition busy :: "ConfigPhase \<Rightarrow> bool" where
  "busy ph \<longleftrightarrow> ph \<in> {kResettingPort, kEnablingSlot, kAddressingDevice}"

definition phase_rank :: "ConfigPhase \<Rightarrow> nat" where
  "phase_rank ph = (case ph of kNotConnected \<Rightarrow> 0 | kWaitingAddressed \<Rightarrow> 1 | kResettingPort \<Rightarrow> 2 | kEnablingSlot \<Rightarrow> 3
     | kAddressingDevice \<Rightarrow> 4 | kInitializingDevice \<Rightarrow> 5 | kConfiguringEndpoints \<Rightarrow> 6 | kConfigured \<Rightarrow> 7)"

text \<open>At most one port is between its reset and its address, and \<open>addressing_port\<close> names it.\<close>

definition ports_inv :: "phase_view \<Rightarrow> bool" where
  "ports_inv v = (case v of (ph, a) \<Rightarrow> (\<forall>p. busy (ph p) \<longrightarrow> p = a) \<and> (a \<noteq> 0 \<longrightarrow> busy (ph a)) \<and> \<not> busy (ph 0))"

text \<open>The transitions of the two variables.\<close>

inductive phase_step :: "phase_view \<Rightarrow> phase_view \<Rightarrow> bool" where
  stay: "phase_step v v"
| wait: "a \<noteq> 0 \<Longrightarrow> ph p = kNotConnected \<Longrightarrow> phase_step (ph, a) (ph(p := kWaitingAddressed), a)"
| reset: "p \<noteq> 0 \<Longrightarrow> ph p \<in> {kNotConnected, kWaitingAddressed} \<Longrightarrow> phase_step (ph, 0) (ph(p := kResettingPort), p)"
| enable: "ph p = kResettingPort \<Longrightarrow> phase_step (ph, a) (ph(p := kEnablingSlot), a)"
| address: "ph a = kEnablingSlot \<Longrightarrow> phase_step (ph, a) (ph(a := kAddressingDevice), a)"
| addressed: "ph a = kAddressingDevice \<Longrightarrow> phase_step (ph, a) (ph(a := kInitializingDevice), 0)"
| addressed_next: "ph a = kAddressingDevice \<Longrightarrow> p \<noteq> 0 \<Longrightarrow> ph p = kWaitingAddressed \<Longrightarrow>
    phase_step (ph, a) (ph(p := kResettingPort, a := kInitializingDevice), p)"
| configure: "ph p = kInitializingDevice \<Longrightarrow> phase_step (ph, a) (ph(p := kConfiguringEndpoints), a)"
| complete: "ph p = kConfiguringEndpoints \<Longrightarrow> phase_step (ph, a) (ph(p := kConfigured), a)"

lemma busy_simps [simp]:
  "busy kResettingPort" "busy kEnablingSlot" "busy kAddressingDevice" "\<not> busy kNotConnected" "\<not> busy kWaitingAddressed"
  "\<not> busy kInitializingDevice" "\<not> busy kConfiguringEndpoints" "\<not> busy kConfigured"
  by (simp_all add: busy_def)

lemma ports_inv_iff:
  "ports_inv (ph, a) \<longleftrightarrow> (if a = 0 then \<forall>p. \<not> busy (ph p) else \<forall>p. busy (ph p) \<longleftrightarrow> p = a)"
  unfolding ports_inv_def by auto

lemma ports_inv_quiet: "ports_inv (ph, a) \<Longrightarrow> \<not> busy (ph p) \<Longrightarrow> \<not> busy x \<Longrightarrow> ports_inv (ph(p := x), a)"
  by (auto simp: ports_inv_iff split: if_splits)

lemma ports_inv_busy: "ports_inv (ph, a) \<Longrightarrow> busy (ph p) \<Longrightarrow> p = a \<and> a \<noteq> 0"
  by (auto simp: ports_inv_iff split: if_splits)

lemma phase_step_inv: "phase_step v w \<Longrightarrow> ports_inv v \<Longrightarrow> ports_inv w"
proof (induction rule: phase_step.induct)
  case (enable ph p a)
  then have "p = a" "a \<noteq> 0" using ports_inv_busy [of ph a p] by simp_all
  with enable show ?case by (simp add: ports_inv_iff)
next
  case (address ph a)
  then have "a \<noteq> 0" using ports_inv_busy [of ph a a] by simp
  with address show ?case by (simp add: ports_inv_iff)
next
  case (addressed ph a)
  then have "a \<noteq> 0" using ports_inv_busy [of ph a a] by simp
  with addressed show ?case by (simp add: ports_inv_iff)
next
  case (addressed_next ph a p)
  then have "a \<noteq> 0" "p \<noteq> a" using ports_inv_busy [of ph a a] by auto
  with addressed_next show ?case by (simp add: ports_inv_iff)
next
  case (reset p ph)
  then show ?case by (simp add: ports_inv_iff)
qed (simp_all add: ports_inv_quiet)

lemma phase_step_advances: "phase_step v w \<Longrightarrow> phase_rank (fst v p) \<le> phase_rank (fst w p)"
  by (induction rule: phase_step.induct) (auto simp: phase_rank_def)

lemma ResetPort_view:
  assumes "ResetPort hw n c = Some (err, c')"
  shows "phase_view c' = phase_view c \<and> (err = kSuccess \<or> err = kInvalidPhase \<and> port_config_phase c n \<notin> {kNotConnected, kWaitingAddressed}) \<or>
    addressing_port c \<noteq> 0 \<and> phase_view c' = ((port_config_phase c)(n := kWaitingAddressed), addressing_port c) \<and> err = kSuccess \<or>
    addressing_port c = 0 \<and> n \<noteq> 0 \<and> port_config_phase c n \<in> {kNotConnected, kWaitingAddressed} \<and>
      phase_view c' = ((port_config_phase c)(n := kResettingPort), n) \<and> err = kSuccess"
proof -
  obtain port where p: "PortAt n c = Some port" using assms by (cases "PortAt n c") (auto simp: ResetPort_def)
  have n: "n \<noteq> 0" using p by (auto simp: PortAt_def split: if_splits)
  show ?thesis using assms p n
    by (auto simp: ResetPort_def phase_view_def set_phase_def set_port_def Let_def split: if_splits Option.bind_splits)
qed

lemma OnEvent_PortStatusChange_step:
  assumes "OnEvent_PortStatusChange hw t c = Some (err, c')"
  shows "phase_step (phase_view c) (phase_view c')"
proof -
  let ?p = "ucast (get_field PortStatusChangeEventTRB ''port_id'' t) :: u8"
  consider (reset) "port_config_phase c ?p = kNotConnected" "ResetPort hw ?p c = Some (err, c')"
    | (enable) "port_config_phase c ?p = kResettingPort" "EnableSlot ?p c = Some (err, c')" | (none) "c' = c"
    using assms by (auto simp: OnEvent_PortStatusChange_def Let_def split: if_splits)
  then show ?thesis
  proof cases
    case reset
    then show ?thesis using ResetPort_view [OF reset(2)]
      by (auto simp: phase_view_def intro: phase_step.intros)
  next
    case enable
    then have "phase_view c' = phase_view c \<or> phase_view c' = ((port_config_phase c)(?p := kEnablingSlot), addressing_port c)"
      by (auto simp: EnableSlot_def Let_def dest!: push_command_view split: if_splits Option.bind_splits)
        (simp_all add: phase_view_def)
    then show ?thesis using enable(1) by (auto simp: phase_view_def intro: phase_step.intros)
  next
    case none
    then show ?thesis by (simp add: phase_step.stay)
  qed
qed

lemma AddressDevice_view:
  assumes "AddressDevice env p s c = Some (err, c')"
  shows "phase_view c' = phase_view c \<or> phase_view c' = ((port_config_phase c)(p := kAddressingDevice), addressing_port c)"
  using assms unfolding AddressDevice_def Let_def
  by (auto dest!: push_command_view simp: bind_eq_Some_conv split: option.splits prod.splits) (simp_all add: phase_view_def)

lemma InitializeDevice_view:
  assumes "InitializeDevice env p s c = Some (err, c')"
  shows "FindBySlot s (devmgr c) = Some None \<and> c' = c \<or> phase_view c' = ((fst (phase_view c))(p := kInitializingDevice), snd (phase_view c))"
  using assms unfolding InitializeDevice_def Let_def by (auto simp: bind_eq_Some_conv split: option.splits)

lemma CompleteConfiguration_view:
  assumes "CompleteConfiguration p s c = Some (err, c')"
  shows "phase_view c' = phase_view c \<or> phase_view c' = ((fst (phase_view c))(p := kConfigured), snd (phase_view c))"
  using assms unfolding CompleteConfiguration_def by (auto simp: bind_eq_Some_conv split: option.splits)

lemma ConfigureEndpoints_view:
  assumes "ConfigureEndpoints env s d c = Some (err, c')"
  shows "phase_view c' = phase_view c \<or>
    phase_view c' = ((fst (phase_view c))(root_hub_port_num (dc_slot_context (ctx d)) := kConfiguringEndpoints), snd (phase_view c))"
  using assms unfolding ConfigureEndpoints_def Let_def
  by (auto dest!: push_command_view simp: bind_eq_Some_conv split: if_splits prod.splits)

lemma OnEvent_Transfer_step:
  assumes "OnEvent_Transfer env t c = Some (err, c')"
  shows "phase_step (phase_view c) (phase_view c')"
proof (cases "phase_view c' = phase_view c")
  case True
  then show ?thesis by (simp add: phase_step.stay)
next
  case False
  let ?s = "ucast (get_field TransferEventTRB ''slot_id'' t) :: u8"
  obtain d ptr where ph: "port_config_phase c (root_hub_port_num (dc_slot_context (ctx d))) = kInitializingDevice"
    and r: "ConfigureEndpoints env ?s d ((set_device ?s d c)\<lparr>alloc_ptr := ptr\<rparr>) = Some (err, c')"
    using assms False unfolding OnEvent_Transfer_def Let_def
    by (auto simp: bind_eq_Some_conv set_device_def split: option.splits if_splits)
  have "phase_view c' = ((fst (phase_view c))(root_hub_port_num (dc_slot_context (ctx d)) := kConfiguringEndpoints), snd (phase_view c))"
    using ConfigureEndpoints_view [OF r] False by simp
  then show ?thesis using ph by (simp add: phase_view_def phase_step.configure)
qed

lemma reset_next_view:
  assumes "reset_next_waiting hw c = Some (err, c')" and "addressing_port c = 0"
  shows "err = kSuccess \<and> devmgr c' = devmgr c \<and> (phase_view c' = phase_view c \<or>
    (\<exists>p. p \<noteq> 0 \<and> port_config_phase c p = kWaitingAddressed \<and> phase_view c' = ((port_config_phase c)(p := kResettingPort), p)))"
proof (cases "find (\<lambda>i. port_config_phase c (of_nat i) = kWaitingAddressed) [0..<256]")
  case None
  then show ?thesis using assms by (simp add: reset_next_waiting_def)
next
  case (Some i)
  then have w: "port_config_phase c (of_nat i) = kWaitingAddressed" by (auto simp: find_Some_iff)
  have r: "ResetPort hw (of_nat i) c = Some (err, c')" using assms Some by (simp add: reset_next_waiting_def)
  then have "devmgr c' = devmgr c"
    by (auto simp: ResetPort_def set_phase_def set_port_def Let_def bind_eq_Some_conv split: if_splits)
  then show ?thesis using ResetPort_view [OF r] w assms(2) by auto
qed

lemma OnEvent_CommandCompletion_step:
  assumes "OnEvent_CommandCompletion env hw t c = Some (err, c')"
  shows "phase_step (phase_view c) (phase_view c')"
proof -
  let ?s = "ucast (get_field CommandCompletionEventTRB ''slot_id'' t) :: u8" and ?a = "addressing_port c"
  consider (none) "c' = c"
    | (enabled) "port_config_phase c ?a = kEnablingSlot" "AddressDevice env ?a ?s c = Some (err, c')"
    | (addressed) d err2 c2 where "FindBySlot ?s (devmgr c) = Some (Some d)" "port_config_phase c ?a = kAddressingDevice"
        "reset_next_waiting hw (c\<lparr>addressing_port := 0\<rparr>) = Some (err2, c2)"
        "(if err2 \<noteq> kSuccess then Some (err2, c2) else InitializeDevice env ?a ?s c2) = Some (err, c')"
    | (configured) p where "port_config_phase c p = kConfiguringEndpoints" "CompleteConfiguration p ?s c = Some (err, c')"
    using assms unfolding OnEvent_CommandCompletion_def Let_def
    by (auto simp: bind_eq_Some_conv split: option.splits if_splits)
  then show ?thesis
  proof cases
    case none
    then show ?thesis by (simp add: phase_step.stay)
  next
    case enabled
    then show ?thesis using AddressDevice_view [OF enabled(2)] by (auto simp: phase_view_def intro: phase_step.intros)
  next
    case addressed
    let ?c1 = "c\<lparr>addressing_port := 0\<rparr>"
    have r: "err2 = kSuccess" "devmgr c2 = devmgr c" "phase_view c2 = phase_view ?c1 \<or>
        (\<exists>p. p \<noteq> 0 \<and> port_config_phase c p = kWaitingAddressed \<and> phase_view c2 = ((port_config_phase c)(p := kResettingPort), p))"
      using reset_next_view [OF addressed(3)] by auto
    have i: "InitializeDevice env ?a ?s c2 = Some (err, c')" using addressed(4) r(1) by simp
    have "phase_view c' = ((fst (phase_view c2))(?a := kInitializingDevice), snd (phase_view c2))"
      using InitializeDevice_view [OF i] r(2) addressed(1) by simp
    with r(3) addressed(2) show ?thesis by (auto simp: phase_view_def intro: phase_step.intros)
  next
    case configured
    then show ?thesis using CompleteConfiguration_view [OF configured(2)] by (auto simp: phase_view_def intro: phase_step.intros)
  qed
qed

lemma ProcessEvent_step:
  assumes "ProcessEvent env hw c = Some (err, c')"
  shows "phase_step (phase_view c) (phase_view c')"
proof -
  obtain has where has: "HasFront (event_ring c) = Some has"
    using assms unfolding ProcessEvent_def bind_eq_Some_conv by blast
  show ?thesis
  proof (cases has)
    case False
    then show ?thesis using assms has by (simp add: ProcessEvent_def phase_step.stay)
  next
    case True
    let ?h = "\<lambda>t. if trb_type t = TransferEventTRB_Type then OnEvent_Transfer env t c
          else if trb_type t = PortStatusChangeEventTRB_Type then OnEvent_PortStatusChange hw t c
          else if trb_type t = CommandCompletionEventTRB_Type then OnEvent_CommandCompletion env hw t c
          else Some (kNotImplemented, c)"
    obtain t c1 where t: "?h t = Some (err, c1)" and c': "c' = c1\<lparr>event_ring := EventRing_Pop (event_ring c1)\<rparr>"
      using assms has True unfolding ProcessEvent_def by (fastforce simp: bind_eq_Some_conv)
    have "phase_step (phase_view c) (phase_view c1)"
      using t OnEvent_Transfer_step [of env t c err c1] OnEvent_PortStatusChange_step [of hw t c err c1]
        OnEvent_CommandCompletion_step [of env hw t c err c1] phase_step.stay [of "phase_view c"]
      by (simp split: if_splits)
    then show ?thesis by (simp add: c')
  qed
qed

lemma ConfigurePort_step: "ConfigurePort hw n c = Some (err, c') \<Longrightarrow> phase_step (phase_view c) (phase_view c')"
  using ResetPort_view [of hw n c err c']
  by (auto simp: ConfigurePort_def phase_view_def intro: phase_step.intros split: if_splits)

text \<open>States the driver can reach: \<open>Initialize\<close> configures ports, \<open>ProcessEvents\<close> handles events, and in
  between the hardware changes registers, rings and contexts at will, but not the driver's variables.\<close>

inductive xhc_reach :: "Env \<Rightarrow> Hw \<Rightarrow> Controller \<Rightarrow> bool" for env hw where
  boot: "phase_view c = (\<lambda>_. kNotConnected, 0) \<Longrightarrow> xhc_reach env hw c"
| configure: "xhc_reach env hw c \<Longrightarrow> ConfigurePort hw n c = Some (err, c') \<Longrightarrow> xhc_reach env hw c'"
| event: "xhc_reach env hw c \<Longrightarrow> ProcessEvent env hw c = Some (err, c') \<Longrightarrow> xhc_reach env hw c'"
| hardware: "xhc_reach env hw c \<Longrightarrow> phase_view c' = phase_view c \<Longrightarrow> xhc_reach env hw c'"

lemma xhc_reach_inv: "xhc_reach env hw c \<Longrightarrow> ports_inv (phase_view c)"
proof (induction rule: xhc_reach.induct)
  case (boot c)
  then show ?case by (simp add: ports_inv_iff)
next
  case (configure c n err c')
  then show ?case using ConfigurePort_step phase_step_inv by blast
next
  case (event c err c')
  then show ?case using ProcessEvent_step phase_step_inv by blast
qed simp

text \<open>C11: at every moment at most one root hub port is between its reset and the assignment of its
  address, namely \<open>addressing_port\<close>, and none when that is 0, as the comment in \<open>xhci.cpp\<close> demands; and
  no event ever takes a port back to an earlier phase.\<close>

theorem one_port_addressed_at_a_time:
  assumes "xhc_reach env hw c"
  shows "(busy (port_config_phase c p) \<longleftrightarrow> addressing_port c \<noteq> 0 \<and> p = addressing_port c) \<and>
    (\<forall>err c' q. ProcessEvent env hw c = Some (err, c') \<longrightarrow>
       phase_rank (port_config_phase c q) \<le> phase_rank (port_config_phase c' q))"
proof -
  have "busy (port_config_phase c p) \<longleftrightarrow> addressing_port c \<noteq> 0 \<and> p = addressing_port c"
    using xhc_reach_inv [OF assms] by (auto simp: phase_view_def ports_inv_iff split: if_splits)
  moreover have "phase_rank (port_config_phase c q) \<le> phase_rank (port_config_phase c' q)"
    if "ProcessEvent env hw c = Some (err, c')" for err c' q
    using phase_step_advances [OF ProcessEvent_step [OF that], of q] by (simp add: phase_view_def)
  ultimately show ?thesis by blast
qed

text \<open>One connected port: the reset bit clears when the hardware is read again.\<close>

definition example_hw :: Hw where
  "example_hw = \<lparr>hw_port = (\<lambda>p. p\<lparr>PORTSC := PORTSC p AND NOT 0x10\<rparr>), hw_op = id, hw_ext = id\<rparr>"

definition example_controller :: Controller where
  "example_controller = Controller_new
     \<lparr>CAPLENGTH = 0x80, HCIVERSION = 0x100, HCSPARAMS1 = 0x02000808, HCSPARAMS2 = 0, HCSPARAMS3 = 0, HCCPARAMS1 = 0,
      DBOFF = 0x3000, RTSOFF = 0x2000, HCCPARAMS2 = 0\<rparr>
     \<lparr>USBCMD = 0, USBSTS = 1, PAGESIZE = 1, DNCTRL = 0, CRCR = 0, DCBAAP = 0, CONFIG = 0\<rparr>
     (\<lambda>_. 0) (\<lambda>i. \<lparr>PORTSC = 1, PORTPMSC = 0, PORTLI = 0, PORTHLPMC = 0\<rparr>) 0x100040"

lemma example_ports: "xhc_ports example_controller = replicate 2 \<lparr>PORTSC = 1, PORTPMSC = 0, PORTLI = 0, PORTHLPMC = 0\<rparr>"
  by (simp add: example_controller_def Controller_new_def get_field_def HCSPARAMS1_Bitmap_def bf_get_def map_replicate_const)

lemma example_ResetPort:
  "\<exists>c. ConfigurePort example_hw 2 example_controller = Some (kSuccess, c) \<and> port_config_phase c 2 = kResettingPort"
proof -
  let ?p = "\<lparr>PORTSC = 1, PORTPMSC = 0, PORTLI = 0, PORTHLPMC = 0\<rparr>"
  have "\<exists>q. Port_Reset (hw_port example_hw) ?p = Some (kSuccess, q)"
    by (simp add: Port_Reset_def poll.simps Port_Reset_value_def get_field_def PORTSC_Bitmap_def bf_get_def example_hw_def)
  moreover have "PortAt 2 example_controller = Some ?p" "Port_IsConnected ?p"
    by (simp_all add: PortAt_def arr_get_def example_ports Port_IsConnected_def get_field_def PORTSC_Bitmap_def bf_get_def)
  moreover have "addressing_port example_controller = 0" "port_config_phase example_controller 2 = kNotConnected"
    by (simp_all add: example_controller_def Controller_new_def)
  ultimately show ?thesis by (auto simp: ConfigurePort_def ResetPort_def set_phase_def set_port_def)
qed

theorem one_port_addressed_at_a_time_witness:
  "\<exists>c. ConfigurePort example_hw 2 example_controller = Some (kSuccess, c) \<and> addressing_port c = 2"
proof -
  obtain c where c: "ConfigurePort example_hw 2 example_controller = Some (kSuccess, c)" "port_config_phase c 2 = kResettingPort"
    using example_ResetPort by blast
  have "xhc_reach example_env example_hw example_controller"
    by (rule xhc_reach.boot) (simp add: phase_view_def example_controller_def Controller_new_def)
  then have "xhc_reach example_env example_hw c" using c(1) by (rule xhc_reach.configure)
  from one_port_addressed_at_a_time [OF this, of 2] c show ?thesis by simp
qed

end
