(* ===== verification/Xhci_Init.thy ===== *)
theory Xhci_Init
  imports Descriptor_Tables Pci Xhci_Controller
begin

text \<open>
  The rest of \<open>src/kernel/usb/xhci/xhci.cpp\<close>: \<open>Initialize\<close> finds the host controller among the devices of
  the bus scan, routes its interrupts, starts it and configures its ports. Configuration space is the
  function \<open>conf\<close> of \<open>Pci\<close>, and the writes to it are returned in order; \<open>regs\<close> are the registers of a
  controller by its base address, and \<open>apic_id_reg\<close> is the local APIC's identification register.
\<close>

subsection \<open>The functions\<close>

text \<open>The devices the scan recorded; the loops read \<open>devices[i]\<close> for \<open>i < num_device\<close>, and \<open>None\<close> is a
  read past the array.\<close>

fun find_xhc :: "config_space \<Rightarrow> pci_state \<Rightarrow> nat list \<Rightarrow> Pci.Device option \<Rightarrow> Pci.Device option option" where
  "find_xhc conf st [] xhc_dev = Some xhc_dev"
| "find_xhc conf st (i # is) xhc_dev = do {
     dev \<leftarrow> arr_get (devices st) i;
     if Match3 0x0c 0x03 0x30 (class_code dev)
     then (if 0x8086 = ReadVendorId conf (bus dev) (device dev) (func dev) then Some (Some dev)
           else find_xhc conf st is (Some dev))
     else find_xhc conf st is xhc_dev
   }"

fun intel_ehc_exist :: "config_space \<Rightarrow> pci_state \<Rightarrow> nat list \<Rightarrow> bool option" where
  "intel_ehc_exist conf st [] = Some False"
| "intel_ehc_exist conf st (i # is) = do {
     dev \<leftarrow> arr_get (devices st) i;
     if Match3 0x0c 0x03 0x20 (class_code dev) \<and> 0x8086 = ReadVendorId conf (bus dev) (device dev) (func dev)
     then Some True else intel_ehc_exist conf st is
   }"

definition SwitchEhci2Xhci :: "config_space \<Rightarrow> pci_state \<Rightarrow> Pci.Device \<Rightarrow> config_write list option" where
  "SwitchEhci2Xhci conf st xhc_dev = do {
     ehc \<leftarrow> intel_ehc_exist conf st [0..<num_device st];
     if \<not> ehc then Some []
     else do {
       let superspeed_ports = ReadConfReg conf xhc_dev 0xdc;
       let ehci2xhci_ports = ReadConfReg conf xhc_dev 0xd4;
       Some [WriteConfReg xhc_dev 0xd8 superspeed_ports, WriteConfReg xhc_dev 0xd0 ehci2xhci_ports]
     }
   }"

text \<open>The loop over the ports; an error is logged and the next port is tried.\<close>

definition configure_if_connected :: "Hw \<Rightarrow> nat \<Rightarrow> Controller \<Rightarrow> Controller option" where
  "configure_if_connected hw i c = do {
     port \<leftarrow> PortAt (of_nat i) c;
     if Port_IsConnected port then do { (err, c) \<leftarrow> ConfigurePort hw (of_nat i) c; Some c }
     else Some c
   }"

definition configure_ports :: "Hw \<Rightarrow> Controller \<Rightarrow> Controller option" where
  "configure_ports hw c = foldM (configure_if_connected hw) [1..<Suc (length (xhc_ports c))] c"

datatype init_result = Exit int | Running Controller "config_write list"

definition Initialize :: "Env \<Rightarrow> Hw \<Rightarrow> config_space \<Rightarrow> pci_state \<Rightarrow> u32 \<Rightarrow> (u64 \<Rightarrow> Controller) \<Rightarrow>
    InterrupterRegisterSet \<Rightarrow> init_result option" where
  "Initialize env hw conf st apic_id_reg regs primary_interrupter = do {
     found \<leftarrow> find_xhc conf st [0..<num_device st] None;
     case found of None \<Rightarrow> Some (Exit 1)
     | Some xhc_dev \<Rightarrow> do {
         let bsp_local_apic_id = ucast (drop_bit 24 apic_id_reg);
         (err, msi_writes) \<leftarrow> ConfigureMSIFixedDestination conf xhc_dev bsp_local_apic_id kLevel kFixed (of_nat kXHCI_vector) 0;
         let xhc_bar = ReadBar conf xhc_dev 0;
         let xhc_mmio_base = we_value xhc_bar AND NOT 0xf;
         let xhc = regs xhc_mmio_base;
         switch_writes \<leftarrow> (if 0x8086 = ReadVendorId conf (bus xhc_dev) (device xhc_dev) (func xhc_dev)
           then SwitchEhci2Xhci conf st xhc_dev else Some []);
         (err, xhc) \<leftarrow> Controller_Initialize env hw primary_interrupter xhc;
         if err \<noteq> kSuccess then Some (Exit 1)
         else do {
           (err, xhc) \<leftarrow> Controller_Run hw xhc;
           xhc \<leftarrow> configure_ports hw xhc;
           Some (Running xhc (msi_writes @ switch_writes))
         }
       }
   }"

subsection \<open>The controller that is chosen\<close>

definition is_xhc :: "Pci.Device \<Rightarrow> bool" where
  "is_xhc dev = Match3 0x0c 0x03 0x30 (class_code dev)"

definition is_intel :: "config_space \<Rightarrow> Pci.Device \<Rightarrow> bool" where
  "is_intel conf dev \<longleftrightarrow> ReadVendorId conf (bus dev) (device dev) (func dev) = 0x8086"

lemma find_xhc_eq:
  assumes "\<forall>i \<in> set is. i < length (devices st)"
  shows "find_xhc conf st is d = Some (case find (\<lambda>dev. is_xhc dev \<and> is_intel conf dev) (map (\<lambda>i. devices st ! i) is) of
     Some dev \<Rightarrow> Some dev
   | None \<Rightarrow> (case filter is_xhc (map (\<lambda>i. devices st ! i) is) of [] \<Rightarrow> d | xs \<Rightarrow> Some (last xs)))"
  using assms
proof (induction "is" arbitrary: d)
  case (Cons i js)
  then have g: "arr_get (devices st) i = Some (devices st ! i)" by (simp add: arr_get_def)
  show ?case using Cons by (auto simp: g is_xhc_def is_intel_def split: option.splits list.splits)
qed simp

text \<open>\<open>Initialize\<close> picks the first Intel host controller of the scan, and the last one found of another
  vendor when there is no Intel one; it gives up with \<open>exit(1)\<close> exactly when the scan found none.\<close>

theorem find_xhc_choice:
  assumes "pci_ok st"
  shows "find_xhc conf st [0..<num_device st] None = Some
    (case find (\<lambda>dev. is_xhc dev \<and> is_intel conf dev) (take (num_device st) (devices st)) of
       Some dev \<Rightarrow> Some dev
     | None \<Rightarrow> (case filter is_xhc (take (num_device st) (devices st)) of [] \<Rightarrow> None | xs \<Rightarrow> Some (last xs))) \<and>
   (Initialize env hw conf st apic regs ir = Some (Exit 1) \<or> (\<exists>dev \<in> set (take (num_device st) (devices st)). is_xhc dev))"
proof -
  have le: "num_device st \<le> length (devices st)" using assms by (simp add: pci_ok_def)
  have m: "map (\<lambda>i. devices st ! i) [0..<num_device st] = take (num_device st) (devices st)"
    using le by (simp add: list_eq_iff_nth_eq)
  have f: "find_xhc conf st [0..<num_device st] None = Some
    (case find (\<lambda>dev. is_xhc dev \<and> is_intel conf dev) (take (num_device st) (devices st)) of
       Some dev \<Rightarrow> Some dev
     | None \<Rightarrow> (case filter is_xhc (take (num_device st) (devices st)) of [] \<Rightarrow> None | xs \<Rightarrow> Some (last xs)))"
    using find_xhc_eq [of "[0..<num_device st]" st conf None, unfolded m] le by simp
  have "Initialize env hw conf st apic regs ir = Some (Exit 1)"
    if "\<not> (\<exists>dev \<in> set (take (num_device st) (devices st)). is_xhc dev)"
  proof -
    have "find (\<lambda>dev. is_xhc dev \<and> is_intel conf dev) (take (num_device st) (devices st)) = None"
      using that by (auto simp: find_None_iff)
    moreover have "filter is_xhc (take (num_device st) (devices st)) = []" using that by (simp add: filter_empty_conv)
    ultimately show ?thesis using f by (simp add: Initialize_def)
  qed
  with f show ?thesis by blast
qed

definition example_xhc :: "u8 \<Rightarrow> Pci.Device" where
  "example_xhc d = \<lparr>bus = 0, device = d, func = 0, header_type = 0, class_code = \<lparr>cc_base = 0x0c, cc_sub = 3, cc_interface = 0x30\<rparr>\<rparr>"

theorem find_xhc_choice_witness:
  "find_xhc (\<lambda>_. 0x1234) \<lparr>devices = [example_xhc 1, example_xhc 2] @ replicate 30 (example_xhc 3), num_device = 2\<rparr> [0..<2] None
     = Some (Some (example_xhc 2))"
  using find_xhc_choice [of "\<lparr>devices = [example_xhc 1, example_xhc 2] @ replicate 30 (example_xhc 3), num_device = 2\<rparr>" "\<lambda>_. 0x1234"]
  by (simp add: pci_ok_def kMaxDevices_def is_xhc_def is_intel_def example_xhc_def Match3_def Match2_def Match1_def ReadVendorId_def)

subsection \<open>The ports after the start\<close>

text \<open>The phases once the ports below \<open>i\<close> were visited, \<open>conn\<close> the ones with a device.\<close>

definition start_view :: "(nat \<Rightarrow> bool) \<Rightarrow> nat \<Rightarrow> phase_view" where
  "start_view conn i =
     (\<lambda>p. if unat p \<in> {1..<i} \<and> conn (unat p)
          then (if find conn [1..<i] = Some (unat p) then kResettingPort else kWaitingAddressed) else kNotConnected,
      case find conn [1..<i] of None \<Rightarrow> 0 | Some j \<Rightarrow> of_nat j)"

lemma find_snoc: "find P (xs @ [x]) = (case find P xs of Some y \<Rightarrow> Some y | None \<Rightarrow> if P x then Some x else None)"
  by (induction xs) auto

lemma start_view_skip: "1 \<le> i \<Longrightarrow> \<not> conn i \<Longrightarrow> start_view conn (Suc i) = start_view conn i"
  by (auto simp: start_view_def find_snoc fun_eq_iff less_Suc_eq split: option.splits)

lemma unat_port: "i < 256 \<Longrightarrow> unat (of_nat i :: u8) = i"
  by (simp add: unat_of_nat take_bit_nat_eq_self)

lemma start_view_first:
  assumes "1 \<le> i" "i < 256" "conn i" "find conn [1..<i] = None"
  shows "start_view conn (Suc i) = ((fst (start_view conn i))(of_nat i := kResettingPort), of_nat i)"
proof -
  have n: "\<not> conn j" if "j \<in> {1..<i}" for j using assms(4) that by (auto simp: find_None_iff)
  have i: "unat (of_nat i :: u8) = i" using assms(2) by (rule unat_port)
  then have u: "unat p = i \<longleftrightarrow> p = of_nat i" for p :: u8 by auto
  show ?thesis using assms n
    by (auto simp: start_view_def find_snoc fun_eq_iff less_Suc_eq u i)
qed

lemma start_view_wait:
  assumes "1 \<le> i" "i < 256" "conn i" "find conn [1..<i] = Some j"
  shows "start_view conn (Suc i) = ((fst (start_view conn i))(of_nat i := kWaitingAddressed), of_nat j)"
proof -
  have n: "j < i" using assms(4) by (auto simp: find_Some_iff)
  have i: "unat (of_nat i :: u8) = i" using assms(2) by (rule unat_port)
  then have u: "unat p = i \<longleftrightarrow> p = of_nat i" for p :: u8 by auto
  show ?thesis using assms n
    by (auto simp: start_view_def find_snoc fun_eq_iff less_Suc_eq u i)
qed

lemma Port_Reset_returns:
  assumes "\<exists>n. get_field PORTSC_Bitmap ''port_reset'' (PORTSC ((hw ^^ n) (p\<lparr>PORTSC := Port_Reset_value (PORTSC p)\<rparr>))) = 0"
  shows "\<exists>q. Port_Reset hw p = Some (kSuccess, q)"
proof -
  from assms obtain n where
    "get_field PORTSC_Bitmap ''port_reset'' (PORTSC ((hw ^^ n) (p\<lparr>PORTSC := Port_Reset_value (PORTSC p)\<rparr>))) = 0" ..
  from poll_returns [of "\<lambda>p. get_field PORTSC_Bitmap ''port_reset'' (PORTSC p) = 0", OF this]
  show ?thesis by (auto simp: Port_Reset_def)
qed

text \<open>One turn of the loop, on a port whose registers are still the initial ones.\<close>

lemma configure_step:
  assumes v: "phase_view c = start_view conn i" and i: "1 \<le> i" "i < 256" "i \<le> length (xhc_ports c)"
    and p: "xhc_ports c ! (i - 1) = p" "conn i = Port_IsConnected p"
    and r: "Port_IsConnected p \<Longrightarrow> \<exists>q. Port_Reset (hw_port hw) p = Some (kSuccess, q)"
  shows "\<exists>c'. configure_if_connected hw i c = Some c' \<and> phase_view c' = start_view conn (Suc i) \<and>
    length (xhc_ports c') = length (xhc_ports c) \<and> (\<forall>j > i. xhc_ports c' ! (j - 1) = xhc_ports c ! (j - 1))"
proof -
  have u: "unat (of_nat i :: u8) = i" using i(2) by (rule unat_port)
  have nz: "(of_nat i :: u8) \<noteq> 0" using u i(1) by auto
  have at: "PortAt (of_nat i) c = Some p" using i p(1) u nz by (simp add: PortAt_def arr_get_def)
  have nc: "port_config_phase c (of_nat i) = kNotConnected"
    using v u by (auto simp: phase_view_def start_view_def)
  show ?thesis
  proof (cases "Port_IsConnected p")
    case False
    then show ?thesis using at v p(2) i by (simp add: configure_if_connected_def start_view_skip)
  next
    case True
    then obtain q where q: "Port_Reset (hw_port hw) p = Some (kSuccess, q)" using r by blast
    show ?thesis
    proof (cases "find conn [1..<i]")
      case None
      then have a: "addressing_port c = 0" using v by (simp add: phase_view_def start_view_def)
      let ?c = "set_port (of_nat i) q (set_phase (of_nat i) kResettingPort (c\<lparr>addressing_port := of_nat i\<rparr>))"
      have "configure_if_connected hw i c = Some ?c"
        using True at nc q a by (simp add: configure_if_connected_def ConfigurePort_def ResetPort_def)
      moreover have "phase_view ?c = start_view conn (Suc i)" using start_view_first [of i conn] p(2) True i None v by simp
      ultimately show ?thesis using u i(1) by (auto simp: set_port_def set_phase_def nth_list_update)
    next
      case (Some j)
      then have j: "j \<in> {1..<i}" by (auto simp: find_Some_iff)
      then have "unat (of_nat j :: u8) = j" using i by (intro unat_port) auto
      then have "(of_nat j :: u8) \<noteq> 0" using j by auto
      then have "addressing_port c = of_nat j" "addressing_port c \<noteq> 0" using v Some by (simp_all add: phase_view_def start_view_def)
      moreover from this have "configure_if_connected hw i c = Some (set_phase (of_nat i) kWaitingAddressed c)"
        using True at nc by (simp add: configure_if_connected_def ConfigurePort_def ResetPort_def)
      moreover have "phase_view (set_phase (of_nat i) kWaitingAddressed c) = start_view conn (Suc i)"
        using start_view_wait [of i conn j] p(2) True i Some v calculation(1)
        by (simp add: start_view_def)
      ultimately show ?thesis by (simp add: set_phase_def)
    qed
  qed
qed

text \<open>C39: on hardware that ends a port reset, the port loop of \<open>Initialize\<close> returns; it resets the first
  connected port and makes it the addressing port, leaves every other connected port waiting for its turn
  and the unconnected ones untouched.\<close>

theorem configure_ports_starts:
  assumes "phase_view c = (\<lambda>_. kNotConnected, 0)" and "length (xhc_ports c) < 256"
    and "\<forall>p \<in> set (xhc_ports c). \<exists>n. get_field PORTSC_Bitmap ''port_reset''
        (PORTSC ((hw_port hw ^^ n) (p\<lparr>PORTSC := Port_Reset_value (PORTSC p)\<rparr>))) = 0"
  shows "\<exists>c'. configure_ports hw c = Some c' \<and> phase_view c' =
    start_view (\<lambda>i. Port_IsConnected (xhc_ports c ! (i - 1))) (Suc (length (xhc_ports c)))"
proof -
  let ?conn = "\<lambda>i. Port_IsConnected (xhc_ports c ! (i - 1))" and ?n = "length (xhc_ports c)"
  let ?P = "\<lambda>i c'. phase_view c' = start_view ?conn i \<and> length (xhc_ports c') = ?n \<and>
    (\<forall>j \<ge> i. xhc_ports c' ! (j - 1) = xhc_ports c ! (j - 1))"
  have "\<exists>c'. foldM (configure_if_connected hw) [1..<Suc ?n] c = Some c' \<and> ?P (Suc ?n) c'"
  proof (rule foldM_upt_invariant)
    show "?P 1 c" using assms(1) by (simp add: start_view_def)
    show "\<exists>c'. configure_if_connected hw i s = Some c' \<and> ?P (Suc i) c'" if h: "1 \<le> i" "i < Suc ?n" "?P i s" for i s
    proof -
      have "xhc_ports c ! (i - 1) \<in> set (xhc_ports c)" using that by (intro nth_mem) simp
      then have "\<exists>q. Port_Reset (hw_port hw) (xhc_ports c ! (i - 1)) = Some (kSuccess, q)"
        using assms(3) by (intro Port_Reset_returns) blast
      then obtain c' where c': "configure_if_connected hw i s = Some c'" "phase_view c' = start_view ?conn (Suc i)"
          "length (xhc_ports c') = length (xhc_ports s)" "\<forall>j > i. xhc_ports c' ! (j - 1) = xhc_ports s ! (j - 1)"
        using h assms(2) configure_step [of s ?conn i "xhc_ports c ! (i - 1)" hw] by auto
      then show ?thesis using that(3) by simp
    qed
  qed simp
  then show ?thesis unfolding configure_ports_def by blast
qed

theorem configure_ports_starts_witness:
  "\<exists>c'. configure_ports example_hw example_controller = Some c' \<and> addressing_port c' = 1 \<and>
     port_config_phase c' 1 = kResettingPort \<and> port_config_phase c' 2 = kWaitingAddressed"
proof -
  let ?p = "\<lparr>PORTSC = 1, PORTPMSC = 0, PORTLI = 0, PORTHLPMC = 0\<rparr>"
  have r: "get_field PORTSC_Bitmap ''port_reset'' (PORTSC ((hw_port example_hw ^^ 1) (?p\<lparr>PORTSC := Port_Reset_value (PORTSC ?p)\<rparr>))) = 0"
    by (simp add: example_hw_def Port_Reset_value_def get_field_def PORTSC_Bitmap_def bf_get_def)
  then have r': "\<exists>n. get_field PORTSC_Bitmap ''port_reset'' (PORTSC ((hw_port example_hw ^^ n) (?p\<lparr>PORTSC := Port_Reset_value (PORTSC ?p)\<rparr>))) = 0" ..
  have h: "phase_view example_controller = (\<lambda>_. kNotConnected, 0)"
    by (simp add: phase_view_def example_controller_def Controller_new_def)
  have "\<exists>c'. configure_ports example_hw example_controller = Some c' \<and> phase_view c' =
     start_view (\<lambda>i. Port_IsConnected (xhc_ports example_controller ! (i - 1))) (Suc (length (xhc_ports example_controller)))"
    by (rule configure_ports_starts [OF h])
      (use r' in \<open>simp_all add: example_ports del: funpow.simps\<close>)
  then obtain c' where c': "configure_ports example_hw example_controller = Some c'" "phase_view c' =
     start_view (\<lambda>i. Port_IsConnected (xhc_ports example_controller ! (i - 1))) 3" by (auto simp: example_ports)
  have conn: "Port_IsConnected ?p" by (simp add: Port_IsConnected_def get_field_def PORTSC_Bitmap_def bf_get_def)
  have "[Suc 0..<3] = [1, 2]" by (simp add: upt_rec)
  then have "start_view (\<lambda>i. Port_IsConnected (xhc_ports example_controller ! (i - 1))) 3 =
     (fst (start_view (\<lambda>i. Port_IsConnected (xhc_ports example_controller ! (i - 1))) 3), 1)"
    "fst (start_view (\<lambda>i. Port_IsConnected (xhc_ports example_controller ! (i - 1))) 3) 1 = kResettingPort"
    "fst (start_view (\<lambda>i. Port_IsConnected (xhc_ports example_controller ! (i - 1))) 3) 2 = kWaitingAddressed"
    using conn by (simp_all add: start_view_def example_ports)
  then show ?thesis using c' by (metis phase_view_def fst_conv snd_conv)
qed

end
