(* ===== verification/Byte_Memory.thy ===== *)
theory Byte_Memory
  imports Kernel_Prelude
begin

text \<open>
  Structures in physical memory: the memory as the program reads it is a function from addresses to
  bytes, a packed structure is the list of its members with their sizes, and a member of several bytes is
  little-endian. Used for the tables and volumes the firmware leaves in memory (ACPI tables, the FAT boot
  volume, ELF images).
\<close>

type_synonym memory = "u64 \<Rightarrow> u8"
type_synonym struct = "(string \<times> nat) list"

primrec load_le :: "memory \<Rightarrow> u64 \<Rightarrow> nat \<Rightarrow> u64" where
  "load_le mem a 0 = 0"
| "load_le mem a (Suc n) = ucast (mem a) OR push_bit 8 (load_le mem (a + 1) n)"

definition load_bytes :: "memory \<Rightarrow> u64 \<Rightarrow> nat \<Rightarrow> u8 list" where
  "load_bytes mem a n = map (\<lambda>i. mem (a + of_nat i)) [0..<n]"

fun member_pos :: "struct \<Rightarrow> string \<Rightarrow> nat \<times> nat" where
  "member_pos [] f = (0, 0)"
| "member_pos ((g, n) # s) f = (if f = g then (0, n) else (let (off, k) = member_pos s f in (n + off, k)))"

definition sizeof :: "struct \<Rightarrow> nat" where
  "sizeof s = sum_list (map snd s)"

definition get_member :: "struct \<Rightarrow> string \<Rightarrow> memory \<Rightarrow> u64 \<Rightarrow> u64" where
  "get_member s f mem a = (let (off, n) = member_pos s f in load_le mem (a + of_nat off) n)"

definition member_bytes :: "struct \<Rightarrow> string \<Rightarrow> memory \<Rightarrow> u64 \<Rightarrow> u8 list" where
  "member_bytes s f mem a = (let (off, n) = member_pos s f in load_bytes mem (a + of_nat off) n)"

text \<open>Placing bytes in memory.\<close>

definition mem_put :: "u64 \<Rightarrow> u8 list \<Rightarrow> memory \<Rightarrow> memory" where
  "mem_put a bs mem = (\<lambda>x. if unat (x - a) < length bs then bs ! unat (x - a) else mem x)"

lemma load_le_numeral [simp]:
  "load_le mem a (numeral k) = ucast (mem a) OR push_bit 8 (load_le mem (a + 1) (pred_numeral k))"
  by (simp add: numeral_eq_Suc)

lemma length_load_bytes [simp]: "length (load_bytes mem a n) = n"
  by (simp add: load_bytes_def)

lemma nth_load_bytes [simp]: "i < n \<Longrightarrow> load_bytes mem a n ! i = mem (a + of_nat i)"
  by (simp add: load_bytes_def)

lemma load_le_cong: "(\<And>i. i < n \<Longrightarrow> m (a + of_nat i) = m' (a + of_nat i)) \<Longrightarrow> load_le m a n = load_le m' a n"
proof (induction n arbitrary: a)
  case (Suc n)
  have "m a = m' a" using Suc.prems [of 0] by simp
  moreover have "load_le m (a + 1) n = load_le m' (a + 1) n"
  proof (rule Suc.IH)
    show "m (a + 1 + of_nat i) = m' (a + 1 + of_nat i)" if "i < n" for i
      using Suc.prems [of "Suc i"] that by (simp add: algebra_simps)
  qed
  ultimately show ?case by simp
qed simp

lemma load_bytes_cong: "(\<And>i. i < n \<Longrightarrow> m (a + of_nat i) = m' (a + of_nat i)) \<Longrightarrow> load_bytes m a n = load_bytes m' a n"
  by (simp add: load_bytes_def)

lemma unat_of_nat_u64: "i < 2 ^ 64 \<Longrightarrow> unat (of_nat i :: u64) = i"
  by (simp add: unat_of_nat take_bit_nat_eq_self)

lemma mem_put_nth:
  assumes "i < length bs" and "length bs \<le> 2 ^ 64"
  shows "mem_put a bs mem (a + of_nat i) = bs ! i"
proof -
  have "unat (a + of_nat i - a :: u64) = i" using unat_of_nat_u64 [OF less_le_trans [OF assms]] by simp
  then show ?thesis using assms(1) by (simp add: mem_put_def)
qed

lemma load_bytes_put: "length bs \<le> 2 ^ 64 \<Longrightarrow> load_bytes (mem_put a bs mem) a (length bs) = bs"
  by (rule nth_equalityI) (simp_all only: length_load_bytes nth_load_bytes mem_put_nth)

lemma load_le_bound: "n \<le> 8 \<Longrightarrow> unat (load_le mem a n) < 2 ^ (8 * n)"
proof (induction n arbitrary: a)
  case (Suc n)
  let ?r = "load_le mem (a + 1) n"
  have r: "unat ?r < 2 ^ (8 * n)" using Suc by simp
  have b: "\<not> bit ?r k" if "8 * n \<le> k" for k
  proof -
    have "?r = take_bit (8 * n) ?r" using r by (simp add: word_unat_eq_iff unsigned_take_bit_eq take_bit_nat_eq_self)
    then show ?thesis using that by (metis bit_take_bit_iff not_le)
  qed
  have "take_bit (8 * Suc n) (load_le mem a (Suc n)) = load_le mem a (Suc n)"
  proof (rule bit_word_eqI)
    fix k assume "k < LENGTH(64)"
    show "bit (take_bit (8 * Suc n) (load_le mem a (Suc n))) k = bit (load_le mem a (Suc n)) k"
      using b [of "k - 8"] by (cases "k < 8 * Suc n") (auto simp: bit_simps dest: bit_imp_le_length)
  qed
  then have "unat (load_le mem a (Suc n)) = take_bit (8 * Suc n) (unat (load_le mem a (Suc n)))" by (metis unsigned_take_bit_eq)
  then show ?case by (metis take_bit_nat_less_exp)
qed simp

lemma get_member_bound:
  assumes "snd (member_pos s f) \<le> 4"
  shows "unat (get_member s f mem a) < 2 ^ 32"
proof -
  let ?n = "snd (member_pos s f)"
  have "unat (load_le mem (a + of_nat (fst (member_pos s f))) ?n) < 2 ^ (8 * ?n)" using assms by (intro load_le_bound) simp
  also have "\<dots> \<le> 2 ^ 32" using assms by (intro power_increasing) auto
  finally show ?thesis by (simp add: get_member_def split_def Let_def)
qed

end
