(* ===== verification/Acpi.thy ===== *)
theory Acpi
  imports Byte_Memory
begin

text \<open>
  \<open>src/kernel/acpi.hpp\<close> and \<open>acpi.cpp\<close>: checksums of the ACPI tables, the search for the FADT and the
  busy wait on the power-management timer. The tables are bytes of physical memory; the readings of the
  timer port are a sequence, one value for each execution of \<open>IoIn32\<close>.
\<close>

subsection \<open>Tables\<close>

definition RSDP :: struct where
  "RSDP = [(''signature'', 8), (''checksum'', 1), (''oem_id'', 6), (''revision'', 1), (''rsdt_address'', 4),
     (''length'', 4), (''xsdt_address'', 8), (''extended_checksum'', 1), (''reserved'', 3)]"

definition DescriptionHeader :: struct where
  "DescriptionHeader = [(''signature'', 4), (''length'', 4), (''revision'', 1), (''checksum'', 1), (''oem_id'', 6),
     (''oem_table_id'', 8), (''oem_revision'', 4), (''creator_id'', 4), (''creator_revision'', 4)]"

definition FADT :: struct where
  "FADT = [(''header'', 36), (''reserved1'', 40), (''pm_tmr_blk'', 4), (''reserved2'', 32), (''flags'', 4), (''reserved3'', 160)]"

definition kPMTimerFreq :: u64 where "kPMTimerFreq = 3579545"

definition SumBytes :: "memory \<Rightarrow> u64 \<Rightarrow> nat \<Rightarrow> u8" where
  "SumBytes mem data n = fold (\<lambda>i sum. sum + mem (data + of_nat i)) [0..<n] 0"

text \<open>\<open>strncmp(xs, ys, n) == 0\<close>.\<close>

fun strncmp_eq :: "u8 list \<Rightarrow> u8 list \<Rightarrow> nat \<Rightarrow> bool" where
  "strncmp_eq xs ys 0 = True"
| "strncmp_eq (x # xs) (y # ys) (Suc n) = (x = y \<and> (x = 0 \<or> strncmp_eq xs ys n))"
| "strncmp_eq xs ys (Suc n) = False"

definition ascii_bytes :: "string \<Rightarrow> u8 list" where
  "ascii_bytes s = map (\<lambda>c. of_nat (of_char c)) s"

definition RSDP_IsValid :: "memory \<Rightarrow> u64 \<Rightarrow> bool" where
  "RSDP_IsValid mem p =
     (if \<not> strncmp_eq (member_bytes RSDP ''signature'' mem p) (ascii_bytes ''RSD PTR '') 8 then False
      else if get_member RSDP ''revision'' mem p \<noteq> 2 then False
      else if SumBytes mem p 20 \<noteq> 0 then False
      else if SumBytes mem p 36 \<noteq> 0 then False
      else True)"

definition table_length :: "memory \<Rightarrow> u64 \<Rightarrow> nat" where
  "table_length mem p = unat (get_member DescriptionHeader ''length'' mem p)"

definition DescriptionHeader_IsValid :: "string \<Rightarrow> memory \<Rightarrow> u64 \<Rightarrow> bool" where
  "DescriptionHeader_IsValid expected_signature mem p =
     (if \<not> strncmp_eq (member_bytes DescriptionHeader ''signature'' mem p) (ascii_bytes expected_signature) 4 then False
      else if SumBytes mem p (table_length mem p) \<noteq> 0 then False
      else True)"

text \<open>\<open>XSDT::operator[]\<close>: the address of the table.\<close>

definition XSDT_entry :: "memory \<Rightarrow> u64 \<Rightarrow> nat \<Rightarrow> u64" where
  "XSDT_entry mem xsdt i = load_le mem (xsdt + of_nat (sizeof DescriptionHeader) + of_nat (8 * i)) 8"

definition XSDT_Count :: "memory \<Rightarrow> u64 \<Rightarrow> u64" where
  "XSDT_Count mem xsdt = (get_member DescriptionHeader ''length'' mem xsdt - of_nat (sizeof DescriptionHeader)) div 8"

text \<open>The outcome: \<open>exit(1)\<close>, or the address in \<open>fadt\<close>; \<open>None\<close>: the \<open>int\<close> counter of the search overflows.\<close>

datatype acpi_result = Exit int | Fadt u64

definition acpi_Initialize :: "memory \<Rightarrow> u64 \<Rightarrow> acpi_result option" where
  "acpi_Initialize mem rsdp =
     (if \<not> RSDP_IsValid mem rsdp then Some (Exit 1)
      else let xsdt = get_member RSDP ''xsdt_address'' mem rsdp
        in if \<not> DescriptionHeader_IsValid ''XSDT'' mem xsdt then Some (Exit 1)
           else let n = unat (XSDT_Count mem xsdt)
             in case find (\<lambda>i. DescriptionHeader_IsValid ''FACP'' mem (XSDT_entry mem xsdt i)) [0..<min n (2 ^ 31)] of
                  Some i \<Rightarrow> Some (Fadt (XSDT_entry mem xsdt i))
                | None \<Rightarrow> if n \<ge> 2 ^ 31 then None else Some (Exit 1))"

subsection \<open>Waiting\<close>

text \<open>\<open>while (P(IoIn32(port)));\<close> from the \<open>k\<close>-th reading on; the result is the number of readings so far.\<close>

partial_function (option) wait_while :: "(u32 \<Rightarrow> bool) \<Rightarrow> (nat \<Rightarrow> u32) \<Rightarrow> nat \<Rightarrow> nat option" where
  "wait_while P rd k = (if P (rd k) then wait_while P rd (Suc k) else Some (Suc k))"

definition WaitMilliseconds :: "u32 \<Rightarrow> (nat \<Rightarrow> u32) \<Rightarrow> u64 \<Rightarrow> nat option" where
  "WaitMilliseconds flags rd msec =
     (let pm_timer_32 = drop_bit 8 flags AND 1 \<noteq> 0;
          start = rd 0;
          end' = ucast (ucast start + kPMTimerFreq * msec div 1000) :: u32;
          end' = (if \<not> pm_timer_32 then end' AND 0x00ffffff else end')
      in do {
        k \<leftarrow> (if end' < start then wait_while (\<lambda>v. v \<ge> start) rd 1 else Some 1);
        wait_while (\<lambda>v. v < end') rd k
      })"

subsection \<open>Checksums\<close>

lemma strncmp_eq_numeral [simp]:
  "strncmp_eq (x # xs) (y # ys) (numeral k) \<longleftrightarrow> x = y \<and> (x = 0 \<or> strncmp_eq xs ys (pred_numeral k))"
  by (simp add: numeral_eq_Suc)

lemma SumBytes_sum: "SumBytes mem p n = (\<Sum>i < n. mem (p + of_nat i))"
  by (induction n) (simp_all add: SumBytes_def lessThan_Suc add.commute)

lemma offset_inject:
  fixes p :: u64
  assumes "i < 2 ^ 64" "j < 2 ^ 64"
  shows "p + of_nat i = p + of_nat j \<longleftrightarrow> i = j"
  using unat_of_nat_u64 [OF assms(1)] unat_of_nat_u64 [OF assms(2)] by (metis add_left_cancel)

lemma table_length_bound: "table_length mem p < 2 ^ 32"
  using load_le_bound [of 4 mem "p + 4"] by (simp add: table_length_def get_member_def DescriptionHeader_def)

text \<open>C34: a table whose checksum is right is rejected after any change of a single byte of it outside its
  length field, wherever the byte is.\<close>

theorem corrupted_table_rejected:
  assumes "DescriptionHeader_IsValid sig mem p" and "i < table_length mem p" and "i \<notin> {4..<8}"
    and "v \<noteq> mem (p + of_nat i)"
  shows "\<not> DescriptionHeader_IsValid sig (mem(p + of_nat i := v)) p"
proof -
  let ?mem = "mem(p + of_nat i := v)" and ?n = "table_length mem p"
  have i: "i < 2 ^ 64" using assms(2) table_length_bound [of mem p] by simp
  have off: "?mem (p + of_nat j) = (if j = i then v else mem (p + of_nat j))" if "j < 2 ^ 64" for j
    using offset_inject [OF that i, of p] by simp
  have "load_le ?mem (p + 4) 4 = load_le mem (p + 4) 4"
  proof (rule load_le_cong)
    show "?mem (p + 4 + of_nat j) = mem (p + 4 + of_nat j)" if "j < 4" for j
    proof -
      have "4 + j \<noteq> i" using that assms(3) by auto
      then have "?mem (p + of_nat (4 + j)) = mem (p + of_nat (4 + j))" using off [of "4 + j"] that by simp
      then show ?thesis by (simp only: of_nat_add of_nat_numeral add.assoc)
    qed
  qed
  then have len: "table_length ?mem p = ?n" by (simp add: table_length_def get_member_def DescriptionHeader_def)
  have "(\<Sum>j < ?n. ?mem (p + of_nat j)) = (\<Sum>j < ?n. if j = i then v else mem (p + of_nat j))"
  proof (rule sum.cong [OF refl])
    fix j assume "j \<in> {..<?n}"
    then have "j < 2 ^ 64" using table_length_bound [of mem p] by simp
    then show "?mem (p + of_nat j) = (if j = i then v else mem (p + of_nat j))" by (rule off)
  qed
  also have "\<dots> = v + (\<Sum>j \<in> {..<?n} - {i}. mem (p + of_nat j))"
    using assms(2) by (subst sum.remove [of _ i]) auto
  also have "\<dots> = v - mem (p + of_nat i) + (\<Sum>j < ?n. mem (p + of_nat j))"
    using assms(2) by (subst (2) sum.remove [of _ i]) auto
  finally have "SumBytes ?mem p ?n = v - mem (p + of_nat i) + SumBytes mem p ?n" by (simp add: SumBytes_sum)
  moreover have "SumBytes mem p ?n = 0" using assms(1) by (simp add: DescriptionHeader_IsValid_def split: if_splits)
  ultimately have "SumBytes ?mem p (table_length ?mem p) \<noteq> 0" using assms(4) by (simp add: len)
  then show ?thesis by (simp add: DescriptionHeader_IsValid_def)
qed

definition example_table :: memory where
  "example_table = mem_put 0x1000 [0x46, 0x41, 0x43, 0x50, 9, 0, 0, 0, 221] (\<lambda>_. 0)"

theorem corrupted_table_rejected_witness:
  "DescriptionHeader_IsValid ''FACP'' example_table 0x1000 \<and>
   \<not> DescriptionHeader_IsValid ''FACP'' (example_table(0x1008 := 220)) 0x1000"
proof -
  have len: "table_length example_table 0x1000 = 9"
    by (simp add: table_length_def get_member_def DescriptionHeader_def example_table_def mem_put_def)
  have "load_bytes example_table 0x1000 4 = [0x46, 0x41, 0x43, 0x50]"
    by (simp add: load_bytes_def example_table_def mem_put_def upt_rec [of _ 4])
  moreover have "SumBytes example_table 0x1000 9 = 0"
    by (simp add: SumBytes_def example_table_def mem_put_def upt_rec [of _ 9])
  ultimately have v: "DescriptionHeader_IsValid ''FACP'' example_table 0x1000"
    by (simp add: DescriptionHeader_IsValid_def len member_bytes_def DescriptionHeader_def ascii_bytes_def)
  have "example_table 0x1008 = 221" by (simp add: example_table_def mem_put_def)
  then show ?thesis using corrupted_table_rejected [OF v, of 8 220] v by (simp add: len)
qed

text \<open>The search for the FADT: it ends, since the length of a table has 32 bits, and finds the first table with
  the right signature and checksum.\<close>

lemma XSDT_Count_bound:
  assumes "36 \<le> table_length mem xsdt"
  shows "unat (XSDT_Count mem xsdt) = (table_length mem xsdt - 36) div 8"
proof -
  let ?l = "get_member DescriptionHeader ''length'' mem xsdt"
  have "(36 :: u64) \<le> ?l" using assms by (simp add: table_length_def word_le_nat_alt)
  then have "unat (?l - 36) = unat ?l - 36" by (simp add: unat_sub)
  then show ?thesis by (simp add: XSDT_Count_def table_length_def DescriptionHeader_def sizeof_def unat_div)
qed

text \<open>when the tables of the firmware are well-formed, \<open>acpi::Initialize\<close> ends, sets \<open>fadt\<close> to the first
  entry of the XSDT that is a valid table with signature FACP, and calls \<open>exit(1)\<close> only when there is none.\<close>

theorem acpi_Initialize_finds_FADT:
  assumes "RSDP_IsValid mem rsdp" and "xsdt = get_member RSDP ''xsdt_address'' mem rsdp"
    and "DescriptionHeader_IsValid ''XSDT'' mem xsdt" and "36 \<le> table_length mem xsdt"
  shows "acpi_Initialize mem rsdp =
    Some (case filter (DescriptionHeader_IsValid ''FACP'' mem) (map (XSDT_entry mem xsdt) [0..<(table_length mem xsdt - 36) div 8]) of
      [] \<Rightarrow> Exit 1 | a # _ \<Rightarrow> Fadt a)"
proof -
  let ?n = "(table_length mem xsdt - 36) div 8" and ?V = "DescriptionHeader_IsValid ''FACP'' mem"
  have n: "unat (XSDT_Count mem xsdt) = ?n" using assms(4) by (rule XSDT_Count_bound)
  have lt: "?n < 2 ^ 31" using table_length_bound [of mem xsdt] by simp
  have "(case find (\<lambda>i. ?V (XSDT_entry mem xsdt i)) xs of Some i \<Rightarrow> Some (Fadt (XSDT_entry mem xsdt i)) | None \<Rightarrow> Some (Exit 1)) =
    Some (case filter ?V (map (XSDT_entry mem xsdt) xs) of [] \<Rightarrow> Exit 1 | a # _ \<Rightarrow> Fadt a)" for xs
    by (induction xs) auto
  moreover have "acpi_Initialize mem rsdp = (case find (\<lambda>i. ?V (XSDT_entry mem xsdt i)) [0..<?n] of
      Some i \<Rightarrow> Some (Fadt (XSDT_entry mem xsdt i)) | None \<Rightarrow> Some (Exit 1))"
    unfolding acpi_Initialize_def Let_def assms(2) [symmetric] n using assms(1,3) lt by (simp add: min_absorb1)
  ultimately show ?thesis by simp
qed

definition example_firmware :: memory where
  "example_firmware = mem_put 0x3000 ([88, 83, 68, 84, 44, 0, 0, 0, 0, 129] @ replicate 26 0 @ [0, 0x10, 0, 0, 0, 0, 0, 0])
     (mem_put 0x2000 ([82, 83, 68, 32, 80, 84, 82, 32, 223, 0, 0, 0, 0, 0, 0, 2, 0, 0, 0, 0, 36, 0, 0, 0,
        0, 0x30, 0, 0, 0, 0, 0, 0, 172, 0, 0, 0]) example_table)"

theorem acpi_Initialize_finds_FADT_witness: "acpi_Initialize example_firmware 0x2000 = Some (Fadt 0x1000)"
proof -
  have l: "table_length example_firmware 0x3000 = 44"
    by (simp add: table_length_def get_member_def DescriptionHeader_def example_firmware_def mem_put_def)
  have x: "get_member RSDP ''xsdt_address'' example_firmware 0x2000 = 0x3000"
    by (simp add: get_member_def RSDP_def example_firmware_def mem_put_def)
  have "load_bytes example_firmware 0x2000 8 = [82, 83, 68, 32, 80, 84, 82, 32]"
    by (simp add: load_bytes_def example_firmware_def mem_put_def upt_rec [of _ 8])
  moreover have "SumBytes example_firmware 0x2000 20 = 0"
    by (simp add: SumBytes_def example_firmware_def mem_put_def upt_rec [of _ 20])
  moreover have "SumBytes example_firmware 0x2000 36 = 0"
    by (simp add: SumBytes_def example_firmware_def mem_put_def upt_rec [of _ 36])
  moreover have "get_member RSDP ''revision'' example_firmware 0x2000 = 2"
    by (simp add: get_member_def RSDP_def example_firmware_def mem_put_def)
  ultimately have r: "RSDP_IsValid example_firmware 0x2000"
    by (simp add: RSDP_IsValid_def member_bytes_def RSDP_def ascii_bytes_def)
  have "load_bytes example_firmware 0x3000 4 = [88, 83, 68, 84]"
    by (simp add: load_bytes_def example_firmware_def mem_put_def upt_rec [of _ 4])
  moreover have "SumBytes example_firmware 0x3000 44 = 0"
    by (simp add: SumBytes_def example_firmware_def mem_put_def nth_append upt_rec [of _ 44])
  ultimately have v: "DescriptionHeader_IsValid ''XSDT'' example_firmware 0x3000"
    by (simp add: DescriptionHeader_IsValid_def l member_bytes_def DescriptionHeader_def ascii_bytes_def)
  have e: "XSDT_entry example_firmware 0x3000 0 = 0x1000"
    by (simp add: XSDT_entry_def sizeof_def DescriptionHeader_def example_firmware_def mem_put_def nth_append)
  have tl: "table_length example_firmware 0x1000 = 9"
    by (simp add: table_length_def get_member_def DescriptionHeader_def example_firmware_def example_table_def mem_put_def)
  have "load_bytes example_firmware 0x1000 4 = [0x46, 0x41, 0x43, 0x50]"
    by (simp add: load_bytes_def example_firmware_def example_table_def mem_put_def upt_rec [of _ 4])
  moreover have "SumBytes example_firmware 0x1000 9 = 0"
    by (simp add: SumBytes_def example_firmware_def example_table_def mem_put_def upt_rec [of _ 9])
  ultimately have t: "DescriptionHeader_IsValid ''FACP'' example_firmware 0x1000"
    by (simp add: DescriptionHeader_IsValid_def tl member_bytes_def DescriptionHeader_def ascii_bytes_def)
  show ?thesis using acpi_Initialize_finds_FADT [OF r x [symmetric] v] by (simp add: l e t)
qed

subsection \<open>The wait\<close>

lemma wait_while_stops:
  assumes "k \<le> m" and "\<not> P (rd m)" and "\<And>j. k \<le> j \<Longrightarrow> j < m \<Longrightarrow> P (rd j)"
  shows "wait_while P rd k = Some (Suc m)"
  using assms
proof (induction "m - k" arbitrary: k)
  case 0
  then show ?case by (simp add: wait_while.simps)
next
  case (Suc n)
  then have "wait_while P rd (Suc k) = Some (Suc m)" by (intro Suc.hyps(1)) auto
  moreover have "P (rd k)" using Suc by auto
  ultimately show ?case by (subst wait_while.simps) simp
qed

text \<open>The elapsed ticks at each reading: at most \<open>d\<close> between two readings, and without end.\<close>

lemma first_reading:
  fixes e :: "nat \<Rightarrow> nat"
  assumes "\<And>k. e (Suc k) \<le> e k + d" and "\<And>k. e k \<le> e (Suc k)" and "\<And>n. \<exists>k. n \<le> e k"
  obtains m where "k \<le> m" "n \<le> e m" "\<And>j. k \<le> j \<Longrightarrow> j < m \<Longrightarrow> e j < n" "e m \<le> max (e k) (n + d - 1)"
proof -
  have mono: "i \<le> j \<Longrightarrow> e i \<le> e j" for i j using assms(2) by (rule lift_Suc_mono_le)
  obtain k0 where "n \<le> e k0" using assms(3) by blast
  then have ex: "\<exists>m. k \<le> m \<and> n \<le> e m" using mono [of k0 "max k k0"] by (intro exI [of _ "max k k0"]) auto
  define m where "m = (LEAST m. k \<le> m \<and> n \<le> e m)"
  have m: "k \<le> m" "n \<le> e m" using LeastI_ex [OF ex] by (simp_all add: m_def)
  have lt: "e j < n" if "k \<le> j" "j < m" for j using not_less_Least [of j "\<lambda>m. k \<le> m \<and> n \<le> e m"] that by (auto simp: m_def)
  have "e m \<le> max (e k) (n + d - 1)"
  proof (cases "m = k")
    case False
    then obtain m' where "m = Suc m'" "k \<le> m'" using m(1) by (cases m) auto
    then show ?thesis using lt [of m'] assms(1) [of m'] by simp
  qed simp
  with m lt that show ?thesis by blast
qed

text \<open>The counter has \<open>w\<close> bits and starts at \<open>s\<close>; \<open>e k\<close> ticks have passed at reading \<open>k\<close>.\<close>

lemma wait_ticks:
  fixes e :: "nat \<Rightarrow> nat"
  assumes rd: "\<And>k. unat (rd k) = (s + e k) mod M" and s: "s < M" and e0: "e 0 = 0"
    and step: "\<And>k. e (Suc k) \<le> e k + d" and mono: "\<And>k. e k \<le> e (Suc k)" and inf: "\<And>n. \<exists>k. n \<le> e k"
    and T: "T < M" and en: "unat en = (s + T) mod M"
    and top: "(s + T) mod M + 2 * d < M" and bot: "M \<le> s + T \<Longrightarrow> d \<le> s"
  shows "\<exists>n. Option.bind (if en < rd 0 then wait_while (\<lambda>v. v \<ge> rd 0) rd 1 else Some 1)
      (wait_while (\<lambda>v. v < en) rd) = Some (Suc n) \<and> T \<le> e n \<and> e n \<le> T + 2 * d"
proof -
  have r0: "unat (rd 0) = s" using rd [of 0] e0 s by simp
  have e1: "e 1 \<le> d" using step [of 0] e0 by simp
  have mono': "i \<le> j \<Longrightarrow> e i \<le> e j" for i j using mono by (rule lift_Suc_mono_le)
  show ?thesis
  proof (cases "s + T < M")
    case True
    then have en': "unat en = s + T" using en by simp
    obtain m where m: "1 \<le> m" "T \<le> e m" "\<And>j. 1 \<le> j \<Longrightarrow> j < m \<Longrightarrow> e j < T" "e m \<le> max (e 1) (T + d - 1)"
      using first_reading [of e d 1 T] step mono inf by blast
    have "e m \<le> T + d" using m(4) e1 by simp
    then have hi: "s + e m < M" using top True by simp
    have "wait_while (\<lambda>v. v < en) rd 1 = Some (Suc m)"
    proof (rule wait_while_stops [OF m(1)])
      show "\<not> rd m < en" using hi m(2) by (simp add: word_less_nat_alt rd en')
      show "rd j < en" if "1 \<le> j" "j < m" for j using m(3) [OF that] True by (simp add: word_less_nat_alt rd en')
    qed
    moreover have "\<not> en < rd 0" by (simp add: word_less_nat_alt en' r0)
    ultimately show ?thesis using m(2) \<open>e m \<le> T + d\<close> by auto
  next
    case False
    then have en': "unat en = s + T - M" using en s T by (simp add: mod_if)
    have d: "d \<le> s" using bot False by simp
    obtain m where m: "1 \<le> m" "M - s \<le> e m" "\<And>j. 1 \<le> j \<Longrightarrow> j < m \<Longrightarrow> e j < M - s" "e m \<le> max (e 1) (M - s + d - 1)"
      using first_reading [of e d 1 "M - s"] step mono inf by blast
    have em: "e m < M" "e m \<le> M - s + d" using m(4) e1 d s by auto
    obtain n where n: "Suc m \<le> n" "T \<le> e n" "\<And>j. Suc m \<le> j \<Longrightarrow> j < n \<Longrightarrow> e j < T" "e n \<le> max (e (Suc m)) (T + d - 1)"
      using first_reading [of e d "Suc m" T] step mono inf by blast
    have en2: "e n \<le> T + 2 * d" using n(4) step [of m] em(2) False s by auto
    have wrap: "unat (rd j) = s + e j - M" if "m \<le> j" "s + e j < 2 * M" for j
    proof -
      have "M \<le> s + e j" using mono' [OF that(1)] m(2) s by simp
      then show ?thesis using that(2) by (simp add: rd le_mod_geq)
    qed
    have w1: "wait_while (\<lambda>v. v \<ge> rd 0) rd 1 = Some (Suc m)"
    proof (rule wait_while_stops [OF m(1)])
      show "\<not> rd 0 \<le> rd m" using wrap [of m] em(1) s False T by (simp add: word_le_nat_alt r0)
      show "rd 0 \<le> rd j" if "1 \<le> j" "j < m" for j using m(3) [OF that] s rd [of j] by (simp add: word_le_nat_alt r0)
    qed
    have w2: "wait_while (\<lambda>v. v < en) rd (Suc m) = Some (Suc n)"
    proof (rule wait_while_stops [OF n(1)])
      show "\<not> rd n < en" using n(1,2) en2 en top wrap [of n] by (simp add: word_less_nat_alt en')
      show "rd j < en" if "Suc m \<le> j" "j < n" for j
        using n(3) [OF that] that wrap [of j] mono' [of m j] m(2) s T by (simp add: word_less_nat_alt en')
    qed
    have "en < rd 0" using False T s by (simp add: word_less_nat_alt en' r0)
    with w1 w2 n(2) en2 show ?thesis by auto
  qed
qed

text \<open>The number of ticks of a wait, and the end of the wait as the code computes it.\<close>

definition wait_length :: "u64 \<Rightarrow> nat" where
  "wait_length msec = 3579545 * unat msec div 1000"

definition timer_bits :: "u32 \<Rightarrow> nat" where
  "timer_bits flags = (if bit flags 8 then 32 else 24)"

definition wait_end :: "u32 \<Rightarrow> u32 \<Rightarrow> u64 \<Rightarrow> u32" where
  "wait_end flags start msec =
     (let e = ucast (ucast start + kPMTimerFreq * msec div 1000) :: u32 in if bit flags 8 then e else e AND 0x00ffffff)"

lemma unat_wait_end:
  assumes "wait_length msec < 2 ^ 32" and "unat msec < 2 ^ 40"
  shows "unat (wait_end flags start msec) = (unat start + wait_length msec) mod 2 ^ timer_bits flags"
proof -
  have "unat (kPMTimerFreq * msec) = 3579545 * unat msec"
    using assms(2) by (subst unat_mult_lem [THEN iffD1]) (simp_all add: kPMTimerFreq_def)
  then have w: "unat (kPMTimerFreq * msec div 1000) = wait_length msec" by (simp add: unat_div wait_length_def)
  have s: "unat (ucast start :: u64) = unat start" by (simp add: unsigned_ucast_eq take_bit_nat_eq_self order_less_trans [OF unsigned_less])
  have "unat start < 2 ^ 32" using unsigned_less [of start] by simp
  then have "unat (ucast start + kPMTimerFreq * msec div 1000 :: u64) = unat start + wait_length msec"
    using assms(1) by (subst unat_add_lem [THEN iffD1]) (simp_all add: s w)
  then have e: "unat (ucast (ucast start + kPMTimerFreq * msec div 1000 :: u64) :: u32) = (unat start + wait_length msec) mod 2 ^ 32"
    by (simp add: unsigned_ucast_eq take_bit_eq_mod)
  have m: "(0x00ffffff :: u32) = mask 24" by (simp add: mask_eq_exp_minus_1)
  have "unat (x AND 0x00ffffff) = unat x mod 2 ^ 24" for x :: u32
    unfolding m take_bit_eq_mask [symmetric] unsigned_take_bit_eq by (simp add: take_bit_eq_mod)
  then show ?thesis by (simp add: wait_end_def timer_bits_def Let_def e mod_mod_cancel)
qed

lemma WaitMilliseconds_eq:
  "WaitMilliseconds flags rd msec = Option.bind
     (if wait_end flags (rd 0) msec < rd 0 then wait_while (\<lambda>v. v \<ge> rd 0) rd 1 else Some 1)
     (wait_while (\<lambda>v. v < wait_end flags (rd 0) msec) rd)"
proof -
  have "drop_bit 8 flags AND 1 \<noteq> 0 \<longleftrightarrow> bit flags 8" by (simp add: and_one_eq bit_iff_odd_drop_bit odd_iff_mod_2_eq_one)
  then show ?thesis by (simp add: WaitMilliseconds_def wait_end_def Let_def)
qed

text \<open>C33: on a timer that counts upwards modulo its width, at most \<open>d\<close> ticks between two readings, the wait
  ends, not before the requested time has passed and at most \<open>2 d\<close> ticks after it, also when the counter
  wraps around during the wait. The margins say that a reading can be made before the counter passes the
  end of the wait and, after a wrap, before it passes the start again.\<close>

theorem WaitMilliseconds_accurate:
  fixes e :: "nat \<Rightarrow> nat"
  assumes "\<forall>k. unat (rd k) = (unat (rd 0) + e k) mod 2 ^ timer_bits flags" and "e 0 = 0"
    and "\<forall>k. e k \<le> e (Suc k) \<and> e (Suc k) \<le> e k + d" and "\<forall>n. \<exists>k. n \<le> e k"
    and "wait_length msec < 2 ^ timer_bits flags"
    and "(unat (rd 0) + wait_length msec) mod 2 ^ timer_bits flags + 2 * d < 2 ^ timer_bits flags"
    and "2 ^ timer_bits flags \<le> unat (rd 0) + wait_length msec \<longrightarrow> d \<le> unat (rd 0)"
  shows "\<exists>n. WaitMilliseconds flags rd msec = Some (Suc n) \<and> wait_length msec \<le> e n \<and> e n \<le> wait_length msec + 2 * d"
proof -
  let ?M = "2 ^ timer_bits flags :: nat"
  have M: "?M \<le> 2 ^ 32" by (simp add: timer_bits_def)
  have "3579545 * unat msec < 1000 * 2 ^ 32" using assms(5) M by (simp add: wait_length_def)
  then have "unat msec < 2 ^ 40" by simp
  moreover have "wait_length msec < 2 ^ 32" using assms(5) M by simp
  ultimately have en: "unat (wait_end flags (rd 0) msec) = (unat (rd 0) + wait_length msec) mod ?M" by (intro unat_wait_end)
  have "unat (rd 0) = unat (rd 0) mod ?M" using assms(1) [rule_format, of 0] assms(2) by simp
  then have s: "unat (rd 0) < ?M" by (metis mod_less_divisor zero_less_numeral zero_less_power)
  show ?thesis unfolding WaitMilliseconds_eq
    by (rule wait_ticks [OF assms(1) [rule_format] s assms(2) _ _ assms(4) [rule_format] assms(5) en assms(6) assms(7) [rule_format]])
      (simp_all only: assms(3) simp_thms)
qed

text \<open>A 24-bit counter at 0x00fffff0 that advances by one tick per reading.\<close>

theorem WaitMilliseconds_accurate_witness:
  "\<exists>n. WaitMilliseconds 0 (\<lambda>k. of_nat ((0xfffff0 + k) mod 2 ^ 24)) 100 = Some (Suc n) \<and> 357954 \<le> n \<and> n \<le> 357956"
proof -
  have r: "unat (of_nat ((0xfffff0 + k) mod 2 ^ 24) :: u32) = (0xfffff0 + k) mod 2 ^ 24" for k
  proof -
    have "(0xfffff0 + k) mod 2 ^ 24 < (2 ^ 32 :: nat)" by (rule order_less_trans [OF mod_less_divisor]) simp_all
    then show ?thesis by (simp only: unat_of_nat take_bit_nat_eq_self) (simp add: take_bit_nat_eq_self)
  qed
  have w: "wait_length 100 = 357954" by (simp add: wait_length_def)
  have i: "\<forall>n :: nat. \<exists>k. n \<le> k" by (intro allI) (rule exI, rule order_refl)
  have r': "\<forall>k. unat (of_nat ((0xfffff0 + k) mod 2 ^ 24) :: u32) = (0xfffff0 + k) mod 2 ^ 24" using r by blast
  show ?thesis
    using WaitMilliseconds_accurate [of "\<lambda>k. of_nat ((0xfffff0 + k) mod 2 ^ 24)" "\<lambda>k. k" 0 1 100] r' i
    by (simp add: timer_bits_def w)
qed

end
