(* ===== verification/Graphics.thy ===== *)
theory Graphics
  imports Kernel_Error
begin

text \<open>
  \<open>src/kernel/graphics.hpp\<close> and the drawing routines of \<open>graphics.cpp\<close>: colours, vectors,
  rectangles, and the primitives that draw through a \<open>PixelWriter\<close>. A pixel writer is its
  virtual \<open>Write\<close>, a function on the state of the surface; \<open>None\<close> means the pixel lies
  outside its memory. Coordinates are C \<open>int\<close>s far from overflow and are modelled by integers.
\<close>

record PixelColor =
  red :: u8
  green :: u8
  blue :: u8

definition ToColor :: "u32 \<Rightarrow> PixelColor" where
  "ToColor c = \<lparr>red = ucast (drop_bit 16 c AND 0xff), green = ucast (drop_bit 8 c AND 0xff),
     blue = ucast (c AND 0xff)\<rparr>"

datatype Vector2D = V (vx: int) (vy: int)

definition vec_add :: "Vector2D \<Rightarrow> Vector2D \<Rightarrow> Vector2D" where
  "vec_add a b = V (vx a + vx b) (vy a + vy b)"

definition vec_sub :: "Vector2D \<Rightarrow> Vector2D \<Rightarrow> Vector2D" where
  "vec_sub a b = V (vx a - vx b) (vy a - vy b)"

definition ElementMax :: "Vector2D \<Rightarrow> Vector2D \<Rightarrow> Vector2D" where
  "ElementMax a b = V (max (vx a) (vx b)) (max (vy a) (vy b))"

definition ElementMin :: "Vector2D \<Rightarrow> Vector2D \<Rightarrow> Vector2D" where
  "ElementMin a b = V (min (vx a) (vx b)) (min (vy a) (vy b))"

record Rectangle =
  pos :: Vector2D
  size :: Vector2D

definition rect_and :: "Rectangle \<Rightarrow> Rectangle \<Rightarrow> Rectangle" where
  "rect_and lhs rhs =
     (let lhs_end = vec_add (pos lhs) (size lhs); rhs_end = vec_add (pos rhs) (size rhs)
      in if vx lhs_end < vx (pos rhs) \<or> vy lhs_end < vy (pos rhs) \<or>
            vx rhs_end < vx (pos lhs) \<or> vy rhs_end < vy (pos lhs)
         then \<lparr>pos = V 0 0, size = V 0 0\<rparr>
         else let new_pos = ElementMax (pos lhs) (pos rhs)
           in \<lparr>pos = new_pos, size = vec_sub (ElementMin lhs_end rhs_end) new_pos\<rparr>)"

text \<open>The pixels of a rectangle.\<close>

definition in_rect :: "Vector2D \<Rightarrow> Rectangle \<Rightarrow> bool" where
  "in_rect p r \<longleftrightarrow> vx (pos r) \<le> vx p \<and> vx p < vx (pos r) + vx (size r) \<and>
     vy (pos r) \<le> vy p \<and> vy p < vy (pos r) + vy (size r)"

definition rect_ok :: "Rectangle \<Rightarrow> bool" where
  "rect_ok r \<longleftrightarrow> 0 \<le> vx (size r) \<and> 0 \<le> vy (size r)"

lemma rect_and_ok: "rect_ok a \<Longrightarrow> rect_ok b \<Longrightarrow> rect_ok (rect_and a b)"
  by (auto simp: rect_ok_def rect_and_def Let_def vec_add_def vec_sub_def ElementMax_def ElementMin_def)

lemma in_rect_and: "in_rect p (rect_and a b) \<longleftrightarrow> in_rect p a \<and> in_rect p b"
  by (auto simp: in_rect_def rect_and_def Let_def vec_add_def vec_sub_def ElementMax_def ElementMin_def)

text \<open>\<open>operator&\<close> on rectangles is exact: a pixel lies in the result iff it lies in both operands;
  disjoint or merely touching rectangles give one without pixels.\<close>

theorem rect_and_intersection: "in_rect p (rect_and a b) \<longleftrightarrow> in_rect p a \<and> in_rect p b"
  by (rule in_rect_and)

subsection \<open>Drawing primitives\<close>

type_synonym 's writer = "Vector2D \<Rightarrow> PixelColor \<Rightarrow> 's \<Rightarrow> 's option"

definition DrawRectangle :: "'s writer \<Rightarrow> Vector2D \<Rightarrow> Vector2D \<Rightarrow> PixelColor \<Rightarrow> 's \<Rightarrow> 's option" where
  "DrawRectangle put p sz c s = do {
     s \<leftarrow> foldM (\<lambda>dx s. do { s \<leftarrow> put (vec_add p (V dx 0)) c s; put (vec_add p (V dx (vy sz - 1))) c s })
            [0..vx sz - 1] s;
     foldM (\<lambda>dy s. do { s \<leftarrow> put (vec_add p (V 0 dy)) c s; put (vec_add p (V (vx sz - 1) dy)) c s })
       [1..vy sz - 2] s
   }"

text \<open>The three fill routines differ in the pixels they skip.\<close>

definition fill_where :: "(int \<Rightarrow> int \<Rightarrow> bool) \<Rightarrow> 's writer \<Rightarrow> Vector2D \<Rightarrow> Vector2D \<Rightarrow> PixelColor \<Rightarrow> 's \<Rightarrow> 's option" where
  "fill_where P put p sz c s =
     foldM (\<lambda>dy. foldM (\<lambda>dx s. if P dx dy then put (vec_add p (V dx dy)) c s else Some s) [0..vx sz - 1])
       [0..vy sz - 1] s"

definition FillRectangle :: "'s writer \<Rightarrow> Vector2D \<Rightarrow> Vector2D \<Rightarrow> PixelColor \<Rightarrow> 's \<Rightarrow> 's option" where
  "FillRectangle put p sz c s = fill_where (\<lambda>dx dy. True) put p sz c s"

definition isRectangleRound :: "int \<Rightarrow> int \<Rightarrow> int \<Rightarrow> int \<Rightarrow> int \<Rightarrow> bool" where
  "isRectangleRound x y max_x max_y r \<longleftrightarrow> \<not> (r \<ge> x + y) \<and> \<not> (y \<le> - max_x + x + r) \<and>
     \<not> (max_x + max_y - r \<le> x + y) \<and> \<not> (max_y - r + x \<le> y)"

definition FillRectangleRound :: "'s writer \<Rightarrow> Vector2D \<Rightarrow> Vector2D \<Rightarrow> PixelColor \<Rightarrow> int \<Rightarrow> 's \<Rightarrow> 's option" where
  "FillRectangleRound put p sz c r s =
     fill_where (\<lambda>dx dy. isRectangleRound dx dy (vx sz) (vy sz) r) put p sz c s"

definition isRectangleRoundUpper :: "int \<Rightarrow> int \<Rightarrow> int \<Rightarrow> int \<Rightarrow> int \<Rightarrow> bool" where
  "isRectangleRoundUpper x y max_x max_y r \<longleftrightarrow> \<not> (r \<ge> x + y) \<and> \<not> (y \<le> - max_x + x + r)"

definition FillRectangleRoundUpper :: "'s writer \<Rightarrow> Vector2D \<Rightarrow> Vector2D \<Rightarrow> PixelColor \<Rightarrow> int \<Rightarrow> 's \<Rightarrow> 's option" where
  "FillRectangleRoundUpper put p sz c r s =
     fill_where (\<lambda>dx dy. isRectangleRoundUpper dx dy (vx sz) (vy sz) r) put p sz c s"

definition kDesktopBGColor :: PixelColor where "kDesktopBGColor = \<lparr>red = 181, green = 234, blue = 234\<rparr>"
definition kDesktopFGColor :: PixelColor where "kDesktopFGColor = \<lparr>red = 142, green = 127, blue = 127\<rparr>"

definition DrawDesktop :: "'s writer \<Rightarrow> int \<Rightarrow> int \<Rightarrow> 's \<Rightarrow> 's option" where
  "DrawDesktop put width height s = FillRectangle put (V 0 0) (V width height) kDesktopBGColor s"

subsection \<open>Surfaces\<close>

text \<open>What the primitives need of a pixel writer: a write inside the surface succeeds, sets that
  pixel and no other.\<close>

locale pixel_surface =
  fixes put :: "'s writer"
    and get :: "'s \<Rightarrow> Vector2D \<Rightarrow> PixelColor"
    and inside :: "'s \<Rightarrow> Vector2D \<Rightarrow> bool"
  assumes write_ok: "inside s p \<Longrightarrow> \<exists>s'. put p c s = Some s' \<and> get s' p = c \<and>
      (\<forall>q. inside s' q = inside s q) \<and> (\<forall>q. inside s q \<longrightarrow> q \<noteq> p \<longrightarrow> get s' q = get s q)"
begin

text \<open>The effect of painting a set of pixels.\<close>

definition painted :: "(Vector2D \<Rightarrow> bool) \<Rightarrow> PixelColor \<Rightarrow> 's \<Rightarrow> 's \<Rightarrow> bool" where
  "painted A c s s' \<longleftrightarrow> (\<forall>q. inside s' q = inside s q) \<and>
     (\<forall>q. inside s q \<longrightarrow> get s' q = (if A q then c else get s q))"

lemma painted_trans:
  "painted A c s1 s2 \<Longrightarrow> painted B c s2 s3 \<Longrightarrow> painted (\<lambda>q. A q \<or> B q) c s1 s3"
  by (auto simp: painted_def)

lemma painted_write: "inside s p \<Longrightarrow> \<exists>s'. put p c s = Some s' \<and> painted (\<lambda>q. q = p) c s s'"
  using write_ok [of s p c] by (fastforce simp: painted_def)

lemma painted_loop:
  assumes "\<And>x s. x \<in> set xs \<Longrightarrow> (\<forall>q. inside s q = inside s0 q) \<Longrightarrow> \<exists>s'. f x s = Some s' \<and> painted (A x) c s s'"
    and "\<forall>q. inside s q = inside s0 q"
  shows "\<exists>s'. foldM f xs s = Some s' \<and> painted (\<lambda>q. \<exists>x \<in> set xs. A x q) c s s'"
  using assms
proof (induction xs arbitrary: s)
  case Nil
  then show ?case by (simp add: painted_def)
next
  case (Cons x xs)
  obtain s1 where s1: "f x s = Some s1" "painted (A x) c s s1" using Cons.prems(1) [of x s] Cons.prems(2) by auto
  then have "\<forall>q. inside s1 q = inside s0 q" using Cons.prems(2) by (simp add: painted_def)
  then have "\<exists>s'. foldM f xs s1 = Some s' \<and> painted (\<lambda>q. \<exists>x \<in> set xs. A x q) c s1 s'"
    by (intro Cons.IH) (use Cons.prems(1) in auto)
  then obtain s2 where s2: "foldM f xs s1 = Some s2" "painted (\<lambda>q. \<exists>x \<in> set xs. A x q) c s1 s2" by blast
  have "painted (\<lambda>q. A x q \<or> (\<exists>x \<in> set xs. A x q)) c s s2" using painted_trans [OF s1(2) s2(2)] .
  with s1(1) s2(1) show ?case by simp
qed

lemma fill_where_painted:
  assumes "\<And>q. in_rect q \<lparr>pos = p, size = sz\<rparr> \<Longrightarrow> inside s q"
  shows "\<exists>s'. fill_where P put p sz c s = Some s' \<and>
    painted (\<lambda>q. in_rect q \<lparr>pos = p, size = sz\<rparr> \<and> P (vx q - vx p) (vy q - vy p)) c s s'"
proof -
  let ?A = "\<lambda>dy q. \<exists>dx \<in> set [0..vx sz - 1]. P dx dy \<and> q = vec_add p (V dx dy)"
  have row: "\<exists>s'. foldM (\<lambda>dx s. if P dx dy then put (vec_add p (V dx dy)) c s else Some s) [0..vx sz - 1] t = Some s' \<and>
      painted (?A dy) c t s'" if dy: "dy \<in> set [0..vy sz - 1]" and t: "\<forall>q. inside t q = inside s q" for dy t
  proof (rule painted_loop [where ?s0.0 = s, OF _ t])
    fix dx u assume dx: "dx \<in> set [0..vx sz - 1]" and u: "\<forall>q. inside u q = inside s q"
    have "inside u (vec_add p (V dx dy))"
      using dx dy u assms by (auto simp: in_rect_def vec_add_def)
    from painted_write [OF this, of c]
    show "\<exists>s'. (if P dx dy then put (vec_add p (V dx dy)) c u else Some u) = Some s' \<and>
        painted (\<lambda>q. P dx dy \<and> q = vec_add p (V dx dy)) c u s'"
      by (auto simp: painted_def)
  qed
  have "\<exists>s'. fill_where P put p sz c s = Some s' \<and> painted (\<lambda>q. \<exists>dy \<in> set [0..vy sz - 1]. ?A dy q) c s s'"
    unfolding fill_where_def by (rule painted_loop [where ?s0.0 = s]) (use row in auto)
  moreover have "(\<lambda>q. \<exists>dy \<in> set [0..vy sz - 1]. ?A dy q) =
      (\<lambda>q. in_rect q \<lparr>pos = p, size = sz\<rparr> \<and> P (vx q - vx p) (vy q - vy p))"
  proof (rule ext, rule iffI)
    fix q assume "in_rect q \<lparr>pos = p, size = sz\<rparr> \<and> P (vx q - vx p) (vy q - vy p)"
    then show "\<exists>dy \<in> set [0..vy sz - 1]. ?A dy q"
      by (intro bexI [of _ "vy q - vy p"] bexI [of _ "vx q - vx p"])
        (auto simp: in_rect_def vec_add_def)
  qed (auto simp: in_rect_def vec_add_def)
  ultimately show ?thesis by simp
qed

lemma FillRectangle_painted:
  assumes "\<And>q. in_rect q \<lparr>pos = p, size = sz\<rparr> \<Longrightarrow> inside s q"
  shows "\<exists>s'. FillRectangle put p sz c s = Some s' \<and> painted (\<lambda>q. in_rect q \<lparr>pos = p, size = sz\<rparr>) c s s'"
  using fill_where_painted [OF assms, where P = "\<lambda>dx dy. True" and c = c] by (simp add: FillRectangle_def)

text \<open>Laying a partial picture over the surface.\<close>

definition overlay :: "(Vector2D \<rightharpoonup> PixelColor) \<Rightarrow> 's \<Rightarrow> 's \<Rightarrow> bool" where
  "overlay m s s' \<longleftrightarrow> (\<forall>q. inside s' q = inside s q) \<and>
     (\<forall>q. inside s q \<longrightarrow> get s' q = (case m q of Some c \<Rightarrow> c | None \<Rightarrow> get s q))"

lemma overlay_empty: "overlay Map.empty s s"
  by (simp add: overlay_def)

lemma overlay_trans: "overlay m s1 s2 \<Longrightarrow> overlay n s2 s3 \<Longrightarrow> overlay (m ++ n) s1 s3"
  by (auto simp: overlay_def map_add_def split: option.splits)

lemma overlay_write: "inside s p \<Longrightarrow> \<exists>s'. put p c s = Some s' \<and> overlay [p \<mapsto> c] s s'"
  using write_ok [of s p c] by (fastforce simp: overlay_def)

lemma overlay_loop:
  assumes "\<And>x t. x \<in> set xs \<Longrightarrow> (\<forall>q. inside t q = inside s q) \<Longrightarrow> \<exists>t'. f x t = Some t' \<and> overlay (m x) t t'"
  shows "\<exists>s'. foldM f xs s = Some s' \<and> overlay (stacked (map m xs)) s s'"
proof -
  have "\<exists>s'. foldM f xs t = Some s' \<and> overlay (stacked (map m xs)) t s'" if "\<forall>q. inside t q = inside s q" for t
    using that assms
  proof (induction xs arbitrary: t)
    case (Cons x xs)
    obtain t1 where t1: "f x t = Some t1" "overlay (m x) t t1" using Cons.prems(2) [of x t] Cons.prems(1) by auto
    then have "\<forall>q. inside t1 q = inside s q" using Cons.prems(1) by (simp add: overlay_def)
    then have "\<exists>s'. foldM f xs t1 = Some s' \<and> overlay (stacked (map m xs)) t1 s'"
      by (rule Cons.IH) (use Cons.prems(2) in auto)
    with t1 show ?case using overlay_trans by fastforce
  qed (simp add: overlay_empty)
  then show ?thesis by simp
qed

end

text \<open>What no drawing routine changes: any part \<open>h\<close> of the state that writing a pixel keeps.\<close>

locale stable_writer =
  fixes put :: "'s writer"
    and h :: "'s \<Rightarrow> 'h"
  assumes put_stable: "put p c s = Some s' \<Longrightarrow> h s' = h s"
begin

lemma fill_where_stable: "fill_where P put p sz c s = Some s' \<Longrightarrow> h s' = h s"
  unfolding fill_where_def
  by (erule foldM_preserves, erule foldM_preserves) (auto dest: put_stable split: if_splits)

lemma FillRectangle_stable: "FillRectangle put p sz c s = Some s' \<Longrightarrow> h s' = h s"
  unfolding FillRectangle_def by (rule fill_where_stable)

end

end
