(* ===== verification/Frame_Buffer.thy ===== *)
theory Frame_Buffer
  imports Graphics
begin

text \<open>
  \<open>src/kernel/frame_buffer_config.hpp\<close>, \<open>frame_buffer.hpp\<close>, \<open>frame_buffer.cpp\<close> and the
  pixel writers of \<open>graphics.cpp\<close>: frame buffers as the bytes they are. Offsets are computed as
  the code does, in 32-bit unsigned arithmetic, and the length of a scan line as an \<open>int\<close>; a \<open>memcpy\<close> that leaves its buffer or whose source
  and destination overlap is undefined (\<open>None\<close>).
\<close>

datatype PixelFormat = kPixelRGBResv8BitPerColor | kPixelBGRResv8BitPerColor | other_format

text \<open>\<open>frame_buffer\<close>: the video memory the pointer designates, or \<open>None\<close> for the null pointer.\<close>

record FrameBufferConfig =
  frame_buffer :: "u8 list option"
  pixels_per_scan_line :: nat
  horizontal_resolution :: nat
  vertical_resolution :: nat
  pixel_format :: PixelFormat

text \<open>\<open>fb_bytes\<close> is the memory \<open>config_.frame_buffer\<close> points to, the device's or \<open>buffer_\<close>;
  \<open>writer_\<close> is the writer for \<open>pixel_format\<close>.\<close>

record FrameBuffer =
  fb_config :: FrameBufferConfig
  fb_bytes :: "u8 list"

definition BytesPerPixel :: "PixelFormat \<Rightarrow> int" where
  "BytesPerPixel fmt = (case fmt of kPixelRGBResv8BitPerColor \<Rightarrow> 4 | kPixelBGRResv8BitPerColor \<Rightarrow> 4
     | other_format \<Rightarrow> -1)"

definition FrameAddrAt :: "Vector2D \<Rightarrow> FrameBufferConfig \<Rightarrow> int" where
  "FrameAddrAt p cfg =
     (BytesPerPixel (pixel_format cfg) * (int (pixels_per_scan_line cfg) * vy p + vx p)) mod 2 ^ 32"

text \<open>An unsigned product, returned as an \<open>int\<close>.\<close>

definition BytesPerScanLine :: "FrameBufferConfig \<Rightarrow> int" where
  "BytesPerScanLine cfg = sint (of_int (BytesPerPixel (pixel_format cfg) * int (pixels_per_scan_line cfg)) :: u32)"

definition FrameBufferSize :: "FrameBufferConfig \<Rightarrow> Vector2D" where
  "FrameBufferSize cfg = V (int (horizontal_resolution cfg)) (int (vertical_resolution cfg))"

text \<open>\<open>FrameBufferWriter::PixelAt\<close>, and the two \<open>Write\<close> methods.\<close>

definition PixelAt :: "Vector2D \<Rightarrow> FrameBufferConfig \<Rightarrow> int" where
  "PixelAt p cfg = (4 * (int (pixels_per_scan_line cfg) * vy p + vx p)) mod 2 ^ 32"

definition store3 :: "u8 list \<Rightarrow> int \<Rightarrow> u8 \<Rightarrow> u8 \<Rightarrow> u8 \<Rightarrow> u8 list option" where
  "store3 m off a b c = do {
     m \<leftarrow> arr_set m (nat off) a;
     m \<leftarrow> arr_set m (nat off + 1) b;
     arr_set m (nat off + 2) c
   }"

definition Write_RGB :: "Vector2D \<Rightarrow> PixelColor \<Rightarrow> FrameBuffer \<Rightarrow> FrameBuffer option" where
  "Write_RGB p c fb = do {
     m \<leftarrow> store3 (fb_bytes fb) (PixelAt p (fb_config fb)) (red c) (green c) (blue c);
     Some (fb\<lparr>fb_bytes := m\<rparr>)
   }"

definition Write_BGR :: "Vector2D \<Rightarrow> PixelColor \<Rightarrow> FrameBuffer \<Rightarrow> FrameBuffer option" where
  "Write_BGR p c fb = do {
     m \<leftarrow> store3 (fb_bytes fb) (PixelAt p (fb_config fb)) (blue c) (green c) (red c);
     Some (fb\<lparr>fb_bytes := m\<rparr>)
   }"

definition FrameBuffer_Write :: "Vector2D \<Rightarrow> PixelColor \<Rightarrow> FrameBuffer \<Rightarrow> FrameBuffer option" where
  "FrameBuffer_Write p c fb = (case pixel_format (fb_config fb) of
     kPixelRGBResv8BitPerColor \<Rightarrow> Write_RGB p c fb
   | kPixelBGRResv8BitPerColor \<Rightarrow> Write_BGR p c fb
   | other_format \<Rightarrow> None)"

definition FrameBuffer_Initialize :: "FrameBufferConfig \<Rightarrow> Code \<times> FrameBuffer" where
  "FrameBuffer_Initialize cfg =
     (let bytes_per_pixel = BytesPerPixel (pixel_format cfg)
      in if bytes_per_pixel \<le> 0 then (kUnknownPixelFormat, \<lparr>fb_config = cfg, fb_bytes = []\<rparr>)
         else (case frame_buffer cfg of
             Some m \<Rightarrow> (kSuccess, \<lparr>fb_config = cfg, fb_bytes = m\<rparr>)
           | None \<Rightarrow>
               (let m = replicate (nat ((bytes_per_pixel * int (horizontal_resolution cfg)
                      * int (vertical_resolution cfg)) mod 2 ^ 32)) 0
                in (kSuccess, \<lparr>fb_config = cfg\<lparr>frame_buffer := Some m,
                      pixels_per_scan_line := horizontal_resolution cfg\<rparr>, fb_bytes = m\<rparr>))))"

text \<open>\<open>memcpy\<close> between two buffers, and within one.\<close>

definition memcpy :: "u8 list \<Rightarrow> int \<Rightarrow> u8 list \<Rightarrow> int \<Rightarrow> int \<Rightarrow> u8 list option" where
  "memcpy dst d src s n =
     (if 0 \<le> n \<and> 0 \<le> d \<and> d + n \<le> int (length dst) \<and> 0 \<le> s \<and> s + n \<le> int (length src)
      then Some (take (nat d) dst @ take (nat n) (drop (nat s) src) @ drop (nat (d + n)) dst)
      else None)"

definition memcpy_within :: "u8 list \<Rightarrow> int \<Rightarrow> int \<Rightarrow> int \<Rightarrow> u8 list option" where
  "memcpy_within m d s n = (if 0 < n \<and> d < s + n \<and> s < d + n then None else memcpy m d m s n)"

definition FrameBuffer_Copy :: "Vector2D \<Rightarrow> FrameBuffer \<Rightarrow> Rectangle \<Rightarrow> FrameBuffer \<Rightarrow> (Code \<times> FrameBuffer) option" where
  "FrameBuffer_Copy dst_pos src src_area fb =
     (if pixel_format (fb_config fb) \<noteq> pixel_format (fb_config src) then Some (kUnknownPixelFormat, fb)
      else let bytes_per_pixel = BytesPerPixel (pixel_format (fb_config fb))
        in if bytes_per_pixel \<le> 0 then Some (kUnknownPixelFormat, fb)
        else do {
          let src_area_shifted = \<lparr>pos = dst_pos, size = size src_area\<rparr>;
          let src_outline = \<lparr>pos = vec_sub dst_pos (pos src_area), size = FrameBufferSize (fb_config src)\<rparr>;
          let dst_outline = \<lparr>pos = V 0 0, size = FrameBufferSize (fb_config fb)\<rparr>;
          let copy_area = rect_and (rect_and dst_outline src_outline) src_area_shifted;
          let src_start_pos = vec_sub (pos copy_area) (vec_sub dst_pos (pos src_area));
          let dst_buf = FrameAddrAt (pos copy_area) (fb_config fb);
          let src_buf = FrameAddrAt src_start_pos (fb_config src);
          m \<leftarrow> foldM (\<lambda>y m. memcpy m (dst_buf + int y * BytesPerScanLine (fb_config fb))
                     (fb_bytes src) (src_buf + int y * BytesPerScanLine (fb_config src))
                     (bytes_per_pixel * vx (size copy_area)))
                 [0..<nat (vy (size copy_area))] (fb_bytes fb);
          Some (kSuccess, fb\<lparr>fb_bytes := m\<rparr>)
        })"

definition FrameBuffer_Move :: "Vector2D \<Rightarrow> Rectangle \<Rightarrow> FrameBuffer \<Rightarrow> FrameBuffer option" where
  "FrameBuffer_Move dst_pos src fb = do {
     let bytes_per_pixel = BytesPerPixel (pixel_format (fb_config fb));
     let bytes_per_scan_line = BytesPerScanLine (fb_config fb);
     let last_row = V 0 (vy (size src) - 1);
     let (dst_buf, src_buf, stride) =
       (if vy dst_pos < vy (pos src)
        then (FrameAddrAt dst_pos (fb_config fb), FrameAddrAt (pos src) (fb_config fb), bytes_per_scan_line)
        else (FrameAddrAt (vec_add dst_pos last_row) (fb_config fb),
              FrameAddrAt (vec_add (pos src) last_row) (fb_config fb), - bytes_per_scan_line));
     m \<leftarrow> foldM (\<lambda>y m. memcpy_within m (dst_buf + int y * stride) (src_buf + int y * stride)
                (bytes_per_pixel * vx (size src)))
            [0..<nat (vy (size src))] (fb_bytes fb);
     Some (fb\<lparr>fb_bytes := m\<rparr>)
   }"

subsection \<open>Pixels\<close>

text \<open>A buffer whose every scan line lies in memory and whose offsets do not wrap.\<close>

definition fb_ok :: "FrameBuffer \<Rightarrow> bool" where
  "fb_ok fb \<longleftrightarrow> pixel_format (fb_config fb) \<noteq> other_format \<and>
     horizontal_resolution (fb_config fb) \<le> pixels_per_scan_line (fb_config fb) \<and>
     length (fb_bytes fb) = 4 * pixels_per_scan_line (fb_config fb) * vertical_resolution (fb_config fb) \<and>
     length (fb_bytes fb) < 2 ^ 32"

definition fb_inside :: "FrameBuffer \<Rightarrow> Vector2D \<Rightarrow> bool" where
  "fb_inside fb p \<longleftrightarrow> in_rect p \<lparr>pos = V 0 0, size = FrameBufferSize (fb_config fb)\<rparr>"

text \<open>Byte \<open>k\<close> of the pixel at \<open>p\<close>, and its colour.\<close>

definition px :: "FrameBuffer \<Rightarrow> Vector2D \<Rightarrow> nat \<Rightarrow> u8" where
  "px fb p k = fb_bytes fb ! (nat (vy p) * (4 * pixels_per_scan_line (fb_config fb)) + (4 * nat (vx p) + k))"

definition fb_get :: "FrameBuffer \<Rightarrow> Vector2D \<Rightarrow> PixelColor" where
  "fb_get fb p = (if pixel_format (fb_config fb) = kPixelRGBResv8BitPerColor
     then \<lparr>red = px fb p 0, green = px fb p 1, blue = px fb p 2\<rparr>
     else \<lparr>red = px fb p 2, green = px fb p 1, blue = px fb p 0\<rparr>)"

lemma row_index_iff:
  fixes b C c n y Y :: nat
  assumes "C < b" and "c + n \<le> b"
  shows "y * b + c \<le> Y * b + C \<and> Y * b + C < y * b + c + n \<longleftrightarrow> Y = y \<and> c \<le> C \<and> C < c + n"
proof (cases Y y rule: linorder_cases)
  case less
  then have "Y * b + b \<le> y * b" using mult_le_mono1 [of "Suc Y" y b] by simp
  with assms less show ?thesis by simp
next
  case greater
  then have "y * b + b \<le> Y * b" using mult_le_mono1 [of "Suc y" Y b] by simp
  with assms greater show ?thesis by simp
qed auto

lemma row_end:
  fixes b c n y h :: nat
  assumes "c + n \<le> b" and "y < h"
  shows "y * b + c + n \<le> b * h"
proof -
  have "Suc y * b \<le> h * b" using assms(2) by (intro mult_le_mono1) simp
  with assms(1) show ?thesis by (simp add: algebra_simps)
qed

lemma nth_memcpy:
  assumes "d + n \<le> length dst" and "s + n \<le> length src" and "i < length dst"
  shows "(take d dst @ take n (drop s src) @ drop (d + n) dst) ! i =
    (if d \<le> i \<and> i < d + n then src ! (s + (i - d)) else dst ! i)"
proof -
  have "length (take n (drop s src)) = n" "length (take d dst) = d" using assms by simp_all
  with assms show ?thesis by (auto simp: nth_append simp del: length_take)
qed

text \<open>Copying \<open>h\<close> rows of \<open>n\<close> bytes from row \<open>sy\<close>, column \<open>sc\<close> of one image to row \<open>y0\<close>,
  column \<open>c0\<close> of another; \<open>b\<close> and \<open>sb\<close> are the lengths of their scan lines.\<close>

lemma copy_rows:
  assumes dst: "length dst = b * H" "y0 + h \<le> H" "c0 + n \<le> b"
    and src: "length src = sb * SH" "sy + h \<le> SH" "sc + n \<le> sb"
  shows "\<exists>m. foldM (\<lambda>y m. memcpy m (int (y0 * b + c0) + int y * int b) src (int (sy * sb + sc) + int y * int sb) (int n))
      [0..<h] dst = Some m \<and> length m = length dst \<and>
    (\<forall>Y C. Y < H \<longrightarrow> C < b \<longrightarrow> m ! (Y * b + C) =
      (if y0 \<le> Y \<and> Y < y0 + h \<and> c0 \<le> C \<and> C < c0 + n
       then src ! ((sy + (Y - y0)) * sb + (sc + (C - c0))) else dst ! (Y * b + C)))"
proof -
  let ?P = "\<lambda>k m. length m = length dst \<and> (\<forall>Y C. Y < H \<longrightarrow> C < b \<longrightarrow> m ! (Y * b + C) =
      (if y0 \<le> Y \<and> Y < y0 + k \<and> c0 \<le> C \<and> C < c0 + n
       then src ! ((sy + (Y - y0)) * sb + (sc + (C - c0))) else dst ! (Y * b + C)))"
  have "\<exists>m. foldM (\<lambda>y m. memcpy m (int (y0 * b + c0) + int y * int b) src (int (sy * sb + sc) + int y * int sb) (int n))
      [0..<h] dst = Some m \<and> ?P h m"
  proof (rule foldM_upt_invariant [where P = ?P])
    show "?P 0 dst" by auto
  next
    fix k m assume k: "k < h" and P: "?P k m"
    let ?d = "(y0 + k) * b + c0" and ?s = "(sy + k) * sb + sc"
    have d: "?d + n \<le> length m" using row_end [of c0 n b "y0 + k" H] dst k P by simp
    have s: "?s + n \<le> length src" using row_end [of sc n sb "sy + k" SH] src k by simp
    have offs: "int (y0 * b + c0) + int k * int b = int ?d" "int (sy * sb + sc) + int k * int sb = int ?s"
      by (simp_all add: algebra_simps)
    let ?m = "take ?d m @ take n (drop ?s src) @ drop (?d + n) m"
    have mc: "memcpy m (int ?d) src (int ?s) (int n) = Some ?m"
      unfolding memcpy_def using d s by (simp flip: of_nat_add)
    have "?m ! (Y * b + C) = (if y0 \<le> Y \<and> Y < y0 + Suc k \<and> c0 \<le> C \<and> C < c0 + n
       then src ! ((sy + (Y - y0)) * sb + (sc + (C - c0))) else dst ! (Y * b + C))" if YC: "Y < H" "C < b" for Y C
    proof -
      have lt: "Y * b + C < length m" using row_end [of C 1 b Y H] YC dst(1) P by simp
      have "?m ! (Y * b + C) = (if Y = y0 + k \<and> c0 \<le> C \<and> C < c0 + n then src ! (?s + (Y * b + C - ?d)) else m ! (Y * b + C))"
        using nth_memcpy [OF d s lt] row_index_iff [OF YC(2) dst(3), of "y0 + k" Y] by simp
      moreover have "?s + (Y * b + C - ?d) = (sy + (Y - y0)) * sb + (sc + (C - c0))" if "Y = y0 + k" "c0 \<le> C"
        using that by simp
      ultimately show ?thesis using P YC by (auto simp: less_Suc_eq)
    qed
    moreover have "length ?m = length dst" using d s P by simp
    ultimately have "?P (Suc k) ?m" by blast
    then show "\<exists>s'. memcpy m (int (y0 * b + c0) + int k * int b) src (int (sy * sb + sc) + int k * int sb) (int n)
        = Some s' \<and> ?P (Suc k) s'"
      unfolding offs mc by blast
  qed simp
  then show ?thesis .
qed

lemma BytesPerPixel_ok: "fb_ok fb \<Longrightarrow> BytesPerPixel (pixel_format (fb_config fb)) = 4"
  by (cases "pixel_format (fb_config fb)") (simp_all add: fb_ok_def BytesPerPixel_def)

text \<open>The offset of a scan line is exact: a line of 2 GiB or more leaves room for no second one.\<close>

lemma scan_line_offset:
  assumes ok: "fb_ok fb" and y: "y < vertical_resolution (fb_config fb)"
  shows "int y * BytesPerScanLine (fb_config fb) = int y * int (4 * pixels_per_scan_line (fb_config fb))"
proof (cases "y = 0")
  case False
  let ?b = "4 * pixels_per_scan_line (fb_config fb)"
  have "?b * 2 \<le> ?b * vertical_resolution (fb_config fb)" using y False by (intro mult_le_mono2) simp
  moreover have "?b * vertical_resolution (fb_config fb) < 2 ^ 32" using ok unfolding fb_ok_def by metis
  ultimately have "?b * 2 < 2 ^ 32" by (rule le_less_trans)
  then have "?b < 2 ^ 31" by simp
  then have "int ?b < 2 ^ 31" by simp
  then have "sint (of_int (int ?b) :: u32) = int ?b" by (simp only: sint_sbintrunc') (simp add: signed_take_bit_int_eq_self)
  then show ?thesis using BytesPerPixel_ok [OF ok] by (simp add: BytesPerScanLine_def)
qed simp

lemma FrameAddrAt_inside:
  assumes ok: "fb_ok fb" and p: "0 \<le> vx p" "0 \<le> vy p" "vy p < int (vertical_resolution (fb_config fb))"
    "vx p \<le> int (horizontal_resolution (fb_config fb))"
  shows "FrameAddrAt p (fb_config fb) = int (nat (vy p) * (4 * pixels_per_scan_line (fb_config fb)) + 4 * nat (vx p))"
proof -
  let ?c = "fb_config fb" and ?b = "4 * pixels_per_scan_line (fb_config fb)"
  have "4 * nat (vx p) + 0 \<le> ?b" "nat (vy p) < vertical_resolution ?c" using ok p by (auto simp: fb_ok_def)
  from row_end [OF this] have "nat (vy p) * ?b + 4 * nat (vx p) \<le> ?b * vertical_resolution ?c" by simp
  then have "nat (vy p) * ?b + 4 * nat (vx p) < 2 ^ 32" using ok by (simp add: fb_ok_def)
  then have "int (nat (vy p) * ?b + 4 * nat (vx p)) < int (2 ^ 32)" by (simp only: of_nat_less_iff)
  then have lt: "int (nat (vy p) * ?b + 4 * nat (vx p)) < 2 ^ 32" by (simp only: of_nat_power of_nat_numeral)
  have "BytesPerPixel (pixel_format ?c) * (int (pixels_per_scan_line ?c) * vy p + vx p) = int (nat (vy p) * ?b + 4 * nat (vx p))"
    using p BytesPerPixel_ok [OF ok] by (simp add: algebra_simps)
  then show ?thesis unfolding FrameAddrAt_def using lt
    by (simp only: mod_pos_pos_trivial of_nat_0_le_iff)
qed

lemma rect_and_bounds:
  assumes "0 < vy (size (rect_and a b))"
  shows "vx (pos a) \<le> vx (pos (rect_and a b))" "vy (pos a) \<le> vy (pos (rect_and a b))"
    "vx (pos b) \<le> vx (pos (rect_and a b))" "vy (pos b) \<le> vy (pos (rect_and a b))"
    "vx (pos (rect_and a b)) + vx (size (rect_and a b)) \<le> vx (pos a) + vx (size a)"
    "vy (pos (rect_and a b)) + vy (size (rect_and a b)) \<le> vy (pos a) + vy (size a)"
    "vx (pos (rect_and a b)) + vx (size (rect_and a b)) \<le> vx (pos b) + vx (size b)"
    "vy (pos (rect_and a b)) + vy (size (rect_and a b)) \<le> vy (pos b) + vy (size b)"
    "vy (size (rect_and a b)) \<le> vy (size a)"
  using assms
  by (auto simp: rect_and_def Let_def vec_add_def vec_sub_def ElementMax_def ElementMin_def split: if_splits)

lemma px_cong_get:
  assumes "pixel_format (fb_config fb') = pixel_format (fb_config fb)" and "\<And>k. k < 4 \<Longrightarrow> px fb' p k = px fb q k"
  shows "fb_get fb' p = fb_get fb q"
  using assms by (simp add: fb_get_def)

lemma FrameBuffer_Copy_spec:
  assumes ok: "fb_ok fb" "fb_ok src" and fmt: "pixel_format (fb_config fb) = pixel_format (fb_config src)"
    and area: "rect_ok src_area"
  shows "\<exists>fb'. FrameBuffer_Copy dst_pos src src_area fb = Some (kSuccess, fb') \<and> fb_config fb' = fb_config fb \<and> fb_ok fb' \<and>
    (\<forall>q. fb_inside fb q \<longrightarrow> fb_get fb' q =
      (if in_rect q \<lparr>pos = dst_pos, size = size src_area\<rparr> \<and> fb_inside src (vec_sub q (vec_sub dst_pos (pos src_area)))
       then fb_get src (vec_sub q (vec_sub dst_pos (pos src_area))) else fb_get fb q))"
proof -
  let ?c = "fb_config fb" and ?sc = "fb_config src" and ?off = "vec_sub dst_pos (pos src_area)"
  let ?b = "4 * pixels_per_scan_line ?c" and ?sb = "4 * pixels_per_scan_line ?sc"
  let ?outs = "rect_and \<lparr>pos = V 0 0, size = FrameBufferSize ?c\<rparr> \<lparr>pos = ?off, size = FrameBufferSize ?sc\<rparr>"
  define A where "A = rect_and ?outs \<lparr>pos = dst_pos, size = size src_area\<rparr>"
  define st where "st = vec_sub (pos A) ?off"
  have in_A: "in_rect q A \<longleftrightarrow> fb_inside fb q \<and> in_rect q \<lparr>pos = dst_pos, size = size src_area\<rparr> \<and> fb_inside src (vec_sub q ?off)" for q
    unfolding A_def in_rect_and fb_inside_def by (auto simp: in_rect_def vec_sub_def)
  have okA: "rect_ok A" unfolding A_def
    using area by (intro rect_and_ok) (auto simp: rect_ok_def FrameBufferSize_def)
  have bpp: "BytesPerPixel (pixel_format ?c) = 4" "BytesPerPixel (pixel_format ?sc) = 4"
    using BytesPerPixel_ok ok by auto
  let ?body = "\<lambda>y m. memcpy m (FrameAddrAt (pos A) ?c + int y * BytesPerScanLine ?c)
      (fb_bytes src) (FrameAddrAt st ?sc + int y * BytesPerScanLine ?sc) (4 * vx (size A))"
  have run: "FrameBuffer_Copy dst_pos src src_area fb = do {
      m \<leftarrow> foldM ?body [0..<nat (vy (size A))] (fb_bytes fb); Some (kSuccess, fb\<lparr>fb_bytes := m\<rparr>) }"
    using fmt bpp by (simp add: FrameBuffer_Copy_def Let_def A_def st_def)
  show ?thesis
  proof (cases "0 < vy (size A)")
    case False
    then have "\<not> in_rect q A" for q by (auto simp: in_rect_def)
    then show ?thesis using False run in_A ok by auto
  next
    case True
    note B = rect_and_bounds [OF True [unfolded A_def], folded A_def]
    have outs: "0 < vy (size ?outs)" using True B(9) by simp
    note B' = rect_and_bounds [OF outs]
    have pA: "0 \<le> vx (pos A)" "0 \<le> vy (pos A)" "0 \<le> vx (size A)"
        "vx (pos A) + vx (size A) \<le> int (horizontal_resolution ?c)" "vy (pos A) + vy (size A) \<le> int (vertical_resolution ?c)"
      using B B' okA by (auto simp: FrameBufferSize_def rect_ok_def)
    have pS: "0 \<le> vx st" "0 \<le> vy st" "vx st + vx (size A) \<le> int (horizontal_resolution ?sc)"
        "vy st + vy (size A) \<le> int (vertical_resolution ?sc)"
      using B B' by (auto simp: FrameBufferSize_def st_def vec_sub_def)
    have addr: "FrameAddrAt (pos A) ?c = int (nat (vy (pos A)) * ?b + 4 * nat (vx (pos A)))"
      using pA True by (intro FrameAddrAt_inside [OF ok(1)]; linarith)
    have addrS: "FrameAddrAt st ?sc = int (nat (vy st) * ?sb + 4 * nat (vx st))"
      using pA pS True by (intro FrameAddrAt_inside [OF ok(2)]; linarith)
    have width: "4 * vx (size A) = int (4 * nat (vx (size A)))" using pA by simp
    have "nat (vy (size A)) \<le> vertical_resolution ?c" "nat (vy (size A)) \<le> vertical_resolution ?sc" using pA pS by linarith+
    then have loop: "foldM ?body [0..<nat (vy (size A))] x = foldM (\<lambda>y m. memcpy m (FrameAddrAt (pos A) ?c + int y * int ?b)
        (fb_bytes src) (FrameAddrAt st ?sc + int y * int ?sb) (4 * vx (size A))) [0..<nat (vy (size A))] x" for x
      by (intro foldM_cong) (auto simp only: set_upt atLeastLessThan_iff scan_line_offset [OF ok(1)] scan_line_offset [OF ok(2)] less_le_trans)
    have hres: "horizontal_resolution ?c \<le> pixels_per_scan_line ?c" "horizontal_resolution ?sc \<le> pixels_per_scan_line ?sc"
      using ok by (simp_all add: fb_ok_def)
    have "4 * nat (vx (pos A)) + 4 * nat (vx (size A)) \<le> ?b" "4 * nat (vx st) + 4 * nat (vx (size A)) \<le> ?sb"
      using hres pA pS by linarith+
    moreover have "nat (vy (pos A)) + nat (vy (size A)) \<le> vertical_resolution ?c"
        "nat (vy st) + nat (vy (size A)) \<le> vertical_resolution ?sc"
        "length (fb_bytes fb) = ?b * vertical_resolution ?c" "length (fb_bytes src) = ?sb * vertical_resolution ?sc"
      using ok pA pS True by (simp_all add: fb_ok_def)
    ultimately obtain m where
        m: "foldM ?body [0..<nat (vy (size A))] (fb_bytes fb) = Some m" "length m = length (fb_bytes fb)"
        "\<And>Y C. Y < vertical_resolution ?c \<Longrightarrow> C < ?b \<Longrightarrow> m ! (Y * ?b + C) =
          (if nat (vy (pos A)) \<le> Y \<and> Y < nat (vy (pos A)) + nat (vy (size A)) \<and>
              4 * nat (vx (pos A)) \<le> C \<and> C < 4 * nat (vx (pos A)) + 4 * nat (vx (size A))
           then fb_bytes src ! ((nat (vy st) + (Y - nat (vy (pos A)))) * ?sb + (4 * nat (vx st) + (C - 4 * nat (vx (pos A)))))
           else fb_bytes fb ! (Y * ?b + C))"
      using copy_rows [of "fb_bytes fb" ?b "vertical_resolution ?c" "nat (vy (pos A))" "nat (vy (size A))"
          "4 * nat (vx (pos A))" "4 * nat (vx (size A))" "fb_bytes src" ?sb "vertical_resolution ?sc" "nat (vy st)" "4 * nat (vx st)"]
      unfolding loop unfolding addr addrS width by blast
    have "px (fb\<lparr>fb_bytes := m\<rparr>) q k = (if in_rect q A then px src (vec_sub q ?off) k else px fb q k)"
      if q: "fb_inside fb q" and k: "k < 4" for q k
    proof -
      let ?Y = "nat (vy q)" and ?C = "4 * nat (vx q) + k"
      have Q: "0 \<le> vx q" "vx q < int (horizontal_resolution ?c)" "0 \<le> vy q" "vy q < int (vertical_resolution ?c)"
        using q by (auto simp: fb_inside_def in_rect_def FrameBufferSize_def)
      then have Y: "?Y < vertical_resolution ?c" and C: "?C < ?b" using k ok(1) by (auto simp: fb_ok_def)
      have rows: "nat (vy (pos A)) \<le> ?Y \<and> ?Y < nat (vy (pos A)) + nat (vy (size A)) \<longleftrightarrow>
          vy (pos A) \<le> vy q \<and> vy q < vy (pos A) + vy (size A)" using pA Q True by auto
      have cols: "4 * nat (vx (pos A)) \<le> ?C \<and> ?C < 4 * nat (vx (pos A)) + 4 * nat (vx (size A)) \<longleftrightarrow>
          vx (pos A) \<le> vx q \<and> vx q < vx (pos A) + vx (size A)" using pA Q k by auto
      have idx: "nat (vy st) + (?Y - nat (vy (pos A))) = nat (vy (vec_sub q ?off))"
          "4 * nat (vx st) + (?C - 4 * nat (vx (pos A))) = 4 * nat (vx (vec_sub q ?off)) + k" if "in_rect q A"
        using that pA pS Q by (auto simp: in_rect_def st_def vec_sub_def)
      show ?thesis
      proof (cases "in_rect q A")
        case True
        with m(3) [OF Y C] rows cols idx show ?thesis by (simp add: px_def in_rect_def)
      next
        case False
        with m(3) [OF Y C] rows cols show ?thesis by (auto simp: px_def in_rect_def)
      qed
    qed
    then have "fb_get (fb\<lparr>fb_bytes := m\<rparr>) q = (if in_rect q A then fb_get src (vec_sub q ?off) else fb_get fb q)"
      if "fb_inside fb q" for q using that fmt by (auto intro!: px_cong_get)
    moreover have "fb_ok (fb\<lparr>fb_bytes := m\<rparr>)" using ok(1) m(2) by (simp add: fb_ok_def)
    ultimately show ?thesis using run m(1) in_A by auto
  qed
qed

subsection \<open>Writing a pixel\<close>

lemma PixelAt_FrameAddrAt: "fb_ok fb \<Longrightarrow> PixelAt p (fb_config fb) = FrameAddrAt p (fb_config fb)"
  by (simp add: PixelAt_def FrameAddrAt_def BytesPerPixel_ok)

lemma inside_bounds:
  assumes "fb_inside fb p"
  shows "0 \<le> vx p" "vx p < int (horizontal_resolution (fb_config fb))" "0 \<le> vy p" "vy p < int (vertical_resolution (fb_config fb))"
  using assms by (auto simp: fb_inside_def in_rect_def FrameBufferSize_def)

lemma px_index_less:
  assumes "fb_ok fb" and "fb_inside fb p" and "k < 4"
  shows "nat (vy p) * (4 * pixels_per_scan_line (fb_config fb)) + (4 * nat (vx p) + k) < length (fb_bytes fb)"
proof -
  note B = inside_bounds [OF assms(2)]
  have "4 * nat (vx p) + k + 1 \<le> 4 * pixels_per_scan_line (fb_config fb)" "nat (vy p) < vertical_resolution (fb_config fb)"
    using B assms(1,3) by (auto simp: fb_ok_def)
  from row_end [OF this] show ?thesis using assms(1) by (simp add: fb_ok_def)
qed

lemma quad_inj: "4 * x + j = 4 * y + k \<Longrightarrow> j < 4 \<Longrightarrow> k < 4 \<Longrightarrow> x = y" for x y j k :: nat
  by presburger

lemma px_index_inj:
  assumes "fb_ok fb" and "fb_inside fb p" and "fb_inside fb q" and "j < 4" and "k < 4"
    and eq: "nat (vy p) * (4 * pixels_per_scan_line (fb_config fb)) + (4 * nat (vx p) + j) =
      nat (vy q) * (4 * pixels_per_scan_line (fb_config fb)) + (4 * nat (vx q) + k)"
  shows "p = q \<and> j = k"
proof -
  let ?b = "4 * pixels_per_scan_line (fb_config fb)"
  note P = inside_bounds [OF assms(2)] and Q = inside_bounds [OF assms(3)]
  have C: "4 * nat (vx p) + j < ?b" "4 * nat (vx q) + k + 1 \<le> ?b" using P Q assms(1,4,5) by (auto simp: fb_ok_def)
  have "nat (vy p) = nat (vy q) \<and> 4 * nat (vx q) + k \<le> 4 * nat (vx p) + j \<and> 4 * nat (vx p) + j < 4 * nat (vx q) + k + 1"
    using row_index_iff [OF C, of "nat (vy q)" "nat (vy p)"] eq by simp
  then have "nat (vy p) = nat (vy q)" "4 * nat (vx p) + j = 4 * nat (vx q) + k" by auto
  moreover from this(2) assms(4,5) have "nat (vx p) = nat (vx q)" by (rule quad_inj)
  ultimately show ?thesis using P Q by (auto intro: Vector2D.expand)
qed

lemma store3_px:
  assumes ok: "fb_ok fb" and p: "fb_inside fb p"
  shows "\<exists>m. store3 (fb_bytes fb) (PixelAt p (fb_config fb)) a b c = Some m \<and> length m = length (fb_bytes fb) \<and>
    (\<forall>q k. fb_inside fb q \<longrightarrow> k < 3 \<longrightarrow> px (fb\<lparr>fb_bytes := m\<rparr>) q k = (if q = p then [a, b, c] ! k else px fb q k))"
proof -
  let ?i = "nat (vy p) * (4 * pixels_per_scan_line (fb_config fb)) + 4 * nat (vx p)"
  note B = inside_bounds [OF p]
  have off: "nat (PixelAt p (fb_config fb)) = ?i"
    unfolding PixelAt_FrameAddrAt [OF ok] FrameAddrAt_inside [OF ok B(1,3,4) less_imp_le [OF B(2)]]
    by (rule nat_int)
  have lt: "?i + 2 < length (fb_bytes fb)" using px_index_less [OF ok p, of 2] by simp
  let ?m = "(fb_bytes fb)[?i := a, ?i + 1 := b, ?i + 2 := c]"
  have "store3 (fb_bytes fb) (PixelAt p (fb_config fb)) a b c = Some ?m"
    using lt by (simp add: store3_def off arr_set_def)
  moreover have "px (fb\<lparr>fb_bytes := ?m\<rparr>) q k = (if q = p then [a, b, c] ! k else px fb q k)"
    if q: "fb_inside fb q" and k: "k < 3" for q k
  proof (cases "q = p")
    case True
    have "k = 0 \<or> k = 1 \<or> k = 2" using k by auto
    then show ?thesis using lt True by (auto simp: px_def nth_list_update)
  next
    case False
    then have "nat (vy q) * (4 * pixels_per_scan_line (fb_config fb)) + (4 * nat (vx q) + k) \<noteq> ?i + j" if "j < 4" for j
      using px_index_inj [OF ok q p, of k j] k that by (auto simp: add.assoc)
    from this [of 0] this [of 1] this [of 2] False show ?thesis by (simp add: px_def)
  qed
  ultimately show ?thesis by (intro exI [of _ ?m]) simp
qed

lemma FrameBuffer_Write_spec:
  assumes ok: "fb_ok fb" and p: "fb_inside fb p"
  shows "\<exists>fb'. FrameBuffer_Write p c fb = Some fb' \<and> fb_config fb' = fb_config fb \<and> fb_ok fb' \<and>
    (\<forall>q. fb_inside fb q \<longrightarrow> fb_get fb' q = (if q = p then c else fb_get fb q))"
proof (cases "pixel_format (fb_config fb)")
  case kPixelRGBResv8BitPerColor
  obtain m where m: "store3 (fb_bytes fb) (PixelAt p (fb_config fb)) (red c) (green c) (blue c) = Some m"
      "length m = length (fb_bytes fb)"
      "\<forall>q k. fb_inside fb q \<longrightarrow> k < 3 \<longrightarrow> px (fb\<lparr>fb_bytes := m\<rparr>) q k = (if q = p then [red c, green c, blue c] ! k else px fb q k)"
    using store3_px [OF ok p] by blast
  then show ?thesis using ok kPixelRGBResv8BitPerColor
    by (auto simp: FrameBuffer_Write_def Write_RGB_def fb_ok_def fb_get_def)
next
  case kPixelBGRResv8BitPerColor
  obtain m where m: "store3 (fb_bytes fb) (PixelAt p (fb_config fb)) (blue c) (green c) (red c) = Some m"
      "length m = length (fb_bytes fb)"
      "\<forall>q k. fb_inside fb q \<longrightarrow> k < 3 \<longrightarrow> px (fb\<lparr>fb_bytes := m\<rparr>) q k = (if q = p then [blue c, green c, red c] ! k else px fb q k)"
    using store3_px [OF ok p] by blast
  then show ?thesis using ok kPixelBGRResv8BitPerColor
    by (auto simp: FrameBuffer_Write_def Write_BGR_def fb_ok_def fb_get_def)
qed (use ok in \<open>simp add: fb_ok_def\<close>)

definition fb_live :: "FrameBuffer \<Rightarrow> Vector2D \<Rightarrow> bool" where
  "fb_live fb q \<longleftrightarrow> fb_ok fb \<and> fb_inside fb q"

interpretation fb_surface: pixel_surface FrameBuffer_Write fb_get fb_live
proof
  fix fb :: FrameBuffer and p c assume "fb_live fb p"
  then show "\<exists>s'. FrameBuffer_Write p c fb = Some s' \<and> fb_get s' p = c \<and> (\<forall>q. fb_live s' q = fb_live fb q) \<and>
      (\<forall>q. fb_live fb q \<longrightarrow> q \<noteq> p \<longrightarrow> fb_get s' q = fb_get fb q)"
    using FrameBuffer_Write_spec [of fb p c] by (auto simp: fb_live_def fb_inside_def)
qed

subsection \<open>Moving an area\<close>

text \<open>The image after the rows in \<open>D\<close> of an area at row \<open>sy\<close>, byte column \<open>sc\<close> have been copied to
  row \<open>dy\<close>, column \<open>dc\<close>.\<close>

definition rows_moved :: "nat \<Rightarrow> nat \<Rightarrow> nat \<Rightarrow> nat \<Rightarrow> nat \<Rightarrow> nat \<Rightarrow> nat \<Rightarrow> nat set \<Rightarrow> u8 list \<Rightarrow> u8 list \<Rightarrow> bool" where
  "rows_moved b H dy dc sy sc n D old m \<longleftrightarrow> length m = length old \<and>
     (\<forall>Y C. Y < H \<longrightarrow> C < b \<longrightarrow> m ! (Y * b + C) =
       (if (\<exists>y \<in> D. Y = dy + y) \<and> dc \<le> C \<and> C < dc + n
        then old ! ((sy + (Y - dy)) * b + (sc + (C - dc))) else old ! (Y * b + C)))"

lemma move_row:
  assumes len: "length old = b * H" and m: "rows_moved b H dy dc sy sc n D old m"
    and y: "dy + y < H" "sy + y < H" and c: "dc + n \<le> b" "sc + n \<le> b"
    and ne: "dy \<noteq> sy \<or> dc + n \<le> sc \<or> sc + n \<le> dc" and fresh: "\<forall>y' \<in> D. dy + y' \<noteq> sy + y"
  shows "\<exists>m'. memcpy_within m (int ((dy + y) * b + dc)) (int ((sy + y) * b + sc)) (int n) = Some m' \<and>
    rows_moved b H dy dc sy sc n (insert y D) old m'"
proof -
  let ?d = "(dy + y) * b + dc" and ?s = "(sy + y) * b + sc"
  have lm: "length m = b * H" using m len by (simp add: rows_moved_def)
  have d: "?d + n \<le> length m" and s: "?s + n \<le> length m"
    using row_end [OF c(1) y(1)] row_end [OF c(2) y(2)] lm by simp_all
  have disj: "\<not> (0 < n \<and> ?d < ?s + n \<and> ?s < ?d + n)"
  proof (cases dy sy rule: linorder_cases)
    case less
    then have "(dy + y) * b + b \<le> (sy + y) * b" using mult_le_mono1 [of "Suc (dy + y)" "sy + y" b] by simp
    then show ?thesis using c by linarith
  next
    case greater
    then have "(sy + y) * b + b \<le> (dy + y) * b" using mult_le_mono1 [of "Suc (sy + y)" "dy + y" b] by simp
    then show ?thesis using c by linarith
  next
    case equal
    then show ?thesis using ne by auto
  qed
  let ?m = "take ?d m @ take n (drop ?s m) @ drop (?d + n) m"
  have mc: "memcpy m (int ?d) m (int ?s) (int n) = Some ?m"
    unfolding memcpy_def using d s by (simp flip: of_nat_add)
  have run: "memcpy_within m (int ?d) (int ?s) (int n) = Some ?m"
    unfolding memcpy_within_def using disj mc by (simp only: of_nat_add [symmetric] of_nat_less_iff of_nat_0_less_iff if_False)
  have "?m ! (Y * b + C) = (if (\<exists>y' \<in> insert y D. Y = dy + y') \<and> dc \<le> C \<and> C < dc + n
      then old ! ((sy + (Y - dy)) * b + (sc + (C - dc))) else old ! (Y * b + C))" if YC: "Y < H" "C < b" for Y C
  proof -
    have lt: "Y * b + C < length m" using row_end [of C 1 b Y H] YC lm by simp
    have nth: "?m ! (Y * b + C) = (if Y = dy + y \<and> dc \<le> C \<and> C < dc + n then m ! (?s + (Y * b + C - ?d)) else m ! (Y * b + C))"
      using nth_memcpy [OF d s lt] row_index_iff [OF YC(2) c(1), of "dy + y" Y] by simp
    show ?thesis
    proof (cases "Y = dy + y \<and> dc \<le> C \<and> C < dc + n")
      case True
      then have "?s + (Y * b + C - ?d) = (sy + y) * b + (sc + (C - dc))" by simp
      moreover have "m ! ((sy + y) * b + (sc + (C - dc))) = old ! ((sy + y) * b + (sc + (C - dc)))"
      proof -
        have "sc + (C - dc) < b" using True c by linarith
        then show ?thesis using m y(2) fresh unfolding rows_moved_def by (metis (no_types, lifting))
      qed
      ultimately show ?thesis using nth True by auto
    next
      case False
      with nth m YC show ?thesis by (auto simp: rows_moved_def)
    qed
  qed
  moreover have "length ?m = length old" using d s lm len by simp
  ultimately have "rows_moved b H dy dc sy sc n (insert y D) old ?m" unfolding rows_moved_def by blast
  with run show ?thesis by blast
qed

lemma move_rows_up:
  assumes "length old = b * H" and "dy + h \<le> H" "sy + h \<le> H" and "dc + n \<le> b" "sc + n \<le> b" and "dy < sy"
  shows "\<exists>m. foldM (\<lambda>y m. memcpy_within m (int (dy * b + dc) + int y * int b) (int (sy * b + sc) + int y * int b) (int n))
      [0..<h] old = Some m \<and> rows_moved b H dy dc sy sc n {0..<h} old m"
proof (rule foldM_upt_invariant [where P = "\<lambda>k m. rows_moved b H dy dc sy sc n {0..<k} old m"])
  show "rows_moved b H dy dc sy sc n {0..<0} old old" by (simp add: rows_moved_def)
next
  fix k m assume k: "k < h" and m: "rows_moved b H dy dc sy sc n {0..<k} old m"
  have "\<exists>m'. memcpy_within m (int ((dy + k) * b + dc)) (int ((sy + k) * b + sc)) (int n) = Some m' \<and>
      rows_moved b H dy dc sy sc n (insert k {0..<k}) old m'"
    using assms m k by (intro move_row) auto
  moreover have "insert k {0..<k} = {0..<Suc k}" by auto
  moreover have "int (dy * b + dc) + int k * int b = int ((dy + k) * b + dc)" "int (sy * b + sc) + int k * int b = int ((sy + k) * b + sc)"
    by (simp_all add: algebra_simps)
  ultimately show "\<exists>s'. memcpy_within m (int (dy * b + dc) + int k * int b) (int (sy * b + sc) + int k * int b) (int n) = Some s' \<and>
      rows_moved b H dy dc sy sc n {0..<Suc k} old s'" by (simp only:)
qed simp

lemma move_rows_down:
  assumes "length old = b * H" and "dy + h \<le> H" "sy + h \<le> H" and "dc + n \<le> b" "sc + n \<le> b"
    and "sy < dy \<or> sy = dy \<and> (dc + n \<le> sc \<or> sc + n \<le> dc)" and "0 < h"
  shows "\<exists>m. foldM (\<lambda>y m. memcpy_within m (int ((dy + (h - 1)) * b + dc) + int y * - int b)
      (int ((sy + (h - 1)) * b + sc) + int y * - int b) (int n)) [0..<h] old = Some m \<and> rows_moved b H dy dc sy sc n {0..<h} old m"
proof -
  have "\<exists>m. foldM (\<lambda>y m. memcpy_within m (int ((dy + (h - 1)) * b + dc) + int y * - int b)
      (int ((sy + (h - 1)) * b + sc) + int y * - int b) (int n)) [0..<h] old = Some m \<and> rows_moved b H dy dc sy sc n {h - h..<h} old m"
  proof (rule foldM_upt_invariant [where P = "\<lambda>k m. rows_moved b H dy dc sy sc n {h - k..<h} old m"])
    show "rows_moved b H dy dc sy sc n {h - 0..<h} old old" by (simp add: rows_moved_def)
  next
    fix k m assume k: "k < h" and m: "rows_moved b H dy dc sy sc n {h - k..<h} old m"
    define y where "y = h - 1 - k"
    have y: "y < h" "insert y {h - k..<h} = {h - Suc k..<h}" using k by (auto simp: y_def)
    have "\<exists>m'. memcpy_within m (int ((dy + y) * b + dc)) (int ((sy + y) * b + sc)) (int n) = Some m' \<and>
        rows_moved b H dy dc sy sc n (insert y {h - k..<h}) old m'"
      using assms m y k by (intro move_row) (auto simp: y_def)
    moreover have "int ((a + (h - 1)) * b + e) + int k * - int b = int ((a + y) * b + e)" for a e
    proof -
      have "h - 1 = y + k" using k by (simp add: y_def)
      then show ?thesis by (simp add: algebra_simps)
    qed
    ultimately show "\<exists>s'. memcpy_within m (int ((dy + (h - 1)) * b + dc) + int k * - int b)
        (int ((sy + (h - 1)) * b + sc) + int k * - int b) (int n) = Some s' \<and> rows_moved b H dy dc sy sc n {h - Suc k..<h} old s'"
      unfolding y(2) by (simp only:)
  qed simp
  then show ?thesis by simp
qed

text \<open>The source and the destination of some row of the area overlap exactly when the area moves along its own
  rows by less than its width.\<close>

definition slides :: "Vector2D \<Rightarrow> Rectangle \<Rightarrow> bool" where
  "slides dst_pos src \<longleftrightarrow> vy dst_pos = vy (pos src) \<and> \<bar>vx dst_pos - vx (pos src)\<bar> < vx (size src) \<and> 0 < vy (size src)"

definition rect_inside :: "FrameBuffer \<Rightarrow> Rectangle \<Rightarrow> bool" where
  "rect_inside fb r \<longleftrightarrow> rect_ok r \<and> 0 \<le> vx (pos r) \<and> 0 \<le> vy (pos r) \<and>
     vx (pos r) + vx (size r) \<le> int (horizontal_resolution (fb_config fb)) \<and>
     vy (pos r) + vy (size r) \<le> int (vertical_resolution (fb_config fb))"

lemma FrameBuffer_Move_bytes:
  assumes ok: "fb_ok fb" and src: "rect_inside fb src" and dst: "rect_inside fb \<lparr>pos = dst_pos, size = size src\<rparr>"
    and ne: "\<not> slides dst_pos src" and h: "0 < vy (size src)"
  shows "\<exists>m. FrameBuffer_Move dst_pos src fb = Some (fb\<lparr>fb_bytes := m\<rparr>) \<and>
    rows_moved (4 * pixels_per_scan_line (fb_config fb)) (vertical_resolution (fb_config fb))
      (nat (vy dst_pos)) (4 * nat (vx dst_pos)) (nat (vy (pos src))) (4 * nat (vx (pos src)))
      (4 * nat (vx (size src))) {0..<nat (vy (size src))} (fb_bytes fb) m"
proof -
  let ?c = "fb_config fb" and ?b = "4 * pixels_per_scan_line (fb_config fb)" and ?h = "nat (vy (size src))"
  let ?last = "V 0 (vy (size src) - 1)"
  have S: "0 \<le> vx (pos src)" "0 \<le> vy (pos src)" "0 \<le> vx (size src)"
      "vx (pos src) + vx (size src) \<le> int (horizontal_resolution ?c)" "vy (pos src) + vy (size src) \<le> int (vertical_resolution ?c)"
    and D: "0 \<le> vx dst_pos" "0 \<le> vy dst_pos"
      "vx dst_pos + vx (size src) \<le> int (horizontal_resolution ?c)" "vy dst_pos + vy (size src) \<le> int (vertical_resolution ?c)"
    using src dst by (auto simp: rect_inside_def rect_ok_def)
  have hres: "horizontal_resolution ?c \<le> pixels_per_scan_line ?c" using ok by (simp add: fb_ok_def)
  have len: "length (fb_bytes fb) = ?b * vertical_resolution ?c" using ok by (simp add: fb_ok_def)
  have n: "BytesPerPixel (pixel_format ?c) * vx (size src) = int (4 * nat (vx (size src)))"
    using BytesPerPixel_ok [OF ok] S by simp
  have rows: "nat (vy dst_pos) + ?h \<le> vertical_resolution ?c" "nat (vy (pos src)) + ?h \<le> vertical_resolution ?c"
    and cols: "4 * nat (vx dst_pos) + 4 * nat (vx (size src)) \<le> ?b" "4 * nat (vx (pos src)) + 4 * nat (vx (size src)) \<le> ?b"
    using S D h hres by linarith+
  have line: "int y * BytesPerScanLine ?c = int y * int ?b" if "y < ?h" for y using that rows by (intro scan_line_offset [OF ok]) simp
  have up_loop: "foldM (\<lambda>y m. memcpy_within m (d + int y * BytesPerScanLine ?c) (s + int y * BytesPerScanLine ?c) w) [0..<?h] x =
      foldM (\<lambda>y m. memcpy_within m (d + int y * int ?b) (s + int y * int ?b) w) [0..<?h] x" for d s w x
    by (intro foldM_cong) (auto simp only: set_upt atLeastLessThan_iff line)
  have "int y * - BytesPerScanLine ?c = int y * - int ?b" if "y < ?h" for y using line [OF that] by (simp only: mult_minus_right)
  then have down_loop: "foldM (\<lambda>y m. memcpy_within m (d + int y * - BytesPerScanLine ?c) (s + int y * - BytesPerScanLine ?c) w) [0..<?h] x =
      foldM (\<lambda>y m. memcpy_within m (d + int y * - int ?b) (s + int y * - int ?b) w) [0..<?h] x" for d s w x
    by (intro foldM_cong) (auto simp only: set_upt atLeastLessThan_iff)
  show ?thesis
  proof (cases "vy dst_pos < vy (pos src)")
    case True
    have "FrameAddrAt dst_pos ?c = int (nat (vy dst_pos) * ?b + 4 * nat (vx dst_pos))"
        "FrameAddrAt (pos src) ?c = int (nat (vy (pos src)) * ?b + 4 * nat (vx (pos src)))"
      using S D h by (intro FrameAddrAt_inside [OF ok]; linarith)+
    moreover have "nat (vy dst_pos) < nat (vy (pos src))" using True D by simp
    note up = move_rows_up [OF len rows cols this]
    ultimately show ?thesis using up True unfolding FrameBuffer_Move_def Let_def n if_P [OF True] prod.case up_loop by auto
  next
    case False
    have last: "nat (vy dst_pos + (vy (size src) - 1)) = nat (vy dst_pos) + (?h - 1)"
        "nat (vy (pos src) + (vy (size src) - 1)) = nat (vy (pos src)) + (?h - 1)" using S D h by auto
    have "FrameAddrAt (vec_add dst_pos ?last) ?c = int ((nat (vy dst_pos) + (?h - 1)) * ?b + 4 * nat (vx dst_pos))"
        "FrameAddrAt (vec_add (pos src) ?last) ?c = int ((nat (vy (pos src)) + (?h - 1)) * ?b + 4 * nat (vx (pos src)))"
      unfolding last [symmetric] using S D h FrameAddrAt_inside [OF ok, of "vec_add dst_pos ?last"]
        FrameAddrAt_inside [OF ok, of "vec_add (pos src) ?last"] by (simp_all add: vec_add_def)
    moreover have "nat (vy (pos src)) < nat (vy dst_pos) \<or> nat (vy (pos src)) = nat (vy dst_pos) \<and>
        (4 * nat (vx dst_pos) + 4 * nat (vx (size src)) \<le> 4 * nat (vx (pos src)) \<or>
         4 * nat (vx (pos src)) + 4 * nat (vx (size src)) \<le> 4 * nat (vx dst_pos))" "0 < ?h"
      using False ne S D h by (auto simp: slides_def)
    note down = move_rows_down [OF len rows cols this]
    ultimately show ?thesis using down False unfolding FrameBuffer_Move_def Let_def n if_not_P [OF False] prod.case down_loop by auto
  qed
qed

lemma FrameBuffer_Move_spec:
  assumes ok: "fb_ok fb" and src: "rect_inside fb src" and dst: "rect_inside fb \<lparr>pos = dst_pos, size = size src\<rparr>"
    and ne: "\<not> slides dst_pos src"
  shows "\<exists>fb'. FrameBuffer_Move dst_pos src fb = Some fb' \<and> fb_config fb' = fb_config fb \<and> fb_ok fb' \<and>
    (\<forall>q. fb_inside fb q \<longrightarrow> fb_get fb' q = (if in_rect q \<lparr>pos = dst_pos, size = size src\<rparr>
       then fb_get fb (vec_add (vec_sub q dst_pos) (pos src)) else fb_get fb q))"
proof (cases "0 < vy (size src)")
  case False
  then have "\<not> in_rect q \<lparr>pos = dst_pos, size = size src\<rparr>" for q by (auto simp: in_rect_def)
  with False ok show ?thesis by (simp add: FrameBuffer_Move_def Let_def split: prod.split)
next
  case True
  let ?c = "fb_config fb" and ?b = "4 * pixels_per_scan_line (fb_config fb)"
  obtain m where m: "FrameBuffer_Move dst_pos src fb = Some (fb\<lparr>fb_bytes := m\<rparr>)" "length m = length (fb_bytes fb)"
      "\<forall>Y C. Y < vertical_resolution ?c \<longrightarrow> C < ?b \<longrightarrow> m ! (Y * ?b + C) =
       (if (\<exists>y \<in> {0..<nat (vy (size src))}. Y = nat (vy dst_pos) + y) \<and>
           4 * nat (vx dst_pos) \<le> C \<and> C < 4 * nat (vx dst_pos) + 4 * nat (vx (size src))
        then fb_bytes fb ! ((nat (vy (pos src)) + (Y - nat (vy dst_pos))) * ?b + (4 * nat (vx (pos src)) + (C - 4 * nat (vx dst_pos))))
        else fb_bytes fb ! (Y * ?b + C))"
    using FrameBuffer_Move_bytes [OF assms True] unfolding rows_moved_def by blast
  have R: "0 \<le> vx (pos src)" "0 \<le> vy (pos src)" "0 \<le> vx dst_pos" "0 \<le> vy dst_pos" "0 \<le> vx (size src)"
    using src dst by (auto simp: rect_inside_def rect_ok_def)
  have "px (fb\<lparr>fb_bytes := m\<rparr>) q k = (if in_rect q \<lparr>pos = dst_pos, size = size src\<rparr>
      then px fb (vec_add (vec_sub q dst_pos) (pos src)) k else px fb q k)" if q: "fb_inside fb q" and k: "k < 4" for q k
  proof -
    let ?Y = "nat (vy q)" and ?C = "4 * nat (vx q) + k"
    note Q = inside_bounds [OF q]
    have Y: "?Y < vertical_resolution ?c" and C: "?C < ?b" using Q k ok by (auto simp: fb_ok_def)
    have rows: "(\<exists>y \<in> {0..<nat (vy (size src))}. ?Y = nat (vy dst_pos) + y) \<longleftrightarrow>
        vy dst_pos \<le> vy q \<and> vy q < vy dst_pos + vy (size src)"
      using R Q by (auto intro!: bexI [of _ "nat (vy q) - nat (vy dst_pos)"])
    have cols: "4 * nat (vx dst_pos) \<le> ?C \<and> ?C < 4 * nat (vx dst_pos) + 4 * nat (vx (size src)) \<longleftrightarrow>
        vx dst_pos \<le> vx q \<and> vx q < vx dst_pos + vx (size src)" using R Q k by auto
    have idx: "nat (vy (pos src)) + (?Y - nat (vy dst_pos)) = nat (vy (vec_add (vec_sub q dst_pos) (pos src)))"
        "4 * nat (vx (pos src)) + (?C - 4 * nat (vx dst_pos)) = 4 * nat (vx (vec_add (vec_sub q dst_pos) (pos src))) + k"
      if "in_rect q \<lparr>pos = dst_pos, size = size src\<rparr>"
      using that R Q by (auto simp: in_rect_def vec_add_def vec_sub_def)
    show ?thesis
    proof (cases "in_rect q \<lparr>pos = dst_pos, size = size src\<rparr>")
      case True
      with m(3) [rule_format, OF Y C] rows cols idx show ?thesis by (simp add: px_def in_rect_def)
    next
      case False
      with m(3) [rule_format, OF Y C] rows cols show ?thesis by (auto simp: px_def in_rect_def)
    qed
  qed
  then have "fb_get (fb\<lparr>fb_bytes := m\<rparr>) q = (if in_rect q \<lparr>pos = dst_pos, size = size src\<rparr>
      then fb_get fb (vec_add (vec_sub q dst_pos) (pos src)) else fb_get fb q)" if "fb_inside fb q" for q
    using that by (auto intro!: px_cong_get)
  with m(1,2) ok show ?thesis by (auto simp: fb_ok_def)
qed

subsection \<open>Properties\<close>

text \<open>\<open>FrameBuffer::Copy\<close> clips exactly: for any position and any source area of non-negative size, even
  far outside both buffers, no byte outside either buffer is read or written, every pixel of the
  destination that the shifted area covers and that has a source pixel takes its colour, and every
  other pixel keeps its own.\<close>

theorem FrameBuffer_Copy_clips:
  assumes "fb_ok fb" "fb_ok src" and "pixel_format (fb_config fb) = pixel_format (fb_config src)" and "rect_ok src_area"
  shows "\<exists>fb'. FrameBuffer_Copy dst_pos src src_area fb = Some (kSuccess, fb') \<and> fb_ok fb' \<and>
    (\<forall>q. fb_inside fb q \<longrightarrow> fb_get fb' q =
      (if in_rect q \<lparr>pos = dst_pos, size = size src_area\<rparr> \<and> fb_inside src (vec_sub q (vec_sub dst_pos (pos src_area)))
       then fb_get src (vec_sub q (vec_sub dst_pos (pos src_area))) else fb_get fb q))"
  using FrameBuffer_Copy_spec [OF assms] by blast

definition example_fb :: "nat \<Rightarrow> nat \<Rightarrow> u8 \<Rightarrow> FrameBuffer" where
  "example_fb w h v = \<lparr>fb_config = \<lparr>frame_buffer = None, pixels_per_scan_line = w, horizontal_resolution = w,
     vertical_resolution = h, pixel_format = kPixelRGBResv8BitPerColor\<rparr>, fb_bytes = replicate (4 * w * h) v\<rparr>"

theorem FrameBuffer_Copy_clips_witness:
  "\<exists>fb'. FrameBuffer_Copy (V 2 1) (example_fb 3 3 7) \<lparr>pos = V (-1) 0, size = V 9 9\<rparr> (example_fb 4 4 0) = Some (kSuccess, fb') \<and>
     fb_get fb' (V 3 2) = \<lparr>red = 7, green = 7, blue = 7\<rparr>"
proof -
  have "fb_get (example_fb 3 3 7) (V 0 1) = \<lparr>red = 7, green = 7, blue = 7\<rparr>"
    by (simp add: fb_get_def px_def example_fb_def)
  then show ?thesis
    using FrameBuffer_Copy_clips [of "example_fb 4 4 0" "example_fb 3 3 7" "\<lparr>pos = V (-1) 0, size = V 9 9\<rparr>" "V 2 1"]
    by (auto simp: fb_ok_def example_fb_def rect_ok_def fb_inside_def in_rect_def FrameBufferSize_def vec_sub_def)
qed

lemma FrameBuffer_Move_slides:
  assumes ok: "fb_ok fb" and src: "rect_inside fb src" and dst: "rect_inside fb \<lparr>pos = dst_pos, size = size src\<rparr>" and sl: "slides dst_pos src"
  shows "FrameBuffer_Move dst_pos src fb = None"
proof -
  let ?c = "fb_config fb" and ?last = "V 0 (vy (size src) - 1)" and ?b = "4 * pixels_per_scan_line (fb_config fb)"
  have S: "0 \<le> vx (pos src)" "0 \<le> vy (pos src)" "vx (pos src) + vx (size src) \<le> int (horizontal_resolution ?c)"
      "vy (pos src) + vy (size src) \<le> int (vertical_resolution ?c)"
    and D: "0 \<le> vx dst_pos" "vx dst_pos + vx (size src) \<le> int (horizontal_resolution ?c)"
    and e: "vy dst_pos = vy (pos src)" "\<bar>vx dst_pos - vx (pos src)\<bar> < vx (size src)" "0 < vy (size src)"
    using src dst sl by (auto simp: rect_inside_def slides_def)
  let ?Y = "nat (vy (pos src) + (vy (size src) - 1))"
  have addr: "FrameAddrAt (vec_add dst_pos ?last) ?c = int (?Y * ?b + 4 * nat (vx dst_pos))"
      "FrameAddrAt (vec_add (pos src) ?last) ?c = int (?Y * ?b + 4 * nat (vx (pos src)))"
    using S D e FrameAddrAt_inside [OF ok, of "vec_add dst_pos ?last"] FrameAddrAt_inside [OF ok, of "vec_add (pos src) ?last"]
    by (simp_all add: vec_add_def)
  have bpp: "BytesPerPixel (pixel_format ?c) = 4" using ok by (rule BytesPerPixel_ok)
  have first: "memcpy_within m (FrameAddrAt (vec_add dst_pos ?last) ?c) (FrameAddrAt (vec_add (pos src) ?last) ?c)
      (BytesPerPixel (pixel_format ?c) * vx (size src)) = None" for m
  proof -
    have "4 * vx dst_pos < 4 * vx (pos src) + 4 * vx (size src)" "4 * vx (pos src) < 4 * vx dst_pos + 4 * vx (size src)" using e(2) by linarith+
    then show ?thesis unfolding addr memcpy_within_def using bpp S D e by simp
  qed
  have "[0..<nat (vy (size src))] = 0 # [1..<nat (vy (size src))]" using e(3) by (simp add: upt_conv_Cons)
  then show ?thesis using e(1) first by (simp add: FrameBuffer_Move_def Let_def)
qed

text \<open>C36: \<open>FrameBuffer::Move\<close> moves an area to any other place within a buffer correctly, even when source and
  destination overlap: the order in which it copies the rows never reads a row it has already overwritten, and pixels
  outside the destination are unchanged. The one exception is a move along the area's own rows by less than its width
  (or by nothing): the source and the destination of its \<open>memcpy\<close> then overlap, and the move is undefined.\<close>

theorem FrameBuffer_Move_overlapping:
  assumes "fb_ok fb" and "rect_inside fb src" and "rect_inside fb \<lparr>pos = dst_pos, size = size src\<rparr>"
  shows "(slides dst_pos src \<longrightarrow> FrameBuffer_Move dst_pos src fb = None) \<and>
    (\<not> slides dst_pos src \<longrightarrow> (\<exists>fb'. FrameBuffer_Move dst_pos src fb = Some fb' \<and> fb_ok fb' \<and>
      (\<forall>q. fb_inside fb q \<longrightarrow> fb_get fb' q = (if in_rect q \<lparr>pos = dst_pos, size = size src\<rparr>
         then fb_get fb (vec_add (vec_sub q dst_pos) (pos src)) else fb_get fb q))))"
  using FrameBuffer_Move_spec [OF assms] FrameBuffer_Move_slides [OF assms] by blast

theorem FrameBuffer_Move_overlapping_witness:
  "(\<exists>fb'. FrameBuffer_Move (V 0 0) \<lparr>pos = V 0 1, size = V 4 3\<rparr> (example_fb 4 4 9) = Some fb' \<and> fb_ok fb') \<and>
   (\<exists>fb'. FrameBuffer_Move (V 2 1) \<lparr>pos = V 0 1, size = V 2 3\<rparr> (example_fb 4 4 9) = Some fb' \<and> fb_ok fb') \<and>
   FrameBuffer_Move (V 1 1) \<lparr>pos = V 0 1, size = V 2 3\<rparr> (example_fb 4 4 9) = None"
  using FrameBuffer_Move_overlapping [of "example_fb 4 4 9" "\<lparr>pos = V 0 1, size = V 4 3\<rparr>" "V 0 0"]
    FrameBuffer_Move_overlapping [of "example_fb 4 4 9" "\<lparr>pos = V 0 1, size = V 2 3\<rparr>" "V 2 1"]
    FrameBuffer_Move_overlapping [of "example_fb 4 4 9" "\<lparr>pos = V 0 1, size = V 2 3\<rparr>" "V 1 1"]
  by (auto simp: fb_ok_def example_fb_def rect_inside_def rect_ok_def slides_def)

text \<open>filling a rectangle that lies in a frame buffer paints exactly its pixels, whatever the
  pixel format.\<close>

theorem FillRectangle_frame_buffer:
  assumes "fb_ok fb" and "rect_inside fb \<lparr>pos = p, size = sz\<rparr>"
  shows "\<exists>fb'. FillRectangle FrameBuffer_Write p sz c fb = Some fb' \<and>
    (\<forall>q. fb_inside fb q \<longrightarrow> fb_get fb' q = (if in_rect q \<lparr>pos = p, size = sz\<rparr> then c else fb_get fb q))"
proof -
  have live: "fb_live fb q" if "in_rect q \<lparr>pos = p, size = sz\<rparr>" for q
    using that assms by (auto simp: fb_live_def fb_inside_def in_rect_def rect_inside_def FrameBufferSize_def)
  have "\<exists>s'. FillRectangle FrameBuffer_Write p sz c fb = Some s' \<and>
      fb_surface.painted (\<lambda>q. in_rect q \<lparr>pos = p, size = sz\<rparr>) c fb s'"
    by (rule fb_surface.FillRectangle_painted) (rule live)
  then show ?thesis using assms(1) by (auto simp: fb_surface.painted_def fb_live_def)
qed

theorem FillRectangle_frame_buffer_witness:
  "\<exists>fb'. FillRectangle FrameBuffer_Write (V 1 1) (V 2 2) \<lparr>red = 1, green = 2, blue = 3\<rparr> (example_fb 4 4 0) = Some fb' \<and>
     fb_get fb' (V 2 2) = \<lparr>red = 1, green = 2, blue = 3\<rparr>"
  using FillRectangle_frame_buffer [of "example_fb 4 4 0" "V 1 1" "V 2 2" "\<lparr>red = 1, green = 2, blue = 3\<rparr>"]
  by (auto simp: fb_ok_def example_fb_def rect_inside_def rect_ok_def fb_inside_def in_rect_def FrameBufferSize_def)

lemma FrameBuffer_Initialize_ok:
  assumes "FrameBuffer_Initialize cfg = (kSuccess, fb)" and "frame_buffer cfg = None"
    and "4 * horizontal_resolution cfg * vertical_resolution cfg < 2 ^ 32"
  shows "fb_ok fb \<and> horizontal_resolution (fb_config fb) = horizontal_resolution cfg \<and>
    vertical_resolution (fb_config fb) = vertical_resolution cfg \<and> pixel_format (fb_config fb) = pixel_format cfg"
proof -
  let ?n = "4 * horizontal_resolution cfg * vertical_resolution cfg"
  have bpp: "BytesPerPixel (pixel_format cfg) = 4" "pixel_format cfg \<noteq> other_format"
    using assms(1,2) by (auto simp: FrameBuffer_Initialize_def BytesPerPixel_def Let_def split: PixelFormat.splits if_splits)
  have "int ?n < int (2 ^ 32)" using assms(3) by (simp only: of_nat_less_iff)
  then have "int ?n mod 2 ^ 32 = int ?n" by (simp only: of_nat_power of_nat_numeral mod_pos_pos_trivial of_nat_0_le_iff)
  then have "nat ((4 * int (horizontal_resolution cfg) * int (vertical_resolution cfg)) mod 2 ^ 32) = ?n"
    by (simp only: of_nat_mult of_nat_numeral nat_int) (metis nat_int of_nat_mult of_nat_numeral)
  then show ?thesis using assms bpp
    by (auto simp: FrameBuffer_Initialize_def Let_def fb_ok_def)
qed

end
