(* ===== verification/Font.thy ===== *)
theory Font
  imports Frame_Buffer
begin

text \<open>
  \<open>src/kernel/font.cpp\<close>: drawing characters of the 8x16 font. The font image is linked in from a
  binary; its bytes are the parameter \<open>font\<close>.
\<close>

text \<open>\<open>static_cast<unsigned int>(c)\<close> of the signed \<open>char\<close>.\<close>

definition char_unsigned :: "char \<Rightarrow> nat" where
  "char_unsigned c = (let n = of_char c :: nat in if n < 128 then n else 2 ^ 32 - 256 + n)"

definition GetFont :: "u8 list \<Rightarrow> char \<Rightarrow> nat option" where
  "GetFont font c =
     (let index = (16 * char_unsigned c) mod 2 ^ 32
      in if index \<ge> length font then None else Some index)"

definition WriteAscii :: "u8 list \<Rightarrow> 's writer \<Rightarrow> Vector2D \<Rightarrow> char \<Rightarrow> PixelColor \<Rightarrow> 's \<Rightarrow> 's option" where
  "WriteAscii font put p c color s =
     (case GetFont font c of
        None \<Rightarrow> Some s
      | Some index \<Rightarrow>
          foldM (\<lambda>dy s. foldM (\<lambda>dx s. do {
              row \<leftarrow> arr_get font (index + dy);
              if bit (push_bit dx row) 7 then put (vec_add p (V (int dx) (int dy))) color s else Some s
            }) [0..<8] s) [0..<16] s)"

text \<open>\<open>s\<close> is the characters before the terminating null.\<close>

definition WriteString :: "u8 list \<Rightarrow> 's writer \<Rightarrow> Vector2D \<Rightarrow> string \<Rightarrow> PixelColor \<Rightarrow> 's \<Rightarrow> 's option" where
  "WriteString font put p s color st =
     foldM (\<lambda>i st. do { c \<leftarrow> arr_get s i; WriteAscii font put (vec_add p (V (8 * int i) 0)) c color st })
       [0..<length s] st"

text \<open>Characters above 127 have no glyph.\<close>

lemma GetFont_negative:
  assumes "length font \<le> 2 ^ 32 - 4096" and "of_char c \<ge> (128 :: nat)"
  shows "GetFont font c = None"
proof -
  let ?n = "of_char c :: nat"
  have "?n < 256" by simp
  have "16 * (2 ^ 32 - 256 + n) = (2 ^ 32 - 4096 + 16 * n) + 15 * 2 ^ 32" for n :: nat by simp
  then have "(16 * (2 ^ 32 - 256 + ?n)) mod 2 ^ 32 = (2 ^ 32 - 4096 + 16 * ?n) mod 2 ^ 32"
    by (simp only: mod_mult_self1)
  also have "\<dots> = 2 ^ 32 - 4096 + 16 * ?n" using \<open>?n < 256\<close> by (intro mod_less) simp
  finally have "(16 * (2 ^ 32 - 256 + ?n)) mod 2 ^ 32 = 2 ^ 32 - 4096 + 16 * ?n" .
  with assms show ?thesis by (simp add: GetFont_def char_unsigned_def Let_def)
qed

text \<open>What a drawing routine may do to a surface: nothing outside the rectangle it draws in.\<close>

definition draws_in :: "('s \<Rightarrow> Vector2D \<Rightarrow> bool) \<Rightarrow> ('s \<Rightarrow> Vector2D \<Rightarrow> PixelColor) \<Rightarrow> Rectangle \<Rightarrow> 's \<Rightarrow> 's \<Rightarrow> bool" where
  "draws_in inside get r s s' \<longleftrightarrow> (\<forall>q. inside s' q = inside s q) \<and>
     (\<forall>q. inside s q \<longrightarrow> \<not> in_rect q r \<longrightarrow> get s' q = get s q)"

context pixel_surface
begin

lemma draws_in_refl: "draws_in inside get r s s"
  by (simp add: draws_in_def)

lemma draws_in_trans: "draws_in inside get r s1 s2 \<Longrightarrow> draws_in inside get r s2 s3 \<Longrightarrow> draws_in inside get r s1 s3"
  by (simp add: draws_in_def)

lemma draws_in_loop:
  assumes "\<And>x t. x \<in> set xs \<Longrightarrow> draws_in inside get r s t \<Longrightarrow> \<exists>t'. f x t = Some t' \<and> draws_in inside get r t t'"
  shows "\<exists>s'. foldM f xs s = Some s' \<and> draws_in inside get r s s'"
proof -
  have "\<exists>s'. foldM f xs t = Some s' \<and> draws_in inside get r s s'" if "draws_in inside get r s t" for t
    using that assms
  proof (induction xs arbitrary: t)
    case (Cons x xs)
    obtain t1 where t1: "f x t = Some t1" "draws_in inside get r t t1" using Cons.prems(2) [of x t] Cons.prems(1) by auto
    have "draws_in inside get r s t1" using draws_in_trans [OF Cons.prems(1) t1(2)] .
    then have "\<exists>s'. foldM f xs t1 = Some s' \<and> draws_in inside get r s s'"
      by (intro Cons.IH) (use Cons.prems(2) in auto)
    with t1 show ?case by simp
  qed simp
  from this [OF draws_in_refl] show ?thesis .
qed

lemma draws_in_write:
  assumes "inside s p" and "in_rect p r"
  shows "\<exists>s'. put p c s = Some s' \<and> draws_in inside get r s s'"
  using write_ok [OF assms(1), of c] assms(2) by (fastforce simp: draws_in_def)

lemma WriteAscii_draws:
  assumes font: "length font = 4096" and r: "\<And>q. in_rect q \<lparr>pos = p, size = V 8 16\<rparr> \<Longrightarrow> inside s q"
  shows "\<exists>s'. WriteAscii font put p c color s = Some s' \<and> draws_in inside get \<lparr>pos = p, size = V 8 16\<rparr> s s'"
proof (cases "GetFont font c")
  case None
  then show ?thesis by (simp add: WriteAscii_def draws_in_refl)
next
  case (Some index)
  let ?r = "\<lparr>pos = p, size = V 8 16\<rparr>"
  have "of_char c < (128 :: nat)" using GetFont_negative [of font c] Some font by fastforce
  then have "index + dy < length font" if "dy < 16" for dy
    using Some font that by (auto simp: GetFont_def char_unsigned_def Let_def split: if_splits)
  then have row: "arr_get font (index + dy) = Some (font ! (index + dy))" if "dy \<in> set [0..<16]" for dy
    using that by (simp add: arr_get_def)
  have pixel: "\<exists>t'. (if b then put (vec_add p (V (int dx) (int dy))) color t else Some t) = Some t' \<and> draws_in inside get ?r t t'"
    if "dy \<in> set [0..<16]" "dx \<in> set [0..<8]" "draws_in inside get ?r s t" for b dx dy t
  proof -
    have "in_rect (vec_add p (V (int dx) (int dy))) ?r" using that(1,2) by (auto simp: in_rect_def vec_add_def)
    moreover from r [OF this] that(3) have "inside t (vec_add p (V (int dx) (int dy)))" by (simp add: draws_in_def)
    ultimately show ?thesis using draws_in_write draws_in_refl by (cases b) auto
  qed
  have "\<exists>s'. foldM (\<lambda>dy s. foldM (\<lambda>dx s. do {
      row \<leftarrow> arr_get font (index + dy);
      if bit (push_bit dx row) 7 then put (vec_add p (V (int dx) (int dy))) color s else Some s
    }) [0..<8] s) [0..<16] s = Some s' \<and> draws_in inside get ?r s s'"
  proof (rule draws_in_loop, rule draws_in_loop)
    fix dy t dx u assume dy: "dy \<in> set [0..<16]" and t: "draws_in inside get ?r s t"
      and dx: "dx \<in> set [0..<8]" and u: "draws_in inside get ?r t u"
    show "\<exists>t'. do { row \<leftarrow> arr_get font (index + dy);
        if bit (push_bit dx row) 7 then put (vec_add p (V (int dx) (int dy))) color u else Some u } = Some t' \<and>
        draws_in inside get ?r u t'"
      unfolding row [OF dy] bind.bind_lunit using pixel [OF dy dx draws_in_trans [OF t u]] by simp
  qed
  then show ?thesis using Some by (simp add: WriteAscii_def)
qed

lemma draws_in_mono:
  "draws_in inside get r s s' \<Longrightarrow> (\<And>q. in_rect q r \<Longrightarrow> in_rect q r') \<Longrightarrow> draws_in inside get r' s s'"
  by (auto simp: draws_in_def)

lemma WriteString_draws:
  assumes font: "length font = 4096" and r: "\<And>q. in_rect q \<lparr>pos = p, size = V (8 * int (length str)) 16\<rparr> \<Longrightarrow> inside s q"
  shows "\<exists>s'. WriteString font put p str color s = Some s' \<and>
    draws_in inside get \<lparr>pos = p, size = V (8 * int (length str)) 16\<rparr> s s'"
  unfolding WriteString_def
proof (rule draws_in_loop)
  let ?r = "\<lparr>pos = p, size = V (8 * int (length str)) 16\<rparr>"
  fix i t assume i: "i \<in> set [0..<length str]" and t: "draws_in inside get ?r s t"
  let ?q = "vec_add p (V (8 * int i) 0)"
  have sub: "in_rect q ?r" if "in_rect q \<lparr>pos = ?q, size = V 8 16\<rparr>" for q
    using that i by (auto simp: in_rect_def vec_add_def)
  have "\<exists>s'. WriteAscii font put ?q (str ! i) color t = Some s' \<and> draws_in inside get \<lparr>pos = ?q, size = V 8 16\<rparr> t s'"
    using font by (rule WriteAscii_draws) (use r sub t in \<open>simp add: draws_in_def\<close>)
  then show "\<exists>t'. do { c \<leftarrow> arr_get str i; WriteAscii font put ?q c color t } = Some t' \<and> draws_in inside get ?r t t'"
    using i sub draws_in_mono by (auto simp: arr_get_def)
qed

lemma fill_where_draws:
  assumes "\<And>q. in_rect q \<lparr>pos = p, size = sz\<rparr> \<Longrightarrow> inside s q"
  shows "\<exists>s'. fill_where P put p sz c s = Some s' \<and> draws_in inside get \<lparr>pos = p, size = sz\<rparr> s s'"
proof -
  have "\<exists>s'. fill_where P put p sz c s = Some s' \<and>
      painted (\<lambda>q. in_rect q \<lparr>pos = p, size = sz\<rparr> \<and> P (vx q - vx p) (vy q - vy p)) c s s'"
    using assms by (rule fill_where_painted)
  then show ?thesis by (auto simp: painted_def draws_in_def)
qed

end

context stable_writer
begin

lemma WriteAscii_stable: "WriteAscii font put p c color s = Some s' \<Longrightarrow> h s' = h s"
  unfolding WriteAscii_def
  by (auto split: option.splits if_splits Option.bind_splits elim!: foldM_preserves dest: put_stable)

lemma WriteString_stable: "WriteString font put p str color s = Some s' \<Longrightarrow> h s' = h s"
  unfolding WriteString_def
  by (erule foldM_preserves) (auto dest: WriteAscii_stable split: Option.bind_splits)

end

end
