(* ===== verification/Window.thy ===== *)
theory Window
  imports Font
begin

text \<open>
  \<open>src/kernel/window.hpp\<close> and \<open>window.cpp\<close>: windows with their pixel array and shadow buffer,
  and the decoration of top-level windows. \<open>win_title\<close> is the title of a \<open>ToplevelWindow\<close> and
  \<open>None\<close> for a plain window; \<open>Activate\<close> and \<open>Deactivate\<close> dispatch on it.
\<close>

record Window =
  win_width :: int
  win_height :: int
  win_data :: "PixelColor list list"
  transparent_color :: "PixelColor option"
  shadow_buffer :: FrameBuffer
  win_title :: "string option"

definition black :: PixelColor where "black = \<lparr>red = 0, green = 0, blue = 0\<rparr>"

definition Window_new :: "nat \<Rightarrow> nat \<Rightarrow> PixelFormat \<Rightarrow> Window" where
  "Window_new width height shadow_format =
     (let cfg = \<lparr>frame_buffer = None, pixels_per_scan_line = 0, horizontal_resolution = width,
            vertical_resolution = height, pixel_format = shadow_format\<rparr>;
          (err, fb) = FrameBuffer_Initialize cfg
      in \<lparr>win_width = int width, win_height = int height, win_data = replicate height (replicate width black),
          transparent_color = None, shadow_buffer = fb, win_title = None\<rparr>)"

definition SetTransparentColor :: "PixelColor option \<Rightarrow> Window \<Rightarrow> Window" where
  "SetTransparentColor c w = w\<lparr>transparent_color := c\<rparr>"

definition Window_Size :: "Window \<Rightarrow> Vector2D" where
  "Window_Size w = V (win_width w) (win_height w)"

definition Window_At :: "Vector2D \<Rightarrow> Window \<Rightarrow> PixelColor option" where
  "Window_At p w = (if 0 \<le> vx p \<and> 0 \<le> vy p
     then do { row \<leftarrow> arr_get (win_data w) (nat (vy p)); arr_get row (nat (vx p)) } else None)"

definition Window_Write :: "Vector2D \<Rightarrow> PixelColor \<Rightarrow> Window \<Rightarrow> Window option" where
  "Window_Write p c w = (if 0 \<le> vx p \<and> 0 \<le> vy p then do {
     row \<leftarrow> arr_get (win_data w) (nat (vy p));
     row \<leftarrow> arr_set row (nat (vx p)) c;
     d \<leftarrow> arr_set (win_data w) (nat (vy p)) row;
     fb \<leftarrow> FrameBuffer_Write p c (shadow_buffer w);
     Some (w\<lparr>win_data := d, shadow_buffer := fb\<rparr>)
   } else None)"

definition Window_DrawTo :: "Window \<Rightarrow> Vector2D \<Rightarrow> Rectangle \<Rightarrow> FrameBuffer \<Rightarrow> FrameBuffer option" where
  "Window_DrawTo w p area dst =
     (case transparent_color w of
        None \<Rightarrow> do {
          let window_area = \<lparr>pos = p, size = Window_Size w\<rparr>;
          let intersection = rect_and area window_area;
          (_, dst) \<leftarrow> FrameBuffer_Copy (pos intersection) (shadow_buffer w)
                       \<lparr>pos = vec_sub (pos intersection) p, size = size intersection\<rparr> dst;
          Some dst
        }
      | Some tc \<Rightarrow>
          (let W = int (horizontal_resolution (fb_config dst)); H = int (vertical_resolution (fb_config dst))
           in foldM (\<lambda>y. foldM (\<lambda>x dst. do {
                c \<leftarrow> Window_At (V x y) w;
                if c \<noteq> tc then FrameBuffer_Write (vec_add p (V x y)) c dst else Some dst
              }) [max 0 (0 - vx p)..min (win_width w) (W - vx p) - 1])
              [max 0 (0 - vy p)..min (win_height w) (H - vy p) - 1] dst))"

definition Window_Move :: "Vector2D \<Rightarrow> Rectangle \<Rightarrow> Window \<Rightarrow> Window option" where
  "Window_Move dst_pos src w = do {
     fb \<leftarrow> FrameBuffer_Move dst_pos src (shadow_buffer w);
     Some (w\<lparr>shadow_buffer := fb\<rparr>)
   }"

subsection \<open>Top-level windows\<close>

definition kTopLeftMargin :: Vector2D where "kTopLeftMargin = V 4 24"
definition kBottomRightMargin :: Vector2D where "kBottomRightMargin = V 4 4"
definition kMarginX :: int where "kMarginX = vx kTopLeftMargin + vx kBottomRightMargin"
definition kMarginY :: int where "kMarginY = vy kTopLeftMargin + vy kBottomRightMargin"

definition Inner_Write :: "Vector2D \<Rightarrow> PixelColor \<Rightarrow> Window \<Rightarrow> Window option" where
  "Inner_Write p c w = Window_Write (vec_add p kTopLeftMargin) c w"

definition InnerSize :: "Window \<Rightarrow> Vector2D" where
  "InnerSize w = vec_sub (vec_sub (Window_Size w) kTopLeftMargin) kBottomRightMargin"

definition kCloseButtonWidth :: int where "kCloseButtonWidth = 16"
definition kCloseButtonHeight :: int where "kCloseButtonHeight = 14"

definition close_button :: "string list" where
  "close_button =
     [''...............@'',
      ''.:::::::::::::$@'',
      ''.:::::::::::::$@'',
      ''.:::@@::::@@::$@'',
      ''.::::@@::@@:::$@'',
      ''.:::::@@@@::::$@'',
      ''.::::::@@:::::$@'',
      ''.:::::@@@@::::$@'',
      ''.::::@@::@@:::$@'',
      ''.:::@@::::@@::$@'',
      ''.:::::::::::::$@'',
      ''.:::::::::::::$@'',
      ''.$$$$$$$$$$$$$$@'',
      ''@@@@@@@@@@@@@@@@'']"

definition button_color :: "char \<Rightarrow> PixelColor" where
  "button_color ch = (if ch = CHR ''@'' then ToColor 0xAD8B73
     else if ch = CHR ''$'' then ToColor 0x848484
     else if ch = CHR '':'' then ToColor 0xFFFBE9 else ToColor 0xffffff)"

text \<open>The drawing functions take the writer and its width and height.\<close>

definition DrawWindowTitle :: "u8 list \<Rightarrow> 's writer \<Rightarrow> int \<Rightarrow> string \<Rightarrow> bool \<Rightarrow> 's \<Rightarrow> 's option" where
  "DrawWindowTitle font put win_w title active s = do {
     let bgcolor = (if active then 0xad9787 else 0xc2ad9f);
     s \<leftarrow> FillRectangleRoundUpper put (V 0 0) (V win_w 20) (ToColor bgcolor) 3 s;
     s \<leftarrow> WriteString font put (V 24 4) title (ToColor 0xffffff) s;
     foldM (\<lambda>y. foldM (\<lambda>x s. do {
         row \<leftarrow> arr_get close_button y;
         ch \<leftarrow> arr_get row x;
         put (V (win_w - 5 - kCloseButtonWidth + int x) (5 + int y)) (button_color ch) s
       }) [0..<nat kCloseButtonWidth]) [0..<nat kCloseButtonHeight] s
   }"

definition DrawWindow :: "u8 list \<Rightarrow> 's writer \<Rightarrow> int \<Rightarrow> int \<Rightarrow> string \<Rightarrow> 's \<Rightarrow> 's option" where
  "DrawWindow font put win_w win_h title s = do {
     s \<leftarrow> FillRectangle put (V 0 0) (V win_w win_h) (ToColor 0xB5EAEA) s;
     s \<leftarrow> FillRectangleRound put (V 0 0) (V win_w win_h) (ToColor 0xFFFBE9) 3 s;
     s \<leftarrow> FillRectangleRoundUpper put (V 0 0) (V win_w 20) (ToColor 0xAD8B73) 3 s;
     DrawWindowTitle font put win_w title False s
   }"

definition DrawTextbox6 :: "'s writer \<Rightarrow> Vector2D \<Rightarrow> Vector2D \<Rightarrow> PixelColor \<Rightarrow> PixelColor \<Rightarrow> PixelColor \<Rightarrow> 's \<Rightarrow> 's option" where
  "DrawTextbox6 put p sz background border_light border_dark s =
     FillRectangle put (vec_add p (V 0 0)) (vec_sub sz (V 0 0)) background s"

definition DrawTextbox :: "'s writer \<Rightarrow> Vector2D \<Rightarrow> Vector2D \<Rightarrow> 's \<Rightarrow> 's option" where
  "DrawTextbox put p sz s = DrawTextbox6 put p sz (ToColor 0xFFFBE9) (ToColor 0xad9787) (ToColor 0xad9787) s"

definition DrawTerminal :: "'s writer \<Rightarrow> Vector2D \<Rightarrow> Vector2D \<Rightarrow> 's \<Rightarrow> 's option" where
  "DrawTerminal put p sz s = DrawTextbox6 put p sz (ToColor 0xC8B2FF) (ToColor 0xBAABDA) (ToColor 0xBAABDA) s"

definition ToplevelWindow_new :: "u8 list \<Rightarrow> nat \<Rightarrow> nat \<Rightarrow> PixelFormat \<Rightarrow> string \<Rightarrow> Window option" where
  "ToplevelWindow_new font width height shadow_format title =
     (let w = (Window_new width height shadow_format)\<lparr>win_title := Some title\<rparr>
      in DrawWindow font Window_Write (win_width w) (win_height w) title w)"

definition Window_Activate :: "u8 list \<Rightarrow> Window \<Rightarrow> Window option" where
  "Window_Activate font w = (case win_title w of None \<Rightarrow> Some w
     | Some title \<Rightarrow> DrawWindowTitle font Window_Write (win_width w) title True w)"

definition Window_Deactivate :: "u8 list \<Rightarrow> Window \<Rightarrow> Window option" where
  "Window_Deactivate font w = (case win_title w of None \<Rightarrow> Some w
     | Some title \<Rightarrow> DrawWindowTitle font Window_Write (win_width w) title False w)"

subsection \<open>Drawing the decoration\<close>

context stable_writer
begin

lemma DrawWindowTitle_stable:
  assumes "DrawWindowTitle font put win_w title active s = Some s'"
  shows "h s' = h s"
proof -
  let ?loop = "foldM (\<lambda>y. foldM (\<lambda>x s. do { row \<leftarrow> arr_get close_button y; ch \<leftarrow> arr_get row x;
      put (V (win_w - 5 - kCloseButtonWidth + int x) (5 + int y)) (button_color ch) s })
    [0..<nat kCloseButtonWidth]) [0..<nat kCloseButtonHeight]"
  obtain s1 s2 where s1: "h s1 = h s" "h s2 = h s1" and "?loop s2 = Some s'"
    using assms unfolding DrawWindowTitle_def FillRectangleRoundUpper_def Let_def
    by (auto dest!: fill_where_stable WriteString_stable split: Option.bind_splits)
  from this(3) have "h s' = h s2"
    by (rule foldM_preserves) (erule foldM_preserves, auto dest: put_stable split: Option.bind_splits)
  with s1 show ?thesis by simp
qed

end

text \<open>The part of the title bar left of the title and of the close button, inside the rounded corner.\<close>

definition title_colour :: "bool \<Rightarrow> PixelColor" where
  "title_colour active = ToColor (if active then 0xad9787 else 0xc2ad9f)"

definition in_title_bar :: "int \<Rightarrow> Vector2D \<Rightarrow> bool" where
  "in_title_bar win_w q \<longleftrightarrow> 0 \<le> vx q \<and> vx q < 24 \<and> vx q < win_w - 21 \<and> 0 \<le> vy q \<and> vy q < 20 \<and> 3 < vx q + vy q"

context pixel_surface
begin

lemma DrawWindowTitle_draws:
  assumes font: "length font = 4096" and fits: "24 + 8 * int (length title) \<le> win_w" "21 \<le> win_w"
    and r: "\<And>q. in_rect q \<lparr>pos = V 0 0, size = V win_w 20\<rparr> \<Longrightarrow> inside s q"
  shows "\<exists>s'. DrawWindowTitle font put win_w title active s = Some s' \<and> draws_in inside get \<lparr>pos = V 0 0, size = V win_w 20\<rparr> s s' \<and>
    (\<forall>q. in_title_bar win_w q \<longrightarrow> get s' q = title_colour active)"
proof -
  let ?r = "\<lparr>pos = V 0 0, size = V win_w 20\<rparr>" and ?bg = "ToColor (if active then 0xad9787 else 0xc2ad9f)"
  obtain s1 where s1: "FillRectangleRoundUpper put (V 0 0) (V win_w 20) ?bg 3 s = Some s1" "draws_in inside get ?r s s1"
    using fill_where_draws [OF r] unfolding FillRectangleRoundUpper_def by blast
  have bar1: "get s1 q = title_colour active \<and> in_rect q ?r" if "in_title_bar win_w q" for q
  proof -
    have q: "in_rect q ?r" "isRectangleRoundUpper (vx q) (vy q) win_w 20 3"
      using that by (auto simp: in_title_bar_def in_rect_def isRectangleRoundUpper_def)
    moreover obtain s1' where "FillRectangleRoundUpper put (V 0 0) (V win_w 20) ?bg 3 s = Some s1'"
      "painted (\<lambda>q. in_rect q ?r \<and> isRectangleRoundUpper (vx q) (vy q) win_w 20 3) ?bg s s1'"
      using fill_where_painted [OF r] unfolding FillRectangleRoundUpper_def by fastforce
    ultimately show ?thesis using s1(1) r [OF q(1)] by (simp add: painted_def title_colour_def)
  qed
  have r1: "inside s1 q" if "in_rect q ?r" for q using s1(2) r [OF that] by (simp add: draws_in_def)
  let ?t = "\<lparr>pos = V 24 4, size = V (8 * int (length title)) 16\<rparr>"
  have sub: "in_rect q ?r" if "in_rect q ?t" for q using that fits by (auto simp: in_rect_def)
  obtain s2 where s2: "WriteString font put (V 24 4) title (ToColor 0xffffff) s1 = Some s2" "draws_in inside get ?t s1 s2"
    using WriteString_draws [OF font, of "V 24 4" title s1] r1 sub by blast
  have d2: "draws_in inside get ?r s s2" using draws_in_trans [OF s1(2) draws_in_mono [OF s2(2) sub]] by simp
  let ?b = "\<lparr>pos = V (win_w - 21) 5, size = V 16 14\<rparr>"
  have "\<exists>s'. foldM (\<lambda>y. foldM (\<lambda>x s. do {
         row \<leftarrow> arr_get close_button y;
         ch \<leftarrow> arr_get row x;
         put (V (win_w - 5 - kCloseButtonWidth + int x) (5 + int y)) (button_color ch) s
       }) [0..<nat kCloseButtonWidth]) [0..<nat kCloseButtonHeight] s2 = Some s' \<and> draws_in inside get ?b s2 s'"
  proof (rule draws_in_loop, rule draws_in_loop)
    fix y t x u assume y: "y \<in> set [0..<nat kCloseButtonHeight]" and t: "draws_in inside get ?b s2 t"
      and x: "x \<in> set [0..<nat kCloseButtonWidth]" and u: "draws_in inside get ?b t u"
    have "length close_button = 14" "\<forall>row \<in> set close_button. length row = 16" by (simp_all add: close_button_def)
    then have b: "y < length close_button" "x < length (close_button ! y)"
      using x y by (simp_all add: kCloseButtonHeight_def kCloseButtonWidth_def)
    let ?p = "V (win_w - 5 - kCloseButtonWidth + int x) (5 + int y)"
    have p: "in_rect ?p ?b" "in_rect ?p ?r" using x y fits by (simp_all add: in_rect_def kCloseButtonHeight_def kCloseButtonWidth_def)
    have "inside u ?p" using r [OF p(2)] d2 t u by (simp add: draws_in_def)
    from draws_in_write [OF this p(1)] b show "\<exists>t'. do { row \<leftarrow> arr_get close_button y; ch \<leftarrow> arr_get row x;
         put ?p (button_color ch) u } = Some t' \<and> draws_in inside get ?b u t'"
      by (simp add: arr_get_def)
  qed
  then obtain s3 where s3: "DrawWindowTitle font put win_w title active s = Some s3" "draws_in inside get ?b s2 s3"
    using s1(1) s2(1) by (auto simp: DrawWindowTitle_def)
  have "in_rect q ?r" if "in_rect q ?b" for q using that fits by (auto simp: in_rect_def)
  then have "draws_in inside get ?r s s3" using draws_in_trans [OF d2 draws_in_mono [OF s3(2)]] by simp
  moreover have "get s3 q = title_colour active" if q: "in_title_bar win_w q" for q
  proof -
    have "\<not> in_rect q ?t" "\<not> in_rect q ?b" using q by (auto simp: in_title_bar_def in_rect_def)
    then show ?thesis using bar1 [OF q] r r1 s2(2) s3(2) by (simp add: draws_in_def)
  qed
  ultimately show ?thesis using s3(1) by blast
qed

end

subsection \<open>Invariant\<close>

definition win_ok :: "Window \<Rightarrow> bool" where
  "win_ok w \<longleftrightarrow> fb_ok (shadow_buffer w) \<and> FrameBufferSize (fb_config (shadow_buffer w)) = Window_Size w \<and>
     length (win_data w) = nat (win_height w) \<and> (\<forall>row \<in> set (win_data w). length row = nat (win_width w))"

definition win_inside :: "Window \<Rightarrow> Vector2D \<Rightarrow> bool" where
  "win_inside w p \<longleftrightarrow> win_ok w \<and> in_rect p \<lparr>pos = V 0 0, size = Window_Size w\<rparr>"

definition win_get :: "Window \<Rightarrow> Vector2D \<Rightarrow> PixelColor" where
  "win_get w p = fb_get (shadow_buffer w) p"

lemma Window_Write_spec:
  assumes "win_inside w p"
  shows "\<exists>w'. Window_Write p c w = Some w' \<and> win_ok w' \<and> Window_Size w' = Window_Size w \<and>
    transparent_color w' = transparent_color w \<and> win_title w' = win_title w \<and>
    fb_config (shadow_buffer w') = fb_config (shadow_buffer w) \<and> Window_At p w' = Some c \<and>
    (\<forall>q. win_inside w q \<longrightarrow> win_get w' q = (if q = p then c else win_get w q))"
proof -
  have ok: "win_ok w" and p: "0 \<le> vx p" "vx p < win_width w" "0 \<le> vy p" "vy p < win_height w"
    using assms by (auto simp: win_inside_def in_rect_def Window_Size_def)
  have fb: "fb_ok (shadow_buffer w)" and inside: "win_inside w q = fb_inside (shadow_buffer w) q" for q
    using ok by (auto simp: win_ok_def win_inside_def fb_inside_def)
  obtain fb' where fb': "FrameBuffer_Write p c (shadow_buffer w) = Some fb'" "fb_config fb' = fb_config (shadow_buffer w)"
      "fb_ok fb'" "\<forall>q. fb_inside (shadow_buffer w) q \<longrightarrow> fb_get fb' q = (if q = p then c else fb_get (shadow_buffer w) q)"
    using FrameBuffer_Write_spec [OF fb, of p c] assms inside by auto
  have y: "nat (vy p) < length (win_data w)" using ok p by (simp add: win_ok_def)
  then have "win_data w ! nat (vy p) \<in> set (win_data w)" by simp
  then have x: "nat (vx p) < length (win_data w ! nat (vy p))" using ok p by (simp add: win_ok_def)
  let ?w = "w\<lparr>win_data := (win_data w)[nat (vy p) := (win_data w ! nat (vy p))[nat (vx p) := c]], shadow_buffer := fb'\<rparr>"
  have "Window_Write p c w = Some ?w" using p x y fb'(1) by (simp add: Window_Write_def arr_get_def arr_set_def)
  moreover have "win_ok ?w" using ok fb'(2,3) x y
    by (auto simp: win_ok_def Window_Size_def dest!: set_update_subset_insert [THEN subsetD])
  moreover have "Window_At p ?w = Some c" using p x y by (simp add: Window_At_def arr_get_def)
  ultimately show ?thesis using fb'(2,4) inside by (auto simp: Window_Size_def win_get_def)
qed

interpretation win_surface: pixel_surface Window_Write win_get win_inside
proof
  fix w :: Window and p c assume p: "win_inside w p"
  then have "win_ok w" by (simp add: win_inside_def)
  then show "\<exists>s'. Window_Write p c w = Some s' \<and> win_get s' p = c \<and> (\<forall>q. win_inside s' q = win_inside w q) \<and>
      (\<forall>q. win_inside w q \<longrightarrow> q \<noteq> p \<longrightarrow> win_get s' q = win_get w q)"
    using Window_Write_spec [OF p, of c] p by (auto simp: win_inside_def)
qed

definition win_shape :: "Window \<Rightarrow> Vector2D \<times> PixelColor option \<times> string option \<times> FrameBufferConfig" where
  "win_shape w = (Window_Size w, transparent_color w, win_title w, fb_config (shadow_buffer w))"

interpretation fb_writer: stable_writer FrameBuffer_Write fb_config
  by unfold_locales (auto simp: FrameBuffer_Write_def Write_RGB_def Write_BGR_def split: PixelFormat.splits Option.bind_splits)

interpretation win_writer: stable_writer Window_Write win_shape
  by unfold_locales (auto simp: Window_Write_def win_shape_def Window_Size_def dest: fb_writer.put_stable split: if_splits Option.bind_splits)

interpretation inner_writer: stable_writer Inner_Write win_shape
  by unfold_locales (auto simp: Inner_Write_def dest: win_writer.put_stable)

lemma Window_title_redrawn:
  assumes "length font = 4096" and ok: "win_ok w" and size: "24 + 8 * int (length title) \<le> win_width w" "20 \<le> win_height w" "21 \<le> win_width w"
  shows "\<exists>w'. DrawWindowTitle font Window_Write (win_width w) title active w = Some w' \<and> win_ok w' \<and> win_shape w' = win_shape w \<and>
    (\<forall>q. win_inside w q \<longrightarrow> 20 \<le> vy q \<longrightarrow> win_get w' q = win_get w q) \<and>
    (\<forall>q. in_title_bar (win_width w) q \<longrightarrow> win_get w' q = title_colour active)"
proof -
  let ?r = "\<lparr>pos = V 0 0, size = V (win_width w) 20\<rparr>"
  have inside: "win_inside w q" if "in_rect q ?r" for q
    using that ok size(2) by (auto simp: win_inside_def in_rect_def Window_Size_def)
  obtain w' where w': "DrawWindowTitle font Window_Write (win_width w) title active w = Some w'" "draws_in win_inside win_get ?r w w'"
      "\<forall>q. in_title_bar (win_width w) q \<longrightarrow> win_get w' q = title_colour active"
    using win_surface.DrawWindowTitle_draws [OF assms(1) size(1,3) inside] by blast
  have "win_inside w (V 0 0)" using inside size(3) by (simp add: in_rect_def)
  with w' have "win_ok w'" by (auto simp: draws_in_def win_inside_def)
  moreover have "win_shape w' = win_shape w" using w'(1) by (rule win_writer.DrawWindowTitle_stable)
  ultimately show ?thesis using w' by (auto simp: draws_in_def in_rect_def)
qed

lemma Window_new_ok:
  assumes "4 * width * height < 2 ^ 32" and "fmt \<noteq> other_format"
  shows "win_ok (Window_new width height fmt) \<and> Window_Size (Window_new width height fmt) = V (int width) (int height)"
proof -
  let ?cfg = "\<lparr>frame_buffer = None, pixels_per_scan_line = 0, horizontal_resolution = width,
      vertical_resolution = height, pixel_format = fmt\<rparr>"
  obtain fb where fb: "FrameBuffer_Initialize ?cfg = (kSuccess, fb)"
    using assms(2) by (cases fmt) (auto simp: FrameBuffer_Initialize_def BytesPerPixel_def Let_def)
  have "fb_ok fb \<and> horizontal_resolution (fb_config fb) = width \<and> vertical_resolution (fb_config fb) = height"
    using FrameBuffer_Initialize_ok [OF fb] assms(1) by simp
  then show ?thesis using fb
    by (auto simp: Window_new_def Let_def win_ok_def Window_Size_def FrameBufferSize_def)
qed

text \<open>Drawing an opaque window at \<open>p\<close>: the pixels of \<open>area\<close> that the window covers.\<close>

lemma Window_DrawTo_opaque:
  assumes w: "win_ok w" "transparent_color w = None" and dst: "fb_ok dst"
    and fmt: "pixel_format (fb_config dst) = pixel_format (fb_config (shadow_buffer w))" and area: "rect_ok area"
  shows "\<exists>dst'. Window_DrawTo w p area dst = Some dst' \<and> fb_config dst' = fb_config dst \<and> fb_ok dst' \<and>
    (\<forall>q. fb_inside dst q \<longrightarrow> fb_get dst' q =
      (if in_rect q area \<and> in_rect q \<lparr>pos = p, size = Window_Size w\<rparr> then win_get w (vec_sub q p) else fb_get dst q))"
proof -
  let ?wa = "\<lparr>pos = p, size = Window_Size w\<rparr>"
  let ?i = "rect_and area ?wa" and ?sh = "shadow_buffer w"
  let ?sa = "\<lparr>pos = vec_sub (pos ?i) p, size = size ?i\<rparr>"
  have sh: "fb_ok ?sh" "FrameBufferSize (fb_config ?sh) = Window_Size w" using w(1) by (auto simp: win_ok_def)
  have "rect_ok ?wa" unfolding rect_ok_def using sh(2) [symmetric] by (simp add: FrameBufferSize_def)
  then have "rect_ok ?sa" using rect_and_ok [OF area] by (simp add: rect_ok_def)
  from FrameBuffer_Copy_spec [OF dst sh(1) fmt this, of "pos ?i"]
  obtain dst' where dst': "FrameBuffer_Copy (pos ?i) ?sh ?sa dst = Some (kSuccess, dst')" "fb_config dst' = fb_config dst" "fb_ok dst'"
      "\<And>q. fb_inside dst q \<Longrightarrow> fb_get dst' q = (if in_rect q \<lparr>pos = pos ?i, size = size ?i\<rparr> \<and>
        fb_inside ?sh (vec_sub q (vec_sub (pos ?i) (vec_sub (pos ?i) p)))
       then fb_get ?sh (vec_sub q (vec_sub (pos ?i) (vec_sub (pos ?i) p))) else fb_get dst q)" by auto
  have shift: "vec_sub (pos ?i) (vec_sub (pos ?i) p) = p" by (cases p) (simp add: vec_sub_def)
  have "in_rect q \<lparr>pos = pos ?i, size = size ?i\<rparr> \<and> fb_inside ?sh (vec_sub q p) \<longleftrightarrow> in_rect q area \<and> in_rect q ?wa" for q
  proof -
    have "in_rect q \<lparr>pos = pos ?i, size = size ?i\<rparr> \<longleftrightarrow> in_rect q ?i" by (simp add: in_rect_def)
    moreover have "fb_inside ?sh (vec_sub q p) \<longleftrightarrow> in_rect q ?wa"
      unfolding fb_inside_def sh(2) by (auto simp: in_rect_def vec_sub_def)
    ultimately show ?thesis using in_rect_and by blast
  qed
  with dst' shift show ?thesis using w(2) by (auto simp: Window_DrawTo_def Let_def win_get_def)
qed

text \<open>The picture a window shows at \<open>p\<close>: nothing where its pixel has the transparent colour.\<close>

definition win_picture :: "Window \<Rightarrow> Vector2D \<Rightarrow> Vector2D \<Rightarrow> PixelColor option" where
  "win_picture w p q = (if \<not> in_rect q \<lparr>pos = p, size = Window_Size w\<rparr> then None
     else case transparent_color w of
         None \<Rightarrow> Some (win_get w (vec_sub q p))
       | Some tc \<Rightarrow> (case Window_At (vec_sub q p) w of Some c \<Rightarrow> if c \<noteq> tc then Some c else None | None \<Rightarrow> None))"

lemma Window_At_defined:
  assumes "win_ok w" and "0 \<le> x" "x < win_width w" "0 \<le> y" "y < win_height w"
  shows "\<exists>c. Window_At (V x y) w = Some c"
proof -
  have y: "nat y < length (win_data w)" using assms by (simp add: win_ok_def)
  then have "win_data w ! nat y \<in> set (win_data w)" by simp
  then have "nat x < length (win_data w ! nat y)" using assms by (simp add: win_ok_def)
  with y assms show ?thesis by (simp add: Window_At_def arr_get_def)
qed

text \<open>Writing a pixel keeps the configuration and the size of the memory.\<close>

definition fb_shape :: "FrameBuffer \<Rightarrow> FrameBufferConfig \<times> nat" where
  "fb_shape fb = (fb_config fb, length (fb_bytes fb))"

lemma FrameBuffer_Write_shape: "FrameBuffer_Write p c fb = Some fb' \<Longrightarrow> fb_shape fb' = fb_shape fb"
  by (auto simp: FrameBuffer_Write_def Write_RGB_def Write_BGR_def store3_def fb_shape_def
      split: PixelFormat.splits Option.bind_splits)

lemma fb_ok_shape: "fb_shape fb' = fb_shape fb \<Longrightarrow> fb_ok fb' \<longleftrightarrow> fb_ok fb"
  by (simp add: fb_shape_def fb_ok_def)

text \<open>A picture laid over a frame buffer.\<close>

definition lays :: "(Vector2D \<rightharpoonup> PixelColor) \<Rightarrow> FrameBuffer \<Rightarrow> FrameBuffer \<Rightarrow> bool" where
  "lays m fb fb' \<longleftrightarrow> fb_ok fb' \<and> fb_config fb' = fb_config fb \<and>
     (\<forall>q. fb_inside fb q \<longrightarrow> fb_get fb' q = (case m q of Some c \<Rightarrow> c | None \<Rightarrow> fb_get fb q))"

lemma lays_empty: "fb_ok fb \<Longrightarrow> lays Map.empty fb fb"
  by (simp add: lays_def)

lemma lays_trans: "lays m fb1 fb2 \<Longrightarrow> lays n fb2 fb3 \<Longrightarrow> lays (m ++ n) fb1 fb3"
  by (auto simp: lays_def fb_inside_def map_add_def split: option.splits)

text \<open>The transparent drawing path clips to the destination but ignores \<open>area\<close>.\<close>

lemma Window_DrawTo_transparent:
  assumes w: "win_ok w" "transparent_color w = Some tc" and dst: "fb_ok dst"
  shows "\<exists>dst'. Window_DrawTo w p area dst = Some dst' \<and> lays (win_picture w p) dst dst'"
proof -
  define W H where "W = int (horizontal_resolution (fb_config dst))" and "H = int (vertical_resolution (fb_config dst))"
  define xs ys where "xs = [max 0 (0 - vx p)..min (win_width w) (W - vx p) - 1]"
    and "ys = [max 0 (0 - vy p)..min (win_height w) (H - vy p) - 1]"
  define body where "body = (\<lambda>y x dst. do { c \<leftarrow> Window_At (V x y) w;
      if c \<noteq> tc then FrameBuffer_Write (vec_add p (V x y)) c dst else Some dst })"
  define pix where "pix = (\<lambda>y x. case Window_At (V x y) w of Some c \<Rightarrow> if c \<noteq> tc then [vec_add p (V x y) \<mapsto> c] else Map.empty
      | None \<Rightarrow> Map.empty)"
  have run: "Window_DrawTo w p area dst = foldM (\<lambda>y. foldM (body y) xs) ys dst"
    using w(2) by (simp add: Window_DrawTo_def Let_def body_def xs_def ys_def W_def H_def)
  have bounds: "0 \<le> x" "x < win_width w" "0 \<le> y" "y < win_height w" "fb_inside dst (vec_add p (V x y))"
    if "x \<in> set xs" "y \<in> set ys" for x y
    using that by (auto simp: xs_def ys_def fb_inside_def in_rect_def FrameBufferSize_def vec_add_def W_def H_def)
  have step: "\<exists>t'. body y x t = Some t' \<and> fb_surface.overlay (pix y x) t t'"
    if x: "x \<in> set xs" and y: "y \<in> set ys" and t: "\<forall>q. fb_live t q = fb_live dst q" for x y t
  proof -
    note B = bounds [OF x y]
    obtain c where c: "Window_At (V x y) w = Some c" using Window_At_defined [OF w(1) B(1-4)] by blast
    have "fb_live t (vec_add p (V x y))" using t B(5) dst by (simp add: fb_live_def)
    then show ?thesis using fb_surface.overlay_write [of t "vec_add p (V x y)" c] c
      by (auto simp: body_def pix_def fb_surface.overlay_empty)
  qed
  have "\<exists>s'. foldM (\<lambda>y. foldM (body y) xs) ys dst = Some s' \<and>
      fb_surface.overlay (stacked (map (\<lambda>y. stacked (map (pix y) xs)) ys)) dst s'"
  proof (rule fb_surface.overlay_loop, rule fb_surface.overlay_loop)
    fix y t x u assume "y \<in> set ys" "\<forall>q. fb_live t q = fb_live dst q" "x \<in> set xs" "\<forall>q. fb_live u q = fb_live t q"
    then show "\<exists>t'. body y x u = Some t' \<and> fb_surface.overlay (pix y x) u t'" by (intro step) auto
  qed
  then obtain dst' where dst': "foldM (\<lambda>y. foldM (body y) xs) ys dst = Some dst'"
      "fb_surface.overlay (stacked (map (\<lambda>y. stacked (map (pix y) xs)) ys)) dst dst'" by blast
  let ?G = "\<lambda>q. if fb_inside dst q then win_picture w p q else None"
  have "stacked (map (\<lambda>y. stacked (map (pix y) xs)) ys) = ?G"
  proof (rule stacked_eqI)
    have "pix y x \<subseteq>\<^sub>m ?G" if "x \<in> set xs" "y \<in> set ys" for x y
      using bounds [OF that] w(2)
      by (auto simp: pix_def map_le_def win_picture_def in_rect_def vec_add_def vec_sub_def Window_Size_def split: option.splits)
    then show "\<forall>m \<in> set (map (\<lambda>y. stacked (map (pix y) xs)) ys). m \<subseteq>\<^sub>m ?G" by (auto intro!: stacked_le)
  next
    fix q assume q: "q \<in> dom ?G"
    let ?x = "vx q - vx p" and ?y = "vy q - vy p"
    have "?x \<in> set xs" "?y \<in> set ys" using q
      by (auto simp: win_picture_def in_rect_def Window_Size_def xs_def ys_def fb_inside_def FrameBufferSize_def W_def H_def split: if_splits)
    moreover have "q \<in> dom (pix ?y ?x)" using q w(2)
      by (auto simp: win_picture_def pix_def vec_sub_def vec_add_def split: if_splits option.splits)
    ultimately have "q \<in> dom (stacked (map (pix ?y) xs))" "?y \<in> set ys" unfolding dom_stacked by auto
    then show "\<exists>m \<in> set (map (\<lambda>y. stacked (map (pix y) xs)) ys). q \<in> dom m" unfolding set_map by blast
  qed
  then have "fb_surface.overlay (win_picture w p) dst dst'"
    using dst'(2) by (auto simp: fb_surface.overlay_def fb_live_def)
  moreover have "fb_shape dst' = fb_shape dst"
    using dst'(1)
    by (rule foldM_preserves) (erule foldM_preserves, auto simp: body_def dest: FrameBuffer_Write_shape split: Option.bind_splits if_splits)
  ultimately have "lays (win_picture w p) dst dst'"
    using dst fb_ok_shape [of dst' dst] by (auto simp: lays_def fb_surface.overlay_def fb_live_def fb_shape_def)
  then show ?thesis using run dst'(1) by auto
qed

text \<open>Both paths: the picture, cut to \<open>area\<close> unless the window is transparent.\<close>

lemma Window_DrawTo_spec:
  assumes w: "win_ok w" and dst: "fb_ok dst" and area: "rect_ok area"
    and fmt: "pixel_format (fb_config dst) = pixel_format (fb_config (shadow_buffer w))"
  shows "\<exists>dst'. Window_DrawTo w p area dst = Some dst' \<and>
    lays (\<lambda>q. if in_rect q area \<or> transparent_color w \<noteq> None then win_picture w p q else None) dst dst'"
proof (cases "transparent_color w")
  case None
  from Window_DrawTo_opaque [OF w None dst fmt area, of p] obtain dst' where dst': "Window_DrawTo w p area dst = Some dst'"
      "fb_config dst' = fb_config dst" "fb_ok dst'" "\<forall>q. fb_inside dst q \<longrightarrow> fb_get dst' q =
      (if in_rect q area \<and> in_rect q \<lparr>pos = p, size = Window_Size w\<rparr> then win_get w (vec_sub q p) else fb_get dst q)"
    by blast
  then have "lays (\<lambda>q. if in_rect q area then win_picture w p q else None) dst dst'"
    using None by (auto simp: lays_def win_picture_def)
  with dst' None show ?thesis by auto
next
  case (Some tc)
  with Window_DrawTo_transparent [OF w Some dst, of p area] show ?thesis by auto
qed

text \<open>\<open>Window::Move\<close> moves the pixels of the shadow buffer only: the pixel array that \<open>At\<close> and the
  transparent drawing path read is left behind.\<close>

theorem Window_Move_leaves_data:
  assumes "win_ok w" and "rect_inside (shadow_buffer w) src"
    and "rect_inside (shadow_buffer w) \<lparr>pos = dst_pos, size = size src\<rparr>" and "\<not> slides dst_pos src"
  shows "\<exists>w'. Window_Move dst_pos src w = Some w' \<and> win_ok w' \<and>
    (\<forall>q. Window_At q w' = Window_At q w) \<and>
    (\<forall>q. win_inside w q \<longrightarrow> in_rect q \<lparr>pos = dst_pos, size = size src\<rparr> \<longrightarrow>
      win_get w' q = win_get w (vec_add (vec_sub q dst_pos) (pos src)))"
proof -
  have "fb_ok (shadow_buffer w)" using assms(1) by (simp add: win_ok_def)
  from FrameBuffer_Move_spec [OF this assms(2-4)] obtain fb' where fb': "FrameBuffer_Move dst_pos src (shadow_buffer w) = Some fb'"
      "fb_config fb' = fb_config (shadow_buffer w)" "fb_ok fb'" "\<forall>q. fb_inside (shadow_buffer w) q \<longrightarrow> fb_get fb' q =
        (if in_rect q \<lparr>pos = dst_pos, size = size src\<rparr> then fb_get (shadow_buffer w) (vec_add (vec_sub q dst_pos) (pos src))
         else fb_get (shadow_buffer w) q)" by blast
  moreover have "win_inside w q \<longleftrightarrow> fb_inside (shadow_buffer w) q" for q
    using assms(1) by (auto simp: win_inside_def win_ok_def fb_inside_def)
  ultimately show ?thesis using assms(1)
    by (auto simp: Window_Move_def win_ok_def Window_At_def win_get_def Window_Size_def)
qed

theorem Window_Move_leaves_data_witness:
  "\<exists>w'. Window_Move (V 0 0) \<lparr>pos = V 0 1, size = V 3 2\<rparr> (Window_new 3 3 kPixelRGBResv8BitPerColor) = Some w' \<and> win_ok w'"
proof -
  let ?w = "Window_new 3 3 kPixelRGBResv8BitPerColor"
  have "win_ok ?w" using Window_new_ok [of 3 3 kPixelRGBResv8BitPerColor] by simp
  moreover have "rect_inside (shadow_buffer ?w) \<lparr>pos = V 0 1, size = V 3 2\<rparr>"
      "rect_inside (shadow_buffer ?w) \<lparr>pos = V 0 0, size = size \<lparr>pos = V 0 1, size = V 3 2\<rparr>\<rparr>"
    by (simp_all add: rect_inside_def rect_ok_def Window_new_def FrameBuffer_Initialize_def BytesPerPixel_def Let_def)
  ultimately show ?thesis using Window_Move_leaves_data [of ?w "\<lparr>pos = V 0 1, size = V 3 2\<rparr>" "V 0 0"] by (auto simp: slides_def)
qed

end
