(* ===== verification/Layer_Manager.thy ===== *)
theory Layer_Manager
  imports Window Task_Manager
begin

text \<open>
  \<open>src/kernel/layer.hpp\<close> and \<open>layer.cpp\<close>: the layers, the stack in which they are shown, their
  composition on the screen through the back buffer, and the active window. A \<open>Layer*\<close> is the
  index of the layer in \<open>layers_\<close>, which never shrinks, or \<open>None\<close> for the null pointer; windows,
  shared between layers and their owners, live in a store \<open>ws\<close> and are named by their index.
\<close>

subsection \<open>Layers\<close>

record Layer =
  layer_id :: u32
  layer_pos :: Vector2D
  layer_window :: "nat option"
  draggable :: bool

definition Layer_new :: "u32 \<Rightarrow> Layer" where
  "Layer_new i = \<lparr>layer_id = i, layer_pos = V 0 0, layer_window = None, draggable = False\<rparr>"

definition SetWindow :: "nat \<Rightarrow> Layer \<Rightarrow> Layer" where
  "SetWindow w l = l\<lparr>layer_window := Some w\<rparr>"

definition SetDraggable :: "bool \<Rightarrow> Layer \<Rightarrow> Layer" where
  "SetDraggable b l = l\<lparr>draggable := b\<rparr>"

definition Layer_Move :: "Vector2D \<Rightarrow> Layer \<Rightarrow> Layer" where
  "Layer_Move p l = l\<lparr>layer_pos := p\<rparr>"

definition Layer_MoveRelative :: "Vector2D \<Rightarrow> Layer \<Rightarrow> Layer" where
  "Layer_MoveRelative d l = l\<lparr>layer_pos := vec_add (layer_pos l) d\<rparr>"

definition Layer_DrawTo :: "Window list \<Rightarrow> Layer \<Rightarrow> Rectangle \<Rightarrow> FrameBuffer \<Rightarrow> FrameBuffer option" where
  "Layer_DrawTo ws l area screen = (case layer_window l of
     None \<Rightarrow> Some screen
   | Some i \<Rightarrow> do { w \<leftarrow> arr_get ws i; Window_DrawTo w (layer_pos l) area screen })"

subsection \<open>The layer manager\<close>

record LayerManager =
  lm_screen :: "FrameBuffer option"
  back_buffer :: FrameBuffer
  layers :: "Layer list"
  layer_stack :: "nat option list"
  latest_layer_id :: u32

definition LayerManager_new :: LayerManager where
  "LayerManager_new = \<lparr>lm_screen = None, back_buffer = \<lparr>fb_config = \<lparr>frame_buffer = None, pixels_per_scan_line = 0,
       horizontal_resolution = 0, vertical_resolution = 0, pixel_format = kPixelRGBResv8BitPerColor\<rparr>, fb_bytes = []\<rparr>,
     layers = [], layer_stack = [], latest_layer_id = 0\<rparr>"

text \<open>Following a \<open>Layer*\<close>, and the window of a layer.\<close>

definition deref :: "LayerManager \<Rightarrow> nat option \<Rightarrow> Layer option" where
  "deref m p = do { i \<leftarrow> p; arr_get (layers m) i }"

definition window_of :: "Window list \<Rightarrow> Layer \<Rightarrow> Window option" where
  "window_of ws l = do { i \<leftarrow> layer_window l; arr_get ws i }"

definition SetWriter :: "FrameBuffer \<Rightarrow> LayerManager \<Rightarrow> LayerManager" where
  "SetWriter screen m =
     (let (err, bb) = FrameBuffer_Initialize ((fb_config screen)\<lparr>frame_buffer := None\<rparr>)
      in m\<lparr>lm_screen := Some screen, back_buffer := bb\<rparr>)"

definition NewLayer :: "LayerManager \<Rightarrow> nat \<times> LayerManager" where
  "NewLayer m =
     (let i = latest_layer_id m + 1
      in (length (layers m), m\<lparr>latest_layer_id := i, layers := layers m @ [Layer_new i]\<rparr>))"

definition copy_to_screen :: "Rectangle \<Rightarrow> FrameBuffer \<Rightarrow> LayerManager \<Rightarrow> LayerManager option" where
  "copy_to_screen area bb m = do {
     screen \<leftarrow> lm_screen m;
     (_, screen) \<leftarrow> FrameBuffer_Copy (pos area) bb area screen;
     Some (m\<lparr>lm_screen := Some screen, back_buffer := bb\<rparr>)
   }"

definition LayerManager_Draw :: "Window list \<Rightarrow> Rectangle \<Rightarrow> LayerManager \<Rightarrow> LayerManager option" where
  "LayerManager_Draw ws area m = do {
     bb \<leftarrow> foldM (\<lambda>p bb. do { l \<leftarrow> deref m p; Layer_DrawTo ws l area bb }) (layer_stack m) (back_buffer m);
     copy_to_screen area bb m
   }"

text \<open>The loop of \<open>Draw(id, area)\<close>. Its state is \<open>area\<close>, \<open>window_area\<close> once the layer was met
  (\<open>draw\<close> is set exactly then; before, \<open>window_area\<close> is uninitialised) and the back buffer.\<close>

definition draw_id_step ::
  "Window list \<Rightarrow> LayerManager \<Rightarrow> u32 \<Rightarrow> nat option \<Rightarrow> Rectangle \<times> Rectangle option \<times> FrameBuffer
     \<Rightarrow> (Rectangle \<times> Rectangle option \<times> FrameBuffer) option" where
  "draw_id_step ws m i p = (\<lambda>(area, window_area, bb). do {
     l \<leftarrow> deref m p;
     (area, window_area) \<leftarrow>
       (if layer_id l = i then do {
          w \<leftarrow> window_of ws l;
          let wa = \<lparr>pos = layer_pos l, size = Window_Size w\<rparr>;
          if vx (size area) \<ge> 0 \<or> vy (size area) \<ge> 0
          then let area = area\<lparr>pos := vec_add (pos area) (pos wa)\<rparr> in Some (area, Some (rect_and wa area))
          else Some (area, Some wa)
        } else Some (area, window_area));
     (case window_area of
        None \<Rightarrow> Some (area, None, bb)
      | Some wa \<Rightarrow> do { bb \<leftarrow> Layer_DrawTo ws l wa bb; Some (area, Some wa, bb) })
   })"

definition LayerManager_DrawArea :: "Window list \<Rightarrow> u32 \<Rightarrow> Rectangle \<Rightarrow> LayerManager \<Rightarrow> LayerManager option" where
  "LayerManager_DrawArea ws i area m = do {
     (area, window_area, bb) \<leftarrow> foldM (draw_id_step ws m i) (layer_stack m) (area, None, back_buffer m);
     window_area \<leftarrow> window_area;
     copy_to_screen window_area bb m
   }"

definition LayerManager_DrawLayer :: "Window list \<Rightarrow> u32 \<Rightarrow> LayerManager \<Rightarrow> LayerManager option" where
  "LayerManager_DrawLayer ws i m = LayerManager_DrawArea ws i \<lparr>pos = V 0 0, size = V (-1) (-1)\<rparr> m"

definition find_index :: "('a \<Rightarrow> bool) \<Rightarrow> 'a list \<Rightarrow> nat" where
  "find_index P xs = length (takeWhile (\<lambda>x. \<not> P x) xs)"

definition FindLayer :: "u32 \<Rightarrow> LayerManager \<Rightarrow> nat option" where
  "FindLayer i m =
     (let k = find_index (\<lambda>l. layer_id l = i) (layers m)
      in if k = length (layers m) then None else Some k)"

definition move_layer ::
  "Window list \<Rightarrow> u32 \<Rightarrow> (Layer \<Rightarrow> Layer) \<Rightarrow> LayerManager \<Rightarrow> LayerManager option" where
  "move_layer ws i f m = do {
     k \<leftarrow> FindLayer i m;
     l \<leftarrow> deref m (Some k);
     w \<leftarrow> window_of ws l;
     let m = m\<lparr>layers := (layers m)[k := f l]\<rparr>;
     m \<leftarrow> LayerManager_Draw ws \<lparr>pos = layer_pos l, size = Window_Size w\<rparr> m;
     LayerManager_DrawLayer ws i m
   }"

definition LayerManager_Move :: "Window list \<Rightarrow> u32 \<Rightarrow> Vector2D \<Rightarrow> LayerManager \<Rightarrow> LayerManager option" where
  "LayerManager_Move ws i new_pos m = move_layer ws i (Layer_Move new_pos) m"

definition LayerManager_MoveRelative :: "Window list \<Rightarrow> u32 \<Rightarrow> Vector2D \<Rightarrow> LayerManager \<Rightarrow> LayerManager option" where
  "LayerManager_MoveRelative ws i pos_diff m = move_layer ws i (Layer_MoveRelative pos_diff) m"

definition erase_at :: "nat \<Rightarrow> 'a list \<Rightarrow> 'a list" where
  "erase_at k xs = take k xs @ drop (Suc k) xs"

definition insert_at :: "nat \<Rightarrow> 'a \<Rightarrow> 'a list \<Rightarrow> 'a list" where
  "insert_at k x xs = take k xs @ x # drop k xs"

definition Hide :: "u32 \<Rightarrow> LayerManager \<Rightarrow> LayerManager" where
  "Hide i m =
     (let p = find_index (\<lambda>q. q = FindLayer i m) (layer_stack m)
      in if p \<noteq> length (layer_stack m) then m\<lparr>layer_stack := erase_at p (layer_stack m)\<rparr> else m)"

text \<open>Iterators into \<open>layer_stack_\<close> are positions. The code keeps using \<open>new_pos\<close> after the \<open>erase\<close>
  that formally invalidates it; in a contiguous vector it still designates the same position.\<close>

definition UpDown :: "u32 \<Rightarrow> int \<Rightarrow> LayerManager \<Rightarrow> LayerManager" where
  "UpDown i new_height m =
     (if new_height < 0 then Hide i m
      else
        let n = length (layer_stack m);
            new_height = (if new_height > int n then int n else new_height);
            layer = FindLayer i m;
            old_pos = find_index (\<lambda>q. q = layer) (layer_stack m);
            new_pos = nat new_height
        in if old_pos = n then m\<lparr>layer_stack := insert_at new_pos layer (layer_stack m)\<rparr>
           else
             let new_pos = (if new_pos = n then new_pos - 1 else new_pos)
             in m\<lparr>layer_stack := insert_at new_pos layer (erase_at old_pos (layer_stack m))\<rparr>)"

definition hit :: "Window list \<Rightarrow> Vector2D \<Rightarrow> u32 \<Rightarrow> Layer \<Rightarrow> bool option" where
  "hit ws p exclude_id l =
     (if layer_id l = exclude_id then Some False
      else case layer_window l of
          None \<Rightarrow> Some False
        | Some i \<Rightarrow> do {
            win \<leftarrow> arr_get ws i;
            let win_pos = layer_pos l;
            let win_end_pos = vec_add win_pos (Window_Size win);
            Some (vx win_pos \<le> vx p \<and> vx p < vx win_end_pos \<and> vy win_pos \<le> vy p \<and> vy p < vy win_end_pos)
          })"

text \<open>\<open>std::find_if\<close> on pointers with a predicate that may be undefined.\<close>

fun find_ptr :: "('p \<Rightarrow> bool option) \<Rightarrow> 'p option list \<Rightarrow> 'p option option" where
  "find_ptr P [] = Some None"
| "find_ptr P (p # ps) = do { i \<leftarrow> p; b \<leftarrow> P i; if b then Some (Some i) else find_ptr P ps }"

definition FindLayerByPosition :: "Window list \<Rightarrow> Vector2D \<Rightarrow> u32 \<Rightarrow> LayerManager \<Rightarrow> nat option option" where
  "FindLayerByPosition ws p exclude_id m =
     find_ptr (\<lambda>i. do { l \<leftarrow> arr_get (layers m) i; hit ws p exclude_id l }) (rev (layer_stack m))"

fun height_from :: "LayerManager \<Rightarrow> u32 \<Rightarrow> int \<Rightarrow> nat option list \<Rightarrow> int option" where
  "height_from m i h [] = Some (-1)"
| "height_from m i h (p # ps) = do { l \<leftarrow> deref m p; if layer_id l = i then Some h else height_from m i (h + 1) ps }"

definition GetHeight :: "u32 \<Rightarrow> LayerManager \<Rightarrow> int option" where
  "GetHeight i m = height_from m i 0 (layer_stack m)"

subsection \<open>The active layer\<close>

record ActiveLayer =
  active_layer_id :: u32
  mouse_layer_id :: u32

record gui =
  windows :: "Window list"
  layer_manager :: LayerManager
  active_layer :: ActiveLayer
  layer_task_map :: "u32 \<rightharpoonup> u64"

definition SetMouseLayer :: "u32 \<Rightarrow> gui \<Rightarrow> gui" where
  "SetMouseLayer i g = g\<lparr>active_layer := (active_layer g)\<lparr>mouse_layer_id := i\<rparr>\<rparr>"

definition on_window :: "(Window \<Rightarrow> Window option) \<Rightarrow> u32 \<Rightarrow> gui \<Rightarrow> gui option" where
  "on_window f i g = do {
     k \<leftarrow> FindLayer i (layer_manager g);
     l \<leftarrow> deref (layer_manager g) (Some k);
     j \<leftarrow> layer_window l;
     w \<leftarrow> arr_get (windows g) j;
     w \<leftarrow> f w;
     Some (g\<lparr>windows := (windows g)[j := w]\<rparr>)
   }"

definition draw_active :: "u32 \<Rightarrow> gui \<Rightarrow> gui option" where
  "draw_active i g = do {
     m \<leftarrow> LayerManager_DrawLayer (windows g) i (layer_manager g);
     Some (g\<lparr>layer_manager := m\<rparr>)
   }"

definition Activate :: "u8 list \<Rightarrow> u32 \<Rightarrow> gui \<Rightarrow> gui option" where
  "Activate font i g =
     (if active_layer_id (active_layer g) = i then Some g
      else do {
        g \<leftarrow> (if active_layer_id (active_layer g) > 0
              then do {
                g' \<leftarrow> on_window (Window_Deactivate font) (active_layer_id (active_layer g)) g;
                draw_active (active_layer_id (active_layer g)) g'
              } else Some g);
        let g = g\<lparr>active_layer := (active_layer g)\<lparr>active_layer_id := i\<rparr>\<rparr>;
        (if i > 0
         then do {
           g \<leftarrow> on_window (Window_Activate font) i g;
           h \<leftarrow> GetHeight (mouse_layer_id (active_layer g)) (layer_manager g);
           draw_active i (g\<lparr>layer_manager := UpDown i (h - 1) (layer_manager g)\<rparr>)
         } else Some g)
      })"

subsection \<open>Messages\<close>

definition MakeLayerMessage :: "u64 \<Rightarrow> u32 \<Rightarrow> LayerOperation \<Rightarrow> Rectangle \<Rightarrow> Message" where
  "MakeLayerMessage task_id i op area =
     \<lparr>msg_type = kLayer, src_task = task_id,
      msg_arg = layer_arg op i (vx (pos area)) (vy (pos area)) (vx (size area)) (vy (size area))\<rparr>"

definition ProcessLayerMessage :: "Message \<Rightarrow> gui \<Rightarrow> gui option" where
  "ProcessLayerMessage msg g = (case msg_arg msg of
     layer_arg op i x y w h \<Rightarrow> do {
       m \<leftarrow> (case op of
           Move \<Rightarrow> LayerManager_Move (windows g) i (V x y) (layer_manager g)
         | MoveRelative \<Rightarrow> LayerManager_MoveRelative (windows g) i (V x y) (layer_manager g)
         | Draw \<Rightarrow> LayerManager_DrawLayer (windows g) i (layer_manager g)
         | DrawArea \<Rightarrow> LayerManager_DrawArea (windows g) i \<lparr>pos = V x y, size = V w h\<rparr> (layer_manager g));
       Some (g\<lparr>layer_manager := m\<rparr>)
     }
   | _ \<Rightarrow> None)"

subsection \<open>Well-formed layer managers\<close>

text \<open>Layers are numbered from 1 in the order of their creation.\<close>

definition ids_ok :: "LayerManager \<Rightarrow> bool" where
  "ids_ok m \<longleftrightarrow> latest_layer_id m = of_nat (length (layers m)) \<and> length (layers m) < 2 ^ 32 \<and>
     (\<forall>k < length (layers m). layer_id (layers m ! k) = of_nat (Suc k))"

definition stack_ok :: "LayerManager \<Rightarrow> bool" where
  "stack_ok m \<longleftrightarrow> distinct (layer_stack m) \<and> (\<forall>p \<in> set (layer_stack m). \<exists>k. p = Some k \<and> k < length (layers m))"

definition layer_ok :: "Window list \<Rightarrow> PixelFormat \<Rightarrow> Layer \<Rightarrow> bool" where
  "layer_ok ws fmt l \<longleftrightarrow> (case layer_window l of None \<Rightarrow> True
     | Some i \<Rightarrow> i < length ws \<and> win_ok (ws ! i) \<and> pixel_format (fb_config (shadow_buffer (ws ! i))) = fmt)"

definition buffers_ok :: "LayerManager \<Rightarrow> bool" where
  "buffers_ok m \<longleftrightarrow> (case lm_screen m of None \<Rightarrow> False
     | Some scr \<Rightarrow> fb_ok scr \<and> fb_ok (back_buffer m) \<and>
         pixel_format (fb_config scr) = pixel_format (fb_config (back_buffer m)) \<and>
         FrameBufferSize (fb_config scr) = FrameBufferSize (fb_config (back_buffer m)))"

definition lm_format :: "LayerManager \<Rightarrow> PixelFormat" where
  "lm_format m = pixel_format (fb_config (back_buffer m))"

definition lm_ok :: "Window list \<Rightarrow> LayerManager \<Rightarrow> bool" where
  "lm_ok ws m \<longleftrightarrow> ids_ok m \<and> stack_ok m \<and> buffers_ok m \<and> (\<forall>l \<in> set (layers m). layer_ok ws (lm_format m) l)"

text \<open>What a layer shows, and what the whole stack shows.\<close>

definition layer_picture :: "Window list \<Rightarrow> Layer \<Rightarrow> Vector2D \<Rightarrow> PixelColor option" where
  "layer_picture ws l = (case layer_window l of None \<Rightarrow> Map.empty | Some i \<Rightarrow> win_picture (ws ! i) (layer_pos l))"

definition transparent :: "Window list \<Rightarrow> Layer \<Rightarrow> bool" where
  "transparent ws l \<longleftrightarrow> (case layer_window l of None \<Rightarrow> False | Some i \<Rightarrow> transparent_color (ws ! i) \<noteq> None)"

definition ptr_picture :: "Window list \<Rightarrow> LayerManager \<Rightarrow> nat option \<Rightarrow> Vector2D \<Rightarrow> PixelColor option" where
  "ptr_picture ws m p = layer_picture ws (layers m ! the p)"

definition stack_picture :: "Window list \<Rightarrow> LayerManager \<Rightarrow> Vector2D \<Rightarrow> PixelColor option" where
  "stack_picture ws m = stacked (map (ptr_picture ws m) (layer_stack m))"

definition screen_pixel :: "LayerManager \<Rightarrow> Vector2D \<Rightarrow> PixelColor" where
  "screen_pixel m q = (case lm_screen m of None \<Rightarrow> fb_get (back_buffer m) q | Some scr \<Rightarrow> fb_get scr q)"

definition on_screen :: "LayerManager \<Rightarrow> Vector2D \<Rightarrow> bool" where
  "on_screen m q \<longleftrightarrow> fb_inside (back_buffer m) q"

lemma stack_okD:
  "stack_ok m \<Longrightarrow> p \<in> set (layer_stack m) \<Longrightarrow> \<exists>k. p = Some k \<and> k < length (layers m) \<and> deref m p = Some (layers m ! the p)"
  by (fastforce simp: stack_ok_def deref_def arr_get_def)

lemma layer_id_inj:
  assumes "ids_ok m" and "j < length (layers m)" "k < length (layers m)"
  shows "layer_id (layers m ! j) = layer_id (layers m ! k) \<longleftrightarrow> j = k"
proof -
  have "(of_nat (Suc j) :: u32) = of_nat (Suc k) \<longleftrightarrow> Suc j = Suc k"
    using assms by (simp add: word_of_nat_eq_iff take_bit_nat_eq_self ids_ok_def del: of_nat_Suc)
  then show ?thesis using assms by (simp add: ids_ok_def del: of_nat_Suc)
qed

lemma find_index_nth:
  assumes "k < length xs" and "P (xs ! k)" and "\<And>j. j < k \<Longrightarrow> \<not> P (xs ! j)"
  shows "find_index P xs = k"
proof -
  have "takeWhile (\<lambda>x. \<not> P x) xs = take k xs" using assms by (intro takeWhile_eq_take_P_nth) auto
  then show ?thesis using assms(1) by (simp add: find_index_def)
qed

lemma find_index_none: "(\<And>x. x \<in> set xs \<Longrightarrow> \<not> P x) \<Longrightarrow> find_index P xs = length xs"
  by (simp add: find_index_def takeWhile_eq_all_conv [THEN iffD2])

lemma FindLayer_id: "ids_ok m \<Longrightarrow> k < length (layers m) \<Longrightarrow> FindLayer (layer_id (layers m ! k)) m = Some k"
proof -
  assume ok: "ids_ok m" and k: "k < length (layers m)"
  have "find_index (\<lambda>l. layer_id l = layer_id (layers m ! k)) (layers m) = k"
    using k by (intro find_index_nth) (auto simp: layer_id_inj [OF ok])
  with k show ?thesis by (simp add: FindLayer_def Let_def)
qed

subsection \<open>Drawing\<close>

definition cut :: "Window list \<Rightarrow> LayerManager \<Rightarrow> Rectangle \<Rightarrow> nat option \<Rightarrow> Vector2D \<Rightarrow> PixelColor option" where
  "cut ws m area p q = (if in_rect q area \<or> transparent ws (layers m ! the p) then ptr_picture ws m p q else None)"

lemma Layer_DrawTo_spec:
  assumes "layer_ok ws (pixel_format (fb_config dst)) l" and "fb_ok dst" and "rect_ok area"
  shows "\<exists>dst'. Layer_DrawTo ws l area dst = Some dst' \<and>
    lays (\<lambda>q. if in_rect q area \<or> transparent ws l then layer_picture ws l q else None) dst dst'"
proof (cases "layer_window l")
  case None
  then show ?thesis using assms(2) by (simp add: Layer_DrawTo_def layer_picture_def lays_def)
next
  case (Some i)
  then have "i < length ws" "win_ok (ws ! i)" "pixel_format (fb_config dst) = pixel_format (fb_config (shadow_buffer (ws ! i)))"
    using assms(1) by (auto simp: layer_ok_def)
  from Window_DrawTo_spec [OF this(2) assms(2,3) this(3), of "layer_pos l"] this(1) Some show ?thesis
    unfolding layer_picture_def transparent_def Some option.case by (simp add: Layer_DrawTo_def arr_get_def Some)
qed

lemma draw_layers:
  assumes "\<And>p. p \<in> set ps \<Longrightarrow> deref m p = Some (layers m ! the p) \<and> layer_ok ws fmt (layers m ! the p)"
    and "fb_ok bb" and "pixel_format (fb_config bb) = fmt" and "rect_ok area"
  shows "\<exists>bb'. foldM (\<lambda>p bb. do { l \<leftarrow> deref m p; Layer_DrawTo ws l area bb }) ps bb = Some bb' \<and>
    lays (stacked (map (cut ws m area) ps)) bb bb'"
  using assms(1-3)
proof (induction ps arbitrary: bb)
  case Nil
  then show ?case by (simp add: lays_empty)
next
  case (Cons p ps)
  have p: "deref m p = Some (layers m ! the p)" "layer_ok ws (pixel_format (fb_config bb)) (layers m ! the p)"
    using Cons.prems by auto
  obtain b1 where b1: "Layer_DrawTo ws (layers m ! the p) area bb = Some b1" "lays (cut ws m area p) bb b1"
    using Layer_DrawTo_spec [OF p(2) Cons.prems(2) assms(4)] unfolding cut_def [abs_def] ptr_picture_def by blast
  then have "fb_ok b1" "pixel_format (fb_config b1) = fmt" using Cons.prems(3) by (auto simp: lays_def)
  with Cons.IH [of b1] Cons.prems(1) obtain b2 where
      b2: "foldM (\<lambda>p bb. do { l \<leftarrow> deref m p; Layer_DrawTo ws l area bb }) ps b1 = Some b2"
        "lays (stacked (map (cut ws m area) ps)) b1 b2" by auto
  with p(1) b1 lays_trans [OF b1(2) b2(2)] show ?case by simp
qed

lemma copy_to_screen_spec:
  assumes "buffers_ok m" and "lays M (back_buffer m) bb" and "rect_ok area"
  shows "\<exists>m'. copy_to_screen area bb m = Some m' \<and> buffers_ok m' \<and> back_buffer m' = bb \<and>
    layers m' = layers m \<and> layer_stack m' = layer_stack m \<and> latest_layer_id m' = latest_layer_id m \<and>
    (\<forall>q. on_screen m q \<longrightarrow> screen_pixel m' q = (if in_rect q area then fb_get bb q else screen_pixel m q))"
proof -
  obtain scr where scr: "lm_screen m = Some scr" "fb_ok scr" "pixel_format (fb_config scr) = pixel_format (fb_config bb)"
      "FrameBufferSize (fb_config scr) = FrameBufferSize (fb_config bb)" "fb_ok bb" "fb_config bb = fb_config (back_buffer m)"
    using assms(1,2) by (auto simp: buffers_ok_def lays_def split: option.splits)
  obtain scr' where scr': "FrameBuffer_Copy (pos area) bb area scr = Some (kSuccess, scr')" "fb_config scr' = fb_config scr" "fb_ok scr'"
      "\<forall>q. fb_inside scr q \<longrightarrow> fb_get scr' q = (if in_rect q \<lparr>pos = pos area, size = size area\<rparr> \<and>
          fb_inside bb (vec_sub q (vec_sub (pos area) (pos area)))
        then fb_get bb (vec_sub q (vec_sub (pos area) (pos area))) else fb_get scr q)"
    using FrameBuffer_Copy_spec [OF scr(2,5,3) assms(3), of "pos area"] by blast
  have "vec_sub q (vec_sub (pos area) (pos area)) = q" for q by (cases q) (simp add: vec_sub_def)
  moreover have "fb_inside scr q = fb_inside bb q" "on_screen m q = fb_inside bb q" for q
    using scr by (simp_all add: fb_inside_def on_screen_def)
  ultimately show ?thesis using scr scr'
    by (auto simp: copy_to_screen_def buffers_ok_def screen_pixel_def in_rect_def)
qed

lemma lm_okD:
  assumes "lm_ok ws m" and "p \<in> set (layer_stack m)"
  shows "deref m p = Some (layers m ! the p) \<and> layer_ok ws (lm_format m) (layers m ! the p)"
proof -
  obtain k where "p = Some k" "k < length (layers m)" "deref m p = Some (layers m ! the p)"
    using stack_okD [of m p] assms by (auto simp: lm_ok_def)
  with assms(1) show ?thesis by (auto simp: lm_ok_def)
qed

lemma lm_ok_same:
  assumes "lm_ok ws m" and "buffers_ok m'" and "layers m' = layers m" "layer_stack m' = layer_stack m"
    "latest_layer_id m' = latest_layer_id m" "fb_config (back_buffer m') = fb_config (back_buffer m)"
  shows "lm_ok ws m'"
  using assms by (auto simp: lm_ok_def ids_ok_def stack_ok_def lm_format_def)

text \<open>One pass over part of the stack, then the copy: what both \<open>Draw\<close> methods come down to.\<close>

definition redraws :: "Window list \<Rightarrow> nat option list \<Rightarrow> Rectangle \<Rightarrow> LayerManager \<Rightarrow> LayerManager \<Rightarrow> bool" where
  "redraws ws ps area m m' \<longleftrightarrow> lm_ok ws m' \<and> layers m' = layers m \<and> layer_stack m' = layer_stack m \<and>
     (\<forall>q. on_screen m' q = on_screen m q) \<and>
     (\<forall>q. on_screen m q \<longrightarrow> fb_get (back_buffer m') q =
        (case stacked (map (cut ws m area) ps) q of Some c \<Rightarrow> c | None \<Rightarrow> fb_get (back_buffer m) q)) \<and>
     (\<forall>q. on_screen m q \<longrightarrow> screen_pixel m' q = (if in_rect q area then fb_get (back_buffer m') q else screen_pixel m q))"

lemma draw_and_copy:
  assumes ok: "lm_ok ws m" and ps: "set ps \<subseteq> set (layer_stack m)" and area: "rect_ok area"
  shows "\<exists>bb m'. foldM (\<lambda>p bb. do { l \<leftarrow> deref m p; Layer_DrawTo ws l area bb }) ps (back_buffer m) = Some bb \<and>
    copy_to_screen area bb m = Some m' \<and> redraws ws ps area m m'"
proof -
  have bufs: "buffers_ok m" using ok by (simp add: lm_ok_def)
  then have "fb_ok (back_buffer m)" by (auto simp: buffers_ok_def split: option.splits)
  have "\<exists>bb. foldM (\<lambda>p bb. do { l \<leftarrow> deref m p; Layer_DrawTo ws l area bb }) ps (back_buffer m) = Some bb \<and>
      lays (stacked (map (cut ws m area) ps)) (back_buffer m) bb"
    by (rule draw_layers [OF _ \<open>fb_ok (back_buffer m)\<close> _ area, of ps m ws "lm_format m"])
      (use lm_okD [OF ok] ps in \<open>auto simp: lm_format_def\<close>)
  then obtain bb where bb: "foldM (\<lambda>p bb. do { l \<leftarrow> deref m p; Layer_DrawTo ws l area bb }) ps (back_buffer m) = Some bb"
      "lays (stacked (map (cut ws m area) ps)) (back_buffer m) bb" by blast
  from copy_to_screen_spec [OF bufs bb(2) area] obtain m' where
    m': "copy_to_screen area bb m = Some m'" "buffers_ok m'" "back_buffer m' = bb"
      "layers m' = layers m" "layer_stack m' = layer_stack m" "latest_layer_id m' = latest_layer_id m"
      "\<forall>q. on_screen m q \<longrightarrow> screen_pixel m' q = (if in_rect q area then fb_get bb q else screen_pixel m q)" by blast
  have "lm_ok ws m'" using lm_ok_same [OF ok] m' bb(2) by (simp add: lays_def)
  then have "redraws ws ps area m m'" unfolding redraws_def using m' bb(2)
    by (auto simp: lays_def on_screen_def fb_inside_def)
  with bb(1) m'(1) show ?thesis by blast
qed

lemma LayerManager_Draw_spec:
  assumes "lm_ok ws m" and "rect_ok area"
  shows "\<exists>m'. LayerManager_Draw ws area m = Some m' \<and> redraws ws (layer_stack m) area m m'"
  using draw_and_copy [OF assms(1) order_refl assms(2)] by (auto simp: LayerManager_Draw_def)

text \<open>The area \<open>Draw(id, area)\<close> works on.\<close>

definition damage :: "Window list \<Rightarrow> Layer \<Rightarrow> Rectangle \<Rightarrow> Rectangle" where
  "damage ws l area =
     (let wa = \<lparr>pos = layer_pos l, size = Window_Size (ws ! the (layer_window l))\<rparr>
      in if vx (size area) \<ge> 0 \<or> vy (size area) \<ge> 0
         then rect_and wa (area\<lparr>pos := vec_add (pos area) (pos wa)\<rparr>) else wa)"

lemma foldM_id: "(\<And>x. x \<in> set xs \<Longrightarrow> f x s = Some s) \<Longrightarrow> foldM f xs s = Some s"
  by (induction xs) auto

lemma draw_id_after:
  assumes "\<And>p. p \<in> set ps \<Longrightarrow> deref m p = Some (layers m ! the p) \<and> layer_id (layers m ! the p) \<noteq> i"
  shows "foldM (draw_id_step ws m i) ps (area, Some wa, bb) =
    do { bb \<leftarrow> foldM (\<lambda>p bb. do { l \<leftarrow> deref m p; Layer_DrawTo ws l wa bb }) ps bb; Some (area, Some wa, bb) }"
  using assms
proof (induction ps arbitrary: bb)
  case (Cons p ps)
  then show ?case by (cases "Layer_DrawTo ws (layers m ! the p) wa bb") (auto simp: draw_id_step_def)
qed simp

lemma LayerManager_DrawArea_spec:
  assumes ok: "lm_ok ws m" and stack: "layer_stack m = pre @ Some k # post" and win: "layer_window (layers m ! k) \<noteq> None"
    and area: "rect_ok area \<or> vx (size area) < 0 \<and> vy (size area) < 0"
  shows "\<exists>m'. LayerManager_DrawArea ws (layer_id (layers m ! k)) area m = Some m' \<and>
    redraws ws (Some k # post) (damage ws (layers m ! k) area) m m'"
proof -
  let ?l = "layers m ! k" and ?i = "layer_id (layers m ! k)"
  let ?wa = "damage ws ?l area"
  have k: "k < length (layers m)" using ok stack by (auto simp: lm_ok_def stack_ok_def)
  have other: "deref m p = Some (layers m ! the p) \<and> layer_id (layers m ! the p) \<noteq> ?i"
    if p: "p \<in> set pre \<union> set post" for p
  proof -
    have "p \<in> set (layer_stack m)" "p \<noteq> Some k" using p stack ok by (auto simp: lm_ok_def stack_ok_def)
    then show ?thesis using lm_okD [OF ok, of p] stack_okD [of m p] layer_id_inj [of m _ k] ok k
      by (auto simp: lm_ok_def)
  qed
  obtain j where j: "layer_window ?l = Some j" "j < length ws" "win_ok (ws ! j)"
  proof -
    have "layer_ok ws (lm_format m) ?l" using ok k by (simp add: lm_ok_def)
    with win that show thesis by (auto simp: layer_ok_def)
  qed
  have before: "foldM (draw_id_step ws m ?i) pre (area, None, back_buffer m) = Some (area, None, back_buffer m)"
    using other by (intro foldM_id) (auto simp: draw_id_step_def)
  have at: "\<exists>a. draw_id_step ws m ?i (Some k) (area, None, bb) =
      do { bb \<leftarrow> Layer_DrawTo ws ?l ?wa bb; Some (a, Some ?wa, bb) }" for bb
    using j k by (auto simp: draw_id_step_def damage_def deref_def window_of_def arr_get_def Let_def)
  then obtain a where a: "draw_id_step ws m ?i (Some k) (area, None, back_buffer m) =
      do { bb \<leftarrow> Layer_DrawTo ws ?l ?wa (back_buffer m); Some (a, Some ?wa, bb) }" by blast
  have run: "foldM (draw_id_step ws m ?i) (layer_stack m) (area, None, back_buffer m) =
      do { bb \<leftarrow> foldM (\<lambda>p bb. do { l \<leftarrow> deref m p; Layer_DrawTo ws l ?wa bb }) (Some k # post) (back_buffer m);
           Some (a, Some ?wa, bb) }"
    using other k by (simp add: stack foldM_append before a draw_id_after deref_def arr_get_def)
  have "rect_ok \<lparr>pos = layer_pos ?l, size = Window_Size (ws ! j)\<rparr>"
  proof -
    have "Window_Size (ws ! j) = FrameBufferSize (fb_config (shadow_buffer (ws ! j)))" using j(3) by (simp add: win_ok_def)
    then show ?thesis unfolding rect_ok_def by (simp add: FrameBufferSize_def)
  qed
  moreover have "rect_ok (area\<lparr>pos := p\<rparr>) \<longleftrightarrow> rect_ok area" for p by (simp add: rect_ok_def)
  ultimately have "rect_ok ?wa" using area j(1) rect_and_ok unfolding damage_def Let_def by (auto simp: rect_ok_def)
  moreover have "set (Some k # post) \<subseteq> set (layer_stack m)" using stack by auto
  ultimately obtain bb m' where "foldM (\<lambda>p bb. do { l \<leftarrow> deref m p; Layer_DrawTo ws l ?wa bb }) (Some k # post) (back_buffer m) = Some bb"
      "copy_to_screen ?wa bb m = Some m'" "redraws ws (Some k # post) ?wa m m'"
    using draw_and_copy [OF ok] by blast
  then show ?thesis unfolding LayerManager_DrawArea_def run by simp
qed

subsection \<open>The screen shows the stack\<close>

text \<open>Only the topmost layer may be transparent (the mouse cursor), the bottom layer covers the
  screen (the desktop), and both the back buffer and the screen hold the composed picture.\<close>

definition top_transparent :: "Window list \<Rightarrow> LayerManager \<Rightarrow> nat option list \<Rightarrow> bool" where
  "top_transparent ws m ps \<longleftrightarrow> (\<forall>p \<in> set (butlast ps). \<not> transparent ws (layers m ! the p))"

definition pixel_shown :: "Window list \<Rightarrow> LayerManager \<Rightarrow> Vector2D \<Rightarrow> bool" where
  "pixel_shown ws m q \<longleftrightarrow> stack_picture ws m q = Some (fb_get (back_buffer m) q) \<and>
     stack_picture ws m q = Some (screen_pixel m q)"

definition shows_stack :: "Window list \<Rightarrow> LayerManager \<Rightarrow> bool" where
  "shows_stack ws m \<longleftrightarrow> lm_ok ws m \<and> top_transparent ws m (layer_stack m) \<and>
     layer_stack m \<noteq> [] \<and> (\<forall>q. on_screen m q \<longrightarrow> ptr_picture ws m (hd (layer_stack m)) q \<noteq> None) \<and>
     (\<forall>q. on_screen m q \<longrightarrow> pixel_shown ws m q)"

text \<open>The same, but for pixels \<open>D\<close> of the screen that may be out of date.\<close>

definition shows_except :: "(Vector2D \<Rightarrow> bool) \<Rightarrow> Window list \<Rightarrow> LayerManager \<Rightarrow> bool" where
  "shows_except D ws m \<longleftrightarrow> lm_ok ws m \<and> top_transparent ws m (layer_stack m) \<and>
     layer_stack m \<noteq> [] \<and> (\<forall>q. on_screen m q \<longrightarrow> ptr_picture ws m (hd (layer_stack m)) q \<noteq> None) \<and>
     (\<forall>q. on_screen m q \<longrightarrow> D q \<or> pixel_shown ws m q)"

lemma shows_stack_except: "shows_stack ws m = shows_except (\<lambda>_. False) ws m"
  by (simp add: shows_stack_def shows_except_def)

lemma shows_except_mono: "shows_except D ws m \<Longrightarrow> (\<And>q. D q \<Longrightarrow> E q) \<Longrightarrow> shows_except E ws m"
  by (auto simp: shows_except_def)

lemma stacked_find_map:
  "stacked (map f ps) q = (case find (\<lambda>p. f p q \<noteq> None) (rev ps) of Some p \<Rightarrow> f p q | None \<Rightarrow> None)"
  by (induction ps rule: rev_induct) (auto simp: stacked_append map_add_def split: option.splits)

lemma find_defined: "find (\<lambda>p. \<exists>y. f p = Some y) xs = Some p \<Longrightarrow> \<exists>y. f p = Some y"
  by (auto simp: find_Some_iff)

lemma map_add_at: "(f ++ g) q = (case g q of None \<Rightarrow> f q | Some c \<Rightarrow> Some c)"
  by (simp add: map_add_def)

lemma cut_inside: "in_rect q area \<Longrightarrow> stacked (map (cut ws m area) ps) q = stacked (map (ptr_picture ws m) ps) q"
  by (rule stacked_cong) (simp add: cut_def)

lemma cut_top:
  assumes "top_transparent ws m ps" and "stacked (map (cut ws m area) ps) q = Some c"
  shows "stacked (map (ptr_picture ws m) ps) q = Some c"
proof (cases "in_rect q area")
  case True
  with assms(2) show ?thesis by (simp add: cut_inside)
next
  case False
  show ?thesis
  proof (cases ps rule: rev_cases)
    case (snoc qs p)
    have "cut ws m area x q = None" if "x \<in> set qs" for x
      using that assms(1) False snoc by (simp add: cut_def top_transparent_def)
    then have "stacked (map (cut ws m area) qs) q = None" by (simp add: stacked_None)
    then have "cut ws m area p q = Some c" using assms(2) snoc by (auto simp: stacked_append map_add_at split: option.splits)
    then have "ptr_picture ws m p q = Some c" by (simp add: cut_def split: if_splits)
    then show ?thesis using snoc by (simp add: stacked_append map_add_at)
  qed (use assms(2) in simp)
qed

text \<open>Redrawing the upper part \<open>ps\<close> of the stack in \<open>area\<close> never disturbs a pixel that is already
  right, and is right inside the area where that part hides everything below.\<close>

lemma stack_picture_same: "layers m' = layers m \<Longrightarrow> layer_stack m' = layer_stack m \<Longrightarrow> stack_picture ws m' = stack_picture ws m"
  by (simp add: stack_picture_def ptr_picture_def [abs_def])

lemma redraws_shown:
  assumes r: "redraws ws ps area m m'" and top: "top_transparent ws m ps" and stack: "layer_stack m = pre @ ps"
    and q: "on_screen m q"
    and shown: "pixel_shown ws m q \<or> in_rect q area \<and> stacked (map (ptr_picture ws m) ps) q \<noteq> None"
  shows "pixel_shown ws m' q"
proof -
  have same: "stack_picture ws m' = stack_picture ws m" using r by (intro stack_picture_same) (simp_all add: redraws_def)
  have upper: "stack_picture ws m q = Some c" if "stacked (map (ptr_picture ws m) ps) q = Some c" for c
    using that stack by (simp add: stack_picture_def stacked_append map_add_at)
  have "stack_picture ws m q = Some (fb_get (back_buffer m') q)"
  proof (cases "stacked (map (cut ws m area) ps) q")
    case None
    then have "pixel_shown ws m q" using shown by (auto simp: cut_inside)
    with r q None show ?thesis by (simp add: redraws_def pixel_shown_def)
  next
    case (Some c)
    with cut_top [OF top] upper r q show ?thesis by (simp add: redraws_def)
  qed
  with r q shown same show ?thesis by (auto simp: redraws_def pixel_shown_def)
qed

lemma ptr_picture_outside:
  assumes "layer_window (layers m ! k) = Some j" and "\<not> in_rect q \<lparr>pos = layer_pos (layers m ! k), size = Window_Size (ws ! j)\<rparr>"
  shows "ptr_picture ws m (Some k) q = None"
  using assms by (simp add: ptr_picture_def layer_picture_def win_picture_def)

lemma ptr_picture_opaque:
  assumes "layer_window (layers m ! k) = Some j" and "in_rect q \<lparr>pos = layer_pos (layers m ! k), size = Window_Size (ws ! j)\<rparr>"
    and "\<not> transparent ws (layers m ! k)"
  shows "ptr_picture ws m (Some k) q \<noteq> None"
  using assms by (simp add: ptr_picture_def layer_picture_def win_picture_def transparent_def)

lemma damage_whole:
  "layer_window l = Some j \<Longrightarrow> damage ws l \<lparr>pos = V 0 0, size = V (-1) (-1)\<rparr> = \<lparr>pos = layer_pos l, size = Window_Size (ws ! j)\<rparr>"
  by (simp add: damage_def Let_def)

text \<open>The moved layer \<open>k\<close>, before (\<open>m\<close>) and after (\<open>m1\<close>) the change of its position.\<close>

lemma moved_pictures:
  assumes "layer_stack m = pre @ Some k # post" and "distinct (layer_stack m)"
    and m1: "m1 = m\<lparr>layers := (layers m)[k := l]\<rparr>" and "\<forall>p \<in> set (layer_stack m). p \<noteq> None"
  shows "map (ptr_picture ws m1) pre = map (ptr_picture ws m) pre" "map (ptr_picture ws m1) post = map (ptr_picture ws m) post"
proof -
  have "ptr_picture ws m1 p = ptr_picture ws m p" if "p \<in> set pre \<union> set post" for p
  proof -
    have "p \<in> set (layer_stack m)" "p \<noteq> Some k" using assms(1,2) that by auto
    then obtain i where "p = Some i" "i \<noteq> k" using assms(4) by (cases p) auto
    then show ?thesis by (simp add: ptr_picture_def m1)
  qed
  then show "map (ptr_picture ws m1) pre = map (ptr_picture ws m) pre" "map (ptr_picture ws m1) post = map (ptr_picture ws m) post"
    by simp_all
qed


lemma LayerManager_DrawLayer_spec:
  assumes "lm_ok ws m" and "layer_stack m = pre @ Some k # post" and "layer_window (layers m ! k) = Some j"
  shows "\<exists>m'. LayerManager_DrawLayer ws (layer_id (layers m ! k)) m = Some m' \<and>
    redraws ws (Some k # post) \<lparr>pos = layer_pos (layers m ! k), size = Window_Size (ws ! j)\<rparr> m m'"
  using LayerManager_DrawArea_spec [OF assms(1,2), of "\<lparr>pos = V 0 0, size = V (-1) (-1)\<rparr>"] assms(3) damage_whole [OF assms(3)]
  by (simp add: LayerManager_DrawLayer_def)

lemma lm_ok_moved:
  assumes "lm_ok ws m" and "k < length (layers m)" and "layer_id l = layer_id (layers m ! k)" "layer_window l = layer_window (layers m ! k)"
  shows "lm_ok ws (m\<lparr>layers := (layers m)[k := l]\<rparr>)"
proof -
  have "layer_ok ws (lm_format m) l" using assms by (simp add: lm_ok_def layer_ok_def)
  moreover have "ids_ok (m\<lparr>layers := (layers m)[k := l]\<rparr>)" using assms by (auto simp: lm_ok_def ids_ok_def nth_list_update)
  moreover have "buffers_ok (m\<lparr>layers := (layers m)[k := l]\<rparr>) = buffers_ok m" by (simp add: buffers_ok_def split: option.split)
  ultimately show ?thesis using assms
    by (auto simp: lm_ok_def stack_ok_def lm_format_def dest!: set_update_subset_insert [THEN subsetD])
qed

lemma top_transparent_moved:
  assumes "top_transparent ws m ps" and "layer_window l = layer_window (layers m ! k)"
  shows "top_transparent ws (m\<lparr>layers := (layers m)[k := l]\<rparr>) ps"
  using assms by (auto simp: top_transparent_def transparent_def nth_upd)

lemma top_transparent_suffix: "top_transparent ws m (pre @ p # post) \<Longrightarrow> top_transparent ws m (p # post)"
  by (auto simp: top_transparent_def butlast_append)

text \<open>Moving a displayed layer, anywhere, keeps the screen equal to the composition of the stack.\<close>

lemma move_layer_shows:
  assumes inv: "shows_stack ws m" and stack: "layer_stack m = pre @ Some k # post" "pre \<noteq> []"
    and win: "layer_window (layers m ! k) = Some j"
    and f: "\<And>l. layer_id (f l) = layer_id l" "\<And>l. layer_window (f l) = layer_window l"
  shows "\<exists>m'. move_layer ws (layer_id (layers m ! k)) f m = Some m' \<and> shows_stack ws m' \<and>
    layers m' = (layers m)[k := f (layers m ! k)] \<and> layer_stack m' = layer_stack m"
proof -
  let ?l = "layers m ! k"
  let ?old = "\<lparr>pos = layer_pos ?l, size = Window_Size (ws ! j)\<rparr>"
  define m1 where "m1 = m\<lparr>layers := (layers m)[k := f ?l]\<rparr>"
  have ok: "lm_ok ws m" and k: "k < length (layers m)" and ptrs: "distinct (layer_stack m)" "\<forall>p \<in> set (layer_stack m). p \<noteq> None"
    using inv stack by (auto simp: shows_stack_def lm_ok_def stack_ok_def)
  have lok: "layer_ok ws (lm_format m) ?l" using ok k by (simp add: lm_ok_def)
  then have j: "j < length ws" "win_ok (ws ! j)" using win by (simp_all add: layer_ok_def)
  have ok1: "lm_ok ws m1" unfolding m1_def using ok k f by (intro lm_ok_moved) auto
  have top1: "top_transparent ws m1 (layer_stack m1)"
    unfolding m1_def using inv f by (simp add: shows_stack_def top_transparent_moved)
  have l1: "layers m1 ! k = f ?l" "layer_window (layers m1 ! k) = Some j" using k f win by (simp_all add: m1_def)
  have stack1: "layer_stack m1 = pre @ Some k # post" using stack by (simp add: m1_def)
  note pics = moved_pictures [OF stack(1) ptrs(1) m1_def ptrs(2)]
  have "Window_Size (ws ! j) = FrameBufferSize (fb_config (shadow_buffer (ws ! j)))" using j(2) by (simp add: win_ok_def)
  then have "rect_ok ?old" by (simp add: rect_ok_def FrameBufferSize_def)
  from LayerManager_Draw_spec [OF ok1 this] obtain m2 where m2: "LayerManager_Draw ws ?old m1 = Some m2" "redraws ws (layer_stack m1) ?old m1 m2"
    by blast
  have s2: "layers m2 = layers m1" "layer_stack m2 = pre @ Some k # post" "lm_ok ws m2" "\<And>q. on_screen m2 q = on_screen m1 q"
    using m2(2) stack1 by (simp_all add: redraws_def)
  from LayerManager_DrawLayer_spec [OF s2(3,2), of j] obtain m3 where m3: "LayerManager_DrawLayer ws (layer_id (layers m2 ! k)) m2 = Some m3"
      "redraws ws (Some k # post) \<lparr>pos = layer_pos (layers m2 ! k), size = Window_Size (ws ! j)\<rparr> m2 m3"
    using s2(1) l1 by auto
  have s3: "layers m3 = layers m1" "layer_stack m3 = pre @ Some k # post" "lm_ok ws m3" "\<And>q. on_screen m3 q = on_screen m q"
    using m3(2) s2 by (simp_all add: redraws_def m1_def on_screen_def)
  have run: "move_layer ws (layer_id ?l) f m = Some m3"
  proof -
    have "FindLayer (layer_id ?l) m = Some k" using ok k by (intro FindLayer_id) (simp add: lm_ok_def)
    then show ?thesis using k win j m2(1) m3(1) s2(1) l1 f
      by (simp add: move_layer_def deref_def window_of_def arr_get_def m1_def)
  qed
  have hd1: "ptr_picture ws m1 (hd (layer_stack m1)) = ptr_picture ws m (hd (layer_stack m))"
    using pics(1) stack(2) stack1 stack(1) by (cases pre) auto
  have shown: "pixel_shown ws m3 q" if q: "on_screen m q" for q
  proof -
    have q1: "on_screen m1 q" "on_screen m2 q" using q s2(4) by (simp_all add: m1_def on_screen_def)
    have "ptr_picture ws m1 (hd (layer_stack m1)) q \<noteq> None" using inv q hd1 by (simp add: shows_stack_def)
    then have cover: "stacked (map (ptr_picture ws m1) (layer_stack m1)) q \<noteq> None"
      using stack1 stack(2) by (cases pre) (auto simp: stacked_None)
    have pic2: "ptr_picture ws m2 = ptr_picture ws m1" using s2(1) by (simp add: ptr_picture_def [abs_def])
    have top2: "top_transparent ws m2 (Some k # post)" using top1 s2(1) top_transparent_suffix [of ws m1 pre "Some k" post] stack1
      by (simp add: top_transparent_def)
    show ?thesis
    proof (cases "ptr_picture ws m1 (Some k) q")
      case None
      have "pixel_shown ws m1 q" if "\<not> in_rect q ?old"
      proof -
        have "ptr_picture ws m (Some k) q = None" using win that by (rule ptr_picture_outside)
        then have "stack_picture ws m1 q = stack_picture ws m q"
          unfolding stack_picture_def stack(1) stack1 map_append list.map pics using None
          by (simp add: stacked_append map_add_at split: option.split)
        moreover have "screen_pixel m1 q = screen_pixel m q" "back_buffer m1 = back_buffer m"
          by (simp_all add: m1_def screen_pixel_def split: option.split)
        moreover have "pixel_shown ws m q" using inv q by (simp add: shows_stack_def)
        ultimately show ?thesis by (auto simp: pixel_shown_def)
      qed
      with cover have "pixel_shown ws m2 q" using redraws_shown [OF m2(2) top1 _ q1(1), of "[]"] by auto
      then show ?thesis using redraws_shown [OF m3(2) top2 s2(2) q1(2)] by simp
    next
      case (Some c)
      then have "in_rect q \<lparr>pos = layer_pos (layers m2 ! k), size = Window_Size (ws ! j)\<rparr>"
        using ptr_picture_outside [of m1 k j q ws] l1(2) s2(1) by fastforce
      then show ?thesis using redraws_shown [OF m3(2) top2 s2(2) q1(2)] Some by (simp add: pic2 map_add_at split: option.split)
    qed
  qed
  have "top_transparent ws m3 (layer_stack m3)" using top1 s3 stack1 by (simp add: top_transparent_def)
  moreover have "ptr_picture ws m3 (hd (layer_stack m3)) = ptr_picture ws m (hd (layer_stack m))"
    using hd1 s3 stack1 by (simp add: ptr_picture_def)
  ultimately have "shows_stack ws m3" using inv shown s3 by (simp add: shows_stack_def)
  then show ?thesis using run s3 stack by (simp add: m1_def)
qed

subsection \<open>Heights\<close>

lemma height_from_at:
  assumes "\<And>p. p \<in> set ps \<Longrightarrow> \<exists>l. deref m p = Some l \<and> layer_id l \<noteq> i" and "deref m q = Some l" "layer_id l = i"
  shows "height_from m i h (ps @ q # rest) = Some (h + int (length ps))"
  using assms(1)
proof (induction ps arbitrary: h)
  case (Cons p ps)
  then obtain l' where "deref m p = Some l'" "layer_id l' \<noteq> i" by fastforce
  moreover have "height_from m i (h + 1) (ps @ q # rest) = Some (h + 1 + int (length ps))" using Cons by simp
  ultimately show ?case by simp
qed (use assms(2,3) in simp)

lemma GetHeight_at:
  assumes "ids_ok m" "stack_ok m" and "layer_stack m = pre @ Some k # post"
  shows "GetHeight (layer_id (layers m ! k)) m = Some (int (length pre))"
proof -
  have k: "k < length (layers m)" using assms(2,3) by (auto simp: stack_ok_def)
  have "\<exists>l. deref m p = Some l \<and> layer_id l \<noteq> layer_id (layers m ! k)" if "p \<in> set pre" for p
  proof -
    have "p \<in> set (layer_stack m)" "p \<noteq> Some k" using assms(2,3) that by (auto simp: stack_ok_def)
    then show ?thesis using stack_okD [OF assms(2), of p] layer_id_inj [OF assms(1) _ k] by auto
  qed
  then show ?thesis unfolding GetHeight_def assms(3)
    using height_from_at [of pre m "layer_id (layers m ! k)" "Some k" "layers m ! k" 0 post] k by (simp add: deref_def arr_get_def)
qed

lemma find_index_split: "x \<notin> set xs \<Longrightarrow> find_index (\<lambda>y. y = x) (xs @ x # ys) = length xs"
  by (intro find_index_nth) (auto simp: nth_append)

text \<open>Where \<open>UpDown\<close> puts a layer: the other layers keep their order, and \<open>pre\<close>, \<open>post\<close> are those
  below and above it afterwards.\<close>

lemma UpDown_stack:
  assumes "FindLayer i m = Some k" and "0 \<le> h" and "distinct (layer_stack m)"
  shows "\<exists>pre post. layer_stack (UpDown i h m) = pre @ Some k # post \<and>
    pre @ post = filter (\<lambda>p. p \<noteq> Some k) (layer_stack m) \<and>
    int (length pre) = min h (int (length (pre @ post)))"
proof (cases "Some k \<in> set (layer_stack m)")
  case False
  let ?n = "nat (min h (int (length (layer_stack m))))"
  have "find_index (\<lambda>q. q = Some k) (layer_stack m) = length (layer_stack m)"
    using False by (intro find_index_none) auto
  then have "layer_stack (UpDown i h m) = insert_at ?n (Some k) (layer_stack m)"
    using assms(1,2) by (auto simp: UpDown_def Let_def min_def)
  moreover have "filter (\<lambda>p. p \<noteq> Some k) (layer_stack m) = layer_stack m" using False by (intro filter_True) auto
  ultimately show ?thesis using assms(2)
    by (intro exI [of _ "take ?n (layer_stack m)"] exI [of _ "drop ?n (layer_stack m)"]) (auto simp: insert_at_def min_def)
next
  case True
  then obtain xs ys where st: "layer_stack m = xs @ Some k # ys" and xs: "Some k \<notin> set xs" by (meson split_list_first)
  have ys: "Some k \<notin> set ys" using assms(3) st by simp
  let ?n = "nat (min h (int (length (xs @ ys))))"
  have "find_index (\<lambda>q. q = Some k) (layer_stack m) = length xs" unfolding st using xs by (rule find_index_split)
  then have "layer_stack (UpDown i h m) = insert_at ?n (Some k) (xs @ ys)"
    using assms(1,2) by (auto simp: UpDown_def Let_def min_def st erase_at_def nat_int_add)
  moreover have "filter (\<lambda>p. p \<noteq> Some k) (layer_stack m) = xs @ ys" 
  proof -
    have "filter (\<lambda>p. p \<noteq> Some k) zs = zs" if "Some k \<notin> set zs" for zs using that by (induction zs) auto
    then show ?thesis unfolding st using xs ys by simp
  qed
  ultimately show ?thesis using assms(2)
    by (intro exI [of _ "take ?n (xs @ ys)"] exI [of _ "drop ?n (xs @ ys)"])
      (auto simp: insert_at_def min_def simp del: take_append drop_append length_append simp flip: append_assoc)
qed

lemma UpDown_frame: "layers (UpDown i h m) = layers m" "latest_layer_id (UpDown i h m) = latest_layer_id m"
    "lm_screen (UpDown i h m) = lm_screen m" "back_buffer (UpDown i h m) = back_buffer m"
  by (simp_all add: UpDown_def Hide_def Let_def)

lemma stack_ok_insert:
  assumes "stack_ok m" and "k < length (layers m)" and "layers m' = layers m" and "layer_stack m' = pre @ Some k # post"
    and "pre @ post = filter (\<lambda>p. p \<noteq> Some k) (layer_stack m)"
  shows "stack_ok m'"
proof -
  have "distinct (pre @ post)" "set (pre @ post) = {p \<in> set (layer_stack m). p \<noteq> Some k}"
    using assms(1) unfolding assms(5) by (simp_all add: stack_ok_def)
  then have "distinct (layer_stack m')" "set (layer_stack m') \<subseteq> insert (Some k) (set (layer_stack m))"
    unfolding assms(4) by auto
  moreover have "\<exists>j. p = Some j \<and> j < length (layers m)" if "p \<in> insert (Some k) (set (layer_stack m))" for p
    using that assms(1,2) by (auto simp: stack_ok_def)
  ultimately show ?thesis unfolding stack_ok_def assms(3) by blast
qed

subsection \<open>A small screen\<close>

definition example_windows :: "Window list" where
  "example_windows = [Window_new 4 4 kPixelRGBResv8BitPerColor, Window_new 2 2 kPixelRGBResv8BitPerColor,
     Window_new 1 1 kPixelRGBResv8BitPerColor]"

definition example_lm :: LayerManager where
  "example_lm = \<lparr>lm_screen = Some (example_fb 4 4 0), back_buffer = example_fb 4 4 0,
     layers = [\<lparr>layer_id = 1, layer_pos = V 0 0, layer_window = Some 0, draggable = False\<rparr>,
       \<lparr>layer_id = 2, layer_pos = V 1 1, layer_window = Some 1, draggable = True\<rparr>,
       \<lparr>layer_id = 3, layer_pos = V 3 3, layer_window = Some 2, draggable = False\<rparr>],
     layer_stack = [Some 0, Some 1, Some 2], latest_layer_id = 3\<rparr>"

lemma Window_new_picture:
  assumes "4 * w * h < 2 ^ 32" and "in_rect q \<lparr>pos = p, size = V (int w) (int h)\<rparr>"
  shows "win_picture (Window_new w h kPixelRGBResv8BitPerColor) p q = Some black"
proof -
  let ?w = "Window_new w h kPixelRGBResv8BitPerColor"
  have ok: "win_ok ?w" "Window_Size ?w = V (int w) (int h)" using Window_new_ok [OF assms(1), of kPixelRGBResv8BitPerColor] by auto
  have fb: "fb_ok (shadow_buffer ?w)" using ok(1) by (simp add: win_ok_def)
  have "fb_inside (shadow_buffer ?w) (vec_sub q p)"
    using ok assms(2) unfolding win_ok_def fb_inside_def by (auto simp: in_rect_def vec_sub_def)
  from px_index_less [OF fb this] have "px (shadow_buffer ?w) (vec_sub q p) k = 0" if "k < 4" for k
    using that by (auto simp: px_def Window_new_def FrameBuffer_Initialize_def BytesPerPixel_def Let_def)
  then have "win_get ?w (vec_sub q p) = black"
    unfolding win_get_def fb_get_def black_def
    by (simp add: Window_new_def FrameBuffer_Initialize_def BytesPerPixel_def Let_def)
  moreover have "transparent_color ?w = None" by (simp add: Window_new_def Let_def split: prod.split)
  ultimately show ?thesis using ok assms(2) by (simp add: win_picture_def)
qed

lemma example_lm_ok: "lm_ok example_windows example_lm"
proof -
  have "win_ok (Window_new 4 4 kPixelRGBResv8BitPerColor)" "win_ok (Window_new 2 2 kPixelRGBResv8BitPerColor)"
      "win_ok (Window_new (Suc 0) (Suc 0) kPixelRGBResv8BitPerColor)"
    using Window_new_ok [of 4 4 kPixelRGBResv8BitPerColor] Window_new_ok [of 2 2 kPixelRGBResv8BitPerColor]
      Window_new_ok [of 1 1 kPixelRGBResv8BitPerColor] by simp_all
  moreover have "pixel_format (fb_config (shadow_buffer (Window_new n n kPixelRGBResv8BitPerColor))) = kPixelRGBResv8BitPerColor" for n
    by (simp add: Window_new_def FrameBuffer_Initialize_def BytesPerPixel_def Let_def)
  moreover have "ids_ok example_lm" by (auto simp: ids_ok_def example_lm_def nth_Cons' less_Suc_eq)
  ultimately show ?thesis
    by (auto simp: lm_ok_def stack_ok_def buffers_ok_def layer_ok_def lm_format_def example_lm_def example_windows_def
        fb_ok_def example_fb_def)
qed

lemma example_lm_shows: "shows_stack example_windows example_lm"
proof -
  have "pixel_shown example_windows example_lm q \<and> ptr_picture example_windows example_lm (Some 0) q \<noteq> None"
    if "on_screen example_lm q" for q
  proof -
    have q: "in_rect q \<lparr>pos = V 0 0, size = V 4 4\<rparr>" "fb_inside (example_fb 4 4 0) q"
      using that by (simp_all add: on_screen_def example_lm_def fb_inside_def example_fb_def FrameBufferSize_def)
    have bottom: "ptr_picture example_windows example_lm (Some 0) q = Some black"
      using Window_new_picture [of 4 4 q "V 0 0"] q by (simp add: ptr_picture_def layer_picture_def example_lm_def example_windows_def)
    have size: "Window_Size (Window_new 2 2 kPixelRGBResv8BitPerColor) = V 2 2"
        "Window_Size (Window_new (Suc 0) (Suc 0) kPixelRGBResv8BitPerColor) = V 1 1"
      using Window_new_ok [of 2 2 kPixelRGBResv8BitPerColor] Window_new_ok [of 1 1 kPixelRGBResv8BitPerColor] by simp_all
    have upper: "ptr_picture example_windows example_lm (Some (Suc 0)) q \<in> {None, Some black}"
        "ptr_picture example_windows example_lm (Some 2) q \<in> {None, Some black}"
      using Window_new_picture [of 2 2 q "V 1 1"] Window_new_picture [of 1 1 q "V 3 3"] size
      by (auto simp: ptr_picture_def layer_picture_def example_lm_def example_windows_def win_picture_def)
    have "fb_ok (example_fb 4 4 0)" by (simp add: fb_ok_def example_fb_def)
    from px_index_less [OF this q(2)] have "px (example_fb 4 4 0) q k = 0" if "k < 4" for k
      using that by (simp add: px_def example_fb_def)
    then have "fb_get (example_fb 4 4 0) q = black" unfolding fb_get_def black_def by (simp add: example_fb_def)
    then show ?thesis using bottom upper
      by (auto simp: pixel_shown_def stack_picture_def screen_pixel_def map_add_at example_lm_def)
  qed
  then show ?thesis using example_lm_ok
    by (auto simp: shows_stack_def top_transparent_def transparent_def example_lm_def example_windows_def Window_new_def Let_def
        split: prod.splits)
qed

subsection \<open>Properties\<close>

text \<open>C9: drawing an area through the back buffer composes the layers: inside the area every pixel of the
  screen takes the colour of the topmost layer of the stack that is opaque there, pixels outside keep
  theirs, and nothing outside the buffers is touched, wherever the windows and the area lie.\<close>

theorem LayerManager_Draw_composes:
  assumes "lm_ok ws m" and "rect_ok area"
  shows "\<exists>m'. LayerManager_Draw ws area m = Some m' \<and> lm_ok ws m' \<and>
    (\<forall>q. on_screen m q \<longrightarrow> screen_pixel m' q =
      (if in_rect q area
       then (case find (\<lambda>p. ptr_picture ws m p q \<noteq> None) (rev (layer_stack m)) of
               Some p \<Rightarrow> the (ptr_picture ws m p q) | None \<Rightarrow> fb_get (back_buffer m) q)
       else screen_pixel m q))"
proof -
  obtain m' where m': "LayerManager_Draw ws area m = Some m'" "redraws ws (layer_stack m) area m m'"
    using LayerManager_Draw_spec [OF assms] by blast
  have "screen_pixel m' q = (case find (\<lambda>p. ptr_picture ws m p q \<noteq> None) (rev (layer_stack m)) of
      Some p \<Rightarrow> the (ptr_picture ws m p q) | None \<Rightarrow> fb_get (back_buffer m) q)" if "on_screen m q" "in_rect q area" for q
  proof -
    have "screen_pixel m' q = (case stack_picture ws m q of Some c \<Rightarrow> c | None \<Rightarrow> fb_get (back_buffer m) q)"
      using m'(2) that by (simp add: redraws_def cut_inside stack_picture_def)
    then show ?thesis unfolding stack_picture_def stacked_find_map by (auto split: option.split dest!: find_defined)
  qed
  with m' show ?thesis by (auto simp: redraws_def)
qed

theorem LayerManager_Draw_composes_witness:
  "\<exists>m'. LayerManager_Draw example_windows \<lparr>pos = V (-1) 2, size = V 3 5\<rparr> example_lm = Some m' \<and> lm_ok example_windows m'"
  using LayerManager_Draw_composes [OF example_lm_ok, of "\<lparr>pos = V (-1) 2, size = V 3 5\<rparr>"]
  by (auto simp: rect_ok_def)

text \<open>C8: \<open>Move\<close> and \<open>MoveRelative\<close> keep the screen equal to the composition of the stack: when the screen
  and the back buffer show the stack before, they do so after a layer was moved to any position, on or
  off the screen. (The desktop at the bottom covers the screen and is not the layer moved, and only the
  topmost layer, the mouse cursor, is transparent.)\<close>

theorem LayerManager_Move_shows_stack:
  assumes "shows_stack ws m" and "layer_stack m = pre @ Some k # post" and "pre \<noteq> []"
    and "layer_window (layers m ! k) = Some j"
  shows "(\<exists>m'. LayerManager_Move ws (layer_id (layers m ! k)) p m = Some m' \<and> shows_stack ws m' \<and>
      layer_pos (layers m' ! k) = p \<and> layer_stack m' = layer_stack m) \<and>
    (\<exists>m'. LayerManager_MoveRelative ws (layer_id (layers m ! k)) d m = Some m' \<and> shows_stack ws m' \<and>
      layer_pos (layers m' ! k) = vec_add (layer_pos (layers m ! k)) d \<and> layer_stack m' = layer_stack m)"
proof -
  have "k < length (layers m)" using assms(1,2) by (auto simp: shows_stack_def lm_ok_def stack_ok_def)
  then show ?thesis
    using move_layer_shows [OF assms, of "Layer_Move p"] move_layer_shows [OF assms, of "Layer_MoveRelative d"]
    by (auto simp: LayerManager_Move_def Layer_Move_def LayerManager_MoveRelative_def Layer_MoveRelative_def)
qed

theorem LayerManager_Move_shows_stack_witness:
  "\<exists>m'. LayerManager_Move example_windows 2 (V 3 (-1)) example_lm = Some m' \<and> shows_stack example_windows m'"
  using LayerManager_Move_shows_stack [OF example_lm_shows, of "[Some 0]" 1 "[Some 2]" 1 "V 3 (-1)"]
  by (auto simp: example_lm_def)

subsection \<open>Redrawing a changed window\<close>

lemma win_picture_changed:
  assumes "Window_Size w' = Window_Size w" and "transparent_color w = None" "transparent_color w' = None"
    and "\<And>q. \<not> in_rect q area \<Longrightarrow> win_get w' q = win_get w q" and "\<not> in_rect (vec_sub q p) area"
  shows "win_picture w' p q = win_picture w p q"
  using assms by (simp add: win_picture_def)

text \<open>Window \<open>j\<close> of the store is shown by layer \<open>k\<close> only, is opaque, and becomes \<open>w'\<close>, which
  differs in \<open>area\<close> only (or anywhere, when the area is the negative one that stands for all of it).\<close>

definition only_layer :: "LayerManager \<Rightarrow> nat \<Rightarrow> nat \<Rightarrow> bool" where
  "only_layer m k j \<longleftrightarrow> (\<forall>i < length (layers m). layer_window (layers m ! i) = Some j \<longrightarrow> i = k)"

definition updates :: "Window list \<Rightarrow> LayerManager \<Rightarrow> nat \<Rightarrow> nat \<Rightarrow> Rectangle \<Rightarrow> Window \<Rightarrow> bool" where
  "updates ws m k j area w' \<longleftrightarrow> k < length (layers m) \<and> layer_window (layers m ! k) = Some j \<and> j < length ws \<and>
     transparent_color (ws ! j) = None \<and>
     only_layer m k j \<and> win_ok w' \<and> Window_Size w' = Window_Size (ws ! j) \<and> transparent_color w' = None \<and>
     pixel_format (fb_config (shadow_buffer w')) = lm_format m \<and>
     ((rect_ok area \<and> (\<forall>q. \<not> in_rect q area \<longrightarrow> win_get w' q = win_get (ws ! j) q)) \<or> (vx (size area) < 0 \<and> vy (size area) < 0))"

lemma updatesD:
  assumes "updates ws m k j area w'"
  shows "k < length (layers m)" "layer_window (layers m ! k) = Some j" "j < length ws" "transparent_color (ws ! j) = None"
    "win_ok w'" "Window_Size w' = Window_Size (ws ! j)" "transparent_color w' = None"
    "pixel_format (fb_config (shadow_buffer w')) = lm_format m"
  using assms by (simp_all add: updates_def)

lemma damage_updated:
  "updates ws m k j area w' \<Longrightarrow> damage (ws[j := w']) (layers m ! k) area =
     (let wa = \<lparr>pos = layer_pos (layers m ! k), size = Window_Size (ws ! j)\<rparr>
      in if vx (size area) \<ge> 0 \<or> vy (size area) \<ge> 0
         then rect_and wa (area\<lparr>pos := vec_add (pos area) (pos wa)\<rparr>) else wa)"
  by (simp add: damage_def updatesD)

lemma lm_ok_updated: "lm_ok ws m \<Longrightarrow> updates ws m k j area w' \<Longrightarrow> lm_ok (ws[j := w']) m"
  using updatesD [of ws m k j area w'] by (auto simp: lm_ok_def layer_ok_def nth_list_update split: option.splits)

lemma transparent_updated: "updates ws m k j area w' \<Longrightarrow> transparent (ws[j := w']) l = transparent ws l"
  using updatesD [of ws m k j area w'] by (auto simp: transparent_def nth_list_update split: option.split)

lemma updated_picture:
  assumes u: "updates ws m k j area w'" and p: "p = Some i" "i < length (layers m)"
    and out: "i = k \<Longrightarrow> \<not> in_rect q (damage (ws[j := w']) (layers m ! k) area)"
  shows "ptr_picture (ws[j := w']) m p q = ptr_picture ws m p q"
proof (cases "i = k")
  case False
  then have "layer_window (layers m ! i) \<noteq> Some j" using u p by (auto simp: updates_def only_layer_def)
  then show ?thesis using p by (auto simp: ptr_picture_def layer_picture_def split: option.split)
next
  case True
  let ?p = "layer_pos (layers m ! k)"
  have "win_picture w' ?p q = win_picture (ws ! j) ?p q"
  proof (cases "in_rect q \<lparr>pos = ?p, size = Window_Size (ws ! j)\<rparr>")
    case inside: True
    note out' = out [OF True, unfolded damage_updated [OF u] Let_def]
    have big: "vx (size area) \<ge> 0 \<or> vy (size area) \<ge> 0" using out' inside by (auto split: if_splits)
    have "(\<forall>q. \<not> in_rect q area \<longrightarrow> win_get w' q = win_get (ws ! j) q) \<or> (vx (size area) < 0 \<and> vy (size area) < 0)"
      using u unfolding updates_def by blast
    with big have nd: "\<not> in_rect q area \<Longrightarrow> win_get w' q = win_get (ws ! j) q" for q by auto
    have "\<not> in_rect q (area\<lparr>pos := vec_add (pos area) ?p\<rparr>)"
      using inside out' big in_rect_and by simp
    then have "\<not> in_rect (vec_sub q ?p) area" by (auto simp: in_rect_def vec_add_def vec_sub_def)
    with updatesD(6,4,7) [OF u] nd show ?thesis by (rule win_picture_changed)
  qed (use updatesD [OF u] in \<open>simp add: win_picture_def\<close>)
  then show ?thesis using True p updatesD [OF u] by (simp add: ptr_picture_def layer_picture_def)
qed

lemma damage_opaque:
  assumes "updates ws m k j area w'" and "in_rect q (damage (ws[j := w']) (layers m ! k) area)"
  shows "ptr_picture (ws[j := w']) m (Some k) q \<noteq> None"
proof -
  have "in_rect q \<lparr>pos = layer_pos (layers m ! k), size = Window_Size (ws ! j)\<rparr>"
    using assms(2) unfolding damage_updated [OF assms(1)] Let_def by (auto simp: in_rect_and split: if_splits)
  then show ?thesis using updatesD [OF assms(1)] by (simp add: ptr_picture_def layer_picture_def win_picture_def)
qed

text \<open>Redrawing a layer that is opaque in the area makes the screen right there.\<close>

lemma redraw_restores:
  assumes ok: "lm_ok ws m" and stack: "layer_stack m = pre @ Some k # post" and win: "layer_window (layers m ! k) \<noteq> None"
    and area: "rect_ok area \<or> vx (size area) < 0 \<and> vy (size area) < 0" and top: "top_transparent ws m (layer_stack m)"
    and bottom: "\<And>q. on_screen m q \<Longrightarrow> ptr_picture ws m (hd (layer_stack m)) q \<noteq> None"
    and out: "\<And>q. on_screen m q \<Longrightarrow> \<not> in_rect q (damage ws (layers m ! k) area) \<Longrightarrow> D q \<or> pixel_shown ws m q"
    and opaque: "\<And>q. in_rect q (damage ws (layers m ! k) area) \<Longrightarrow> ptr_picture ws m (Some k) q \<noteq> None"
  shows "\<exists>m'. LayerManager_DrawArea ws (layer_id (layers m ! k)) area m = Some m' \<and>
    shows_except (\<lambda>q. D q \<and> \<not> in_rect q (damage ws (layers m ! k) area)) ws m' \<and>
    layers m' = layers m \<and> layer_stack m' = layer_stack m \<and> (\<forall>q. on_screen m' q = on_screen m q)"
proof -
  let ?d = "damage ws (layers m ! k) area"
  obtain m' where m': "LayerManager_DrawArea ws (layer_id (layers m ! k)) area m = Some m'" "redraws ws (Some k # post) ?d m m'"
    using LayerManager_DrawArea_spec [OF ok stack win area] by blast
  have "D q \<and> \<not> in_rect q ?d \<or> pixel_shown ws m' q" if q: "on_screen m q" for q
  proof (cases "D q \<and> \<not> in_rect q ?d")
    case False
    have "pixel_shown ws m' q"
    proof (rule redraws_shown [OF m'(2) _ stack q])
      show "top_transparent ws m (Some k # post)" using top top_transparent_suffix stack by metis
      show "pixel_shown ws m q \<or> in_rect q ?d \<and> stacked (map (ptr_picture ws m) (Some k # post)) q \<noteq> None"
        using out [OF q] opaque [of q] False by (cases "in_rect q ?d") (auto simp: map_add_at split: option.splits)
    qed
    then show ?thesis ..
  qed simp
  then have "shows_except (\<lambda>q. D q \<and> \<not> in_rect q ?d) ws m'" using m'(2) top bottom stack
    by (auto simp: redraws_def shows_except_def top_transparent_def ptr_picture_def)
  with m' show ?thesis by (auto simp: redraws_def)
qed

lemma pixel_shown_same:
  assumes "stack_picture ws' m' q = stack_picture ws m q" and "back_buffer m' = back_buffer m" "lm_screen m' = lm_screen m"
  shows "pixel_shown ws' m' q = pixel_shown ws m q"
  using assms by (simp add: pixel_shown_def screen_pixel_def split: option.split)

lemma updated_pictures:
  assumes "stack_ok m" and "updates ws m k j area w'" and "p \<in> set (layer_stack m)"
    and "p = Some k \<Longrightarrow> \<not> in_rect q (damage (ws[j := w']) (layers m ! k) area)"
  shows "ptr_picture (ws[j := w']) m p q = ptr_picture ws m p q"
  using stack_okD [OF assms(1,3)] updated_picture [OF assms(2), of p _ q] assms(4) by fastforce

lemma updated_bottom:
  assumes inv: "shows_except D ws m" and u: "updates ws m k j area w'" and q: "on_screen m q"
  shows "ptr_picture (ws[j := w']) m (hd (layer_stack m)) q \<noteq> None"
proof (cases "hd (layer_stack m) = Some k \<and> in_rect q (damage (ws[j := w']) (layers m ! k) area)")
  case True
  with damage_opaque [OF u] show ?thesis by simp
next
  case False
  have "stack_ok m" "hd (layer_stack m) \<in> set (layer_stack m)" using inv by (auto simp: shows_except_def lm_ok_def)
  with updated_pictures [OF _ u] False inv q show ?thesis by (auto simp: shows_except_def)
qed

text \<open>A window that changed in \<open>area\<close> leaves the screen out of date at most there.\<close>

lemma updated_except:
  assumes inv: "shows_except D ws m" and u: "updates ws m k j area w'"
  shows "shows_except (\<lambda>q. D q \<or> in_rect q (damage (ws[j := w']) (layers m ! k) area)) (ws[j := w']) m"
  unfolding shows_except_def
proof (intro conjI allI impI)
  show "lm_ok (ws[j := w']) m" using inv u lm_ok_updated by (simp add: shows_except_def)
  show "top_transparent (ws[j := w']) m (layer_stack m)"
    using inv transparent_updated [OF u] by (simp add: shows_except_def top_transparent_def)
  show "layer_stack m \<noteq> []" using inv by (simp add: shows_except_def)
  fix q assume q: "on_screen m q"
  show "ptr_picture (ws[j := w']) m (hd (layer_stack m)) q \<noteq> None" using inv u q by (rule updated_bottom)
  show "(D q \<or> in_rect q (damage (ws[j := w']) (layers m ! k) area)) \<or> pixel_shown (ws[j := w']) m q"
  proof (cases "in_rect q (damage (ws[j := w']) (layers m ! k) area)")
    case False
    then have "stack_picture (ws[j := w']) m q = stack_picture ws m q" unfolding stack_picture_def
      using inv updated_pictures [OF _ u] by (intro stacked_cong) (auto simp: shows_except_def lm_ok_def)
    then have "pixel_shown (ws[j := w']) m q = pixel_shown ws m q" by (rule pixel_shown_same) simp_all
    then show ?thesis using inv q by (auto simp: shows_except_def)
  qed simp
qed

lemma redraw_updated_except:
  assumes inv: "shows_except D ws m" and stack: "layer_stack m = pre @ Some k # post" and u: "updates ws m k j area w'"
  shows "\<exists>m'. LayerManager_DrawArea (ws[j := w']) (layer_id (layers m ! k)) area m = Some m' \<and>
    shows_except (\<lambda>q. D q \<and> \<not> in_rect q (damage (ws[j := w']) (layers m ! k) area)) (ws[j := w']) m' \<and>
    layers m' = layers m \<and> layer_stack m' = layer_stack m \<and> (\<forall>q. on_screen m' q = on_screen m q)"
proof (rule redraw_restores [OF _ stack])
  note after = updated_except [OF inv u, unfolded shows_except_def]
  show "lm_ok (ws[j := w']) m" "top_transparent (ws[j := w']) m (layer_stack m)" using after by simp_all
  show "layer_window (layers m ! k) \<noteq> None" "rect_ok area \<or> vx (size area) < 0 \<and> vy (size area) < 0"
    using u unfolding updates_def by blast+
  fix q
  show "in_rect q (damage (ws[j := w']) (layers m ! k) area) \<Longrightarrow> ptr_picture (ws[j := w']) m (Some k) q \<noteq> None"
    using u by (rule damage_opaque)
  show "on_screen m q \<Longrightarrow> ptr_picture (ws[j := w']) m (hd (layer_stack m)) q \<noteq> None" using after by simp
  show "on_screen m q \<Longrightarrow> \<not> in_rect q (damage (ws[j := w']) (layers m ! k) area) \<Longrightarrow> D q \<or> pixel_shown (ws[j := w']) m q"
    using after by blast
qed

lemma redraw_updated:
  assumes "shows_stack ws m" and "layer_stack m = pre @ Some k # post" and "updates ws m k j area w'"
  shows "\<exists>m'. LayerManager_DrawArea (ws[j := w']) (layer_id (layers m ! k)) area m = Some m' \<and> shows_stack (ws[j := w']) m' \<and>
    layers m' = layers m \<and> layer_stack m' = layer_stack m"
  using redraw_updated_except [OF assms(1) [unfolded shows_stack_except] assms(2,3)] by (auto simp: shows_stack_except)

text \<open>after an opaque window changed only inside \<open>area\<close> (relative to the window; a negative size means
  all of it), \<open>Draw(id, area)\<close> is enough to make the screen show the stack again, whatever lies above
  or below the layer.\<close>

theorem DrawArea_after_update:
  assumes "shows_stack ws m" and "layer_stack m = pre @ Some k # post" and "updates ws m k j area w'"
  shows "\<exists>m'. LayerManager_DrawArea (ws[j := w']) (layer_id (layers m ! k)) area m = Some m' \<and> shows_stack (ws[j := w']) m'"
  using redraw_updated [OF assms] by blast

theorem DrawArea_after_update_witness:
  "\<exists>w' m'. Window_Write (V 1 1) \<lparr>red = 1, green = 2, blue = 3\<rparr> (Window_new 2 2 kPixelRGBResv8BitPerColor) = Some w' \<and>
     LayerManager_DrawArea (example_windows[1 := w']) 2 \<lparr>pos = V 0 0, size = V (-1) (-1)\<rparr> example_lm = Some m' \<and>
     shows_stack (example_windows[1 := w']) m'"
proof -
  let ?w = "Window_new 2 2 kPixelRGBResv8BitPerColor"
  have ok: "win_ok ?w" "Window_Size ?w = V 2 2" using Window_new_ok [of 2 2 kPixelRGBResv8BitPerColor] by auto
  then have "win_inside ?w (V 1 1)" by (simp add: win_inside_def in_rect_def)
  from Window_Write_spec [OF this] obtain w' where w': "Window_Write (V 1 1) \<lparr>red = 1, green = 2, blue = 3\<rparr> ?w = Some w'" "win_ok w'"
      "Window_Size w' = Window_Size ?w" "transparent_color w' = transparent_color ?w"
      "fb_config (shadow_buffer w') = fb_config (shadow_buffer ?w)"
    by blast
  have "transparent_color ?w = None" "pixel_format (fb_config (shadow_buffer ?w)) = kPixelRGBResv8BitPerColor"
    by (simp_all add: Window_new_def FrameBuffer_Initialize_def BytesPerPixel_def Let_def)
  then have "updates example_windows example_lm 1 1 \<lparr>pos = V 0 0, size = V (-1) (-1)\<rparr> w'"
    using w' by (auto simp: updates_def example_lm_def example_windows_def lm_format_def example_fb_def only_layer_def less_Suc_eq)
  from DrawArea_after_update [OF example_lm_shows _ this, of "[Some 0]" "[Some 2]"] w'(1) show ?thesis
    by (auto simp: example_lm_def)
qed

subsection \<open>Stacking order\<close>

text \<open>\<open>UpDown\<close> puts a known layer at the requested height, or on top when the height exceeds the
  stack, whether or not it was displayed before; the other layers keep their order, no layer
  appears twice, and \<open>GetHeight\<close> reports the height.\<close>

theorem UpDown_sets_height:
  assumes "ids_ok m" "stack_ok m" and "k < length (layers m)" and "0 \<le> h"
  shows "let m' = UpDown (layer_id (layers m ! k)) h m in
     stack_ok m' \<and>
     filter (\<lambda>p. p \<noteq> Some k) (layer_stack m') = filter (\<lambda>p. p \<noteq> Some k) (layer_stack m) \<and>
     GetHeight (layer_id (layers m ! k)) m' = Some (min h (int (length (layer_stack m')) - 1))"
proof -
  let ?m = "UpDown (layer_id (layers m ! k)) h m"
  have "FindLayer (layer_id (layers m ! k)) m = Some k" using assms by (intro FindLayer_id)
  moreover have "distinct (layer_stack m)" using assms(2) by (simp add: stack_ok_def)
  ultimately obtain pre post where st: "layer_stack ?m = pre @ Some k # post"
      "pre @ post = filter (\<lambda>p. p \<noteq> Some k) (layer_stack m)" "int (length pre) = min h (int (length (pre @ post)))"
    using UpDown_stack [OF _ assms(4)] by blast
  have ok: "stack_ok ?m" using assms(2,3) UpDown_frame(1) st(1,2) by (rule stack_ok_insert)
  moreover have "filter (\<lambda>p. p \<noteq> Some k) (layer_stack ?m) = filter (\<lambda>p. p \<noteq> Some k) (pre @ post)" by (simp add: st(1))
  moreover have "GetHeight (layer_id (layers ?m ! k)) ?m = Some (int (length pre))"
    using _ ok st(1) by (rule GetHeight_at) (use assms(1) in \<open>simp add: ids_ok_def UpDown_frame\<close>)
  moreover have "int (length pre) = min h (int (length (layer_stack ?m)) - 1)" using st(1,3) by simp
  ultimately show ?thesis using st(2) unfolding Let_def by (simp add: UpDown_frame)
qed

theorem UpDown_sets_height_witness:
  "GetHeight 1 (UpDown 1 7 example_lm) = Some 2"
  using UpDown_sets_height [of example_lm 0 7] example_lm_ok
  by (auto simp: lm_ok_def example_lm_def Let_def UpDown_def FindLayer_def find_index_def insert_at_def erase_at_def)

text \<open>\<open>UpDown\<close> with an id that no layer has puts the null pointer that \<open>FindLayer\<close> returns into the
  stack, and the next drawing of the screen dereferences it.\<close>

theorem UpDown_unknown_id:
  assumes "FindLayer i m = None" and "0 \<le> h"
  shows "None \<in> set (layer_stack (UpDown i h m)) \<and> LayerManager_Draw ws area (UpDown i h m) = None"
proof -
  have "None \<in> set (layer_stack (UpDown i h m))" using assms by (auto simp: UpDown_def Let_def insert_at_def)
  moreover from this have "foldM (\<lambda>p bb. do { l \<leftarrow> deref (UpDown i h m) p; Layer_DrawTo ws l area bb })
      (layer_stack (UpDown i h m)) bb = None" for bb
    by (rule foldM_None) (simp add: deref_def)
  ultimately show ?thesis by (simp add: LayerManager_Draw_def)
qed

theorem UpDown_unknown_id_witness: "None \<in> set (layer_stack (UpDown 9 1 example_lm))"
  using UpDown_unknown_id [of 9 example_lm 1] by (simp add: FindLayer_def find_index_def example_lm_def)

subsection \<open>Looking for the layer under a point\<close>

definition covers :: "Window list \<Rightarrow> LayerManager \<Rightarrow> Vector2D \<Rightarrow> u32 \<Rightarrow> nat \<Rightarrow> bool" where
  "covers ws m p exclude_id k \<longleftrightarrow> layer_id (layers m ! k) \<noteq> exclude_id \<and>
     (\<exists>j. layer_window (layers m ! k) = Some j \<and>
        in_rect p \<lparr>pos = layer_pos (layers m ! k), size = Window_Size (ws ! j)\<rparr>)"

lemma find_ptr_total:
  assumes "\<And>p. p \<in> set ps \<Longrightarrow> \<exists>k. p = Some k \<and> P k = Some (Q k)"
  shows "find_ptr P ps = Some (case find (\<lambda>p. Q (the p)) ps of None \<Rightarrow> None | Some p \<Rightarrow> p)"
  using assms
proof (induction ps)
  case (Cons p ps)
  then obtain k where "p = Some k" "P k = Some (Q k)" by fastforce
  with Cons show ?case by auto
qed simp

lemma hit_covers:
  assumes "layer_ok ws fmt (layers m ! k)"
  shows "hit ws p i (layers m ! k) = Some (covers ws m p i k)"
  using assms by (auto simp: hit_def covers_def layer_ok_def arr_get_def in_rect_def vec_add_def Let_def split: option.splits)

lemma FindLayerByPosition_spec:
  assumes "lm_ok ws m"
  shows "\<exists>r. FindLayerByPosition ws p i m = Some r \<and>
    (case r of
       None \<Rightarrow> \<forall>k. Some k \<in> set (layer_stack m) \<longrightarrow> \<not> covers ws m p i k
     | Some k \<Rightarrow> \<exists>pre post. layer_stack m = pre @ Some k # post \<and> covers ws m p i k \<and>
         (\<forall>k'. Some k' \<in> set post \<longrightarrow> \<not> covers ws m p i k'))"
proof -
  let ?ps = "rev (layer_stack m)" and ?Q = "\<lambda>p'. covers ws m p i (the p')"
  have ptr: "\<exists>k. p' = Some k \<and> (do { l \<leftarrow> arr_get (layers m) k; hit ws p i l }) = Some (covers ws m p i k)"
    if "p' \<in> set ?ps" for p'
  proof -
    have d: "deref m p' = Some (layers m ! the p')" "layer_ok ws (lm_format m) (layers m ! the p')"
      using lm_okD [OF assms, of p'] that by auto
    then obtain k where "p' = Some k" by (cases p') (auto simp: deref_def)
    with d hit_covers [of ws "lm_format m" m k p i] show ?thesis by (auto simp: deref_def arr_get_def)
  qed
  have run: "FindLayerByPosition ws p i m = Some (case find ?Q ?ps of None \<Rightarrow> None | Some p' \<Rightarrow> p')"
    unfolding FindLayerByPosition_def using ptr by (rule find_ptr_total)
  show ?thesis
  proof (cases "find ?Q ?ps")
    case None
    then have "\<forall>k. Some k \<in> set (layer_stack m) \<longrightarrow> \<not> covers ws m p i k" by (auto simp: find_None_iff)
    then show ?thesis using run None by simp
  next
    case (Some p')
    then obtain n where n: "n < length ?ps" "p' = ?ps ! n" "?Q p'" "\<And>j. j < n \<Longrightarrow> \<not> ?Q (?ps ! j)"
      by (auto simp: find_Some_iff)
    then have "p' \<in> set ?ps" by (metis nth_mem)
    then obtain k where k: "p' = Some k" using ptr by blast
    have "?ps = take n ?ps @ Some k # drop (Suc n) ?ps" using id_take_nth_drop [OF n(1)] n(2) k by simp
    then have "layer_stack m = rev (drop (Suc n) ?ps) @ Some k # rev (take n ?ps)"
      by (metis append_Cons append_Nil append_assoc rev.simps(2) rev_append rev_rev_ident)
    moreover have "\<not> covers ws m p i k'" if "Some k' \<in> set (rev (take n ?ps))" for k'
      using that n(4) n(1) by (auto simp: in_set_conv_nth simp del: length_rev rev_take) (metis option.sel)
    ultimately have "\<exists>pre post. layer_stack m = pre @ Some k # post \<and> (\<forall>k'. Some k' \<in> set post \<longrightarrow> \<not> covers ws m p i k')"
      by blast
    then show ?thesis using run Some n(3) k by simp
  qed
qed

text \<open>\<open>FindLayerByPosition\<close> returns the topmost displayed layer, the excluded one aside, whose window
  contains the point, and the null pointer exactly when there is none.\<close>

theorem FindLayerByPosition_topmost:
  assumes "lm_ok ws m"
  shows "\<exists>r. FindLayerByPosition ws p i m = Some r \<and>
    (case r of
       None \<Rightarrow> \<forall>k. Some k \<in> set (layer_stack m) \<longrightarrow> \<not> covers ws m p i k
     | Some k \<Rightarrow> \<exists>pre post. layer_stack m = pre @ Some k # post \<and> covers ws m p i k \<and>
         (\<forall>k'. Some k' \<in> set post \<longrightarrow> \<not> covers ws m p i k'))"
  using FindLayerByPosition_spec [OF assms] .

theorem FindLayerByPosition_topmost_witness:
  "\<exists>r. FindLayerByPosition example_windows (V 2 2) 9 example_lm = Some r"
  using FindLayerByPosition_topmost [OF example_lm_ok, of "V 2 2" 9] by blast

subsection \<open>Activating a window\<close>

text \<open>The window of layer \<open>k\<close> is opaque, shown by that layer only, and wide enough for its title.\<close>

definition decorated :: "Window list \<Rightarrow> LayerManager \<Rightarrow> nat \<Rightarrow> bool" where
  "decorated ws m k \<longleftrightarrow> (case layer_window (layers m ! k) of None \<Rightarrow> False
     | Some j \<Rightarrow> transparent_color (ws ! j) = None \<and>
         only_layer m k j \<and>
         (case win_title (ws ! j) of None \<Rightarrow> True
          | Some t \<Rightarrow> 24 + 8 * int (length t) \<le> win_width (ws ! j) \<and> 20 \<le> win_height (ws ! j) \<and> 21 \<le> win_width (ws ! j)))"

text \<open>\<open>w'\<close> is \<open>w\<close> with its title bar in the colour of the state; a plain window has no title bar.\<close>

definition retitles :: "bool \<Rightarrow> Window \<Rightarrow> Window \<Rightarrow> bool" where
  "retitles active w w' \<longleftrightarrow> win_shape w' = win_shape w \<and>
     (\<forall>q. win_inside w q \<longrightarrow> 20 \<le> vy q \<longrightarrow> win_get w' q = win_get w q) \<and>
     (win_title w \<noteq> None \<longrightarrow> (\<forall>q. in_title_bar (win_width w) q \<longrightarrow> win_get w' q = title_colour active))"

abbreviation "whole_area \<equiv> \<lparr>pos = V 0 0, size = V (-1) (-1)\<rparr>"

lemma retitled:
  assumes font: "length font = 4096" and ok: "lm_ok ws m" and k: "k < length (layers m)" and d: "decorated ws m k"
    and f: "f = Window_Activate font \<and> act \<or> f = Window_Deactivate font \<and> \<not> act"
  obtains j w' where "layer_window (layers m ! k) = Some j" "j < length ws" "f (ws ! j) = Some w'" "updates ws m k j whole_area w'"
    "win_shape w' = win_shape (ws ! j)" "retitles act (ws ! j) w'"
proof -
  obtain j where j: "layer_window (layers m ! k) = Some j" using d by (auto simp: decorated_def split: option.splits)
  have "layer_ok ws (lm_format m) (layers m ! k)" using ok k by (simp add: lm_ok_def)
  then have w: "j < length ws" "win_ok (ws ! j)" "pixel_format (fb_config (shadow_buffer (ws ! j))) = lm_format m"
    using j by (simp_all add: layer_ok_def)
  have "\<exists>w'. f (ws ! j) = Some w' \<and> win_ok w' \<and> win_shape w' = win_shape (ws ! j) \<and> retitles act (ws ! j) w'"
  proof (cases "win_title (ws ! j)")
    case None
    with f w show ?thesis by (auto simp: Window_Activate_def Window_Deactivate_def retitles_def)
  next
    case (Some t)
    then have "24 + 8 * int (length t) \<le> win_width (ws ! j)" "20 \<le> win_height (ws ! j)" "21 \<le> win_width (ws ! j)"
      using d j by (auto simp: decorated_def)
    from Window_title_redrawn [OF font w(2) this, of act] obtain w' where
      w': "DrawWindowTitle font Window_Write (win_width (ws ! j)) t act (ws ! j) = Some w'" "win_ok w'" "win_shape w' = win_shape (ws ! j)"
        "\<forall>q. win_inside (ws ! j) q \<longrightarrow> 20 \<le> vy q \<longrightarrow> win_get w' q = win_get (ws ! j) q"
        "\<forall>q. in_title_bar (win_width (ws ! j)) q \<longrightarrow> win_get w' q = title_colour act" by blast
    then have "retitles act (ws ! j) w'" by (simp add: retitles_def)
    then show ?thesis using w'(1-3) Some f by (auto simp: Window_Activate_def Window_Deactivate_def)
  qed
  then obtain w' where w': "f (ws ! j) = Some w'" "win_ok w'" "win_shape w' = win_shape (ws ! j)" "retitles act (ws ! j) w'" by blast
  moreover have "updates ws m k j whole_area w'"
    unfolding updates_def using k j w w' d by (auto simp: decorated_def win_shape_def)
  ultimately show ?thesis using that j w(1) by blast
qed

lemma on_window_retitled:
  assumes "lm_ok (windows g) (layer_manager g)" and "k < length (layers (layer_manager g))"
    and "layer_window (layers (layer_manager g) ! k) = Some j" "j < length (windows g)" and "f (windows g ! j) = Some w'"
  shows "on_window f (layer_id (layers (layer_manager g) ! k)) g = Some (g\<lparr>windows := (windows g)[j := w']\<rparr>)"
proof -
  have "FindLayer (layer_id (layers (layer_manager g) ! k)) (layer_manager g) = Some k"
    using assms(1,2) by (intro FindLayer_id) (simp add: lm_ok_def)
  then show ?thesis using assms by (simp add: on_window_def deref_def arr_get_def)
qed

lemma decorated_same: "layers m' = layers m \<Longrightarrow> decorated ws m' i = decorated ws m i"
  by (simp only: decorated_def only_layer_def)

lemma decorated_retitled:
  assumes "decorated ws m i" and "win_shape w' = win_shape (ws ! j)" "j < length ws"
  shows "decorated (ws[j := w']) m i"
  using assms by (auto simp: decorated_def win_shape_def nth_list_update Window_Size_def split: option.splits)

text \<open>Deactivating the window that loses the focus.\<close>

lemma deactivate_shows:
  assumes font: "length font = 4096" and inv: "shows_stack (windows g) (layer_manager g)"
    and st: "Some k \<in> set (layer_stack (layer_manager g))" and d: "decorated (windows g) (layer_manager g) k"
  shows "\<exists>g1 g'. on_window (Window_Deactivate font) (layer_id (layers (layer_manager g) ! k)) g = Some g1 \<and>
    draw_active (layer_id (layers (layer_manager g) ! k)) g1 = Some g' \<and> shows_stack (windows g') (layer_manager g') \<and>
    layers (layer_manager g') = layers (layer_manager g) \<and> layer_stack (layer_manager g') = layer_stack (layer_manager g) \<and>
    active_layer g' = active_layer g \<and> (\<forall>i. decorated (windows g) (layer_manager g) i \<longrightarrow> decorated (windows g') (layer_manager g') i) \<and>
    (\<exists>j w'. layer_window (layers (layer_manager g) ! k) = Some j \<and> j < length (windows g) \<and> windows g' = (windows g)[j := w'] \<and> retitles False (windows g ! j) w')"
proof -
  let ?m = "layer_manager g"
  have ok: "lm_ok (windows g) ?m" and k: "k < length (layers ?m)" using inv st by (auto simp: shows_stack_def lm_ok_def stack_ok_def)
  obtain j w' where w': "layer_window (layers ?m ! k) = Some j" "j < length (windows g)" "Window_Deactivate font (windows g ! j) = Some w'"
      "updates (windows g) ?m k j whole_area w'" "win_shape w' = win_shape (windows g ! j)" "retitles False (windows g ! j) w'"
    using retitled [OF font ok k d, where f = "Window_Deactivate font" and act = False] by blast
  obtain pre post where "layer_stack ?m = pre @ Some k # post" using st by (meson split_list)
  from redraw_updated [OF inv this w'(4)] obtain m' where m': "LayerManager_DrawLayer ((windows g)[j := w']) (layer_id (layers ?m ! k)) ?m = Some m'"
      "shows_stack ((windows g)[j := w']) m'" "layers m' = layers ?m" "layer_stack m' = layer_stack ?m"
    by (auto simp: LayerManager_DrawLayer_def)
  have "decorated ((windows g)[j := w']) m' i" if "decorated (windows g) ?m i" for i
    using decorated_retitled [OF that w'(5,2)] decorated_same [OF m'(3)] by simp
  moreover have "\<exists>j' w''. layer_window (layers ?m ! k) = Some j' \<and> j' < length (windows g) \<and> (windows g)[j := w'] = (windows g)[j' := w''] \<and> retitles False (windows g ! j') w''"
    using w'(1,2,6) by blast
  ultimately show ?thesis using on_window_retitled [where f = "Window_Deactivate font", OF ok k w'(1-3)] m' w'(2)
    by (simp add: draw_active_def)
qed

lemma stack_picture_without:
  assumes "ptr_picture ws m (Some k) q = None"
  shows "stacked (map (ptr_picture ws m) (pre @ Some k # post)) q = stacked (map (ptr_picture ws m) (pre @ post)) q"
  using assms by (simp add: stacked_append map_add_at split: option.split)

text \<open>Raising layer \<open>k\<close> from below to just under the topmost layer and redrawing it.\<close>

lemma raise_shows:
  assumes inv: "shows_stack ws m" and st: "layer_stack m = pre @ Some k # mid @ [Some t]" "pre \<noteq> []"
    and u: "updates ws m k j whole_area w'" and m': "m' = m\<lparr>layer_stack := pre @ mid @ [Some k, Some t]\<rparr>"
  shows "\<exists>m''. LayerManager_DrawLayer (ws[j := w']) (layer_id (layers m ! k)) m' = Some m'' \<and> shows_stack (ws[j := w']) m'' \<and>
    layers m'' = layers m \<and> layer_stack m'' = layer_stack m'"
proof -
  let ?ws = "ws[j := w']"
  have ok: "lm_ok ?ws m" and sok: "stack_ok m" using inv lm_ok_updated [OF _ u] by (auto simp: shows_stack_def lm_ok_def)
  have pics: "ptr_picture ?ws m' = ptr_picture ?ws m" by (simp add: ptr_picture_def [abs_def] m')
  have "\<exists>m''. LayerManager_DrawArea ?ws (layer_id (layers m' ! k)) whole_area m' = Some m'' \<and>
      shows_except (\<lambda>q. False \<and> \<not> in_rect q (damage ?ws (layers m' ! k) whole_area)) ?ws m'' \<and>
      layers m'' = layers m' \<and> layer_stack m'' = layer_stack m' \<and> (\<forall>q. on_screen m'' q = on_screen m' q)"
  proof (rule redraw_restores [where pre = "pre @ mid" and post = "[Some t]"])
    have "buffers_ok m' = buffers_ok m" by (simp add: m' buffers_ok_def split: option.split)
    then show "lm_ok ?ws m'" using ok st(1) by (auto simp: m' lm_ok_def ids_ok_def stack_ok_def lm_format_def)
    show "layer_stack m' = (pre @ mid) @ Some k # [Some t]" by (simp add: m')
    show "layer_window (layers m' ! k) \<noteq> None" "rect_ok whole_area \<or> vx (size whole_area) < 0 \<and> vy (size whole_area) < 0"
      using updatesD [OF u] by (simp_all add: m')
    have "\<forall>p \<in> set (pre @ Some k # mid). \<not> transparent ws (layers m ! the p)"
      using inv st(1) by (simp add: shows_stack_def top_transparent_def butlast_append)
    then show "top_transparent ?ws m' (layer_stack m')"
      by (auto simp: m' top_transparent_def butlast_append transparent_updated [OF u])
    fix q
    show "in_rect q (damage ?ws (layers m' ! k) whole_area) \<Longrightarrow> ptr_picture ?ws m' (Some k) q \<noteq> None"
      using damage_opaque [OF u, of q] by (simp add: m' pics [unfolded m'])
    assume q: "on_screen m' q"
    then have q': "on_screen m q" by (simp add: m' on_screen_def)
    show "ptr_picture ?ws m' (hd (layer_stack m')) q \<noteq> None"
      using updated_bottom [OF inv [unfolded shows_stack_except] u q'] st by (simp add: m' pics [unfolded m'])
    assume "\<not> in_rect q (damage ?ws (layers m' ! k) whole_area)"
    then have out: "\<not> in_rect q (damage ?ws (layers m ! k) whole_area)" by (simp add: m')
    have "stack_picture ?ws m q = stack_picture ws m q" unfolding stack_picture_def
      using updated_pictures [OF sok u] out by (intro stacked_cong) auto
    moreover have "ptr_picture ?ws m (Some k) q = None"
    proof (rule ptr_picture_outside)
      show "layer_window (layers m ! k) = Some j" using u by (rule updatesD)
      show "\<not> in_rect q \<lparr>pos = layer_pos (layers m ! k), size = Window_Size (?ws ! j)\<rparr>"
        using out updatesD [OF u] by (simp add: damage_def Let_def)
    qed
    then have "stack_picture ?ws m' q = stack_picture ?ws m q"
      unfolding stack_picture_def pics using stack_picture_without [of ?ws m k q "pre @ mid" "[Some t]"]
        stack_picture_without [of ?ws m k q pre "mid @ [Some t]"] st(1) by (simp add: m')
    ultimately have "stack_picture ?ws m' q = stack_picture ws m q" by simp
    then have "pixel_shown ?ws m' q = pixel_shown ws m q" by (rule pixel_shown_same) (simp_all add: m')
    then show "False \<or> pixel_shown ?ws m' q" using inv q' by (simp add: shows_stack_def)
  qed
  then show ?thesis by (auto simp: LayerManager_DrawLayer_def m' shows_stack_except)
qed

lemma UpDown_below_top:
  assumes "ids_ok m" "stack_ok m" and st: "layer_stack m = pre @ Some k # mid @ [Some t]"
  shows "\<exists>h. GetHeight (layer_id (layers m ! t)) m = Some h \<and>
    UpDown (layer_id (layers m ! k)) (h - 1) m = m\<lparr>layer_stack := pre @ mid @ [Some k, Some t]\<rparr>"
proof -
  have k: "k < length (layers m)" and d: "Some k \<notin> set pre" using assms(2) st by (auto simp: stack_ok_def)
  have "GetHeight (layer_id (layers m ! t)) m = Some (int (length (pre @ Some k # mid)))"
    using assms(1,2) by (rule GetHeight_at) (use st in simp)
  moreover have "FindLayer (layer_id (layers m ! k)) m = Some k" using assms(1) k by (rule FindLayer_id)
  moreover have "find_index (\<lambda>q. q = Some k) (layer_stack m) = length pre" unfolding st using d by (rule find_index_split)
  ultimately show ?thesis
    by (simp add: UpDown_def Let_def st insert_at_def erase_at_def nat_int_add)
qed

text \<open>Window \<open>n\<close> of the store is the one of layer \<open>i\<close>.\<close>

definition window_of_layer :: "LayerManager \<Rightarrow> u32 \<Rightarrow> nat \<Rightarrow> bool" where
  "window_of_layer m i n \<longleftrightarrow> (\<exists>l \<in> set (layers m). layer_id l = i \<and> layer_window l = Some n)"

lemma window_of_layer_at:
  assumes "ids_ok m" "k < length (layers m)"
  shows "window_of_layer m (layer_id (layers m ! k)) n \<longleftrightarrow> layer_window (layers m ! k) = Some n"
  using assms layer_id_inj [OF assms(1) _ assms(2)] unfolding window_of_layer_def by (metis in_set_conv_nth)

lemma window_of_layer_0: "ids_ok m \<Longrightarrow> \<not> window_of_layer m 0 n"
proof
  assume ids: "ids_ok m" and "window_of_layer m 0 n"
  then obtain k where k: "k < length (layers m)" "layer_id (layers m ! k) = 0" by (auto simp: window_of_layer_def in_set_conv_nth)
  then have "of_nat (Suc k) = (0 :: u32)" "Suc k < 2 ^ 32" using ids by (simp_all add: ids_ok_def)
  then show False by (simp add: word_of_nat_eq_0_iff nat_dvd_not_less del: of_nat_Suc)
qed

text \<open>Which windows \<open>Activate\<close> redraws, and how.\<close>

definition refocused :: "u32 \<Rightarrow> gui \<Rightarrow> gui \<Rightarrow> bool" where
  "refocused i g g' \<longleftrightarrow> length (windows g') = length (windows g) \<and>
     (\<forall>n. (window_of_layer (layer_manager g) i n \<longrightarrow> retitles True (windows g ! n) (windows g' ! n)) \<and>
          (window_of_layer (layer_manager g) (active_layer_id (active_layer g)) n \<longrightarrow> retitles False (windows g ! n) (windows g' ! n)) \<and>
          (\<not> window_of_layer (layer_manager g) i n \<and> \<not> window_of_layer (layer_manager g) (active_layer_id (active_layer g)) n \<longrightarrow>
             windows g' ! n = windows g ! n))"

lemma Activate_draws:
  assumes font: "length font = 4096" and inv: "shows_stack (windows g) (layer_manager g)"
    and st: "layer_stack (layer_manager g) = pre @ Some k # mid @ [Some t]" "pre \<noteq> []"
    and i: "i = layer_id (layers (layer_manager g) ! k)" "i > 0" "i \<noteq> active_layer_id (active_layer g)"
    and mouse: "mouse_layer_id (active_layer g) = layer_id (layers (layer_manager g) ! t)"
    and dk: "decorated (windows g) (layer_manager g) k"
    and old: "active_layer_id (active_layer g) = 0 \<or>
      (\<exists>a. Some a \<in> set (layer_stack (layer_manager g)) \<and> active_layer_id (active_layer g) = layer_id (layers (layer_manager g) ! a) \<and>
        decorated (windows g) (layer_manager g) a)"
  shows "\<exists>g'. Activate font i g = Some g' \<and> active_layer_id (active_layer g') = i \<and>
    layer_stack (layer_manager g') = pre @ mid @ [Some k, Some t] \<and> shows_stack (windows g') (layer_manager g') \<and>
    layers (layer_manager g') = layers (layer_manager g) \<and> mouse_layer_id (active_layer g') = mouse_layer_id (active_layer g) \<and>
    (\<forall>n. decorated (windows g) (layer_manager g) n \<longrightarrow> decorated (windows g') (layer_manager g') n) \<and> refocused i g g'"
proof -
  let ?a = "active_layer_id (active_layer g)" and ?ls = "layers (layer_manager g)"
  let ?of = "window_of_layer (layer_manager g)"
  have ids: "ids_ok (layer_manager g)" and kl: "k < length ?ls" and stk: "stack_ok (layer_manager g)"
    using inv st by (auto simp: shows_stack_def lm_ok_def stack_ok_def)
  have "\<exists>g1. (if ?a > 0 then do { g' \<leftarrow> on_window (Window_Deactivate font) ?a g; draw_active ?a g' } else Some g) = Some g1 \<and>
      shows_stack (windows g1) (layer_manager g1) \<and> layers (layer_manager g1) = ?ls \<and>
      layer_stack (layer_manager g1) = layer_stack (layer_manager g) \<and> active_layer g1 = active_layer g \<and>
      (\<forall>n. decorated (windows g) (layer_manager g) n \<longrightarrow> decorated (windows g1) (layer_manager g1) n) \<and>
      length (windows g1) = length (windows g) \<and> (\<forall>n. (?of ?a n \<longrightarrow> retitles False (windows g ! n) (windows g1 ! n)) \<and> (\<not> ?of ?a n \<longrightarrow> windows g1 ! n = windows g ! n))"
  proof (cases "?a > 0")
    case True
    then obtain a where a: "Some a \<in> set (layer_stack (layer_manager g))" "?a = layer_id (?ls ! a)" "decorated (windows g) (layer_manager g) a"
      using old by auto
    then have "?of ?a n \<longleftrightarrow> layer_window (?ls ! a) = Some n" for n
      using window_of_layer_at [OF ids, of a n] stk by (auto simp: stack_ok_def)
    with deactivate_shows [OF font inv a(1,3)] True show ?thesis unfolding a(2) by (auto simp: nth_list_update)
  next
    case False
    then have "?a = 0" by (simp add: word_gt_0)
    then show ?thesis using inv window_of_layer_0 [OF ids] by simp
  qed
  then obtain g1 where run1: "(if ?a > 0 then do { g' \<leftarrow> on_window (Window_Deactivate font) ?a g; draw_active ?a g' } else Some g) = Some g1"
      and g1: "shows_stack (windows g1) (layer_manager g1)" "layers (layer_manager g1) = ?ls"
        "layer_stack (layer_manager g1) = layer_stack (layer_manager g)" "active_layer g1 = active_layer g"
        "\<forall>n. decorated (windows g) (layer_manager g) n \<longrightarrow> decorated (windows g1) (layer_manager g1) n"
      and draw1: "length (windows g1) = length (windows g)"
        "\<And>n. ?of ?a n \<Longrightarrow> retitles False (windows g ! n) (windows g1 ! n)" "\<And>n. \<not> ?of ?a n \<Longrightarrow> windows g1 ! n = windows g ! n" by blast
  let ?m = "layer_manager g1" and ?g2 = "g1\<lparr>active_layer := (active_layer g1)\<lparr>active_layer_id := i\<rparr>\<rparr>"
  have ok: "lm_ok (windows g1) ?m" "ids_ok ?m" "stack_ok ?m" and k: "k < length (layers ?m)"
    using g1(1) st g1(3) by (auto simp: shows_stack_def lm_ok_def stack_ok_def)
  obtain j w' where w': "layer_window (layers ?m ! k) = Some j" "j < length (windows g1)" "Window_Activate font (windows g1 ! j) = Some w'"
      "updates (windows g1) ?m k j whole_area w'" "win_shape w' = win_shape (windows g1 ! j)" "retitles True (windows g1 ! j) w'"
    using retitled [OF font ok(1) k _, where f = "Window_Activate font" and act = True] g1(5) dk by blast
  have on: "on_window (Window_Activate font) i ?g2 = Some (?g2\<lparr>windows := (windows g1)[j := w']\<rparr>)"
    using on_window_retitled [of ?g2 k j] ok(1) k w'(1-3) i(1) g1(2) by simp
  have st1: "layer_stack ?m = pre @ Some k # mid @ [Some t]" using st g1(3) by simp
  obtain h where h: "GetHeight (layer_id (?ls ! t)) ?m = Some h" "UpDown i (h - 1) ?m = ?m\<lparr>layer_stack := pre @ mid @ [Some k, Some t]\<rparr>"
    using UpDown_below_top [OF ok(2,3) st1] g1(2) i(1) by auto
  obtain m'' where m'': "LayerManager_DrawLayer ((windows g1)[j := w']) i (UpDown i (h - 1) ?m) = Some m''"
      "shows_stack ((windows g1)[j := w']) m''" "layer_stack m'' = pre @ mid @ [Some k, Some t]" "layers m'' = layers ?m"
    using raise_shows [OF g1(1) st1 st(2) w'(4) h(2)] h(2) i(1) g1(2) by auto
  have "decorated ((windows g1)[j := w']) m'' n" if "decorated (windows g) (layer_manager g) n" for n
    using decorated_retitled [OF g1(5) [rule_format, OF that] w'(5,2)] decorated_same [OF m''(4)] by simp
  moreover have "?of i n \<longleftrightarrow> n = j" for n using window_of_layer_at [OF ids kl, of n] w'(1) g1(2) i(1) by auto
  moreover have "\<not> ?of ?a j"
  proof
    assume "?of ?a j"
    then obtain x where "x < length ?ls" "layer_id (?ls ! x) = ?a" "layer_window (?ls ! x) = Some j"
      by (auto simp: window_of_layer_def in_set_conv_nth)
    moreover have "only_layer ?m k j" using w'(4) by (simp add: updates_def)
    ultimately show False using g1(2) i by (auto simp: only_layer_def)
  qed
  moreover have "refocused i g (?g2\<lparr>windows := (windows g1)[j := w'], layer_manager := m''\<rparr>)"
    using calculation draw1 w'(2,6) by (auto simp: refocused_def nth_list_update)
  ultimately show ?thesis using run1 i g1(2,4) on h(1) mouse m''
    by (auto simp: Activate_def draw_active_def)
qed

lemma Activate_shows:
  assumes "length font = 4096" and "shows_stack (windows g) (layer_manager g)"
    and "layer_stack (layer_manager g) = pre @ Some k # mid @ [Some t]" "pre \<noteq> []"
    and "i = layer_id (layers (layer_manager g) ! k)" "i > 0" "i \<noteq> active_layer_id (active_layer g)"
    and "mouse_layer_id (active_layer g) = layer_id (layers (layer_manager g) ! t)"
    and "decorated (windows g) (layer_manager g) k"
    and "active_layer_id (active_layer g) = 0 \<or>
      (\<exists>a. Some a \<in> set (layer_stack (layer_manager g)) \<and> active_layer_id (active_layer g) = layer_id (layers (layer_manager g) ! a) \<and>
        decorated (windows g) (layer_manager g) a)"
  shows "\<exists>g'. Activate font i g = Some g' \<and> active_layer_id (active_layer g') = i \<and>
    layer_stack (layer_manager g') = pre @ mid @ [Some k, Some t] \<and> shows_stack (windows g') (layer_manager g') \<and>
    layers (layer_manager g') = layers (layer_manager g) \<and> mouse_layer_id (active_layer g') = mouse_layer_id (active_layer g) \<and>
    (\<forall>n. decorated (windows g) (layer_manager g) n \<longrightarrow> decorated (windows g') (layer_manager g') n)"
  using Activate_draws [OF assms] by blast

lemma Activate_none_shows:
  assumes font: "length font = 4096" and inv: "shows_stack (windows g) (layer_manager g)"
    and old: "active_layer_id (active_layer g) = 0 \<or>
      (\<exists>a. Some a \<in> set (layer_stack (layer_manager g)) \<and> active_layer_id (active_layer g) = layer_id (layers (layer_manager g) ! a) \<and>
        decorated (windows g) (layer_manager g) a)"
  shows "\<exists>g'. Activate font 0 g = Some g' \<and> active_layer_id (active_layer g') = 0 \<and>
    layer_stack (layer_manager g') = layer_stack (layer_manager g) \<and> shows_stack (windows g') (layer_manager g') \<and>
    layers (layer_manager g') = layers (layer_manager g) \<and> mouse_layer_id (active_layer g') = mouse_layer_id (active_layer g) \<and>
    (\<forall>n. decorated (windows g) (layer_manager g) n \<longrightarrow> decorated (windows g') (layer_manager g') n)"
proof (cases "active_layer_id (active_layer g) = 0")
  case True
  then show ?thesis using inv by (simp add: Activate_def)
next
  case False
  then obtain a where a: "Some a \<in> set (layer_stack (layer_manager g))"
      "active_layer_id (active_layer g) = layer_id (layers (layer_manager g) ! a)" "decorated (windows g) (layer_manager g) a"
    using old by blast
  have "0 < active_layer_id (active_layer g)" using False by (simp add: word_gt_0)
  moreover obtain g1 g' where g': "on_window (Window_Deactivate font) (active_layer_id (active_layer g)) g = Some g1"
      "draw_active (active_layer_id (active_layer g)) g1 = Some g'" "shows_stack (windows g') (layer_manager g')"
      "layers (layer_manager g') = layers (layer_manager g)" "layer_stack (layer_manager g') = layer_stack (layer_manager g)"
      "active_layer g' = active_layer g" "\<forall>n. decorated (windows g) (layer_manager g) n \<longrightarrow> decorated (windows g') (layer_manager g') n"
    using deactivate_shows [OF font inv a(1,3)] unfolding a(2) [symmetric] by blast
  ultimately have "Activate font 0 g = Some (g'\<lparr>active_layer := (active_layer g')\<lparr>active_layer_id := 0\<rparr>\<rparr>)"
    by (simp add: Activate_def)
  then show ?thesis using g'(3-) by simp
qed

text \<open>C29: activating a displayed window while the mouse cursor is the topmost layer: in the window that was
  active, if there is one, the title bar gets the colour of an inactive window, in the new one that of the
  active window, nothing below the title bars and no other window changes; the new one is raised to just
  below the cursor, the other layers keep their order, and the screen shows the result.\<close>

theorem Activate_raises_window:
  assumes font: "length font = 4096" and inv: "shows_stack (windows g) (layer_manager g)"
    and st: "layer_stack (layer_manager g) = pre @ Some k # mid @ [Some t]" "pre \<noteq> []"
    and i: "i = layer_id (layers (layer_manager g) ! k)" "i > 0" "i \<noteq> active_layer_id (active_layer g)"
    and mouse: "mouse_layer_id (active_layer g) = layer_id (layers (layer_manager g) ! t)"
    and dk: "decorated (windows g) (layer_manager g) k"
    and old: "active_layer_id (active_layer g) = 0 \<or>
      (\<exists>a. Some a \<in> set (layer_stack (layer_manager g)) \<and> active_layer_id (active_layer g) = layer_id (layers (layer_manager g) ! a) \<and>
        decorated (windows g) (layer_manager g) a)"
  shows "\<exists>g'. Activate font i g = Some g' \<and> active_layer_id (active_layer g') = i \<and>
    layer_stack (layer_manager g') = pre @ mid @ [Some k, Some t] \<and> shows_stack (windows g') (layer_manager g') \<and>
    refocused i g g'"
  using Activate_draws [OF assms] by blast

definition blank_font :: "u8 list" where "blank_font = replicate 4096 0"

lemma length_blank_font: "length blank_font = 4096"
  unfolding blank_font_def by (rule length_replicate)

text \<open>Two top-level windows under the cursor; the upper one is active.\<close>

definition titled_window :: "string \<Rightarrow> Window" where
  "titled_window t = (Window_new 48 20 kPixelRGBResv8BitPerColor)\<lparr>win_title := Some t\<rparr>"

definition focus_gui :: gui where
  "focus_gui = \<lparr>windows = [Window_new 4 4 kPixelRGBResv8BitPerColor, titled_window ''A'', titled_window ''B'', Window_new 1 1 kPixelRGBResv8BitPerColor],
     layer_manager = \<lparr>lm_screen = Some (example_fb 4 4 0), back_buffer = example_fb 4 4 0,
       layers = [\<lparr>layer_id = 1, layer_pos = V 0 0, layer_window = Some 0, draggable = False\<rparr>,
         \<lparr>layer_id = 2, layer_pos = V 1 1, layer_window = Some 1, draggable = True\<rparr>,
         \<lparr>layer_id = 3, layer_pos = V 2 2, layer_window = Some 2, draggable = True\<rparr>,
         \<lparr>layer_id = 4, layer_pos = V 3 3, layer_window = Some 3, draggable = False\<rparr>],
       layer_stack = [Some 0, Some 1, Some 2, Some 3], latest_layer_id = 4\<rparr>,
     active_layer = \<lparr>active_layer_id = 3, mouse_layer_id = 4\<rparr>, layer_task_map = Map.empty\<rparr>"

lemma titled_window_ok:
  "win_ok (titled_window t)" "Window_Size (titled_window t) = V 48 20" "win_width (titled_window t) = 48" "win_height (titled_window t) = 20"
  "transparent_color (titled_window t) = None" "win_title (titled_window t) = Some t"
  "pixel_format (fb_config (shadow_buffer (titled_window t))) = kPixelRGBResv8BitPerColor"
  using Window_new_ok [of 48 20 kPixelRGBResv8BitPerColor]
  by (simp_all add: titled_window_def win_ok_def Window_Size_def Window_new_def FrameBuffer_Initialize_def BytesPerPixel_def Let_def)

lemma titled_window_picture: "win_picture (titled_window t) p q \<in> {None, Some black}"
proof -
  have "win_picture (titled_window t) p q = win_picture (Window_new 48 20 kPixelRGBResv8BitPerColor) p q"
    by (simp add: titled_window_def win_picture_def win_get_def Window_Size_def Window_At_def split: option.split)
  moreover have "Window_Size (Window_new 48 20 kPixelRGBResv8BitPerColor) = V 48 20"
    using Window_new_ok [of 48 20 kPixelRGBResv8BitPerColor] by simp
  ultimately show ?thesis using Window_new_picture [of 48 20 q p] by (auto simp: win_picture_def)
qed

lemma focus_shows: "shows_stack (windows focus_gui) (layer_manager focus_gui)"
proof -
  let ?ws = "windows focus_gui" and ?m = "layer_manager focus_gui"
  have small: "win_ok (Window_new 4 4 kPixelRGBResv8BitPerColor)" "win_ok (Window_new (Suc 0) (Suc 0) kPixelRGBResv8BitPerColor)"
    "Window_Size (Window_new (Suc 0) (Suc 0) kPixelRGBResv8BitPerColor) = V 1 1"
    using Window_new_ok [of 4 4 kPixelRGBResv8BitPerColor] Window_new_ok [of 1 1 kPixelRGBResv8BitPerColor] by simp_all
  have fmt: "pixel_format (fb_config (shadow_buffer (Window_new n k kPixelRGBResv8BitPerColor))) = kPixelRGBResv8BitPerColor"
    "transparent_color (Window_new n k kPixelRGBResv8BitPerColor) = None" for n k
    by (simp_all add: Window_new_def FrameBuffer_Initialize_def BytesPerPixel_def Let_def)
  have "ids_ok ?m" by (auto simp: ids_ok_def focus_gui_def nth_Cons' less_Suc_eq)
  then have ok: "lm_ok ?ws ?m" using small fmt titled_window_ok
    by (auto simp: lm_ok_def stack_ok_def buffers_ok_def layer_ok_def lm_format_def focus_gui_def fb_ok_def example_fb_def)
  have "pixel_shown ?ws ?m q \<and> ptr_picture ?ws ?m (Some 0) q \<noteq> None" if "on_screen ?m q" for q
  proof -
    have q: "in_rect q \<lparr>pos = V 0 0, size = V 4 4\<rparr>" "fb_inside (example_fb 4 4 0) q"
      using that by (simp_all add: on_screen_def focus_gui_def fb_inside_def example_fb_def FrameBufferSize_def)
    have bottom: "ptr_picture ?ws ?m (Some 0) q = Some black"
      using Window_new_picture [of 4 4 q "V 0 0"] q by (simp add: ptr_picture_def layer_picture_def focus_gui_def)
    have upper: "ptr_picture ?ws ?m (Some (Suc 0)) q \<in> {None, Some black}" "ptr_picture ?ws ?m (Some 2) q \<in> {None, Some black}"
        "ptr_picture ?ws ?m (Some 3) q \<in> {None, Some black}"
      using Window_new_picture [of 1 1 q "V 3 3"] small(3) titled_window_picture [of "''A''" "V 1 1" q] titled_window_picture [of "''B''" "V 2 2" q]
      by (auto simp: ptr_picture_def layer_picture_def focus_gui_def win_picture_def)
    have "fb_ok (example_fb 4 4 0)" by (simp add: fb_ok_def example_fb_def)
    from px_index_less [OF this q(2)] have "px (example_fb 4 4 0) q k = 0" if "k < 4" for k
      using that by (simp add: px_def example_fb_def)
    then have "fb_get (example_fb 4 4 0) q = black" unfolding fb_get_def black_def by (simp add: example_fb_def)
    then show ?thesis using bottom upper
      by (auto simp: pixel_shown_def stack_picture_def screen_pixel_def map_add_at focus_gui_def)
  qed
  then show ?thesis using ok fmt(2) titled_window_ok(5)
    by (auto simp: shows_stack_def top_transparent_def transparent_def focus_gui_def)
qed

theorem Activate_raises_window_witness:
  "\<exists>g'. Activate blank_font 2 focus_gui = Some g' \<and> layer_stack (layer_manager g') = [Some 0, Some 2, Some 1, Some 3] \<and>
     win_get (windows g' ! 1) (V 3 3) = ToColor 0xad9787 \<and> win_get (windows g' ! 2) (V 3 3) = ToColor 0xc2ad9f"
proof -
  let ?m = "layer_manager focus_gui"
  have "only_layer ?m 1 1" "only_layer ?m 2 2" by (auto simp: only_layer_def focus_gui_def less_Suc_eq)
  then have d: "decorated (windows focus_gui) ?m 1" "decorated (windows focus_gui) ?m 2"
    using titled_window_ok by (simp_all add: decorated_def focus_gui_def)
  have f: "layer_stack ?m = [Some 0] @ Some 1 # [Some 2] @ [Some 3]" "2 = layer_id (layers ?m ! 1)"
    "2 \<noteq> active_layer_id (active_layer focus_gui)" "mouse_layer_id (active_layer focus_gui) = layer_id (layers ?m ! 3)"
    "active_layer_id (active_layer focus_gui) = layer_id (layers ?m ! 2)" "Some 2 \<in> set (layer_stack ?m)" "[Some 0] \<noteq> []" "(0 :: u32) < 2"
    by (simp_all add: focus_gui_def)
  have "\<exists>g'. Activate blank_font 2 focus_gui = Some g' \<and> active_layer_id (active_layer g') = 2 \<and>
      layer_stack (layer_manager g') = [Some 0] @ [Some 2] @ [Some 1, Some 3] \<and> shows_stack (windows g') (layer_manager g') \<and>
      refocused 2 focus_gui g'"
    by (rule Activate_raises_window [OF length_blank_font focus_shows f(1) _ f(2) _ f(3) f(4) d(1) disjI2])
      (use f(5-8) d(2) in \<open>auto intro: exI [of _ 2]\<close>)
  moreover have "window_of_layer ?m 2 1" "window_of_layer ?m (active_layer_id (active_layer focus_gui)) 2"
    by (simp_all add: window_of_layer_def focus_gui_def)
  moreover have "windows focus_gui ! 1 = titled_window ''A''" "windows focus_gui ! 2 = titled_window ''B''" by (simp_all add: focus_gui_def)
  moreover have "in_title_bar 48 (V 3 3)" by (simp add: in_title_bar_def)
  ultimately show ?thesis using titled_window_ok(3,6)
    unfolding refocused_def retitles_def title_colour_def by fastforce
qed

lemma LayerManager_Draw_frame:
  assumes "LayerManager_Draw ws area m = Some m'"
  shows "layers m' = layers m" "layer_stack m' = layer_stack m" "latest_layer_id m' = latest_layer_id m"
  using assms by (auto simp: LayerManager_Draw_def copy_to_screen_def split: Option.bind_splits)

lemma draw_id_hidden:
  assumes "\<And>p. p \<in> set ps \<Longrightarrow> deref m p = Some (layers m ! the p) \<and> layer_id (layers m ! the p) \<noteq> i"
  shows "foldM (draw_id_step ws m i) ps (area, None, bb) = Some (area, None, bb)"
  using assms by (intro foldM_id) (auto simp: draw_id_step_def)

text \<open>\<open>Draw(id)\<close> and \<open>Move(id, pos)\<close> of a layer that is not displayed use the uninitialised
  \<open>window_area\<close>: the search loop never meets the layer. (\<open>TaskTerminal\<close> moves the terminal's layer
  before it is displayed.)\<close>

theorem Draw_hidden_layer:
  assumes "lm_ok ws m" and "k < length (layers m)" and "Some k \<notin> set (layer_stack m)"
  shows "LayerManager_DrawLayer ws (layer_id (layers m ! k)) m = None \<and> LayerManager_Move ws (layer_id (layers m ! k)) p m = None"
proof -
  have ids: "ids_ok m" "stack_ok m" using assms(1) by (simp_all add: lm_ok_def)
  have hidden: "LayerManager_DrawLayer ws (layer_id (layers m' ! k)) m' = None"
    if m': "ids_ok m'" "stack_ok m'" "k < length (layers m')" "Some k \<notin> set (layer_stack m')" for m'
  proof -
    have "deref m' p = Some (layers m' ! the p) \<and> layer_id (layers m' ! the p) \<noteq> layer_id (layers m' ! k)"
      if "p \<in> set (layer_stack m')" for p
      using stack_okD [OF m'(2) that] layer_id_inj [OF m'(1) _ m'(3)] that m'(4) by auto
    from draw_id_hidden [OF this] show ?thesis by (simp add: LayerManager_DrawLayer_def LayerManager_DrawArea_def)
  qed
  have "LayerManager_Move ws (layer_id (layers m ! k)) p m = None"
  proof -
    let ?m1 = "m\<lparr>layers := (layers m)[k := Layer_Move p (layers m ! k)]\<rparr>"
    have "LayerManager_DrawLayer ws (layer_id (layers m ! k)) m2 = None" if "LayerManager_Draw ws a ?m1 = Some m2" for a m2
    proof -
      note same = LayerManager_Draw_frame [OF that]
      have "ids_ok m2" "stack_ok m2" "layer_id (layers m2 ! k) = layer_id (layers m ! k)"
        using ids assms(2) same by (auto simp: ids_ok_def stack_ok_def Layer_Move_def nth_list_update)
      then show ?thesis using hidden [of m2] assms(2,3) same by simp
    qed
    moreover have "FindLayer (layer_id (layers m ! k)) m = Some k" using ids(1) assms(2) by (rule FindLayer_id)
    ultimately show ?thesis using assms(2)
      by (auto simp: LayerManager_Move_def move_layer_def deref_def arr_get_def Let_def split: Option.bind_split)
  qed
  with hidden [OF ids assms(2,3)] show ?thesis by blast
qed

theorem Draw_hidden_layer_witness: "LayerManager_DrawLayer example_windows 2 (Hide 2 example_lm) = None"
proof -
  have "Hide 2 example_lm = example_lm\<lparr>layer_stack := [Some 0, Some 2]\<rparr>"
    by (simp add: Hide_def FindLayer_def find_index_def erase_at_def example_lm_def)
  moreover have "lm_ok example_windows (example_lm\<lparr>layer_stack := [Some 0, Some 2]\<rparr>)"
    using example_lm_ok by (auto simp: lm_ok_def ids_ok_def stack_ok_def buffers_ok_def lm_format_def example_lm_def)
  ultimately show ?thesis
    using Draw_hidden_layer [of example_windows "Hide 2 example_lm" 1] by (simp add: example_lm_def)
qed

end
