(* ===== verification/Mouse.thy ===== *)
theory Mouse
  imports Layer_Manager
begin

text \<open>
  \<open>src/kernel/mouse.hpp\<close> and \<open>mouse.cpp\<close>: the mouse cursor, its movement on the screen and the dragging of
  windows. The displacements of a report are \<open>int8_t\<close> values; \<open>screen_size\<close> is the result of \<open>ScreenSize()\<close>.
\<close>

subsection \<open>The cursor\<close>

definition kMouseCursorWidth :: nat where "kMouseCursorWidth = 36"
definition kMouseCursorHeight :: nat where "kMouseCursorHeight = 10"
definition kMouseTransparentColor :: PixelColor where "kMouseTransparentColor = \<lparr>red = 0, green = 0, blue = 1\<rparr>"

definition mouse_cursor_shape :: "string list" where
  "mouse_cursor_shape =
     [''    @.                       @      '',
      ''  @.     @            @       @   @.'',
      '' @.     @.@          @.@       @  @.'',
      ''@.....   @            @        @  @.'',
      ''@@@@@@                         @  @.'',
      ''@.....        @.    @.         @  @.'',
      ''@@@@@@       @.  @. @.         @ @. '',
      '' @.          @. @.@.@.        @ @.  '',
      ''  @.         @@.  @@.        @@.    '',
      ''    @.                      @       '']"

definition cursor_color :: "char \<Rightarrow> PixelColor" where
  "cursor_color ch = (if ch = CHR ''@'' then \<lparr>red = 142, green = 127, blue = 127\<rparr>
     else if ch = CHR ''.'' then \<lparr>red = 255, green = 255, blue = 255\<rparr> else kMouseTransparentColor)"

definition DrawMouseCursor :: "'s writer \<Rightarrow> Vector2D \<Rightarrow> 's \<Rightarrow> 's option" where
  "DrawMouseCursor put position s =
     foldM (\<lambda>dy. foldM (\<lambda>dx s. do {
         row \<leftarrow> arr_get mouse_cursor_shape dy;
         ch \<leftarrow> arr_get row dx;
         put (vec_add position (V (int dx) (int dy))) (cursor_color ch) s
       }) [0..<kMouseCursorWidth]) [0..<kMouseCursorHeight] s"

subsection \<open>The mouse\<close>

record Mouse =
  mouse_id :: u32
  position :: Vector2D
  drag_layer_id :: u32
  previous_buttons :: u8

definition Mouse_new :: "u32 \<Rightarrow> Mouse" where
  "Mouse_new i = \<lparr>mouse_id = i, position = V 0 0, drag_layer_id = 0, previous_buttons = 0\<rparr>"

definition SetPosition :: "Vector2D \<Rightarrow> Mouse \<Rightarrow> gui \<Rightarrow> (Mouse \<times> gui) option" where
  "SetPosition p ms g = do {
     let ms = ms\<lparr>position := p\<rparr>;
     m \<leftarrow> LayerManager_Move (windows g) (mouse_id ms) (position ms) (layer_manager g);
     Some (ms, g\<lparr>layer_manager := m\<rparr>)
   }"

definition new_position :: "Vector2D \<Rightarrow> Vector2D \<Rightarrow> int \<Rightarrow> int \<Rightarrow> Vector2D" where
  "new_position screen_size p dx dy =
     ElementMax (ElementMin (vec_add p (V dx dy)) (vec_add screen_size (V (-1) (-1)))) (V 0 0)"

text \<open>The branch taken when the left button goes down.\<close>

definition left_press :: "u8 list \<Rightarrow> Mouse \<Rightarrow> gui \<Rightarrow> (Mouse \<times> gui) option" where
  "left_press font ms g = do {
     layer \<leftarrow> FindLayerByPosition (windows g) (position ms) (mouse_id ms) (layer_manager g);
     l \<leftarrow> (case layer of None \<Rightarrow> Some None | Some k \<Rightarrow> map_option Some (arr_get (layers (layer_manager g)) k));
     (case l of
        Some l \<Rightarrow> if draggable l then do {
            g \<leftarrow> Activate font (layer_id l) g;
            Some (ms\<lparr>drag_layer_id := layer_id l\<rparr>, g)
          } else do { g \<leftarrow> Activate font 0 g; Some (ms, g) }
      | None \<Rightarrow> do { g \<leftarrow> Activate font 0 g; Some (ms, g) })
   }"

definition OnInterrupt :: "u8 list \<Rightarrow> Vector2D \<Rightarrow> u8 \<Rightarrow> int \<Rightarrow> int \<Rightarrow> Mouse \<times> gui \<Rightarrow> (Mouse \<times> gui) option" where
  "OnInterrupt font screen_size buttons displacement_x displacement_y = (\<lambda>(ms, g). do {
     let oldpos = position ms;
     let ms = ms\<lparr>position := new_position screen_size (position ms) displacement_x displacement_y\<rparr>;
     let posdiff = vec_sub (position ms) oldpos;
     m \<leftarrow> LayerManager_Move (windows g) (mouse_id ms) (position ms) (layer_manager g);
     let g = g\<lparr>layer_manager := m\<rparr>;
     let previous_left_pressed = previous_buttons ms AND 0x01 \<noteq> 0;
     let left_pressed = buttons AND 0x01 \<noteq> 0;
     (ms, g) \<leftarrow>
       (if \<not> previous_left_pressed \<and> left_pressed then left_press font ms g
        else if previous_left_pressed \<and> left_pressed then
          (if drag_layer_id ms > 0 then do {
             m \<leftarrow> LayerManager_MoveRelative (windows g) (drag_layer_id ms) posdiff (layer_manager g);
             Some (ms, g\<lparr>layer_manager := m\<rparr>)
           } else Some (ms, g))
        else if previous_left_pressed \<and> \<not> left_pressed then Some (ms\<lparr>drag_layer_id := 0\<rparr>, g)
        else Some (ms, g));
     Some (ms\<lparr>previous_buttons := buttons\<rparr>, g)
   })"

definition InitializeMouse :: "PixelFormat \<Rightarrow> gui \<Rightarrow> (Mouse \<times> gui) option" where
  "InitializeMouse fmt g = do {
     let mouse_window = SetTransparentColor (Some kMouseTransparentColor) (Window_new kMouseCursorWidth kMouseCursorHeight fmt);
     mouse_window \<leftarrow> DrawMouseCursor Window_Write (V 0 0) mouse_window;
     let w = length (windows g);
     let (k, m) = NewLayer (layer_manager g);
     let m = m\<lparr>layers := (layers m)[k := SetWindow w (layers m ! k)]\<rparr>;
     let mouse_layer_id = layer_id (layers m ! k);
     let g = g\<lparr>windows := windows g @ [mouse_window], layer_manager := m\<rparr>;
     (ms, g) \<leftarrow> SetPosition (V 200 200) (Mouse_new mouse_layer_id) g;
     let g = g\<lparr>layer_manager := UpDown (mouse_id ms) (2 ^ 31 - 1) (layer_manager g)\<rparr>;
     Some (ms, SetMouseLayer mouse_layer_id g)
   }"

subsection \<open>The desktop\<close>

text \<open>A displayed layer that can be dragged. The desktop is consistent when the screen shows the stack, the
  cursor is the topmost layer, every layer that can be dragged lies above the bottom one and is a
  well-formed top-level window, and the active and the dragged layer are such layers or none.\<close>

definition movable :: "gui \<Rightarrow> nat \<Rightarrow> bool" where
  "movable g k \<longleftrightarrow> Some k \<in> set (layer_stack (layer_manager g)) \<and> draggable (layers (layer_manager g) ! k)"

definition none_or_movable :: "gui \<Rightarrow> u32 \<Rightarrow> bool" where
  "none_or_movable g i \<longleftrightarrow> i = 0 \<or> (\<exists>k. movable g k \<and> i = layer_id (layers (layer_manager g) ! k))"

definition cursor_on_top :: "u32 \<Rightarrow> gui \<Rightarrow> nat \<Rightarrow> bool" where
  "cursor_on_top i g t \<longleftrightarrow> (\<exists>st. layer_stack (layer_manager g) = st @ [Some t] \<and> st \<noteq> []) \<and>
     layer_id (layers (layer_manager g) ! t) = i \<and> layer_window (layers (layer_manager g) ! t) \<noteq> None \<and>
     \<not> draggable (layers (layer_manager g) ! t)"

definition windows_ok :: "gui \<Rightarrow> bool" where
  "windows_ok g \<longleftrightarrow> (\<forall>k. movable g k \<longrightarrow> Some k \<noteq> hd (layer_stack (layer_manager g)) \<and> decorated (windows g) (layer_manager g) k)"

definition desktop_ok :: "Vector2D \<Rightarrow> Mouse \<Rightarrow> gui \<Rightarrow> bool" where
  "desktop_ok screen_size ms g \<longleftrightarrow> shows_stack (windows g) (layer_manager g) \<and>
     (\<exists>t. cursor_on_top (mouse_id ms) g t) \<and> mouse_layer_id (active_layer g) = mouse_id ms \<and> windows_ok g \<and>
     none_or_movable g (active_layer_id (active_layer g)) \<and> none_or_movable g (drag_layer_id ms) \<and>
     in_rect (position ms) \<lparr>pos = V 0 0, size = screen_size\<rparr>"

text \<open>Changes that concern only the positions of layers.\<close>

definition same_layers :: "LayerManager \<Rightarrow> LayerManager \<Rightarrow> bool" where
  "same_layers m m' \<longleftrightarrow> length (layers m') = length (layers m) \<and> layer_stack m' = layer_stack m \<and>
     (\<forall>k. layer_id (layers m' ! k) = layer_id (layers m ! k) \<and> layer_window (layers m' ! k) = layer_window (layers m ! k) \<and>
       draggable (layers m' ! k) = draggable (layers m ! k))"

lemma same_layers_update:
  assumes "layers m' = (layers m)[k := f (layers m ! k)]" "layer_stack m' = layer_stack m"
    and "\<And>l. layer_id (f l) = layer_id l \<and> layer_window (f l) = layer_window l \<and> draggable (f l) = draggable l"
  shows "same_layers m m'"
proof -
  have "layers m' ! i = (if i = k \<and> k < length (layers m) then f (layers m ! i) else layers m ! i)" for i
    unfolding assms(1) by (cases "k < length (layers m)") (auto simp: list_update_beyond)
  then show ?thesis unfolding same_layers_def assms(2) using assms(1,3) by simp
qed

lemma desktop_moved:
  assumes "desktop_ok scr ms g" and "same_layers (layer_manager g) m" and "shows_stack (windows g) m"
  shows "desktop_ok scr ms (g\<lparr>layer_manager := m\<rparr>)"
proof -
  have mv: "movable (g\<lparr>layer_manager := m\<rparr>) k = movable g k" for k
    using assms(2) by (simp add: movable_def same_layers_def)
  have "only_layer m k j = only_layer (layer_manager g) k j" for k j
    using assms(2) by (simp add: only_layer_def same_layers_def)
  then have "decorated (windows g) m k = decorated (windows g) (layer_manager g) k" for k
    using assms(2) by (simp add: decorated_def same_layers_def cong: option.case_cong)
  then show ?thesis using assms
    by (simp add: desktop_ok_def windows_ok_def none_or_movable_def cursor_on_top_def mv same_layers_def)
qed

lemma layer_id_pos:
  assumes "ids_ok m" and "k < length (layers m)"
  shows "layer_id (layers m ! k) > 0"
proof -
  have "layer_id (layers m ! k) = of_nat (Suc k)" "Suc k < 2 ^ 32" using assms by (auto simp: ids_ok_def)
  moreover have "(of_nat (Suc k) :: u32) \<noteq> 0"
    using calculation(2) by (simp add: word_of_nat_eq_0_iff dvd_imp_le [THEN leD] nat_dvd_not_less del: of_nat_Suc)
  ultimately show ?thesis by (simp add: word_gt_0)
qed

lemma cursor_moves:
  assumes ok: "desktop_ok scr ms g" and p: "in_rect p \<lparr>pos = V 0 0, size = scr\<rparr>"
  shows "\<exists>m. LayerManager_Move (windows g) (mouse_id ms) p (layer_manager g) = Some m \<and> same_layers (layer_manager g) m \<and>
    desktop_ok scr (ms\<lparr>position := p\<rparr>) (g\<lparr>layer_manager := m\<rparr>) \<and>
    (\<forall>k. movable g k \<longrightarrow> layers m ! k = layers (layer_manager g) ! k)"
proof -
  let ?m = "layer_manager g"
  obtain t st j where t: "layer_stack ?m = st @ [Some t]" "st \<noteq> []" "layer_id (layers ?m ! t) = mouse_id ms"
      "layer_window (layers ?m ! t) = Some j" "\<not> draggable (layers ?m ! t)"
    using ok by (auto simp: desktop_ok_def cursor_on_top_def)
  have inv: "shows_stack (windows g) ?m" using ok by (simp add: desktop_ok_def)
  have st: "layer_stack ?m = st @ Some t # []" using t(1) by simp
  obtain m where m: "LayerManager_Move (windows g) (mouse_id ms) p ?m = Some m" "shows_stack (windows g) m"
      "layers m = (layers ?m)[t := Layer_Move p (layers ?m ! t)]" "layer_stack m = layer_stack ?m"
    using move_layer_shows [OF inv st t(2,4), of "Layer_Move p"] t(3) by (auto simp: LayerManager_Move_def Layer_Move_def)
  have same: "same_layers ?m m" using m(3,4) by (rule same_layers_update) (simp add: Layer_Move_def)
  have "desktop_ok scr ms (g\<lparr>layer_manager := m\<rparr>)" using ok same m(2) by (rule desktop_moved)
  then have "desktop_ok scr (ms\<lparr>position := p\<rparr>) (g\<lparr>layer_manager := m\<rparr>)" using p by (simp add: desktop_ok_def)
  moreover have "layers m ! k = layers ?m ! k" if "movable g k" for k
    using that t(5) m(3) by (cases "k = t") (auto simp: movable_def)
  ultimately show ?thesis using m(1) same by blast
qed

lemma movable_split:
  assumes ok: "desktop_ok scr ms g" and k: "movable g k"
  obtains pre mid t where "layer_stack (layer_manager g) = pre @ Some k # mid @ [Some t]" "pre \<noteq> []"
    "layer_id (layers (layer_manager g) ! t) = mouse_id ms" "cursor_on_top (mouse_id ms) g t"
    "decorated (windows g) (layer_manager g) k"
proof -
  let ?m = "layer_manager g"
  obtain t st where t: "layer_stack ?m = st @ [Some t]" "st \<noteq> []" "layer_id (layers ?m ! t) = mouse_id ms"
      "\<not> draggable (layers ?m ! t)" "cursor_on_top (mouse_id ms) g t"
    using ok by (auto simp: desktop_ok_def cursor_on_top_def)
  have "Some k \<in> set st" using k t(1,4) by (auto simp: movable_def)
  then obtain pre mid where st: "st = pre @ Some k # mid" by (meson split_list)
  have "Some k \<noteq> hd (layer_stack ?m)" and d: "decorated (windows g) ?m k" using ok k by (auto simp: desktop_ok_def windows_ok_def)
  then have "pre \<noteq> []" using t(1) st by auto
  with that t st d show ?thesis by auto
qed

lemma window_dragged:
  assumes ok: "desktop_ok scr ms g" and drag: "drag_layer_id ms = layer_id (layers (layer_manager g) ! k)" and k: "movable g k"
  shows "\<exists>m. LayerManager_MoveRelative (windows g) (drag_layer_id ms) d (layer_manager g) = Some m \<and>
    desktop_ok scr ms (g\<lparr>layer_manager := m\<rparr>) \<and>
    layer_pos (layers m ! k) = vec_add (layer_pos (layers (layer_manager g) ! k)) d"
proof -
  let ?m = "layer_manager g"
  obtain pre mid t where st: "layer_stack ?m = pre @ Some k # mid @ [Some t]" "pre \<noteq> []" "decorated (windows g) ?m k"
    using movable_split [OF ok k] by blast
  obtain j where j: "layer_window (layers ?m ! k) = Some j" using st(3) by (auto simp: decorated_def split: option.splits)
  have inv: "shows_stack (windows g) ?m" using ok by (simp add: desktop_ok_def)
  obtain m where m: "LayerManager_MoveRelative (windows g) (drag_layer_id ms) d ?m = Some m" "shows_stack (windows g) m"
      "layers m = (layers ?m)[k := Layer_MoveRelative d (layers ?m ! k)]" "layer_stack m = layer_stack ?m"
    using move_layer_shows [OF inv st(1,2) j, of "Layer_MoveRelative d"] drag
    by (auto simp: LayerManager_MoveRelative_def Layer_MoveRelative_def)
  have "k < length (layers ?m)" using inv k by (auto simp: movable_def shows_stack_def lm_ok_def stack_ok_def)
  moreover have "same_layers ?m m" using m(3,4) by (rule same_layers_update) (simp add: Layer_MoveRelative_def)
  ultimately show ?thesis using m desktop_moved [OF ok] by (simp add: Layer_MoveRelative_def)
qed

text \<open>Activation leaves the layers alone and may only reorder them.\<close>

lemma desktop_activated:
  assumes ok: "desktop_ok scr ms g" and inv: "shows_stack (windows g') (layer_manager g')"
    and l: "layers (layer_manager g') = layers (layer_manager g)" "set (layer_stack (layer_manager g')) = set (layer_stack (layer_manager g))"
      "hd (layer_stack (layer_manager g')) = hd (layer_stack (layer_manager g))"
    and c: "cursor_on_top (mouse_id ms) g' t"
    and a: "mouse_layer_id (active_layer g') = mouse_layer_id (active_layer g)" "none_or_movable g (active_layer_id (active_layer g'))"
    and d: "\<forall>n. decorated (windows g) (layer_manager g) n \<longrightarrow> decorated (windows g') (layer_manager g') n"
  shows "desktop_ok scr ms g'"
proof -
  have mv: "movable g' n = movable g n" for n using l by (simp add: movable_def)
  have nm: "none_or_movable g' i = none_or_movable g i" for i using l by (simp add: none_or_movable_def mv)
  have "windows_ok g'" using ok d l(3) by (simp add: desktop_ok_def windows_ok_def mv)
  then show ?thesis using ok inv c a by (auto simp: desktop_ok_def nm)
qed

lemma old_active:
  assumes "desktop_ok scr ms g"
  shows "active_layer_id (active_layer g) = 0 \<or>
    (\<exists>a. Some a \<in> set (layer_stack (layer_manager g)) \<and> active_layer_id (active_layer g) = layer_id (layers (layer_manager g) ! a) \<and>
      decorated (windows g) (layer_manager g) a)"
  using assms unfolding desktop_ok_def none_or_movable_def windows_ok_def movable_def by blast

lemma window_pressed:
  assumes font: "length font = 4096" and ok: "desktop_ok scr ms g" and k: "movable g k"
    and i: "i = layer_id (layers (layer_manager g) ! k)"
  shows "\<exists>g'. Activate font i g = Some g' \<and> desktop_ok scr (ms\<lparr>drag_layer_id := i\<rparr>) g' \<and> active_layer_id (active_layer g') = i"
proof (cases "active_layer_id (active_layer g) = i")
  case True
  moreover have "none_or_movable g i" using k i by (auto simp: none_or_movable_def)
  ultimately show ?thesis using ok by (simp add: Activate_def desktop_ok_def)
next
  case False
  let ?m = "layer_manager g"
  obtain pre mid t where st: "layer_stack ?m = pre @ Some k # mid @ [Some t]" "pre \<noteq> []" "layer_id (layers ?m ! t) = mouse_id ms"
      "cursor_on_top (mouse_id ms) g t" "decorated (windows g) ?m k"
    using movable_split [OF ok k] by blast
  have inv: "shows_stack (windows g) ?m" and ml: "mouse_layer_id (active_layer g) = layer_id (layers ?m ! t)"
    using ok st(3) by (simp_all add: desktop_ok_def)
  have "ids_ok ?m" "k < length (layers ?m)" using inv k by (auto simp: movable_def shows_stack_def lm_ok_def stack_ok_def)
  then have pos: "i > 0" unfolding i by (rule layer_id_pos)
  obtain g' where g': "Activate font i g = Some g'" "active_layer_id (active_layer g') = i"
      "layer_stack (layer_manager g') = pre @ mid @ [Some k, Some t]" "shows_stack (windows g') (layer_manager g')"
      "layers (layer_manager g') = layers ?m" "mouse_layer_id (active_layer g') = mouse_layer_id (active_layer g)"
      "\<forall>n. decorated (windows g) ?m n \<longrightarrow> decorated (windows g') (layer_manager g') n"
    using Activate_shows [OF font inv st(1,2) i pos _ ml st(5) old_active [OF ok]] False by blast
  have nm: "none_or_movable g i" using k i by (auto simp: none_or_movable_def)
  have "cursor_on_top (mouse_id ms) g' t" unfolding cursor_on_top_def g'(3,5)
    using st(4) by (simp add: cursor_on_top_def)
  moreover have "set (layer_stack (layer_manager g')) = set (layer_stack ?m)" "hd (layer_stack (layer_manager g')) = hd (layer_stack ?m)"
    unfolding g'(3) st(1) using st(2) by auto
  ultimately have d: "desktop_ok scr ms g'" using desktop_activated [OF ok g'(4,5) _ _ _ g'(6) _ g'(7)] g'(2) nm by blast
  have "movable g' k" using k by (simp add: movable_def g'(3,5) st(1))
  then have "none_or_movable g' i" unfolding none_or_movable_def i g'(5) by blast
  then show ?thesis using d g'(1,2) by (simp add: desktop_ok_def none_or_movable_def)
qed

lemma desktop_pressed:
  assumes font: "length font = 4096" and ok: "desktop_ok scr ms g"
  shows "\<exists>g'. Activate font 0 g = Some g' \<and> desktop_ok scr ms g' \<and> active_layer_id (active_layer g') = 0"
proof -
  have inv: "shows_stack (windows g) (layer_manager g)" using ok by (simp add: desktop_ok_def)
  obtain t where t: "cursor_on_top (mouse_id ms) g t" using ok by (auto simp: desktop_ok_def)
  obtain g' where g': "Activate font 0 g = Some g'" "active_layer_id (active_layer g') = 0"
      "layer_stack (layer_manager g') = layer_stack (layer_manager g)" "shows_stack (windows g') (layer_manager g')"
      "layers (layer_manager g') = layers (layer_manager g)" "mouse_layer_id (active_layer g') = mouse_layer_id (active_layer g)"
      "\<forall>n. decorated (windows g) (layer_manager g) n \<longrightarrow> decorated (windows g') (layer_manager g') n"
    using Activate_none_shows [OF font inv old_active [OF ok]] by blast
  have "cursor_on_top (mouse_id ms) g' t" using t by (simp add: cursor_on_top_def g'(3,5))
  then have "desktop_ok scr ms g'"
    using desktop_activated [OF ok g'(4,5) _ _ _ g'(6) _ g'(7)] g'(2,3) by (simp add: none_or_movable_def)
  then show ?thesis using g'(1,2) by blast
qed

lemma new_position_on_screen:
  "0 < vx scr \<Longrightarrow> 0 < vy scr \<Longrightarrow> in_rect (new_position scr p dx dy) \<lparr>pos = V 0 0, size = scr\<rparr>"
  by (simp add: new_position_def in_rect_def ElementMax_def ElementMin_def vec_add_def min_def max_def)

lemma desktop_ok_buttons [simp]: "desktop_ok scr (ms\<lparr>previous_buttons := b\<rparr>) g = desktop_ok scr ms g"
  by (simp add: desktop_ok_def)

lemma desktop_ok_release: "desktop_ok scr ms g \<Longrightarrow> desktop_ok scr (ms\<lparr>drag_layer_id := 0\<rparr>) g"
  by (simp add: desktop_ok_def none_or_movable_def)

text \<open>The button goes down: the topmost layer under the cursor, if it can be dragged, is activated.\<close>

lemma press_handled:
  assumes font: "length font = 4096" and ok: "desktop_ok scr ms g"
  shows "\<exists>ms' g'. left_press font ms g = Some (ms', g') \<and> desktop_ok scr ms' g'"
proof -
  let ?m = "layer_manager g"
  have ok': "lm_ok (windows g) ?m" using ok by (simp add: desktop_ok_def shows_stack_def)
  obtain r where r: "FindLayerByPosition (windows g) (position ms) (mouse_id ms) ?m = Some r"
      "\<And>k. r = Some k \<Longrightarrow> Some k \<in> set (layer_stack ?m)"
    using FindLayerByPosition_spec [OF ok', of "position ms" "mouse_id ms"] by fastforce
  obtain g0 where g0: "Activate font 0 g = Some g0" "desktop_ok scr ms g0" using desktop_pressed [OF font ok] by blast
  show ?thesis
  proof (cases r)
    case None
    then show ?thesis using r(1) g0 by (simp add: left_press_def)
  next
    case (Some k)
    then have k: "Some k \<in> set (layer_stack ?m)" "k < length (layers ?m)" using r(2) [OF Some] ok' by (auto simp: lm_ok_def stack_ok_def)
    show ?thesis
    proof (cases "draggable (layers ?m ! k)")
      case True
      then have "movable g k" using k(1) by (simp add: movable_def)
      from window_pressed [OF font ok this refl] Some r(1) k(2) True show ?thesis by (auto simp: left_press_def arr_get_def)
    next
      case False
      then show ?thesis using Some r(1) k(2) g0 by (simp add: left_press_def arr_get_def)
    qed
  qed
qed

lemma OnInterrupt_desktop:
  assumes font: "length font = 4096" and ok: "desktop_ok scr ms g" and scr: "0 < vx scr" "0 < vy scr"
  shows "\<exists>ms' g'. OnInterrupt font scr b dx dy (ms, g) = Some (ms', g') \<and> desktop_ok scr ms' g'"
proof -
  let ?p = "new_position scr (position ms) dx dy"
  obtain m where m: "LayerManager_Move (windows g) (mouse_id ms) ?p (layer_manager g) = Some m" "same_layers (layer_manager g) m"
      "desktop_ok scr (ms\<lparr>position := ?p\<rparr>) (g\<lparr>layer_manager := m\<rparr>)"
    using cursor_moves [OF ok new_position_on_screen [OF scr]] by blast
  let ?ms = "ms\<lparr>position := ?p\<rparr>" and ?g = "g\<lparr>layer_manager := m\<rparr>"
  have press: "\<exists>ms' g'. OnInterrupt font scr b dx dy (ms, g) = Some (ms', g') \<and> desktop_ok scr ms' g'"
    if "previous_buttons ms AND 1 = 0" "b AND 1 \<noteq> 0"
    using press_handled [OF font m(3)] m(1) that by (auto simp: OnInterrupt_def)
  have drag: "\<exists>ms' g'. OnInterrupt font scr b dx dy (ms, g) = Some (ms', g') \<and> desktop_ok scr ms' g'"
    if "previous_buttons ms AND 1 \<noteq> 0" "b AND 1 \<noteq> 0"
  proof (cases "drag_layer_id ms > 0")
    case False
    then show ?thesis using m that by (simp add: OnInterrupt_def)
  next
    case True
    then obtain k where "movable ?g k" "drag_layer_id ?ms = layer_id (layers m ! k)"
      using m(3) by (auto simp: desktop_ok_def none_or_movable_def)
    then obtain m' where "LayerManager_MoveRelative (windows g) (drag_layer_id ms) (vec_sub ?p (position ms)) m = Some m'"
        "desktop_ok scr ?ms (?g\<lparr>layer_manager := m'\<rparr>)"
      using window_dragged [OF m(3), of k "vec_sub ?p (position ms)"] by auto
    then show ?thesis using m(1) that True by (simp add: OnInterrupt_def)
  qed
  have idle: "\<exists>ms' g'. OnInterrupt font scr b dx dy (ms, g) = Some (ms', g') \<and> desktop_ok scr ms' g'" if "b AND 1 = 0"
    using m that desktop_ok_release [OF m(3)] by (cases "previous_buttons ms AND 1 = 0") (simp_all add: OnInterrupt_def)
  from press drag idle show ?thesis by blast
qed

text \<open>C10: whatever reports the mouse sends, from a consistent desktop no report fails, and the desktop stays
  consistent: the cursor is on the screen and on top, and the screen shows every window at its place.\<close>

theorem mouse_keeps_desktop:
  assumes "length font = 4096" and "desktop_ok scr ms g" and "0 < vx scr" "0 < vy scr"
  shows "\<exists>ms' g'. foldM (\<lambda>(b, dx, dy). OnInterrupt font scr b dx dy) reports (ms, g) = Some (ms', g') \<and> desktop_ok scr ms' g'"
  using assms(2)
proof (induction reports arbitrary: ms g)
  case (Cons r reports)
  obtain b dx dy where r: "r = (b, dx, dy)" by (cases r)
  obtain ms1 g1 where 1: "OnInterrupt font scr b dx dy (ms, g) = Some (ms1, g1)" "desktop_ok scr ms1 g1"
    using OnInterrupt_desktop [OF assms(1) Cons.prems assms(3,4)] by blast
  from Cons.IH [OF 1(2)] 1(1) show ?case by (simp add: r)
qed simp

text \<open>while the button is held, the dragged window moves by exactly as much as the cursor does, also when the
  cursor is stopped by the border of the screen.\<close>

theorem drag_follows_cursor:
  assumes "desktop_ok scr ms g" and "0 < vx scr" "0 < vy scr"
    and "movable g k" "drag_layer_id ms = layer_id (layers (layer_manager g) ! k)"
    and "previous_buttons ms AND 1 \<noteq> 0" "b AND 1 \<noteq> 0"
  shows "\<exists>ms' g'. OnInterrupt font scr b dx dy (ms, g) = Some (ms', g') \<and>
    position ms' = new_position scr (position ms) dx dy \<and>
    vec_sub (layer_pos (layers (layer_manager g') ! k)) (layer_pos (layers (layer_manager g) ! k)) =
      vec_sub (position ms') (position ms)"
proof -
  let ?p = "new_position scr (position ms) dx dy"
  obtain m where m: "LayerManager_Move (windows g) (mouse_id ms) ?p (layer_manager g) = Some m" "same_layers (layer_manager g) m"
      "desktop_ok scr (ms\<lparr>position := ?p\<rparr>) (g\<lparr>layer_manager := m\<rparr>)" "layers m ! k = layers (layer_manager g) ! k"
    using cursor_moves [OF assms(1) new_position_on_screen [OF assms(2,3)]] assms(4) by blast
  have k: "movable (g\<lparr>layer_manager := m\<rparr>) k" using assms(4) m(2) by (simp add: movable_def same_layers_def)
  obtain m' where m': "LayerManager_MoveRelative (windows g) (drag_layer_id ms) (vec_sub ?p (position ms)) m = Some m'"
      "layer_pos (layers m' ! k) = vec_add (layer_pos (layers m ! k)) (vec_sub ?p (position ms))"
    using window_dragged [OF m(3) _ k, of "vec_sub ?p (position ms)"] assms(5) m(4) by auto
  have "drag_layer_id ms > 0"
    using layer_id_pos [of "layer_manager g" k] assms(1,4,5) by (auto simp: desktop_ok_def movable_def shows_stack_def lm_ok_def stack_ok_def)
  then show ?thesis using m(1,4) m' assms(6,7)
    by (simp add: OnInterrupt_def vec_add_def vec_sub_def)
qed

subsection \<open>A small desktop\<close>

definition example_gui :: gui where
  "example_gui = \<lparr>windows = example_windows, layer_manager = example_lm,
     active_layer = \<lparr>active_layer_id = 2, mouse_layer_id = 3\<rparr>, layer_task_map = Map.empty\<rparr>"

definition example_mouse :: Mouse where
  "example_mouse = \<lparr>mouse_id = 3, position = V 3 3, drag_layer_id = 2, previous_buttons = 1\<rparr>"

lemma example_movable: "movable example_gui k \<longleftrightarrow> k = 1"
  by (auto simp: movable_def example_gui_def example_lm_def)

lemma example_decorated: "decorated example_windows example_lm 1"
proof -
  have "only_layer example_lm 1 1" by (auto simp: only_layer_def example_lm_def less_Suc_eq)
  moreover have "transparent_color (Window_new w h f) = None" "win_title (Window_new w h f) = None" for w h f
    by (simp_all add: Window_new_def Let_def split: prod.split)
  ultimately show ?thesis by (simp add: decorated_def example_lm_def example_windows_def)
qed

lemma example_desktop: "desktop_ok (V 4 4) example_mouse example_gui"
proof -
  have "windows_ok example_gui" using example_decorated
    by (simp add: windows_ok_def example_movable) (simp add: example_gui_def example_lm_def)
  moreover have "cursor_on_top 3 example_gui 2" by (simp add: cursor_on_top_def example_gui_def example_lm_def)
  moreover have "none_or_movable example_gui 2"
    unfolding none_or_movable_def example_movable by (simp add: example_gui_def example_lm_def)
  ultimately show ?thesis using example_lm_shows
    by (auto simp: desktop_ok_def in_rect_def) (auto simp: example_gui_def example_mouse_def)
qed

theorem mouse_keeps_desktop_witness:
  "\<exists>ms' g'. foldM (\<lambda>(b, dx, dy). OnInterrupt blank_font (V 4 4) b dx dy) [(1, -1, 5), (0, 0, -2), (1, 127, -128)]
     (example_mouse, example_gui) = Some (ms', g') \<and> desktop_ok (V 4 4) ms' g'"
  by (rule mouse_keeps_desktop [OF length_blank_font example_desktop]) simp_all

theorem drag_follows_cursor_witness:
  "\<exists>ms' g'. OnInterrupt blank_font (V 4 4) 1 (-1) 5 (example_mouse, example_gui) = Some (ms', g') \<and> position ms' = V 2 3 \<and>
     layer_pos (layers (layer_manager g') ! 1) = V 0 1"
proof -
  have "movable example_gui 1" by (simp add: example_movable)
  then obtain ms' g' where "OnInterrupt blank_font (V 4 4) 1 (-1) 5 (example_mouse, example_gui) = Some (ms', g')"
      "position ms' = new_position (V 4 4) (position example_mouse) (-1) 5"
      "vec_sub (layer_pos (layers (layer_manager g') ! 1)) (layer_pos (layers (layer_manager example_gui) ! 1)) =
        vec_sub (position ms') (position example_mouse)"
    using drag_follows_cursor [OF example_desktop, of 1 1 blank_font "-1" 5]
    by (auto simp: example_mouse_def example_gui_def example_lm_def)
  then show ?thesis
    by (cases "layer_pos (layers (layer_manager g') ! 1)")
      (simp add: new_position_def ElementMax_def ElementMin_def vec_add_def vec_sub_def example_mouse_def example_gui_def example_lm_def)
qed

end
