(* ===== verification/Keyboard.thy ===== *)
theory Keyboard
  imports Task_Manager
begin

text \<open>
  \<open>src/kernel/keyboard.cpp\<close>: the key tables and the observer that turns a key press reported by the USB
  keyboard driver into a message for the main task.
\<close>

definition pad256 :: "char list \<Rightarrow> char list" where
  "pad256 keys = keys @ replicate (256 - length keys) (CHR 0x00)"

definition keycode_map :: "char list" where
  "keycode_map = pad256
    ([CHR 0x00, CHR 0x00, CHR 0x00, CHR 0x00] @ ''abcdefghijklmnopqrstuvwxyz1234567890'' @
     [CHR 0x0A, CHR 0x08, CHR 0x08, CHR 0x09] @ '' -=[]'' @ [CHR 0x5C] @ ''#;'' @ [CHR 0x27, CHR 0x60] @ '',./'' @
     replicate 27 (CHR 0x00) @ ''/*-+'' @ [CHR 0x0A] @ ''1234567890.'' @ [CHR 0x5C, CHR 0x00, CHR 0x00] @ ''='')"

definition keycode_map_shifted :: "char list" where
  "keycode_map_shifted = pad256
    ([CHR 0x00, CHR 0x00, CHR 0x00, CHR 0x00] @ ''ABCDEFGHIJKLMNOPQRSTUVWXYZ!@#$%^&*()'' @
     [CHR 0x0A, CHR 0x08, CHR 0x08, CHR 0x09] @ '' _+{}|~:'' @ [CHR 0x22] @ ''~<>?'' @
     replicate 27 (CHR 0x00) @ ''/*-+'' @ [CHR 0x0A] @ ''1234567890.'' @ [CHR 0x5C, CHR 0x00, CHR 0x00] @ ''='')"

definition kLShiftBitMask :: u8 where "kLShiftBitMask = 0b00000010"
definition kRShiftBitMask :: u8 where "kRShiftBitMask = 0b00100000"

definition key_ascii :: "u8 \<Rightarrow> u8 \<Rightarrow> char" where
  "key_ascii modifier keycode =
     (let shift = modifier AND (kLShiftBitMask OR kRShiftBitMask) \<noteq> 0;
          ascii = keycode_map ! unat keycode
      in if shift then keycode_map_shifted ! unat keycode else ascii)"

definition key_message :: "u8 \<Rightarrow> u8 \<Rightarrow> Message" where
  "key_message modifier keycode =
     \<lparr>msg_type = kKeyPush, src_task = 0, msg_arg = keyboard_arg modifier keycode (key_ascii modifier keycode)\<rparr>"

text \<open>The observer that \<open>InitializeKeyboard\<close> installs.\<close>

definition keyboard_observer :: "u8 \<Rightarrow> u8 \<Rightarrow> TaskManager \<Rightarrow> TaskManager option" where
  "keyboard_observer modifier keycode s = map_option snd (SendMessage 1 (key_message modifier keycode) s)"

subsection \<open>Properties\<close>

lemma length_maps: "length keycode_map = 256" "length keycode_map_shifted = 256"
  by (simp_all add: keycode_map_def keycode_map_shifted_def pad256_def)

text \<open>The character codes on the maps.\<close>

lemma map_codes:
  "map of_char keycode_map = [0, 0, 0, 0] @ [97..<123] @ [49..<58] @ [48, 10, 8, 8, 9, 32, 45, 61, 91, 93, 92, 35, 59, 39, 96, 44, 46, 47]
     @ replicate 27 0 @ [47, 42, 45, 43, 10] @ [49..<58] @ [48, 46, 92, 0, 0, 61] @ replicate 152 (0 :: nat)"
  "map of_char keycode_map_shifted = [0, 0, 0, 0] @ [65..<91] @ [33, 64, 35, 36, 37, 94, 38, 42, 40, 41, 10, 8, 8, 9, 32, 95, 43, 123, 125, 124, 126, 58, 34, 126, 60, 62, 63]
     @ replicate 27 0 @ [47, 42, 45, 43, 10] @ [49..<58] @ [48, 46, 92, 0, 0, 61] @ replicate 152 (0 :: nat)"
  by (simp_all add: keycode_map_def keycode_map_shifted_def pad256_def upt_rec [of _ 123] upt_rec [of _ 91] upt_rec [of _ 58])

text \<open>Every printable character is on one of the two maps.\<close>

lemma printable_on_maps:
  assumes "of_char c \<in> {32..<127 :: nat}"
  shows "c \<in> set keycode_map \<or> c \<in> set keycode_map_shifted"
proof -
  let ?n = "of_char c :: nat"
  have "?n \<in> set (map of_char keycode_map) \<union> set (map of_char keycode_map_shifted)"
    unfolding map_codes using assms by simp presburger
  then show ?thesis by auto
qed

lemma letters_on_maps:
  assumes "k \<in> {4..<30}"
  shows "(of_char (keycode_map ! k) :: nat) = k + 93 \<and> (of_char (keycode_map_shifted ! k) :: nat) = k + 61"
proof -
  have "(of_char (keycode_map ! k) :: nat) = map of_char keycode_map ! k"
      "(of_char (keycode_map_shifted ! k) :: nat) = map of_char keycode_map_shifted ! k"
    using assms by (simp_all add: length_maps)
  then show ?thesis unfolding map_codes using assms by (simp add: nth_append nth_Cons')
qed

text \<open>C27: every printable ASCII character can be typed, a letter key gives the small letter and with either shift
  key held the capital, and the observer hands the character to the main task as the last message of its
  queue, waking the task.\<close>

theorem keys_reach_main_task:
  assumes "tm_reachable s" and "length (tasks s) < 2 ^ 64"
  shows "(\<forall>c. of_char c \<in> {32..<127 :: nat} \<longrightarrow> (\<exists>m k. key_ascii m k = c)) \<and>
    (\<forall>k. unat k \<in> {4..<30} \<longrightarrow> key_ascii m k =
      char_of (unat k + (if bit m 1 \<or> bit m 5 then 61 else 93))) \<and>
    (\<exists>s'. keyboard_observer m k s = Some s' \<and> CurrentTask s' = CurrentTask s \<and>
      tasks s' = (tasks s)[0 := (tasks s ! 0)\<lparr>tk_msgs := tk_msgs (tasks s ! 0) @ [key_message m k], tk_running := True\<rparr>])"
proof (intro conjI allI impI)
  fix c assume "of_char c \<in> {32..<127 :: nat}"
  then consider (plain) "c \<in> set keycode_map" | (shifted) "c \<in> set keycode_map_shifted" using printable_on_maps by blast
  then show "\<exists>m k. key_ascii m k = c"
  proof cases
    case plain
    then obtain i where i: "i < 256" "keycode_map ! i = c" by (auto simp: in_set_conv_nth length_maps)
    then have "key_ascii 0 (of_nat i) = c" by (simp add: key_ascii_def unat_of_nat take_bit_nat_eq_self)
    then show ?thesis by blast
  next
    case shifted
    then obtain i where i: "i < 256" "keycode_map_shifted ! i = c" by (auto simp: in_set_conv_nth length_maps)
    then have "key_ascii 2 (of_nat i) = c"
      by (simp add: key_ascii_def unat_of_nat take_bit_nat_eq_self kLShiftBitMask_def kRShiftBitMask_def)
    then show ?thesis by blast
  qed
next
  fix k :: u8 assume k: "unat k \<in> {4..<30}"
  have mask: "kLShiftBitMask OR kRShiftBitMask = 34" by (simp add: kLShiftBitMask_def kRShiftBitMask_def)
  have bits: "bit (34 :: u8) n \<longleftrightarrow> n = 1 \<or> n = 5" if "n < 8" for n
  proof -
    have "n = 0 \<or> n = 1 \<or> n = 2 \<or> n = 3 \<or> n = 4 \<or> n = 5 \<or> n = 6 \<or> n = 7" using that by arith
    then show ?thesis by (elim disjE) simp_all
  qed
  have "m AND (kLShiftBitMask OR kRShiftBitMask) = 0 \<longleftrightarrow> \<not> (bit m 1 \<or> bit m 5)"
  proof -
    have "m AND 34 = 0 \<longleftrightarrow> (\<forall>n < 8. \<not> (bit m n \<and> bit (34 :: u8) n))" by (auto simp: bit_eq_iff [of "m AND 34"] bit_simps)
    also have "\<dots> \<longleftrightarrow> \<not> (bit m 1 \<or> bit m 5)" using bits bits [of 1] bits [of 5] by (metis numeral_less_iff one_less_numeral_iff semiring_norm(76,78,79,80,81))
    finally show ?thesis unfolding mask .
  qed
  moreover have "keycode_map ! unat k = char_of (unat k + 93)" "keycode_map_shifted ! unat k = char_of (unat k + 61)"
    using letters_on_maps [OF k] by (metis char_of_char)+
  ultimately show "key_ascii m k = char_of (unat k + (if bit m 1 \<or> bit m 5 then 61 else 93))"
    by (simp add: key_ascii_def Let_def)
next
  have inv: "tm_inv s" by (rule tm_reachable_inv [OF assms(1)])
  then have "0 < length (tasks s)" by (auto simp: tm_inv_def)
  moreover from SendMessage_task_inv [OF inv this, of "key_message m k"]
  show "\<exists>s'. keyboard_observer m k s = Some s' \<and> CurrentTask s' = CurrentTask s \<and>
      tasks s' = (tasks s)[0 := (tasks s ! 0)\<lparr>tk_msgs := tk_msgs (tasks s ! 0) @ [key_message m k], tk_running := True\<rparr>]"
    using calculation by (auto simp: keyboard_observer_def SendMessage_def find_task_id [OF inv assms(2)] Suc_le_eq)
qed

theorem keys_reach_main_task_witness:
  "\<exists>s'. keyboard_observer 2 4 (the (TaskManager_new zero_context zero_context 0 0x1000 0x2000)) = Some s' \<and>
     map msg_arg (tk_msgs (tasks s' ! 0)) = [keyboard_arg 2 4 (CHR ''A'')]"
proof -
  let ?s = "the (TaskManager_new zero_context zero_context 0 0x1000 0x2000)"
  have "length (tasks ?s) = 2" "tk_msgs (tasks ?s ! 0) = []" by (simp_all add: TaskManager_new_result Task_new_def)
  moreover have "key_ascii 2 4 = CHR ''A''"
    by (simp add: key_ascii_def kLShiftBitMask_def kRShiftBitMask_def keycode_map_shifted_def pad256_def)
  ultimately show ?thesis
    using keys_reach_main_task [OF boot_reachable [of zero_context zero_context 0 "0x1000" "0x2000"], of 2 4]
    by (auto simp: key_message_def)
qed

end
