(* ===== verification/Console.thy ===== *)
theory Console
  imports Layer_Manager
begin

text \<open>
  \<open>src/kernel/console.hpp\<close>, \<open>console.cpp\<close> and \<open>logger.cpp\<close>: the text console. It draws either straight on the
  frame buffer (before the layers exist) or in a window. The writer and the window are one value: \<open>NoWriter\<close>
  for the null pointer, \<open>Screen\<close> for the screen's writer, \<open>InWindow\<close> for a window, whose writer is then used.
\<close>

subsection \<open>State\<close>

definition kRows :: nat where "kRows = 25"
definition kColumns :: nat where "kColumns = 80"

datatype surface = NoWriter | Screen FrameBuffer | InWindow Window

record Console =
  con_surface :: surface
  fg_color :: PixelColor
  bg_color :: PixelColor
  buffer :: "char list list"
  cursor_row :: nat
  cursor_column :: nat
  con_layer_id :: u32

definition Console_new :: "PixelColor \<Rightarrow> PixelColor \<Rightarrow> Console" where
  "Console_new fg bg = \<lparr>con_surface = NoWriter, fg_color = fg, bg_color = bg,
     buffer = replicate kRows (replicate (kColumns + 1) (CHR 0x00)), cursor_row = 0, cursor_column = 0, con_layer_id = 0\<rparr>"

definition surface_Write :: "Vector2D \<Rightarrow> PixelColor \<Rightarrow> surface \<Rightarrow> surface option" where
  "surface_Write p c s = (case s of
     NoWriter \<Rightarrow> None
   | Screen fb \<Rightarrow> map_option Screen (FrameBuffer_Write p c fb)
   | InWindow w \<Rightarrow> map_option InWindow (Window_Write p c w))"

text \<open>The C string in a row of the buffer; \<open>None\<close> when it has no terminator.\<close>

definition c_str :: "char list \<Rightarrow> string option" where
  "c_str row = (if CHR 0x00 \<in> set row then Some (takeWhile (\<lambda>c. c \<noteq> CHR 0x00) row) else None)"

subsection \<open>Operations\<close>

definition write_row :: "u8 list \<Rightarrow> nat \<Rightarrow> Console \<Rightarrow> Console option" where
  "write_row font row c = do {
     chars \<leftarrow> arr_get (buffer c) row;
     s \<leftarrow> c_str chars;
     sf \<leftarrow> WriteString font surface_Write (V 0 (16 * int row)) s (fg_color c) (con_surface c);
     Some (c\<lparr>con_surface := sf\<rparr>)
   }"

definition Refresh :: "u8 list \<Rightarrow> Console \<Rightarrow> Console option" where
  "Refresh font c = do {
     sf \<leftarrow> FillRectangle surface_Write (V 0 0) (V (8 * int kColumns) (16 * int kRows)) (bg_color c) (con_surface c);
     foldM (write_row font) [0..<kRows] (c\<lparr>con_surface := sf\<rparr>)
   }"

definition scroll_row :: "u8 list \<Rightarrow> nat \<Rightarrow> Console \<Rightarrow> Console option" where
  "scroll_row font row c = do {
     next \<leftarrow> arr_get (buffer c) (row + 1);
     b \<leftarrow> arr_set (buffer c) row next;
     write_row font row (c\<lparr>buffer := b\<rparr>)
   }"

definition Newline :: "u8 list \<Rightarrow> Console \<Rightarrow> Console option" where
  "Newline font c =
     (let c = c\<lparr>cursor_column := 0\<rparr>
      in if cursor_row c < kRows - 1 then Some (c\<lparr>cursor_row := cursor_row c + 1\<rparr>)
         else case con_surface c of
             InWindow w \<Rightarrow> do {
               w \<leftarrow> Window_Move (V 0 0) \<lparr>pos = V 0 16, size = V (8 * int kColumns) (16 * int (kRows - 1))\<rparr> w;
               sf \<leftarrow> FillRectangle surface_Write (V 0 (16 * int (kRows - 1))) (V (8 * int kColumns) 16) (bg_color c) (InWindow w);
               Some (c\<lparr>con_surface := sf\<rparr>)
             }
           | _ \<Rightarrow> do {
               sf \<leftarrow> FillRectangle surface_Write (V 0 0) (V (8 * int kColumns) (16 * int kRows)) (bg_color c) (con_surface c);
               c \<leftarrow> foldM (scroll_row font) [0..<kRows - 1] (c\<lparr>con_surface := sf\<rparr>);
               b \<leftarrow> arr_set (buffer c) (kRows - 1) (replicate (kColumns + 1) (CHR 0x00));
               Some (c\<lparr>buffer := b\<rparr>)
             })"

text \<open>One character of \<open>PutString\<close>.\<close>

definition put_char :: "u8 list \<Rightarrow> char \<Rightarrow> Console \<Rightarrow> Console option" where
  "put_char font ch c =
     (if ch = CHR 0x0A then Newline font c
      else if cursor_column c < kColumns - 1 then do {
        sf \<leftarrow> WriteAscii font surface_Write (V (8 * int (cursor_column c)) (16 * int (cursor_row c))) ch (fg_color c) (con_surface c);
        row \<leftarrow> arr_get (buffer c) (cursor_row c);
        row \<leftarrow> arr_set row (cursor_column c) ch;
        b \<leftarrow> arr_set (buffer c) (cursor_row c) row;
        Some (c\<lparr>con_surface := sf, buffer := b, cursor_column := cursor_column c + 1\<rparr>)
      }
      else Some c)"

definition put_chars :: "u8 list \<Rightarrow> string \<Rightarrow> Console \<Rightarrow> Console option" where
  "put_chars font s c = foldM (put_char font) s c"

text \<open>\<open>PutString\<close>: with a layer manager the console's layer is drawn afterwards. \<open>j\<close> is the number of the
  console's window in the window store, whose content the surface then is.\<close>

definition PutString :: "u8 list \<Rightarrow> string \<Rightarrow> nat \<Rightarrow> Console \<Rightarrow> gui option \<Rightarrow> (Console \<times> gui option) option" where
  "PutString font s j c og = do {
     c \<leftarrow> put_chars font s c;
     (case og of None \<Rightarrow> Some (c, None)
      | Some g \<Rightarrow> do {
          let g = (case con_surface c of InWindow w \<Rightarrow> g\<lparr>windows := (windows g)[j := w]\<rparr> | _ \<Rightarrow> g);
          m \<leftarrow> LayerManager_DrawLayer (windows g) (con_layer_id c) (layer_manager g);
          Some (c, Some (g\<lparr>layer_manager := m\<rparr>))
        })
   }"

definition Console_SetWriter :: "u8 list \<Rightarrow> FrameBuffer \<Rightarrow> bool \<Rightarrow> Console \<Rightarrow> Console option" where
  "Console_SetWriter font fb same c = (if same then Some c else Refresh font (c\<lparr>con_surface := Screen fb\<rparr>))"

definition SetLayerID :: "u32 \<Rightarrow> Console \<Rightarrow> Console" where
  "SetLayerID i c = c\<lparr>con_layer_id := i\<rparr>"

definition Console_SetWindow :: "u8 list \<Rightarrow> Window \<Rightarrow> bool \<Rightarrow> Console \<Rightarrow> Console option" where
  "Console_SetWindow font w same c = (if same then Some c else Refresh font (c\<lparr>con_surface := InWindow w\<rparr>))"

definition InitializeConsole :: "u8 list \<Rightarrow> FrameBuffer \<Rightarrow> Console option" where
  "InitializeConsole font screen = Console_SetWriter font screen False (Console_new kDesktopFGColor kDesktopBGColor)"

subsection \<open>Layers\<close>

text \<open>\<open>InitializeLayer\<close> of \<open>layer.cpp\<close>: the background and the console window, numbers 0 and 1 of the store, on
  layers 1 and 2. \<open>None\<close> also stands for \<open>exit(1)\<close> when the frame buffer cannot be initialised.\<close>

definition InitializeLayer :: "u8 list \<Rightarrow> FrameBufferConfig \<Rightarrow> Console \<Rightarrow> (gui \<times> Console) option" where
  "InitializeLayer font screen_config con = do {
     let bg = Window_new (horizontal_resolution screen_config) (vertical_resolution screen_config) (pixel_format screen_config);
     bg \<leftarrow> DrawDesktop Window_Write (win_width bg) (win_height bg) bg;
     let console_window = Window_new (kColumns * 8) (kRows * 16) (pixel_format screen_config);
     con \<leftarrow> Console_SetWindow font console_window False con;
     let console_window = (case con_surface con of InWindow w \<Rightarrow> w | _ \<Rightarrow> console_window);
     let (err, screen) = FrameBuffer_Initialize screen_config;
     if error_bool err then None
     else do {
       let m = SetWriter screen LayerManager_new;
       let (k, m) = NewLayer m;
       let m = m\<lparr>layers := (layers m)[k := Layer_Move (V 0 0) (SetWindow 0 (layers m ! k))]\<rparr>;
       let bglayer_id = layer_id (layers m ! k);
       let (k, m) = NewLayer m;
       let m = m\<lparr>layers := (layers m)[k := Layer_Move (V 0 0) (SetWindow 1 (layers m ! k))]\<rparr>;
       let con = SetLayerID (layer_id (layers m ! k)) con;
       let m = UpDown (con_layer_id con) 1 (UpDown bglayer_id 0 m);
       Some (\<lparr>windows = [bg, console_window], layer_manager = m,
         active_layer = \<lparr>active_layer_id = 0, mouse_layer_id = 0\<rparr>, layer_task_map = Map.empty\<rparr>, con)
     }
   }"

subsection \<open>Logging\<close>

datatype LogLevel = kError | kWarn | kInfo | kDebug

definition log_value :: "LogLevel \<Rightarrow> int" where
  "log_value l = (case l of kError \<Rightarrow> 3 | kWarn \<Rightarrow> 4 | kInfo \<Rightarrow> 6 | kDebug \<Rightarrow> 7)"

definition SetLogLevel :: "LogLevel \<Rightarrow> LogLevel \<Rightarrow> LogLevel" where
  "SetLogLevel level log_level = level"

text \<open>\<open>Log\<close> on an already formatted string; \<open>put\<close> is the call of \<open>PutString\<close>, the result that of \<open>vsprintf\<close>.\<close>

definition Log :: "(string \<Rightarrow> 's \<Rightarrow> 's option) \<Rightarrow> LogLevel \<Rightarrow> LogLevel \<Rightarrow> string \<Rightarrow> 's \<Rightarrow> (int \<times> 's) option" where
  "Log put log_level level s st =
     (if log_value level > log_value log_level then Some (0, st)
      else do { st \<leftarrow> put s st; Some (int (length s), st) })"

subsection \<open>Drawing never fails\<close>

definition surf_get :: "surface \<Rightarrow> Vector2D \<Rightarrow> PixelColor" where
  "surf_get s p = (case s of NoWriter \<Rightarrow> black | Screen fb \<Rightarrow> fb_get fb p | InWindow w \<Rightarrow> win_get w p)"

definition surf_inside :: "surface \<Rightarrow> Vector2D \<Rightarrow> bool" where
  "surf_inside s p = (case s of NoWriter \<Rightarrow> False | Screen fb \<Rightarrow> fb_live fb p | InWindow w \<Rightarrow> win_inside w p)"

definition on_screen_surface :: "surface \<Rightarrow> bool" where
  "on_screen_surface s = (case s of Screen _ \<Rightarrow> True | _ \<Rightarrow> False)"

interpretation con_surf: pixel_surface surface_Write surf_get surf_inside
proof
  fix s p c assume p: "surf_inside s p"
  show "\<exists>s'. surface_Write p c s = Some s' \<and> surf_get s' p = c \<and> (\<forall>q. surf_inside s' q = surf_inside s q) \<and>
      (\<forall>q. surf_inside s q \<longrightarrow> q \<noteq> p \<longrightarrow> surf_get s' q = surf_get s q)"
  proof (cases s)
    case NoWriter
    with p show ?thesis by (simp add: surf_inside_def)
  next
    case (Screen fb)
    with p fb_surface.write_ok [of fb p c] show ?thesis by (auto simp: surface_Write_def surf_inside_def surf_get_def)
  next
    case (InWindow w)
    with p win_surface.write_ok [of w p c] show ?thesis by (auto simp: surface_Write_def surf_inside_def surf_get_def)
  qed
qed

interpretation con_kind: stable_writer surface_Write on_screen_surface
  by unfold_locales (auto simp: surface_Write_def on_screen_surface_def split: surface.splits)

text \<open>A screen with room for the console.\<close>

definition roomy :: "surface \<Rightarrow> bool" where
  "roomy s \<longleftrightarrow> on_screen_surface s \<and> (\<forall>q. in_rect q \<lparr>pos = V 0 0, size = V 640 400\<rparr> \<longrightarrow> surf_inside s q)"

lemma roomy_draws:
  assumes "roomy s" and "draws_in surf_inside surf_get r s s'" and "on_screen_surface s' = on_screen_surface s"
  shows "roomy s'"
  using assms by (simp add: roomy_def draws_in_def)

lemma roomy_rect: "roomy s \<Longrightarrow> 0 \<le> x \<Longrightarrow> x + w \<le> 640 \<Longrightarrow> 0 \<le> y \<Longrightarrow> y + h \<le> 400 \<Longrightarrow>
    in_rect q \<lparr>pos = V x y, size = V w h\<rparr> \<Longrightarrow> surf_inside s q"
  by (simp add: roomy_def in_rect_def)

lemma roomy_fill:
  assumes "roomy s"
  shows "\<exists>s'. FillRectangle surface_Write (V 0 0) (V 640 400) c s = Some s' \<and> roomy s'"
proof -
  have i: "surf_inside s q" if "in_rect q \<lparr>pos = V 0 0, size = V 640 400\<rparr>" for q using assms that by (simp add: roomy_def)
  obtain s' where "FillRectangle surface_Write (V 0 0) (V 640 400) c s = Some s'"
      "draws_in surf_inside surf_get \<lparr>pos = V 0 0, size = V 640 400\<rparr> s s'"
    using con_surf.fill_where_draws [OF i] unfolding FillRectangle_def by blast
  then show ?thesis using roomy_draws [OF assms] con_kind.FillRectangle_stable by blast
qed

lemma roomy_ascii:
  assumes "roomy s" and "length font = 4096" and "k < 80" "r < 25"
  shows "\<exists>s'. WriteAscii font surface_Write (V (8 * int k) (16 * int r)) ch c s = Some s' \<and> roomy s'"
proof -
  have i: "surf_inside s q" if "in_rect q \<lparr>pos = V (8 * int k) (16 * int r), size = V 8 16\<rparr>" for q
    using assms(3,4) that by (intro roomy_rect [OF assms(1)]) auto
  obtain s' where "WriteAscii font surface_Write (V (8 * int k) (16 * int r)) ch c s = Some s'"
      "draws_in surf_inside surf_get \<lparr>pos = V (8 * int k) (16 * int r), size = V 8 16\<rparr> s s'"
    using con_surf.WriteAscii_draws [OF assms(2) i] by blast
  then show ?thesis using roomy_draws [OF assms(1)] con_kind.WriteAscii_stable by blast
qed

lemma roomy_string:
  assumes "roomy s" and "length font = 4096" and "length str \<le> 80" "r < 25"
  shows "\<exists>s'. WriteString font surface_Write (V 0 (16 * int r)) str c s = Some s' \<and> roomy s'"
proof -
  have i: "surf_inside s q" if "in_rect q \<lparr>pos = V 0 (16 * int r), size = V (8 * int (length str)) 16\<rparr>" for q
    using assms(3,4) that by (intro roomy_rect [OF assms(1)]) auto
  obtain s' where "WriteString font surface_Write (V 0 (16 * int r)) str c s = Some s'"
      "draws_in surf_inside surf_get \<lparr>pos = V 0 (16 * int r), size = V (8 * int (length str)) 16\<rparr> s s'"
    using con_surf.WriteString_draws [OF assms(2) i] by blast
  then show ?thesis using roomy_draws [OF assms(1)] con_kind.WriteString_stable by blast
qed

subsection \<open>The text on the console\<close>

text \<open>The lines of a text, as a reference: split at newlines, cut to 79 characters, the last 25 of them.\<close>

fun split_lines :: "string \<Rightarrow> string list" where
  "split_lines [] = [[]]"
| "split_lines (c # s) = (if c = CHR 0x0A then [] # split_lines s else (c # hd (split_lines s)) # tl (split_lines s))"

definition shown :: "string list \<Rightarrow> string list" where
  "shown L = drop (length L - 25) L"

definition text_lines :: "string \<Rightarrow> string list" where
  "text_lines s = map (take 79) (split_lines s)"

definition pad :: "string \<Rightarrow> char list" where
  "pad l = l @ replicate (81 - length l) (CHR 0x00)"

definition con_rel :: "Console \<Rightarrow> string list \<Rightarrow> bool" where
  "con_rel c L \<longleftrightarrow> L \<noteq> [] \<and> (\<forall>l \<in> set L. length l \<le> 79 \<and> CHR 0x00 \<notin> set l) \<and> roomy (con_surface c) \<and>
     cursor_row c = length (shown L) - 1 \<and> cursor_column c = length (last L) \<and>
     buffer c = map pad (shown L) @ replicate (25 - length (shown L)) (pad [])"

lemma split_lines_nonempty: "split_lines s \<noteq> []"
  by (cases s) auto

lemma split_lines_snoc:
  "split_lines (s @ [c]) = (if c = CHR 0x0A then split_lines s @ [[]]
     else butlast (split_lines s) @ [last (split_lines s) @ [c]])"
proof (induction s)
  case (Cons a s)
  then show ?case using split_lines_nonempty [of s] by (cases "split_lines s") auto
qed simp

lemma c_str_pad: "length l \<le> 80 \<Longrightarrow> CHR 0x00 \<notin> set l \<Longrightarrow> c_str (pad l) = Some l"
proof -
  assume l: "length l \<le> 80" "CHR 0x00 \<notin> set l"
  obtain n where "81 - length l = Suc n" using l(1) by (cases "81 - length l") auto
  then have "pad l = l @ CHR 0x00 # replicate n (CHR 0x00)" by (simp add: pad_def)
  moreover have "takeWhile (\<lambda>c. c \<noteq> CHR 0x00) (l @ CHR 0x00 # xs) = l" for xs using l(2) by (induction l) auto
  ultimately show ?thesis by (simp add: c_str_def)
qed

lemma length_shown: "length (shown L) = min 25 (length L)"
  by (simp add: shown_def)

lemma last_shown: "L \<noteq> [] \<Longrightarrow> last (shown L) = last L"
  by (simp add: shown_def)

lemma shown_snoc: "L \<noteq> [] \<Longrightarrow> shown (L @ [l]) = (if length (shown L) < 25 then shown L @ [l] else tl (shown L) @ [l])"
proof -
  assume "L \<noteq> []"
  have "drop (length L - 24) L = drop (length L - 25) (tl L)" if "25 \<le> length L"
  proof -
    have "length L - 24 = Suc (length L - 25)" using that by simp
    then show ?thesis by (simp add: drop_Suc)
  qed
  then show ?thesis by (auto simp: shown_def tl_drop)
qed

lemma shown_update: "L \<noteq> [] \<Longrightarrow> shown (butlast L @ [l]) = butlast (shown L) @ [l]"
  by (simp add: shown_def butlast_drop)

lemma write_row_ok:
  assumes "roomy (con_surface c)" and "length font = 4096" and "r < 25" "r < length (buffer c)"
    and "c_str (buffer c ! r) = Some l" "length l \<le> 80"
  shows "\<exists>sf. write_row font r c = Some (c\<lparr>con_surface := sf\<rparr>) \<and> roomy sf"
proof -
  obtain sf where "WriteString font surface_Write (V 0 (16 * int r)) l (fg_color c) (con_surface c) = Some sf" "roomy sf"
    using roomy_string [OF assms(1,2,6,3)] by blast
  then show ?thesis using assms by (intro exI [of _ sf]) (simp add: write_row_def arr_get_def)
qed

text \<open>A row of the buffer holds a string that fits on the screen.\<close>

definition row_ok :: "char list \<Rightarrow> bool" where
  "row_ok row \<longleftrightarrow> (\<exists>l. c_str row = Some l \<and> length l \<le> 80)"

lemma row_ok_pad: "length l \<le> 79 \<Longrightarrow> CHR 0x00 \<notin> set l \<Longrightarrow> row_ok (pad l)"
  using c_str_pad [of l] by (simp add: row_ok_def)

text \<open>The scrolling loop moves every row up by one.\<close>

lemma scroll_rows:
  assumes "roomy (con_surface c)" and "length font = 4096" and "length (buffer c) = 25" "\<forall>row \<in> set (buffer c). row_ok row"
  shows "\<exists>sf. foldM (scroll_row font) [0..<24] c = Some (c\<lparr>con_surface := sf, buffer := tl (buffer c) @ [last (buffer c)]\<rparr>) \<and> roomy sf"
proof -
  let ?B = "buffer c"
  let ?P = "\<lambda>i c'. \<exists>sf b. c' = c\<lparr>con_surface := sf, buffer := b\<rparr> \<and> roomy sf \<and> length b = 25 \<and>
      (\<forall>j < 25. b ! j = (if j < i then ?B ! Suc j else ?B ! j))"
  have "\<exists>c'. foldM (scroll_row font) [0..<24] c = Some c' \<and> ?P 24 c'"
  proof (rule foldM_upt_invariant)
    show "?P 0 c" using assms(1,3) by (intro exI [of _ "con_surface c"] exI [of _ ?B]) simp
    show "\<exists>c''. scroll_row font i c' = Some c'' \<and> ?P (Suc i) c''" if i: "0 \<le> i" "i < 24" "?P i c'" for i c'
    proof -
      from i(3) obtain sf b where c': "c' = c\<lparr>con_surface := sf, buffer := b\<rparr>" "roomy sf" "length b = 25"
        "\<forall>j < 25. b ! j = (if j < i then ?B ! Suc j else ?B ! j)" by blast
      have n: "b ! Suc i = ?B ! Suc i" using c'(4) i(2) by simp
      have "?B ! Suc i \<in> set ?B" using assms(3) i(2) by simp
      then obtain l where l: "c_str (?B ! Suc i) = Some l" "length l \<le> 80" using assms(4) by (auto simp: row_ok_def)
      have "\<exists>sf'. write_row font i (c'\<lparr>buffer := b[i := b ! Suc i]\<rparr>) = Some (c'\<lparr>buffer := b[i := b ! Suc i], con_surface := sf'\<rparr>) \<and> roomy sf'"
        using write_row_ok [of "c'\<lparr>buffer := b[i := b ! Suc i]\<rparr>" font i l] c' i(2) l n assms(2) by simp
      then obtain sf' where sf': "write_row font i (c'\<lparr>buffer := b[i := b ! Suc i]\<rparr>) = Some (c'\<lparr>buffer := b[i := b ! Suc i], con_surface := sf'\<rparr>)"
        "roomy sf'" by blast
      have "scroll_row font i c' = Some (c\<lparr>con_surface := sf', buffer := b[i := b ! Suc i]\<rparr>)"
        using sf'(1) c' i(2) by (simp add: scroll_row_def arr_get_def arr_set_def)
      moreover have "\<forall>j < 25. b[i := b ! Suc i] ! j = (if j < Suc i then ?B ! Suc j else ?B ! j)"
        using c'(3,4) i(2) n by (auto simp: nth_list_update less_Suc_eq)
      moreover have "length (b[i := b ! Suc i]) = 25" using c'(3) by simp
      ultimately show ?thesis using sf'(2) by blast
    qed
  qed simp
  then obtain sf b where b: "foldM (scroll_row font) [0..<24] c = Some (c\<lparr>con_surface := sf, buffer := b\<rparr>)" "roomy sf" "length b = 25"
      "\<forall>j < 25. b ! j = (if j < 24 then ?B ! Suc j else ?B ! j)" by blast
  have "b = tl ?B @ [last ?B]"
  proof (rule nth_equalityI)
    have ne: "?B \<noteq> []" using assms(3) by auto
    show "length b = length (tl ?B @ [last ?B])" using b(3) assms(3) by simp
    show "b ! j = (tl ?B @ [last ?B]) ! j" if "j < length b" for j
    proof (cases "j < 24")
      case True
      then show ?thesis using b(4) assms(3) by (simp add: nth_append nth_tl)
    next
      case False
      then have "j = 24" using that b(3) by simp
      then show ?thesis using b(4) assms(3) ne by (simp add: nth_append last_conv_nth)
    qed
  qed
  with b(1,2) show ?thesis by blast
qed

lemma con_rel_rows:
  assumes "con_rel c L"
  shows "length (buffer c) = 25" "\<forall>row \<in> set (buffer c). row_ok row" "roomy (con_surface c)"
proof -
  have "length (shown L) \<le> 25" by (simp add: length_shown)
  then show "length (buffer c) = 25" using assms by (simp add: con_rel_def)
  have "set (shown L) \<subseteq> set L" by (simp add: shown_def set_drop_subset)
  then show "\<forall>row \<in> set (buffer c). row_ok row" using assms row_ok_pad by (auto simp: con_rel_def)
  show "roomy (con_surface c)" using assms by (simp add: con_rel_def)
qed

lemma Newline_rel:
  assumes c: "con_rel c L" and font: "length font = 4096"
  shows "\<exists>c'. Newline font c = Some c' \<and> con_rel c' (L @ [[]])"
proof (cases "length (shown L) < 25")
  case True
  have ne: "L \<noteq> []" "length (shown L) > 0" using c by (auto simp: con_rel_def length_shown)
  have r: "replicate (25 - length (shown L)) (pad []) = pad [] # replicate (25 - Suc (length (shown L))) (pad [])"
    using True by (simp add: Suc_diff_Suc flip: replicate_Suc)
  let ?c = "c\<lparr>cursor_column := 0, cursor_row := cursor_row c + 1\<rparr>"
  have "Newline font c = Some ?c" using c True ne by (simp add: Newline_def con_rel_def kRows_def Let_def) arith?
  moreover have "con_rel ?c (L @ [[]])" using c True ne r by (auto simp: con_rel_def shown_snoc)
  ultimately show ?thesis by blast
next
  case False
  then have len: "length (shown L) = 25" by (simp add: length_shown)
  note rows = con_rel_rows [OF c]
  have sc: "on_screen_surface (con_surface c)" using rows(3) by (simp add: roomy_def)
  obtain sf where sf: "FillRectangle surface_Write (V 0 0) (V 640 400) (bg_color c) (con_surface c) = Some sf" "roomy sf"
    using roomy_fill [OF rows(3)] by blast
  let ?c1 = "c\<lparr>cursor_column := 0, con_surface := sf\<rparr>"
  obtain sf' where sf': "foldM (scroll_row font) [0..<24] ?c1 = Some (?c1\<lparr>con_surface := sf', buffer := tl (buffer c) @ [last (buffer c)]\<rparr>)" "roomy sf'"
    using scroll_rows [of ?c1 font] sf(2) rows font by auto
  let ?c2 = "c\<lparr>cursor_column := 0, con_surface := sf', buffer := tl (buffer c) @ [pad []]\<rparr>"
  have b: "buffer c = map pad (shown L)" using c len by (simp add: con_rel_def)
  have "Newline font c = Some ?c2"
    using c len sc sf(1) sf'(1) b
    by (auto simp: Newline_def con_rel_def kRows_def kColumns_def on_screen_surface_def arr_set_def pad_def list_update_append split: surface.splits)
  moreover have "con_rel ?c2 (L @ [[]])"
    using c len sf'(2) b by (auto simp: con_rel_def shown_snoc map_tl)
  ultimately show ?thesis by blast
qed

lemma put_char_rel:
  assumes c: "con_rel c L" and font: "length font = 4096" and ch: "ch \<noteq> CHR 0x00" "ch \<noteq> CHR 0x0A"
  shows "\<exists>c'. put_char font ch c = Some c' \<and> con_rel c' (if length (last L) < 79 then butlast L @ [last L @ [ch]] else L)"
proof (cases "length (last L) < 79")
  case False
  then show ?thesis using c ch by (auto simp: put_char_def con_rel_def kColumns_def)
next
  case True
  let ?k = "length (last L)" and ?r = "length (shown L) - 1"
  have ne: "L \<noteq> []" using c by (simp add: con_rel_def)
  then have "length (shown L) > 0" by (simp add: length_shown)
  with ne have ne: "L \<noteq> []" "shown L \<noteq> []" by auto
  note rows = con_rel_rows [OF c]
  have r: "?r < 25" by (simp add: length_shown)
  have cur: "cursor_row c = ?r" "cursor_column c = ?k" using c by (simp_all add: con_rel_def)
  obtain sf where sf: "WriteAscii font surface_Write (V (8 * int ?k) (16 * int ?r)) ch (fg_color c) (con_surface c) = Some sf" "roomy sf"
    using roomy_ascii [OF rows(3) font _ r, of ?k] True by auto
  have row: "buffer c ! ?r = pad (last L)"
    using c ne last_shown [OF ne(1)] by (simp add: con_rel_def nth_append last_conv_nth)
  let ?b = "(buffer c)[?r := (pad (last L))[?k := ch]]"
  have p: "(pad (last L))[?k := ch] = pad (last L @ [ch])"
  proof -
    have "81 - ?k = Suc (80 - ?k)" using True by simp
    then show ?thesis by (simp add: pad_def list_update_append)
  qed
  have "put_char font ch c = Some (c\<lparr>con_surface := sf, buffer := ?b, cursor_column := ?k + 1\<rparr>)"
    using True ch(2) sf(1) row rows(1) r
    by (simp add: put_char_def kColumns_def cur arr_get_def arr_set_def) (simp add: pad_def)
  moreover have "?b = map pad (butlast (shown L) @ [last L @ [ch]]) @ replicate (25 - length (shown L)) (pad [])"
  proof -
    have "shown L = butlast (shown L) @ [last L]" using ne last_shown by (metis append_butlast_last_id)
    then have m: "map pad (shown L) = map pad (butlast (shown L)) @ [pad (last L)]" by (metis list.simps(8,9) map_append)
    have "buffer c = map pad (butlast (shown L)) @ pad (last L) # replicate (25 - length (shown L)) (pad [])"
      using c unfolding con_rel_def m by simp
    then show ?thesis by (simp add: p list_update_append)
  qed
  moreover have "length (butlast (shown L) @ [last L @ [ch]]) = length (shown L)" using ne(2) by simp
  moreover have "\<forall>l \<in> set (butlast L). length l \<le> 79 \<and> CHR 0x00 \<notin> set l" using c by (auto simp: con_rel_def dest: in_set_butlastD)
  ultimately show ?thesis using c ne True ch(1) sf(2) by (auto simp: con_rel_def shown_update)
qed

lemma put_chars_rel:
  assumes "con_rel c (text_lines [])" and "length font = 4096" and "CHR 0x00 \<notin> set s"
  shows "\<exists>c'. put_chars font s c = Some c' \<and> con_rel c' (text_lines s)"
  using assms(3)
proof (induction s rule: rev_induct)
  case Nil
  then show ?case using assms(1) by (simp add: put_chars_def)
next
  case (snoc ch s)
  then obtain c1 where c1: "put_chars font s c = Some c1" "con_rel c1 (text_lines s)" by auto
  have ne: "split_lines s \<noteq> []" by (rule split_lines_nonempty)
  have "\<exists>c'. put_char font ch c1 = Some c' \<and> con_rel c' (text_lines (s @ [ch]))"
  proof (cases "ch = CHR 0x0A")
    case True
    then show ?thesis using Newline_rel [OF c1(2) assms(2)] by (simp add: put_char_def text_lines_def split_lines_snoc)
  next
    case False
    let ?l = "last (split_lines s)"
    have l: "last (text_lines s) = take 79 ?l" "butlast (text_lines s) = map (take 79) (butlast (split_lines s))"
      using ne by (simp_all add: text_lines_def last_map map_butlast)
    have new: "text_lines (s @ [ch]) = butlast (text_lines s) @ [take 79 (?l @ [ch])]"
      using False by (simp add: text_lines_def split_lines_snoc map_butlast)
    have "(if length (last (text_lines s)) < 79 then butlast (text_lines s) @ [last (text_lines s) @ [ch]] else text_lines s) =
        text_lines (s @ [ch])"
    proof (cases "length ?l < 79")
      case True
      then show ?thesis unfolding new l(1) by simp
    next
      case False
      have "text_lines s = butlast (text_lines s) @ [take 79 ?l]"
        using ne l(1) by (metis append_butlast_last_id map_is_Nil_conv text_lines_def)
      then show ?thesis unfolding new l(1) using False by simp
    qed
    then show ?thesis using put_char_rel [OF c1(2) assms(2) _ False] snoc.prems by auto
  qed
  then show ?case using c1(1) by (auto simp: put_chars_def foldM_append)
qed

lemma InitializeConsole_rel:
  assumes "length font = 4096" and "fb_ok fb" and "640 \<le> horizontal_resolution (fb_config fb)" "400 \<le> vertical_resolution (fb_config fb)"
  shows "\<exists>c. InitializeConsole font fb = Some c \<and> con_rel c (text_lines [])"
proof -
  let ?c0 = "(Console_new kDesktopFGColor kDesktopBGColor)\<lparr>con_surface := Screen fb\<rparr>"
  have "roomy (Screen fb)"
    using assms(2-4) by (auto simp: roomy_def on_screen_surface_def surf_inside_def fb_live_def fb_inside_def FrameBufferSize_def in_rect_def)
  then obtain sf where sf: "FillRectangle surface_Write (V 0 0) (V 640 400) kDesktopBGColor (Screen fb) = Some sf" "roomy sf"
    using roomy_fill by blast
  let ?c1 = "?c0\<lparr>con_surface := sf\<rparr>"
  have buf: "buffer ?c1 = replicate 25 (pad [])" by (simp add: Console_new_def pad_def kRows_def kColumns_def)
  have "\<exists>c. foldM (write_row font) [0..<25] ?c1 = Some c \<and> (\<exists>sf. c = ?c1\<lparr>con_surface := sf\<rparr> \<and> roomy sf)"
  proof (rule foldM_upt_invariant)
    show "\<exists>s. ?c1 = ?c1\<lparr>con_surface := s\<rparr> \<and> roomy s" using sf(2) by (intro exI [of _ sf]) simp
    show "\<exists>c'. write_row font i c = Some c' \<and> (\<exists>sf. c' = ?c1\<lparr>con_surface := sf\<rparr> \<and> roomy sf)"
      if i: "i < 25" and c: "\<exists>sf. c = ?c1\<lparr>con_surface := sf\<rparr> \<and> roomy sf" for i c
    proof -
      obtain s where s: "c = ?c1\<lparr>con_surface := s\<rparr>" "roomy s" using c by blast
      obtain s' where "write_row font i c = Some (c\<lparr>con_surface := s'\<rparr>)" "roomy s'"
        using write_row_ok [of c font i "[]"] s buf i assms(1) c_str_pad [of "[]"] by auto
      then show ?thesis using s(1) by auto
    qed
  qed simp
  then obtain c sf' where c: "foldM (write_row font) [0..<25] ?c1 = Some c" "c = ?c1\<lparr>con_surface := sf'\<rparr>" "roomy sf'" by blast
  have "InitializeConsole font fb = Some c"
    using sf(1) c(1) by (simp add: InitializeConsole_def Console_SetWriter_def Refresh_def kRows_def kColumns_def Console_new_def)
  moreover have "con_rel c (text_lines [])"
    using buf c by (simp add: con_rel_def text_lines_def shown_def Console_new_def numeral_nat(2-) flip: replicate_Suc)
  ultimately show ?thesis by blast
qed

text \<open>C22: on a screen with room for it, the console never fails, and after any text its rows are the last 25 lines
  of the text, each cut to 79 characters, from the top, with the cursor behind the last one.\<close>

theorem console_shows_last_lines:
  assumes "length font = 4096" and "fb_ok fb" and "640 \<le> horizontal_resolution (fb_config fb)" "400 \<le> vertical_resolution (fb_config fb)"
    and "CHR 0x00 \<notin> set s" and "ls = shown (map (take 79) (split_lines s))"
  shows "\<exists>c. Option.bind (InitializeConsole font fb) (put_chars font s) = Some c \<and>
    map c_str (buffer c) = map Some (ls @ replicate (25 - length ls) []) \<and>
    cursor_row c = length ls - 1 \<and> cursor_column c = length (last ls)"
proof -
  obtain c0 where c0: "InitializeConsole font fb = Some c0" "con_rel c0 (text_lines [])"
    using InitializeConsole_rel [OF assms(1-4)] by blast
  obtain c where c: "put_chars font s c0 = Some c" "con_rel c (text_lines s)"
    using put_chars_rel [OF c0(2) assms(1,5)] by blast
  have ls: "ls = shown (text_lines s)" using assms(6) by (simp add: text_lines_def)
  have "set ls \<subseteq> set (text_lines s)" unfolding ls by (simp add: shown_def set_drop_subset)
  then have "\<forall>l \<in> set ls. length l \<le> 79 \<and> CHR 0x00 \<notin> set l" using c(2) by (auto simp: con_rel_def)
  then have "map (\<lambda>l. c_str (pad l)) ls = map Some ls" by (intro map_cong refl c_str_pad) fastforce+
  then have "map c_str (buffer c) = map Some (ls @ replicate (25 - length ls) [])"
    using c(2) c_str_pad [of "[]"] by (simp add: con_rel_def ls comp_def)
  moreover have "last ls = last (text_lines s)" using c(2) by (simp add: ls last_shown con_rel_def)
  ultimately show ?thesis using c0(1) c ls by (simp add: con_rel_def)
qed

definition boot_screen :: FrameBuffer where
  "boot_screen = snd (FrameBuffer_Initialize \<lparr>frame_buffer = None, pixels_per_scan_line = 0, horizontal_resolution = 640,
     vertical_resolution = 400, pixel_format = kPixelRGBResv8BitPerColor\<rparr>)"

theorem console_shows_last_lines_witness:
  "\<exists>c. Option.bind (InitializeConsole blank_font boot_screen) (put_chars blank_font (''Uhyo'' @ [CHR 0x0A] @ ''OS'')) = Some c \<and>
     map c_str (buffer c) = Some ''Uhyo'' # Some ''OS'' # replicate 23 (Some []) \<and> cursor_row c = 1 \<and> cursor_column c = 2"
proof -
  let ?cfg = "\<lparr>frame_buffer = None, pixels_per_scan_line = 0, horizontal_resolution = 640, vertical_resolution = 400,
     pixel_format = kPixelRGBResv8BitPerColor\<rparr>"
  have i: "FrameBuffer_Initialize ?cfg = (kSuccess, boot_screen)"
    by (simp add: boot_screen_def FrameBuffer_Initialize_def BytesPerPixel_def Let_def)
  have fb: "fb_ok boot_screen" "horizontal_resolution (fb_config boot_screen) = 640" "vertical_resolution (fb_config boot_screen) = 400"
    using FrameBuffer_Initialize_ok [OF i] by simp_all
  show ?thesis
    using console_shows_last_lines [OF length_blank_font fb(1), of "''Uhyo'' @ [CHR 0x0A] @ ''OS''"]
    by (simp add: fb shown_def numeral_2_eq_2)
qed

text \<open>In a window the newline at the bottom scrolls the picture but not the text kept in \<open>buffer_\<close>: the rows stay,
  and the next line is written over the old last row.\<close>

lemma Newline_window_keeps_buffer:
  assumes "con_surface c = InWindow w" and "cursor_row c = kRows - 1" and "Newline font c = Some c'"
  shows "buffer c' = buffer c \<and> cursor_row c' = kRows - 1"
  using assms by (auto simp: Newline_def Let_def split: Option.bind_splits)

end
