(* ===== verification/Fat.thy ===== *)
theory Fat
  imports Byte_Memory
begin

text \<open>
  \<open>src/kernel/fat.hpp\<close> and \<open>fat.cpp\<close>: the boot sector and directory entries of the FAT32 volume image that the
  boot loader leaves in memory, the address of a cluster and the short name of a directory entry.
\<close>

subsection \<open>Structures\<close>

definition BPB :: struct where
  "BPB = [(''jump_boot'', 3), (''oem_name'', 8), (''bytes_per_sector'', 2), (''sectors_per_cluster'', 1),
     (''reserved_sector_count'', 2), (''num_fats'', 1), (''root_entry_count'', 2), (''total_sectors_16'', 2), (''media'', 1),
     (''fat_size_16'', 2), (''sectors_per_track'', 2), (''num_heads'', 2), (''hidden_sectors'', 4), (''total_sectors_32'', 4),
     (''fat_size_32'', 4), (''ext_flags'', 2), (''fs_version'', 2), (''root_cluster'', 4), (''fs_info'', 2),
     (''backup_boot_sector'', 2), (''reserved'', 12), (''drive_number'', 1), (''reserved1'', 1), (''boot_signature'', 1),
     (''volume_id'', 4), (''volume_label'', 11), (''fs_type'', 8)]"

definition DirectoryEntry :: struct where
  "DirectoryEntry = [(''name'', 11), (''attr'', 1), (''ntres'', 1), (''create_time_tenth'', 1), (''create_time'', 2),
     (''create_date'', 2), (''last_access_date'', 2), (''first_cluster_high'', 2), (''write_time'', 2), (''write_date'', 2),
     (''first_cluster_low'', 2), (''file_size'', 4)]"

definition kReadOnly :: u8 where "kReadOnly = 0x01"
definition kHidden :: u8 where "kHidden = 0x02"
definition kSystem :: u8 where "kSystem = 0x04"
definition kVolumeID :: u8 where "kVolumeID = 0x08"
definition kDirectory :: u8 where "kDirectory = 0x10"
definition kArchive :: u8 where "kArchive = 0x20"
definition kLongName :: u8 where "kLongName = 0x0f"

definition FirstCluster :: "memory \<Rightarrow> u64 \<Rightarrow> u32" where
  "FirstCluster mem entry =
     ucast (get_member DirectoryEntry ''first_cluster_low'' mem entry) OR
     push_bit 16 (ucast (get_member DirectoryEntry ''first_cluster_high'' mem entry))"

subsection \<open>Clusters\<close>

text \<open>\<open>num_fats * fat_size_32\<close> and the sum with \<open>reserved_sector_count\<close> are 32-bit operations, the rest has 64
  bits. \<open>img\<close> is \<open>boot_volume_image\<close>.\<close>

definition GetClusterAddr :: "memory \<Rightarrow> u64 \<Rightarrow> u64 \<Rightarrow> u64" where
  "GetClusterAddr mem img cluster =
     (let reserved_sectors = ucast (get_member BPB ''reserved_sector_count'' mem img) :: u32;
          fats = ucast (get_member BPB ''num_fats'' mem img) * ucast (get_member BPB ''fat_size_32'' mem img) :: u32;
          sector_num = ucast (reserved_sectors + fats) + (cluster - 2) * get_member BPB ''sectors_per_cluster'' mem img;
          offset = sector_num * get_member BPB ''bytes_per_sector'' mem img
      in img + offset)"

definition GetSectorByCluster :: "memory \<Rightarrow> u64 \<Rightarrow> u64 \<Rightarrow> u64" where
  "GetSectorByCluster mem img cluster = GetClusterAddr mem img cluster"

subsection \<open>Names\<close>

text \<open>The loop that replaces trailing blanks by zeros, from index \<open>n - 1\<close> downwards.\<close>

fun trim_blanks :: "nat \<Rightarrow> u8 list \<Rightarrow> u8 list" where
  "trim_blanks 0 s = s"
| "trim_blanks (Suc i) s = (if s ! i = 0x20 then trim_blanks i (s[i := 0]) else s)"

text \<open>The buffers \<open>base\<close> (9 bytes) and \<open>ext\<close> (4 bytes) after the call.\<close>

definition ReadName :: "u8 list \<Rightarrow> u8 list \<times> u8 list" where
  "ReadName name = (trim_blanks 8 (take 8 name @ [0]), trim_blanks 3 (take 3 (drop 8 name) @ [0]))"

text \<open>The C string in a buffer.\<close>

definition c_string :: "u8 list \<Rightarrow> u8 list" where
  "c_string buf = takeWhile (\<lambda>c. c \<noteq> 0) buf"

subsection \<open>Properties\<close>

definition rstrip :: "u8 list \<Rightarrow> u8 list" where
  "rstrip s = rev (dropWhile (\<lambda>c. c = 0x20) (rev s))"

lemma rstrip_snoc: "rstrip (s @ [c]) = (if c = 0x20 then rstrip s else s @ [c])"
  by (simp add: rstrip_def)

lemma trim_blanks_eq:
  "trim_blanks (length s) (s @ t) = rstrip s @ replicate (length s - length (rstrip s)) 0 @ t"
proof (induction s arbitrary: t rule: rev_induct)
  case Nil
  then show ?case by (simp add: rstrip_def)
next
  case (snoc c s)
  have le: "length (rstrip s) \<le> length s" by (simp add: rstrip_def length_dropWhile_le [of _ "rev s", simplified])
  have "replicate (length s - length (rstrip s)) 0 @ 0 # t = replicate (Suc (length s) - length (rstrip s)) (0 :: u8) @ t"
    using le by (simp add: Suc_diff_le replicate_append_same [symmetric])
  with snoc [of "0 # t"] show ?case by (simp add: rstrip_snoc nth_append)
qed

lemma rstrip_pad:
  assumes "s = [] \<or> last s \<noteq> 0x20"
  shows "rstrip (s @ replicate n 0x20) = s"
proof (induction n)
  case 0
  show ?case using assms by (cases s rule: rev_cases) (auto simp: rstrip_snoc, simp add: rstrip_def)
next
  case (Suc n)
  then show ?case by (simp add: replicate_append_same [symmetric] rstrip_snoc flip: append_assoc)
qed

lemma c_string_trim:
  assumes "0 \<notin> set s" and "s = [] \<or> last s \<noteq> 0x20" and "length s \<le> n"
  shows "c_string (trim_blanks n (s @ replicate (n - length s) 0x20 @ [0])) = s"
proof -
  let ?p = "s @ replicate (n - length s) 0x20"
  have "trim_blanks n (?p @ [0]) = s @ replicate (n - length s) 0 @ [0]"
    using trim_blanks_eq [of ?p "[0]"] assms(3) by (simp add: rstrip_pad [OF assms(2)])
  moreover have "takeWhile (\<lambda>c. c \<noteq> 0) (s @ replicate k 0 @ [0]) = s" for k
    using assms(1) by (subst takeWhile_append2) (auto, cases k, auto)
  ultimately show ?thesis by (simp add: c_string_def)
qed

text \<open>C35: the 8.3 name of a directory entry, each part padded with blanks, is read back exactly, as long as a
  part contains no zero and does not itself end in a blank.\<close>

theorem ReadName_roundtrip:
  assumes "length b \<le> 8" "0 \<notin> set b" "b = [] \<or> last b \<noteq> 0x20" and "length x \<le> 3" "0 \<notin> set x" "x = [] \<or> last x \<noteq> 0x20"
    and "name = b @ replicate (8 - length b) 0x20 @ x @ replicate (3 - length x) 0x20"
  shows "c_string (fst (ReadName name)) = b \<and> c_string (snd (ReadName name)) = x"
proof -
  have "take 8 name = b @ replicate (8 - length b) 0x20" "take 3 (drop 8 name) = x @ replicate (3 - length x) 0x20"
    using assms(1,4,7) by simp_all
  then show ?thesis using c_string_trim [OF assms(2,3,1)] c_string_trim [OF assms(5,6,4)] by (simp add: ReadName_def)
qed

theorem ReadName_roundtrip_witness:
  "c_string (fst (ReadName [75, 69, 82, 78, 69, 76, 32, 32, 69, 76, 70])) = [75, 69, 82, 78, 69, 76] \<and>
   c_string (snd (ReadName [75, 69, 82, 78, 69, 76, 32, 32, 69, 76, 70])) = [69, 76, 70]"
proof -
  have "replicate 2 x = [x, x]" for x :: u8 by (simp add: numeral_2_eq_2)
  then show ?thesis by (intro ReadName_roundtrip) simp_all
qed

text \<open>A member of the boot sector as a number.\<close>

definition bpb :: "string \<Rightarrow> memory \<Rightarrow> u64 \<Rightarrow> nat" where
  "bpb f mem img = unat (get_member BPB f mem img)"

lemma unat_ucast_u32: "unat x < 2 ^ 32 \<Longrightarrow> unat (ucast x :: u32) = unat x" for x :: u64
  by (simp add: unsigned_ucast_eq take_bit_nat_eq_self)

lemma unat_ucast_u64: "unat (ucast x :: u64) = unat x" for x :: u32
  by (simp add: unsigned_ucast_eq take_bit_nat_eq_self order_less_trans [OF unsigned_less])

lemma unat_add_u64: "unat a + unat b < 2 ^ 64 \<Longrightarrow> unat (a + b) = unat a + unat b" for a b :: u64
  by (subst unat_add_lem [THEN iffD1]) simp_all

lemma unat_mult_u64: "unat a * unat b < 2 ^ 64 \<Longrightarrow> unat (a * b) = unat a * unat b" for a b :: u64
  by (subst unat_mult_lem [THEN iffD1]) simp_all

definition first_data_sector :: "memory \<Rightarrow> u64 \<Rightarrow> nat" where
  "first_data_sector mem img = bpb ''reserved_sector_count'' mem img + bpb ''num_fats'' mem img * bpb ''fat_size_32'' mem img"

definition cluster_bytes :: "memory \<Rightarrow> u64 \<Rightarrow> nat" where
  "cluster_bytes mem img = bpb ''sectors_per_cluster'' mem img * bpb ''bytes_per_sector'' mem img"

definition cluster_offset :: "memory \<Rightarrow> u64 \<Rightarrow> nat \<Rightarrow> nat" where
  "cluster_offset mem img c = first_data_sector mem img * bpb ''bytes_per_sector'' mem img + (c - 2) * cluster_bytes mem img"

lemma GetClusterAddr_value:
  assumes "2 \<le> unat c" and "first_data_sector mem img < 2 ^ 32" and "unat img + cluster_offset mem img (unat c) < 2 ^ 64"
    and "0 < bpb ''bytes_per_sector'' mem img"
  shows "unat (GetClusterAddr mem img c) = unat img + cluster_offset mem img (unat c)"
proof -
  let ?m = "\<lambda>f. get_member BPB f mem img"
  let ?bps = "bpb ''bytes_per_sector'' mem img" and ?spc = "bpb ''sectors_per_cluster'' mem img"
  let ?fats = "ucast (?m ''num_fats'') * ucast (?m ''fat_size_32'') :: u32"
  have b: "unat (?m ''reserved_sector_count'') < 2 ^ 32" "unat (?m ''num_fats'') < 2 ^ 32" "unat (?m ''fat_size_32'') < 2 ^ 32"
    by (rule get_member_bound, simp add: BPB_def)+
  have "unat ?fats = bpb ''num_fats'' mem img * bpb ''fat_size_32'' mem img"
    using assms(2) b by (subst unat_mult_lem [THEN iffD1]) (simp_all add: unat_ucast_u32 bpb_def first_data_sector_def)
  then have fd: "unat (ucast (?m ''reserved_sector_count'') + ?fats) = first_data_sector mem img"
    using assms(2) b by (subst unat_add_lem [THEN iffD1]) (simp_all add: unat_ucast_u32 bpb_def first_data_sector_def)
  have c2: "unat (c - 2) = unat c - 2" using assms(1) by (simp add: unat_sub word_le_nat_alt)
  have off: "cluster_offset mem img (unat c) = (first_data_sector mem img + (unat c - 2) * ?spc) * ?bps"
    by (simp add: cluster_offset_def cluster_bytes_def algebra_simps)
  have "first_data_sector mem img + (unat c - 2) * ?spc \<le> cluster_offset mem img (unat c)" using assms(4) by (simp add: off)
  then have lt: "first_data_sector mem img + (unat c - 2) * ?spc < 2 ^ 64" using assms(3) by simp
  have p: "unat ((c - 2) * ?m ''sectors_per_cluster'') = (unat c - 2) * ?spc"
    using lt by (subst unat_mult_u64) (simp_all add: c2 bpb_def)
  have q: "unat (ucast (ucast (?m ''reserved_sector_count'') + ?fats) + (c - 2) * ?m ''sectors_per_cluster'' :: u64) =
      first_data_sector mem img + (unat c - 2) * ?spc"
    using lt by (subst unat_add_u64) (simp_all add: unat_ucast_u64 fd p)
  have "unat ((ucast (ucast (?m ''reserved_sector_count'') + ?fats) + (c - 2) * ?m ''sectors_per_cluster'') * ?m ''bytes_per_sector'') =
      cluster_offset mem img (unat c)"
    using assms(3) by (subst unat_mult_u64) (simp_all add: q off bpb_def)
  then show ?thesis using assms(3) by (simp add: GetClusterAddr_def Let_def unat_add_u64)
qed

text \<open>on a volume that fits into the address space and whose FATs have fewer than \<open>2 ^ 32\<close> sectors, the
  clusters lie one after the other behind the FATs: cluster 2 at the first data sector, no two clusters
  overlapping.\<close>

theorem clusters_disjoint:
  assumes "2 \<le> unat c" "unat c < unat c'" and "first_data_sector mem img < 2 ^ 32"
    and "unat img + cluster_offset mem img (unat c') < 2 ^ 64" and "0 < bpb ''bytes_per_sector'' mem img"
  shows "unat img + first_data_sector mem img * bpb ''bytes_per_sector'' mem img + (unat c - 2) * cluster_bytes mem img =
      unat (GetClusterAddr mem img c) \<and>
    unat (GetClusterAddr mem img c) + cluster_bytes mem img \<le> unat (GetClusterAddr mem img c')"
proof -
  have "cluster_offset mem img (unat c) + cluster_bytes mem img = cluster_offset mem img (Suc (unat c))"
    using assms(1) by (simp add: cluster_offset_def Suc_diff_le [symmetric] add.commute [of _ "cluster_bytes mem img"] flip: mult_Suc)
  also have "\<dots> \<le> cluster_offset mem img (unat c')" using assms(2) by (auto simp: cluster_offset_def intro!: mult_right_mono)
  finally have le: "cluster_offset mem img (unat c) + cluster_bytes mem img \<le> cluster_offset mem img (unat c')" .
  have "unat (GetClusterAddr mem img c) = unat img + cluster_offset mem img (unat c)"
    using assms le by (intro GetClusterAddr_value) auto
  moreover have "unat (GetClusterAddr mem img c') = unat img + cluster_offset mem img (unat c')"
    using assms by (intro GetClusterAddr_value) auto
  ultimately show ?thesis using le by (simp add: cluster_offset_def)
qed

text \<open>A volume with 512-byte sectors, 2 sectors per cluster, 32 reserved sectors and 2 FATs of 100 sectors.\<close>

definition example_volume :: memory where
  "example_volume = mem_put 0x100000 (replicate 11 0 @ [0, 2, 2, 32, 0, 2] @ replicate 19 0 @ [100, 0, 0, 0]) (\<lambda>_. 0)"

theorem clusters_disjoint_witness:
  "unat (GetClusterAddr example_volume 0x100000 3) = 0x100000 + 232 * 512 + 1024 \<and>
   unat (GetClusterAddr example_volume 0x100000 3) + 1024 \<le> unat (GetClusterAddr example_volume 0x100000 5)"
proof -
  have m: "bpb ''bytes_per_sector'' example_volume 0x100000 = 512" "bpb ''sectors_per_cluster'' example_volume 0x100000 = 2"
    "bpb ''reserved_sector_count'' example_volume 0x100000 = 32" "bpb ''num_fats'' example_volume 0x100000 = 2"
    "bpb ''fat_size_32'' example_volume 0x100000 = 100"
    by (simp_all add: bpb_def get_member_def BPB_def example_volume_def mem_put_def nth_append)
  show ?thesis using clusters_disjoint [of 3 5 example_volume "0x100000"]
    by (simp add: first_data_sector_def cluster_bytes_def cluster_offset_def m)
qed

end
