(* ===== verification/Window_Drawing.thy ===== *)
theory Window_Drawing
  imports Window
begin

text \<open>
  Drawing inside the bounds of a window never fails and leaves a well-formed window of the same shape. The
  terminal and the windows of \<open>main.cpp\<close> are drawn by these routines only. It holds no definition of the
  code.
\<close>

text \<open>Everything a window promises its layer.\<close>

definition win_kept :: "Window \<Rightarrow> bool \<times> Vector2D \<times> PixelColor option \<times> string option \<times> FrameBufferConfig" where
  "win_kept w = (win_ok w, win_shape w)"

definition redrawn :: "Window \<Rightarrow> Window \<Rightarrow> bool" where
  "redrawn w w' \<longleftrightarrow> win_ok w' \<and> win_shape w' = win_shape w"

lemma redrawn_trans: "redrawn w1 w2 \<Longrightarrow> redrawn w2 w3 \<Longrightarrow> redrawn w1 w3"
  by (simp add: redrawn_def)

lemma redrawn_size: "redrawn w w' \<Longrightarrow> Window_Size w' = Window_Size w \<and> win_title w' = win_title w \<and>
    transparent_color w' = transparent_color w \<and> fb_config (shadow_buffer w') = fb_config (shadow_buffer w)"
  by (simp add: redrawn_def win_shape_def)

lemma redrawn_kept: "win_ok w \<Longrightarrow> win_kept w' = win_kept w \<Longrightarrow> redrawn w w'"
  by (simp add: redrawn_def win_kept_def)

lemma Window_Write_win_ok:
  assumes "Window_Write p c w = Some w'"
  shows "win_ok w' = win_ok w"
proof -
  obtain fb where fb: "FrameBuffer_Write p c (shadow_buffer w) = Some fb"
    and p: "nat (vy p) < length (win_data w)" "nat (vx p) < length (win_data w ! nat (vy p))"
    and w': "w' = w\<lparr>win_data := (win_data w)[nat (vy p) := (win_data w ! nat (vy p))[nat (vx p) := c]], shadow_buffer := fb\<rparr>"
    using assms by (auto simp: Window_Write_def arr_get_def arr_set_def split: if_splits Option.bind_splits)
  have rows: "(\<forall>row \<in> set (win_data w'). length row = n) \<longleftrightarrow> (\<forall>row \<in> set (win_data w). length row = n)" for n
  proof -
    have "map length (win_data w') = map length (win_data w)"
      unfolding w' by (rule nth_equalityI) (use p(1) in \<open>auto simp: nth_list_update\<close>)
    from arg_cong [OF this, of set] have "length ` set (win_data w') = length ` set (win_data w)" by simp
    moreover have "(\<forall>row \<in> R. length row = n) \<longleftrightarrow> length ` R \<subseteq> {n}" for R :: "PixelColor list set" by auto
    ultimately show ?thesis by simp
  qed
  have "fb_shape fb = fb_shape (shadow_buffer w)" using fb by (rule FrameBuffer_Write_shape)
  then have "fb_ok fb = fb_ok (shadow_buffer w)" "fb_config fb = fb_config (shadow_buffer w)"
    by (rule fb_ok_shape) (use \<open>fb_shape fb = fb_shape (shadow_buffer w)\<close> in \<open>simp add: fb_shape_def\<close>)
  with rows show ?thesis unfolding win_ok_def by (simp add: w' Window_Size_def)
qed

interpretation win_keeper: stable_writer Window_Write win_kept
  by unfold_locales (simp add: win_kept_def Window_Write_win_ok win_writer.put_stable)

interpretation inner_keeper: stable_writer Inner_Write win_kept
  by unfold_locales (simp add: Inner_Write_def win_keeper.put_stable)

text \<open>The inner writer of a top-level window draws on the same pixels, shifted by the margin.\<close>

definition inner_get :: "Window \<Rightarrow> Vector2D \<Rightarrow> PixelColor" where
  "inner_get w p = win_get w (vec_add p kTopLeftMargin)"

definition inner_inside :: "Window \<Rightarrow> Vector2D \<Rightarrow> bool" where
  "inner_inside w p \<longleftrightarrow> win_inside w (vec_add p kTopLeftMargin)"

lemma vec_add_margin_inj: "vec_add p kTopLeftMargin = vec_add q kTopLeftMargin \<longleftrightarrow> p = q"
  by (cases p; cases q) (simp add: vec_add_def)

interpretation inner_surface: pixel_surface Inner_Write inner_get inner_inside
proof
  fix w :: Window and p c assume "inner_inside w p"
  then have "win_inside w (vec_add p kTopLeftMargin)" by (simp add: inner_inside_def)
  from win_surface.write_ok [OF this, of c]
  show "\<exists>s'. Inner_Write p c w = Some s' \<and> inner_get s' p = c \<and> (\<forall>q. inner_inside s' q = inner_inside w q) \<and>
      (\<forall>q. inner_inside w q \<longrightarrow> q \<noteq> p \<longrightarrow> inner_get s' q = inner_get w q)"
    unfolding Inner_Write_def inner_get_def inner_inside_def by (metis vec_add_margin_inj)
qed

text \<open>Rectangles inside a window.\<close>

definition fits :: "Window \<Rightarrow> Vector2D \<Rightarrow> Vector2D \<Rightarrow> bool" where
  "fits w p sz \<longleftrightarrow> win_ok w \<and> 0 \<le> vx p \<and> 0 \<le> vy p \<and> vx p + vx sz \<le> win_width w \<and> vy p + vy sz \<le> win_height w"

lemma fits_inside: "fits w p sz \<Longrightarrow> in_rect q \<lparr>pos = p, size = sz\<rparr> \<Longrightarrow> win_inside w q"
  by (auto simp: fits_def win_inside_def in_rect_def Window_Size_def)

lemma fits_inner_inside: "fits w (vec_add p kTopLeftMargin) sz \<Longrightarrow> in_rect q \<lparr>pos = p, size = sz\<rparr> \<Longrightarrow> inner_inside w q"
  unfolding inner_inside_def by (erule fits_inside) (auto simp: in_rect_def vec_add_def)

lemma fill_redrawn:
  assumes "fits w p sz"
  shows "\<exists>w'. fill_where P Window_Write p sz c w = Some w' \<and> redrawn w w'"
  using win_surface.fill_where_draws [OF fits_inside [OF assms], where P = P and c = c] redrawn_kept win_keeper.fill_where_stable assms
  unfolding fits_def by blast

lemma FillRectangle_redrawn:
  "fits w p sz \<Longrightarrow> \<exists>w'. FillRectangle Window_Write p sz c w = Some w' \<and> redrawn w w'"
  unfolding FillRectangle_def by (rule fill_redrawn)

lemma FillRectangle_inner_redrawn:
  assumes "fits w (vec_add p kTopLeftMargin) sz"
  shows "\<exists>w'. FillRectangle Inner_Write p sz c w = Some w' \<and> redrawn w w'"
  using inner_surface.fill_where_draws [OF fits_inner_inside [OF assms]] redrawn_kept inner_keeper.fill_where_stable assms
  unfolding fits_def FillRectangle_def by blast

lemma WriteAscii_redrawn:
  assumes "length font = 4096" and "fits w p (V 8 16)"
  shows "\<exists>w'. WriteAscii font Window_Write p ch c w = Some w' \<and> redrawn w w'"
  using win_surface.WriteAscii_draws [OF assms(1) fits_inside [OF assms(2)], where c = ch and color = c]
    redrawn_kept win_keeper.WriteAscii_stable assms(2) unfolding fits_def by blast

lemma WriteString_redrawn:
  assumes "length font = 4096" and "fits w p (V (8 * int (length str)) 16)"
  shows "\<exists>w'. WriteString font Window_Write p str c w = Some w' \<and> redrawn w w'"
  using win_surface.WriteString_draws [OF assms(1) fits_inside [OF assms(2)], where color = c]
    redrawn_kept win_keeper.WriteString_stable assms(2) unfolding fits_def by blast

lemma WriteAscii_inner_redrawn:
  assumes "length font = 4096" and "fits w (vec_add p kTopLeftMargin) (V 8 16)"
  shows "\<exists>w'. WriteAscii font Inner_Write p ch c w = Some w' \<and> redrawn w w'"
  using inner_surface.WriteAscii_draws [OF assms(1) fits_inner_inside [OF assms(2)], where c = ch and color = c]
    redrawn_kept inner_keeper.WriteAscii_stable assms(2) unfolding fits_def by blast

lemma WriteString_inner_redrawn:
  assumes "length font = 4096" and "fits w (vec_add p kTopLeftMargin) (V (8 * int (length str)) 16)"
  shows "\<exists>w'. WriteString font Inner_Write p str c w = Some w' \<and> redrawn w w'"
  using inner_surface.WriteString_draws [OF assms(1) fits_inner_inside [OF assms(2)], where color = c]
    redrawn_kept inner_keeper.WriteString_stable assms(2) unfolding fits_def by blast

lemma fits_fb: "fits w p sz \<Longrightarrow> 0 \<le> vx sz \<Longrightarrow> 0 \<le> vy sz \<Longrightarrow> rect_inside (shadow_buffer w) \<lparr>pos = p, size = sz\<rparr>"
  by (auto simp: fits_def win_ok_def rect_inside_def rect_ok_def FrameBufferSize_def Window_Size_def)

lemma Window_Move_redrawn:
  assumes "fits w p sz" "fits w q sz" "vy p \<noteq> vy q" "0 \<le> vx sz" "0 \<le> vy sz"
  shows "\<exists>w'. Window_Move p \<lparr>pos = q, size = sz\<rparr> w = Some w' \<and> redrawn w w'"
proof -
  have ok: "win_ok w" using assms(1) by (simp add: fits_def)
  then have "fb_ok (shadow_buffer w)" by (simp add: win_ok_def)
  from FrameBuffer_Move_spec [OF this fits_fb [OF assms(2,4,5)], of p] fits_fb [OF assms(1,4,5)] assms(3)
  obtain fb' where "FrameBuffer_Move p \<lparr>pos = q, size = sz\<rparr> (shadow_buffer w) = Some fb'"
      "fb_config fb' = fb_config (shadow_buffer w)" "fb_ok fb'" by (auto simp: slides_def)
  then show ?thesis using ok by (auto simp: Window_Move_def redrawn_def win_shape_def win_ok_def Window_Size_def)
qed

text \<open>A new top-level window is well-formed and draws its decoration.\<close>

lemma ToplevelWindow_new_ok:
  assumes font: "length font = 4096" and n: "4 * width * height < 2 ^ 32" and fmt: "fmt \<noteq> other_format"
    and fit: "24 + 8 * int (length title) \<le> int width" "20 \<le> height"
  shows "\<exists>w. ToplevelWindow_new font width height fmt title = Some w \<and> win_ok w \<and> Window_Size w = V (int width) (int height) \<and>
    win_title w = Some title \<and> transparent_color w = None \<and> pixel_format (fb_config (shadow_buffer w)) = fmt"
proof -
  let ?w = "(Window_new width height fmt)\<lparr>win_title := Some title\<rparr>"
  have ok: "win_ok ?w" "Window_Size ?w = V (int width) (int height)"
    using Window_new_ok [OF n fmt] by (auto simp: win_ok_def Window_Size_def)
  then have wh: "win_width ?w = int width" "win_height ?w = int height" by (simp_all add: Window_Size_def)
  have full: "fits w (V 0 0) (V (int width) h)" if "redrawn ?w w" "h \<le> int height" for w h
    using that wh by (simp add: fits_def redrawn_def win_shape_def Window_Size_def)
  have r0: "redrawn ?w ?w" using ok by (simp add: redrawn_def)
  obtain w1 where w1: "FillRectangle Window_Write (V 0 0) (V (int width) (int height)) (ToColor 0xB5EAEA) ?w = Some w1" "redrawn ?w w1"
    using FillRectangle_redrawn [OF full [OF r0]] by blast
  obtain w2 where w2: "FillRectangleRound Window_Write (V 0 0) (V (int width) (int height)) (ToColor 0xFFFBE9) 3 w1 = Some w2" "redrawn ?w w2"
    using fill_redrawn [OF full [OF w1(2)]] redrawn_trans [OF w1(2)] unfolding FillRectangleRound_def by blast
  have "20 \<le> int height" using fit(2) by simp
  then obtain w3 where w3: "FillRectangleRoundUpper Window_Write (V 0 0) (V (int width) 20) (ToColor 0xAD8B73) 3 w2 = Some w3" "redrawn ?w w3"
    using fill_redrawn [OF full [OF w2(2)]] redrawn_trans [OF w2(2)] unfolding FillRectangleRoundUpper_def by blast
  have size3: "win_width w3 = int width" "win_height w3 = int height" "win_ok w3"
    using w3(2) wh by (simp_all add: redrawn_def win_shape_def Window_Size_def)
  obtain w4 where w4: "DrawWindowTitle font Window_Write (int width) title False w3 = Some w4" "redrawn ?w w4"
    using Window_title_redrawn [OF font size3(3), of title False] size3 fit redrawn_trans [OF w3(2)] by (fastforce simp: redrawn_def)
  have "ToplevelWindow_new font width height fmt title = Some w4"
    using w1(1) w2(1) w3(1) w4(1) wh by (simp add: ToplevelWindow_new_def DrawWindow_def)
  moreover have "transparent_color ?w = None" "pixel_format (fb_config (shadow_buffer ?w)) = fmt"
    using fmt by (simp_all add: Window_new_def FrameBuffer_Initialize_def BytesPerPixel_def Let_def split: PixelFormat.splits)
  ultimately show ?thesis using w4(2) redrawn_size [OF w4(2)] ok(2) by (auto simp: redrawn_def)
qed

end
