(* ===== verification/Terminal.thy ===== *)
theory Terminal
  imports Layer_Manager Pci Fat Window_Drawing
begin

text \<open>
  \<open>src/kernel/terminal.hpp\<close> and \<open>terminal.cpp\<close>: the terminal window, its line editor with a history, its built-in
  commands and the task that runs it. \<open>term_win\<close> is the window the terminal shares with its layer; it is
  number \<open>term_window\<close> of the window store. Positions are columns and rows.
\<close>

subsection \<open>State\<close>

definition Terminal_kRows :: int where "Terminal_kRows = 15"
definition Terminal_kColumns :: int where "Terminal_kColumns = 60"
definition kLineMax :: nat where "kLineMax = 128"

record Terminal =
  term_win :: Window
  term_window :: nat
  term_layer_id :: u32
  cursor :: Vector2D
  cursor_visible :: bool
  linebuf_index :: nat
  linebuf :: "char list"
  cmd_history :: "char list list"
  cmd_history_index :: int

text \<open>What the commands read: the devices of the bus scan and the boot volume in memory.\<close>

record machine =
  mc_conf :: config_space
  mc_pci :: pci_state
  mc_mem :: memory
  boot_volume_image :: u64

definition null :: char where "null = CHR 0x00"

definition empty_line :: "char list" where
  "empty_line = replicate kLineMax null"

text \<open>The C string at the start of an array; \<open>None\<close> when no terminator is in it.\<close>

definition c_str :: "char list \<Rightarrow> string option" where
  "c_str buf = (if null \<in> set buf then Some (takeWhile (\<lambda>c. c \<noteq> null) buf) else None)"

subsection \<open>Drawing\<close>

definition CalcCursorPos :: "Terminal \<Rightarrow> Vector2D" where
  "CalcCursorPos t = vec_add kTopLeftMargin (V (4 + 8 * vx (cursor t)) (4 + 16 * vy (cursor t)))"

definition on_win :: "(Window \<Rightarrow> Window option) \<Rightarrow> Terminal \<Rightarrow> Terminal option" where
  "on_win f t = map_option (\<lambda>w. t\<lparr>term_win := w\<rparr>) (f (term_win t))"

definition DrawCursor :: "bool \<Rightarrow> Terminal \<Rightarrow> Terminal option" where
  "DrawCursor visible t =
     (let color = (if visible then ToColor 0xa47fff else ToColor 0xC8B2FF)
      in on_win (FillRectangle Window_Write (CalcCursorPos t) (V 7 15) color) t)"

definition BlinkCursor :: "Terminal \<Rightarrow> (Rectangle \<times> Terminal) option" where
  "BlinkCursor t = do {
     let t = t\<lparr>cursor_visible := \<not> cursor_visible t\<rparr>;
     t \<leftarrow> DrawCursor (cursor_visible t) t;
     Some (\<lparr>pos = CalcCursorPos t, size = V 7 15\<rparr>, t)
   }"

definition background :: PixelColor where "background = \<lparr>red = 200, green = 178, blue = 255\<rparr>"
definition white :: PixelColor where "white = \<lparr>red = 255, green = 255, blue = 255\<rparr>"

definition Scroll1 :: "Terminal \<Rightarrow> Terminal option" where
  "Scroll1 t = do {
     let move_src = \<lparr>pos = vec_add kTopLeftMargin (V 4 (4 + 16)), size = V (8 * Terminal_kColumns) (16 * (Terminal_kRows - 1))\<rparr>;
     t \<leftarrow> on_win (Window_Move (vec_add kTopLeftMargin (V 4 4)) move_src) t;
     on_win (FillRectangle Inner_Write (V 4 (4 + 16 * vy (cursor t))) (V (8 * Terminal_kColumns) 16) background) t
   }"

text \<open>The lambda \<open>newline\<close> of \<open>Print\<close>; the Enter key does the same.\<close>

definition newline :: "Terminal \<Rightarrow> Terminal option" where
  "newline t =
     (let t = t\<lparr>cursor := V 0 (vy (cursor t))\<rparr>
      in if vy (cursor t) < Terminal_kRows - 1 then Some (t\<lparr>cursor := V 0 (vy (cursor t) + 1)\<rparr>) else Scroll1 t)"

definition print_char :: "u8 list \<Rightarrow> char \<Rightarrow> Terminal \<Rightarrow> Terminal option" where
  "print_char font c t =
     (if c = CHR 0x0A then newline t
      else do {
        t \<leftarrow> on_win (WriteAscii font Window_Write (CalcCursorPos t) c white) t;
        if vx (cursor t) = Terminal_kColumns - 1 then newline t
        else Some (t\<lparr>cursor := V (vx (cursor t) + 1) (vy (cursor t))\<rparr>)
      })"

definition Print :: "u8 list \<Rightarrow> string \<Rightarrow> Terminal \<Rightarrow> Terminal option" where
  "Print font s t = do {
     t \<leftarrow> DrawCursor False t;
     t \<leftarrow> foldM (print_char font) s t;
     DrawCursor True t
   }"

subsection \<open>Formatting\<close>

text \<open>The conversions of \<open>sprintf\<close> that the commands use.\<close>

definition hex_digit :: "nat \<Rightarrow> char" where
  "hex_digit n = ''0123456789abcdef'' ! (n mod 16)"

fun hex_of :: "nat \<Rightarrow> string" where
  "hex_of n = (if n < 16 then [hex_digit n] else hex_of (n div 16) @ [hex_digit n])"

fun dec_of :: "nat \<Rightarrow> string" where
  "dec_of n = (if n < 10 then [hex_digit n] else dec_of (n div 10) @ [hex_digit (n mod 10)])"

declare hex_of.simps [simp del] dec_of.simps [simp del]

definition pad_left :: "char \<Rightarrow> nat \<Rightarrow> string \<Rightarrow> string" where
  "pad_left c n s = replicate (n - length s) c @ s"

definition lspci_line :: "config_space \<Rightarrow> Pci.Device \<Rightarrow> string" where
  "lspci_line conf dev =
     (let vendor_id = ReadVendorId conf (bus dev) (device dev) (func dev); cc = class_code dev
      in pad_left (CHR ''0'') 2 (hex_of (unat (bus dev))) @ '':'' @ pad_left (CHR ''0'') 2 (hex_of (unat (device dev))) @ ''.'' @
         dec_of (unat (func dev)) @ '' vend='' @ pad_left (CHR ''0'') 4 (hex_of (unat vendor_id)) @
         '' head='' @ pad_left (CHR ''0'') 2 (hex_of (unat (header_type dev))) @
         '' class='' @ pad_left (CHR '' '') 2 (hex_of (unat (cc_base cc))) @ ''.'' @
         pad_left (CHR '' '') 2 (hex_of (unat (cc_sub cc))) @ ''.'' @ pad_left (CHR '' '') 2 (hex_of (unat (cc_interface cc))) @ [CHR 0x0A])"

definition char_u8 :: "u8 \<Rightarrow> char" where
  "char_u8 b = char_of (unat b)"

definition ls_line :: "u8 list \<Rightarrow> u8 list \<Rightarrow> string" where
  "ls_line base ext =
     (if ext ! 0 \<noteq> 0 then map char_u8 (c_string base) @ ''.'' @ map char_u8 (c_string ext) @ [CHR 0x0A]
      else map char_u8 (c_string base) @ [CHR 0x0A])"

text \<open>The lines of \<open>ls\<close>: the loop over the entries of the directory at \<open>dir\<close>.\<close>

fun ls_lines :: "memory \<Rightarrow> u64 \<Rightarrow> nat list \<Rightarrow> string list" where
  "ls_lines mem dir [] = []"
| "ls_lines mem dir (i # is) =
     (let entry = dir + of_nat (sizeof DirectoryEntry * i);
          (base, ext) = ReadName (member_bytes DirectoryEntry ''name'' mem entry)
      in if base ! 0 = 0 then []
         else if base ! 0 = 0xe5 then ls_lines mem dir is
         else if ucast (get_member DirectoryEntry ''attr'' mem entry) = kLongName then ls_lines mem dir is
         else ls_line base ext # ls_lines mem dir is)"

definition entries_per_cluster :: "memory \<Rightarrow> u64 \<Rightarrow> u64" where
  "entries_per_cluster mem img =
     get_member BPB ''bytes_per_sector'' mem img div of_nat (sizeof DirectoryEntry) * get_member BPB ''sectors_per_cluster'' mem img"

subsection \<open>Commands\<close>

definition lspci_command :: "u8 list \<Rightarrow> machine \<Rightarrow> Terminal \<Rightarrow> Terminal option" where
  "lspci_command font mc t = foldM (\<lambda>i t. do {
     dev \<leftarrow> arr_get (devices (mc_pci mc)) i;
     Print font (lspci_line (mc_conf mc) dev) t
   }) [0..<num_device (mc_pci mc)] t"

definition ls_command :: "u8 list \<Rightarrow> machine \<Rightarrow> Terminal \<Rightarrow> Terminal option" where
  "ls_command font mc t =
     (let mem = mc_mem mc; img = boot_volume_image mc;
          root_dir_entries = GetSectorByCluster mem img (get_member BPB ''root_cluster'' mem img)
      in foldM (Print font) (ls_lines mem root_dir_entries [0..<unat (entries_per_cluster mem img)]) t)"

text \<open>\<open>strchr(linebuf, ' ')\<close>: the position of the first blank of the C string.\<close>

definition find_blank :: "string \<Rightarrow> nat option" where
  "find_blank s = (if CHR '' '' \<in> set s then Some (length (takeWhile (\<lambda>c. c \<noteq> CHR '' '') s)) else None)"

definition ExecuteLine :: "u8 list \<Rightarrow> machine \<Rightarrow> Terminal \<Rightarrow> Terminal option" where
  "ExecuteLine font mc t = do {
     line \<leftarrow> c_str (linebuf t);
     let blank = find_blank line;
     let t = (case blank of None \<Rightarrow> t | Some i \<Rightarrow> t\<lparr>linebuf := (linebuf t)[i := null]\<rparr>);
     let command = (case blank of None \<Rightarrow> line | Some i \<Rightarrow> take i line);
     let first_arg = (case blank of None \<Rightarrow> None | Some i \<Rightarrow> Some (drop (Suc i) line));
     if command = ''echo'' then do {
       t \<leftarrow> (case first_arg of Some a \<Rightarrow> Print font a t | None \<Rightarrow> Some t);
       Print font [CHR 0x0A] t
     }
     else if command = ''clear'' then do {
       t \<leftarrow> on_win (FillRectangle Inner_Write (V 4 4) (V (8 * Terminal_kColumns) (16 * Terminal_kRows)) background) t;
       Some (t\<lparr>cursor := V (vx (cursor t)) 0\<rparr>)
     }
     else if command = ''lspci'' then lspci_command font mc t
     else if command = ''ls'' then ls_command font mc t
     else if command \<noteq> [] then do {
       t \<leftarrow> Print font ''no such command: '' t;
       t \<leftarrow> Print font command t;
       Print font [CHR 0x0A] t
     }
     else Some t
   }"

subsection \<open>Keys\<close>

text \<open>\<open>strcpy\<close> into an array: the string and its terminator over the start of it.\<close>

definition strcpy :: "string \<Rightarrow> char list \<Rightarrow> char list option" where
  "strcpy s buf = (if length s < length buf then Some (s @ null # drop (Suc (length s)) buf) else None)"

definition HistoryUpDown :: "u8 list \<Rightarrow> int \<Rightarrow> Terminal \<Rightarrow> (Rectangle \<times> Terminal) option" where
  "HistoryUpDown font direction t = do {
     let i = cmd_history_index t;
     let i = (if direction = -1 \<and> i \<ge> 0 then i - 1
              else if direction = 1 \<and> i + 1 < int (length (cmd_history t)) then i + 1 else i);
     let t = t\<lparr>cmd_history_index := i, cursor := V 1 (vy (cursor t))\<rparr>;
     let first_pos = CalcCursorPos t;
     let draw_area = \<lparr>pos = first_pos, size = V (8 * (Terminal_kColumns - 1)) 16\<rparr>;
     t \<leftarrow> on_win (FillRectangle Window_Write (pos draw_area) (size draw_area) background) t;
     history \<leftarrow> (if i \<ge> 0 then do { entry \<leftarrow> arr_get (cmd_history t) (nat i); c_str entry } else Some []);
     buf \<leftarrow> strcpy history (linebuf t);
     let t = t\<lparr>linebuf := buf, linebuf_index := length history\<rparr>;
     t \<leftarrow> on_win (WriteString font Window_Write first_pos history white) t;
     Some (draw_area, t\<lparr>cursor := V (int (linebuf_index t) + 1) (vy (cursor t))\<rparr>)
   }"

text \<open>\<open>cmd_history_.resize(8)\<close>.\<close>

definition resize_history :: "char list list \<Rightarrow> char list list" where
  "resize_history h = take 8 h @ replicate (8 - length h) empty_line"

definition enter_key :: "u8 list \<Rightarrow> machine \<Rightarrow> Terminal \<Rightarrow> (Rectangle \<times> Terminal) option" where
  "enter_key font mc t = do {
     buf \<leftarrow> arr_set (linebuf t) (linebuf_index t) null;
     let t = t\<lparr>linebuf := buf\<rparr>;
     t \<leftarrow> (if linebuf_index t > 0
           then if cmd_history t = [] then None
                else Some (t\<lparr>cmd_history := linebuf t # butlast (cmd_history t)\<rparr>)
           else Some t);
     let t = t\<lparr>linebuf_index := 0, cmd_history_index := -1\<rparr>;
     t \<leftarrow> newline t;
     t \<leftarrow> ExecuteLine font mc t;
     t \<leftarrow> Print font ''>'' t;
     let t = t\<lparr>cmd_history := resize_history (cmd_history t)\<rparr>;
     Some (\<lparr>pos = kTopLeftMargin, size = InnerSize (term_win t)\<rparr>, t)
   }"

definition backspace_key :: "Rectangle \<Rightarrow> Terminal \<Rightarrow> (Rectangle \<times> Terminal) option" where
  "backspace_key draw_area t =
     (if vx (cursor t) > 0 then do {
        let t = t\<lparr>cursor := V (vx (cursor t) - 1) (vy (cursor t))\<rparr>;
        t \<leftarrow> on_win (FillRectangle Window_Write (CalcCursorPos t) (V 8 16) background) t;
        Some (draw_area\<lparr>pos := CalcCursorPos t\<rparr>,
              if linebuf_index t > 0 then t\<lparr>linebuf_index := linebuf_index t - 1\<rparr> else t)
      }
      else Some (draw_area, t))"

definition char_key :: "u8 list \<Rightarrow> char \<Rightarrow> Rectangle \<Rightarrow> Terminal \<Rightarrow> (Rectangle \<times> Terminal) option" where
  "char_key font ascii draw_area t =
     (if vx (cursor t) < Terminal_kColumns - 1 \<and> linebuf_index t < kLineMax - 1 then do {
        buf \<leftarrow> arr_set (linebuf t) (linebuf_index t) ascii;
        let t = t\<lparr>linebuf := buf, linebuf_index := linebuf_index t + 1\<rparr>;
        t \<leftarrow> on_win (WriteAscii font Window_Write (CalcCursorPos t) ascii white) t;
        Some (draw_area, t\<lparr>cursor := V (vx (cursor t) + 1) (vy (cursor t))\<rparr>)
      }
      else Some (draw_area, t))"

definition InputKey :: "u8 list \<Rightarrow> machine \<Rightarrow> u8 \<Rightarrow> u8 \<Rightarrow> char \<Rightarrow> Terminal \<Rightarrow> (Rectangle \<times> Terminal) option" where
  "InputKey font mc modifier keycode ascii t = do {
     t \<leftarrow> DrawCursor False t;
     let draw_area = \<lparr>pos = CalcCursorPos t, size = V (8 * 2) 16\<rparr>;
     (draw_area, t) \<leftarrow>
       (if ascii = CHR 0x0A then enter_key font mc t
        else if ascii = CHR 0x08 then backspace_key draw_area t
        else if ascii \<noteq> null then char_key font ascii draw_area t
        else if keycode = 0x51 then HistoryUpDown font (-1) t
        else if keycode = 0x52 then HistoryUpDown font 1 t
        else Some (draw_area, t));
     t \<leftarrow> DrawCursor True t;
     Some (draw_area, t)
   }"

subsection \<open>The task\<close>

definition Terminal_new :: "u8 list \<Rightarrow> PixelFormat \<Rightarrow> gui \<Rightarrow> (Terminal \<times> gui) option" where
  "Terminal_new font fmt g = do {
     w \<leftarrow> ToplevelWindow_new font (nat (Terminal_kColumns * 8 + 8 + kMarginX)) (nat (Terminal_kRows * 16 + 8 + kMarginY)) fmt ''Terminal'';
     w \<leftarrow> DrawTerminal Inner_Write (V 0 0) (InnerSize w) w;
     let j = length (windows g);
     let (k, m) = NewLayer (layer_manager g);
     let m = m\<lparr>layers := (layers m)[k := SetDraggable True (SetWindow j (layers m ! k))]\<rparr>;
     t \<leftarrow> Print font ''>'' \<lparr>term_win = w, term_window = j, term_layer_id = layer_id (layers m ! k), cursor = V 0 0,
       cursor_visible = False, linebuf_index = 0, linebuf = empty_line, cmd_history = [], cmd_history_index = -1\<rparr>;
     Some (t, g\<lparr>windows := windows g @ [term_win t], layer_manager := m\<rparr>)
   }"

text \<open>The window is shared with the layer, which draws it and whose activation repaints its title.\<close>

definition load_window :: "gui \<Rightarrow> Terminal \<Rightarrow> Terminal option" where
  "load_window g t = map_option (\<lambda>w. t\<lparr>term_win := w\<rparr>) (arr_get (windows g) (term_window t))"

definition store_window :: "Terminal \<Rightarrow> gui \<Rightarrow> gui" where
  "store_window t g = g\<lparr>windows := (windows g)[term_window t := term_win t]\<rparr>"

text \<open>The start of \<open>TaskTerminal\<close>.\<close>

definition TaskTerminal_start :: "u8 list \<Rightarrow> PixelFormat \<Rightarrow> u64 \<Rightarrow> gui \<Rightarrow> (Terminal \<times> gui) option" where
  "TaskTerminal_start font fmt task_id g = do {
     (t, g) \<leftarrow> Terminal_new font fmt g;
     m \<leftarrow> LayerManager_Move (windows g) (term_layer_id t) (V 100 200) (layer_manager g);
     let g = g\<lparr>layer_manager := m\<rparr>;
     g \<leftarrow> Activate font (term_layer_id t) g;
     t \<leftarrow> load_window g t;
     Some (t, g\<lparr>layer_task_map := (layer_task_map g)(term_layer_id t \<mapsto> task_id)\<rparr>)
   }"

text \<open>One turn of its loop: the message is taken from the queue of task \<open>p\<close>; without one the task sleeps.
  The result tells whether the interrupt flag is set at the end of the turn.\<close>

definition terminal_turn ::
    "u8 list \<Rightarrow> machine \<Rightarrow> task_ptr \<Rightarrow> u64 \<Rightarrow> Terminal \<Rightarrow> gui \<Rightarrow> TaskManager \<Rightarrow> (bool \<times> Terminal \<times> gui \<times> TaskManager) option" where
  "terminal_turn font mc p task_id t g s = do {
     (msg, s) \<leftarrow> ReceiveMessage p s;
     (case msg of
        None \<Rightarrow> do { s \<leftarrow> Sleep p s; Some (True, t, g, s) }
      | Some msg \<Rightarrow> (case (msg_type msg, msg_arg msg) of
            (kTimerTimeout, _) \<Rightarrow> do {
              t \<leftarrow> load_window g t;
              (area, t) \<leftarrow> BlinkCursor t;
              (err, s) \<leftarrow> SendMessage 1 (MakeLayerMessage task_id (term_layer_id t) DrawArea area) s;
              Some (True, t, store_window t g, s)
            }
          | (kKeyPush, keyboard_arg modifier keycode ascii) \<Rightarrow> do {
              t \<leftarrow> load_window g t;
              (area, t) \<leftarrow> InputKey font mc modifier keycode ascii t;
              (err, s) \<leftarrow> SendMessage 1 (MakeLayerMessage task_id (term_layer_id t) DrawArea area) s;
              Some (True, t, store_window t g, s)
            }
          | (kKeyPush, _) \<Rightarrow> None
          | _ \<Rightarrow> Some (False, t, g, s)))
   }"

end
