(* ===== verification/Terminal_Props.thy ===== *)
theory Terminal_Props
  imports Terminal
begin

text \<open>
  The line editor of the terminal is safe: no key takes the cursor, the line buffer or the drawing out of its
  bounds, with one exception (the first command), and a typed command comes back from the history.
\<close>

subsection \<open>Drawing on the terminal window\<close>

definition term_win_ok :: "Window \<Rightarrow> bool" where
  "term_win_ok w \<longleftrightarrow> win_ok w \<and> Window_Size w = V 496 276"

lemma term_win_ok_redrawn: "term_win_ok w \<Longrightarrow> redrawn w w' \<Longrightarrow> term_win_ok w'"
  by (simp add: term_win_ok_def redrawn_def win_shape_def)

lemma term_fits:
  "term_win_ok w \<Longrightarrow> 0 \<le> vx p \<Longrightarrow> 0 \<le> vy p \<Longrightarrow> vx p + vx sz \<le> 496 \<Longrightarrow> vy p + vy sz \<le> 276 \<Longrightarrow> fits w p sz"
  by (simp add: term_win_ok_def fits_def Window_Size_def)

text \<open>The rows and columns at which the cursor can stand; column 60 is reached by the history.\<close>

definition on_grid :: "int \<Rightarrow> Terminal \<Rightarrow> bool" where
  "on_grid n t \<longleftrightarrow> term_win_ok (term_win t) \<and> 0 \<le> vx (cursor t) \<and> vx (cursor t) \<le> n \<and> 0 \<le> vy (cursor t) \<and> vy (cursor t) \<le> 14"

lemmas term_consts = Terminal_kRows_def Terminal_kColumns_def kTopLeftMargin_def CalcCursorPos_def vec_add_def

text \<open>\<open>moved t t'\<close>: at most the window and the cursor differ.\<close>

definition moved :: "Terminal \<Rightarrow> Terminal \<Rightarrow> bool" where
  "moved t t' \<longleftrightarrow> t' = t\<lparr>term_win := term_win t', cursor := cursor t'\<rparr>"

lemma moved_refl [simp]: "moved t t"
  by (simp add: moved_def)

lemma moved_trans: "moved t1 t2 \<Longrightarrow> moved t2 t3 \<Longrightarrow> moved t1 t3"
  unfolding moved_def by (cases t1; cases t2; cases t3) simp

lemma moved_window [simp]: "moved t (t\<lparr>term_win := w\<rparr>)" "moved t (t\<lparr>cursor := c\<rparr>)" "moved t (t\<lparr>term_win := w, cursor := c\<rparr>)"
  by (simp_all add: moved_def)

lemma moved_fields:
  assumes "moved t t'"
  shows "linebuf t' = linebuf t" "linebuf_index t' = linebuf_index t" "cmd_history t' = cmd_history t"
    "cmd_history_index t' = cmd_history_index t" "term_window t' = term_window t" "term_layer_id t' = term_layer_id t"
  using arg_cong [OF assms [unfolded moved_def], of linebuf] arg_cong [OF assms [unfolded moved_def], of linebuf_index]
    arg_cong [OF assms [unfolded moved_def], of cmd_history] arg_cong [OF assms [unfolded moved_def], of cmd_history_index]
    arg_cong [OF assms [unfolded moved_def], of term_window] arg_cong [OF assms [unfolded moved_def], of term_layer_id]
  by simp_all

lemma on_win_ok:
  assumes "term_win_ok (term_win t)" and "\<exists>w'. f (term_win t) = Some w' \<and> redrawn (term_win t) w'"
  shows "\<exists>w'. on_win f t = Some (t\<lparr>term_win := w'\<rparr>) \<and> term_win_ok w'"
  using assms term_win_ok_redrawn by (auto simp: on_win_def)

lemma on_win_fill:
  assumes "term_win_ok (term_win t)" "0 \<le> vx p" "0 \<le> vy p" "vx p + vx sz \<le> 496" "vy p + vy sz \<le> 276"
  shows "\<exists>w'. on_win (FillRectangle Window_Write p sz c) t = Some (t\<lparr>term_win := w'\<rparr>) \<and> term_win_ok w'"
  by (intro on_win_ok FillRectangle_redrawn term_fits assms)

lemma on_win_inner_fill:
  assumes "term_win_ok (term_win t)" "-4 \<le> vx p" "-24 \<le> vy p" "vx p + vx sz \<le> 492" "vy p + vy sz \<le> 252"
  shows "\<exists>w'. on_win (FillRectangle Inner_Write p sz c) t = Some (t\<lparr>term_win := w'\<rparr>) \<and> term_win_ok w'"
  by (intro on_win_ok FillRectangle_inner_redrawn term_fits) (use assms in \<open>simp_all add: vec_add_def kTopLeftMargin_def\<close>)

lemma DrawCursor_ok:
  assumes "on_grid 60 t"
  shows "\<exists>w'. DrawCursor b t = Some (t\<lparr>term_win := w'\<rparr>) \<and> term_win_ok w'"
  unfolding DrawCursor_def Let_def
  by (intro on_win_fill) (use assms in \<open>simp_all add: on_grid_def term_consts\<close>)

lemma Scroll1_ok:
  assumes "on_grid 60 t"
  shows "\<exists>w'. Scroll1 t = Some (t\<lparr>term_win := w'\<rparr>) \<and> term_win_ok w'"
proof -
  have ok: "term_win_ok (term_win t)" using assms by (simp add: on_grid_def)
  have "\<exists>w1. on_win (Window_Move (vec_add kTopLeftMargin (V 4 4)) \<lparr>pos = vec_add kTopLeftMargin (V 4 (4 + 16)),
      size = V (8 * Terminal_kColumns) (16 * (Terminal_kRows - 1))\<rparr>) t = Some (t\<lparr>term_win := w1\<rparr>) \<and> term_win_ok w1"
    by (intro on_win_ok Window_Move_redrawn term_fits ok) (simp_all add: term_consts)
  then obtain w1 where w1: "on_win (Window_Move (vec_add kTopLeftMargin (V 4 4)) \<lparr>pos = vec_add kTopLeftMargin (V 4 (4 + 16)),
      size = V (8 * Terminal_kColumns) (16 * (Terminal_kRows - 1))\<rparr>) t = Some (t\<lparr>term_win := w1\<rparr>)" "term_win_ok w1" by blast
  have "\<exists>w2. on_win (FillRectangle Inner_Write (V 4 (4 + 16 * vy (cursor t))) (V (8 * Terminal_kColumns) 16) background) (t\<lparr>term_win := w1\<rparr>)
      = Some (t\<lparr>term_win := w1\<rparr>\<lparr>term_win := w2\<rparr>) \<and> term_win_ok w2"
    by (intro on_win_inner_fill) (use w1(2) assms in \<open>simp_all add: on_grid_def term_consts\<close>)
  with w1(1) show ?thesis by (auto simp: Scroll1_def Let_def)
qed

lemma newline_ok:
  assumes "on_grid 60 t"
  shows "\<exists>t'. newline t = Some t' \<and> moved t t' \<and> on_grid 0 t' \<and> vx (cursor t') = 0"
proof (cases "vy (cursor t) < Terminal_kRows - 1")
  case True
  then show ?thesis using assms by (simp add: newline_def on_grid_def Terminal_kRows_def)
next
  case False
  have "on_grid 60 (t\<lparr>cursor := V 0 (vy (cursor t))\<rparr>)" using assms by (simp add: on_grid_def)
  from Scroll1_ok [OF this] obtain w' where
    "Scroll1 (t\<lparr>cursor := V 0 (vy (cursor t))\<rparr>) = Some (t\<lparr>cursor := V 0 (vy (cursor t)), term_win := w'\<rparr>)" "term_win_ok w'" by auto
  then show ?thesis using False assms
    by (intro exI [of _ "t\<lparr>cursor := V 0 (vy (cursor t)), term_win := w'\<rparr>"]) (simp add: newline_def on_grid_def moved_def)
qed

lemma print_char_ok:
  assumes "length font = 4096" and "on_grid 59 t"
  shows "\<exists>t'. print_char font c t = Some t' \<and> moved t t' \<and> on_grid 59 t' \<and> (c = CHR 0x0A \<longrightarrow> vx (cursor t') = 0)"
proof (cases "c = CHR 0x0A")
  case True
  have "on_grid 60 t" using assms(2) by (simp add: on_grid_def)
  from newline_ok [OF this] True show ?thesis by (auto simp: print_char_def on_grid_def)
next
  case False
  have ok: "term_win_ok (term_win t)" using assms(2) by (simp add: on_grid_def)
  have "\<exists>w'. on_win (WriteAscii font Window_Write (CalcCursorPos t) c white) t = Some (t\<lparr>term_win := w'\<rparr>) \<and> term_win_ok w'"
    by (intro on_win_ok WriteAscii_redrawn term_fits ok assms(1)) (use assms(2) in \<open>simp_all add: on_grid_def term_consts\<close>)
  then obtain w' where w': "on_win (WriteAscii font Window_Write (CalcCursorPos t) c white) t = Some (t\<lparr>term_win := w'\<rparr>)" "term_win_ok w'" by blast
  have g: "on_grid 60 (t\<lparr>term_win := w'\<rparr>)" using w'(2) assms(2) by (simp add: on_grid_def)
  show ?thesis
  proof (cases "vx (cursor t) = Terminal_kColumns - 1")
    case True
    from newline_ok [OF g] obtain t' where t': "newline (t\<lparr>term_win := w'\<rparr>) = Some t'" "moved (t\<lparr>term_win := w'\<rparr>) t'" "on_grid 0 t'" by blast
    have "print_char font c t = Some t'" using True False w'(1) t'(1) by (simp add: print_char_def)
    moreover have "moved t t'" using moved_trans [OF moved_window(1) t'(2)] .
    moreover have "on_grid 59 t'" using t'(3) by (simp add: on_grid_def)
    ultimately show ?thesis using False by blast
  next
    case neq: False
    then show ?thesis using False w' assms(2) by (simp add: print_char_def on_grid_def Terminal_kColumns_def)
  qed
qed

lemma print_chars_ok:
  assumes "length font = 4096" and "on_grid 59 t"
  shows "\<exists>t'. foldM (print_char font) s t = Some t' \<and> moved t t' \<and> on_grid 59 t' \<and> (s \<noteq> [] \<longrightarrow> last s = CHR 0x0A \<longrightarrow> vx (cursor t') = 0)"
  using assms(2)
proof (induction s arbitrary: t)
  case (Cons c s)
  obtain t1 where t1: "print_char font c t = Some t1" "moved t t1" "on_grid 59 t1" "c = CHR 0x0A \<longrightarrow> vx (cursor t1) = 0"
    using print_char_ok [OF assms(1) Cons.prems, of c] by blast
  from Cons.IH [OF t1(3)] obtain t2 where t2: "foldM (print_char font) s t1 = Some t2" "moved t1 t2" "on_grid 59 t2"
      "s \<noteq> [] \<longrightarrow> last s = CHR 0x0A \<longrightarrow> vx (cursor t2) = 0" by blast
  have "s = [] \<longrightarrow> t2 = t1" using t2(1) by auto
  with t1 t2 moved_trans [OF t1(2) t2(2)] show ?case by auto
qed simp

lemma Print_ok:
  assumes "length font = 4096" and "on_grid 59 t"
  shows "\<exists>t'. Print font s t = Some t' \<and> moved t t' \<and> on_grid 59 t' \<and> (s \<noteq> [] \<longrightarrow> last s = CHR 0x0A \<longrightarrow> vx (cursor t') = 0)"
proof -
  have "on_grid 60 t" using assms(2) by (simp add: on_grid_def)
  then obtain w1 where w1: "DrawCursor False t = Some (t\<lparr>term_win := w1\<rparr>)" "term_win_ok w1" using DrawCursor_ok by blast
  then have "on_grid 59 (t\<lparr>term_win := w1\<rparr>)" using assms(2) by (simp add: on_grid_def)
  from print_chars_ok [OF assms(1) this] obtain t2 where t2: "foldM (print_char font) s (t\<lparr>term_win := w1\<rparr>) = Some t2"
    "moved (t\<lparr>term_win := w1\<rparr>) t2" "on_grid 59 t2" "s \<noteq> [] \<longrightarrow> last s = CHR 0x0A \<longrightarrow> vx (cursor t2) = 0" by blast
  then have "on_grid 60 t2" by (simp add: on_grid_def)
  then obtain w3 where w3: "DrawCursor True t2 = Some (t2\<lparr>term_win := w3\<rparr>)" "term_win_ok w3" using DrawCursor_ok by blast
  have "moved t (t2\<lparr>term_win := w3\<rparr>)" using moved_trans [OF moved_window(1) moved_trans [OF t2(2) moved_window(1)]] .
  then show ?thesis using w1 w3 t2 by (intro exI [of _ "t2\<lparr>term_win := w3\<rparr>"]) (auto simp: Print_def on_grid_def)
qed

text \<open>The prompt, printed at the start of a line.\<close>

lemma Print_prompt:
  assumes "length font = 4096" and "on_grid 59 t" "vx (cursor t) = 0"
  shows "\<exists>t'. Print font ''>'' t = Some t' \<and> moved t t' \<and> on_grid 59 t' \<and> vx (cursor t') = 1"
proof -
  obtain t' where t': "Print font ''>'' t = Some t'" "moved t t'" "on_grid 59 t'" using Print_ok [OF assms(1,2)] by blast
  have "vx (cursor t') = 1"
    using t'(1) assms(3) by (auto simp: Print_def print_char_def DrawCursor_def on_win_def Terminal_kColumns_def Let_def split: Option.bind_splits)
  with t' show ?thesis by blast
qed

subsection \<open>Commands\<close>

text \<open>The table of the bus scan holds at least the devices that were counted.\<close>

definition machine_ok :: "machine \<Rightarrow> bool" where
  "machine_ok mc \<longleftrightarrow> num_device (mc_pci mc) \<le> length (devices (mc_pci mc))"

text \<open>\<open>at_start t t'\<close>: \<open>t'\<close> is \<open>t\<close> with the cursor at the start of a line.\<close>

definition at_start :: "Terminal \<Rightarrow> Terminal \<Rightarrow> bool" where
  "at_start t t' \<longleftrightarrow> moved t t' \<and> on_grid 59 t' \<and> vx (cursor t') = 0"

lemma Print_line:
  assumes "length font = 4096" and "on_grid 59 t'" "moved t t'" and "s \<noteq> []" "last s = CHR 0x0A"
  shows "\<exists>t''. Print font s t' = Some t'' \<and> at_start t t''"
  using Print_ok [OF assms(1,2), of s] assms(3-5) moved_trans unfolding at_start_def by blast

lemma lspci_line_ends: "lspci_line conf dev \<noteq> [] \<and> last (lspci_line conf dev) = CHR 0x0A"
  by (simp add: lspci_line_def Let_def)

lemma ls_line_ends: "ls_line base ext \<noteq> [] \<and> last (ls_line base ext) = CHR 0x0A"
  by (simp add: ls_line_def)

lemma ls_lines_end: "s \<in> set (ls_lines mem dir is) \<Longrightarrow> s \<noteq> [] \<and> last s = CHR 0x0A"
  by (induction "is") (auto simp: ls_line_ends Let_def split: if_splits prod.splits)

lemma lspci_command_ok:
  assumes "length font = 4096" and "machine_ok mc" and "at_start t0 t"
  shows "\<exists>t'. lspci_command font mc t = Some t' \<and> at_start t0 t'"
  unfolding lspci_command_def
proof (rule foldM_invariant)
  fix i t1 assume i: "i \<in> set [0..<num_device (mc_pci mc)]" and t1: "at_start t0 t1"
  have "i < length (devices (mc_pci mc))" using i assms(2) by (simp add: machine_ok_def)
  then show "\<exists>t'. do { dev \<leftarrow> arr_get (devices (mc_pci mc)) i; Print font (lspci_line (mc_conf mc) dev) t1 } = Some t' \<and> at_start t0 t'"
    using Print_line [OF assms(1), of t1 t0] lspci_line_ends t1 by (simp add: arr_get_def at_start_def)
qed (rule assms)

lemma ls_command_ok:
  assumes "length font = 4096" and "at_start t0 t"
  shows "\<exists>t'. ls_command font mc t = Some t' \<and> at_start t0 t'"
  unfolding ls_command_def Let_def
proof (rule foldM_invariant)
  fix s t1 assume s: "s \<in> set (ls_lines (mc_mem mc) (GetSectorByCluster (mc_mem mc) (boot_volume_image mc)
      (get_member BPB ''root_cluster'' (mc_mem mc) (boot_volume_image mc))) [0..<unat (entries_per_cluster (mc_mem mc) (boot_volume_image mc))])"
    and t1: "at_start t0 t1"
  show "\<exists>t'. Print font s t1 = Some t' \<and> at_start t0 t'"
    using Print_line [OF assms(1), of t1 t0] ls_lines_end [OF s] t1 by (simp add: at_start_def)
qed (rule assms)

lemma echo_ok:
  assumes "length font = 4096" and "at_start t0 t"
  shows "\<exists>t'. do { t \<leftarrow> (case a of Some a \<Rightarrow> Print font a t | None \<Rightarrow> Some t); Print font [CHR 0x0A] t } = Some t' \<and> at_start t0 t'"
proof -
  have g: "on_grid 59 t" "moved t0 t" using assms(2) by (simp_all add: at_start_def)
  have "\<exists>t1. (case a of Some a \<Rightarrow> Print font a t | None \<Rightarrow> Some t) = Some t1 \<and> on_grid 59 t1 \<and> moved t0 t1"
  proof (cases a)
    case (Some s)
    then show ?thesis using Print_ok [OF assms(1) g(1), of s] moved_trans [OF g(2)] by auto
  qed (use g in auto)
  then obtain t1 where "(case a of Some a \<Rightarrow> Print font a t | None \<Rightarrow> Some t) = Some t1" "on_grid 59 t1" "moved t0 t1" by blast
  then show ?thesis using Print_line [OF assms(1), of t1 t0 "[CHR 0x0A]"] by simp
qed

lemma clear_ok:
  assumes "at_start t0 t"
  shows "\<exists>t'. do {
       t \<leftarrow> on_win (FillRectangle Inner_Write (V 4 4) (V (8 * Terminal_kColumns) (16 * Terminal_kRows)) background) t;
       Some (t\<lparr>cursor := V (vx (cursor t)) 0\<rparr>)
     } = Some t' \<and> at_start t0 t'"
proof -
  have "\<exists>w'. on_win (FillRectangle Inner_Write (V 4 4) (V (8 * Terminal_kColumns) (16 * Terminal_kRows)) background) t
      = Some (t\<lparr>term_win := w'\<rparr>) \<and> term_win_ok w'"
    by (intro on_win_inner_fill) (use assms in \<open>simp_all add: at_start_def on_grid_def term_consts\<close>)
  then obtain w' where w': "on_win (FillRectangle Inner_Write (V 4 4) (V (8 * Terminal_kColumns) (16 * Terminal_kRows)) background) t
      = Some (t\<lparr>term_win := w'\<rparr>)" "term_win_ok w'" by blast
  have "moved t0 (t\<lparr>term_win := w', cursor := V 0 0\<rparr>)"
    using moved_trans [OF _ moved_window(3)] assms by (simp add: at_start_def)
  then show ?thesis using w' assms
    by (intro exI [of _ "t\<lparr>term_win := w', cursor := V 0 0\<rparr>"]) (simp add: at_start_def on_grid_def)
qed

lemma unknown_ok:
  assumes "length font = 4096" and "at_start t0 t"
  shows "\<exists>t'. do { t \<leftarrow> Print font a t; t \<leftarrow> Print font b t; Print font [CHR 0x0A] t } = Some t' \<and> at_start t0 t'"
proof -
  have g: "on_grid 59 t" "moved t0 t" using assms(2) by (simp_all add: at_start_def)
  obtain t1 where t1: "Print font a t = Some t1" "on_grid 59 t1" "moved t0 t1"
    using Print_ok [OF assms(1) g(1), of a] moved_trans [OF g(2)] by blast
  obtain t2 where "Print font b t1 = Some t2" "on_grid 59 t2" "moved t0 t2"
    using Print_ok [OF assms(1) t1(2), of b] moved_trans [OF t1(3)] by blast
  then show ?thesis using t1 Print_line [OF assms(1), of t2 t0 "[CHR 0x0A]"] by simp
qed

lemma defined_if: "\<exists>x. A = Some x \<and> P x \<Longrightarrow> \<exists>x. B = Some x \<and> P x \<Longrightarrow> \<exists>x. (if b then A else B) = Some x \<and> P x"
  by simp

text \<open>A command leaves the cursor at the start of a line; of the line buffer it changes at most the blank
  after the command.\<close>

lemma ExecuteLine_ok:
  assumes "length font = 4096" and "machine_ok mc" and "on_grid 59 t" "vx (cursor t) = 0" and "null \<in> set (linebuf t)"
  shows "\<exists>t' buf. ExecuteLine font mc t = Some t' \<and> at_start (t\<lparr>linebuf := buf\<rparr>) t' \<and> length buf = length (linebuf t)"
proof -
  define line where "line = takeWhile (\<lambda>c. c \<noteq> null) (linebuf t)"
  define buf where "buf = (case find_blank line of None \<Rightarrow> linebuf t | Some i \<Rightarrow> (linebuf t)[i := null])"
  define command where "command = (case find_blank line of None \<Rightarrow> line | Some i \<Rightarrow> take i line)"
  define first_arg where "first_arg = (case find_blank line of None \<Rightarrow> None | Some i \<Rightarrow> Some (drop (Suc i) line))"
  let ?t = "t\<lparr>linebuf := buf\<rparr>"
  have c: "c_str (linebuf t) = Some line" using assms(5) by (simp add: c_str_def line_def)
  have t: "(case find_blank line of None \<Rightarrow> t | Some i \<Rightarrow> t\<lparr>linebuf := (linebuf t)[i := null]\<rparr>) = ?t"
    by (simp add: buf_def split: option.split)
  have s: "at_start ?t ?t" using assms(3,4) by (simp add: at_start_def on_grid_def)
  have "\<exists>t'. (if command = ''echo'' then do {
       t \<leftarrow> (case first_arg of Some a \<Rightarrow> Print font a ?t | None \<Rightarrow> Some ?t);
       Print font [CHR 0x0A] t
     }
     else if command = ''clear'' then do {
       t \<leftarrow> on_win (FillRectangle Inner_Write (V 4 4) (V (8 * Terminal_kColumns) (16 * Terminal_kRows)) background) ?t;
       Some (t\<lparr>cursor := V (vx (cursor t)) 0\<rparr>)
     }
     else if command = ''lspci'' then lspci_command font mc ?t
     else if command = ''ls'' then ls_command font mc ?t
     else if command \<noteq> [] then do {
       t \<leftarrow> Print font ''no such command: '' ?t;
       t \<leftarrow> Print font command t;
       Print font [CHR 0x0A] t
     }
     else Some ?t) = Some t' \<and> at_start ?t t'"
    by (intro defined_if echo_ok clear_ok lspci_command_ok ls_command_ok unknown_ok assms(1,2) s) (use s in blast)
  then have "\<exists>t'. ExecuteLine font mc t = Some t' \<and> at_start ?t t'"
    unfolding ExecuteLine_def c Option.bind.bind_lunit Let_def t command_def [symmetric] first_arg_def [symmetric] .
  moreover have "length buf = length (linebuf t)" by (simp add: buf_def split: option.split)
  ultimately show ?thesis by blast
qed

subsection \<open>The line editor\<close>

text \<open>A line of the history: a string that fits behind the prompt.\<close>

definition entry_ok :: "char list \<Rightarrow> bool" where
  "entry_ok e \<longleftrightarrow> null \<in> set e \<and> length (takeWhile (\<lambda>c. c \<noteq> null) e) \<le> 59"

text \<open>The line typed so far is the first \<open>linebuf_index\<close> characters; the cursor stands behind it, one column
  further right unless the prompt was erased.\<close>

definition term_inv :: "Terminal \<Rightarrow> bool" where
  "term_inv t \<longleftrightarrow> on_grid 60 t \<and> length (linebuf t) = kLineMax \<and> null \<notin> set (take (linebuf_index t) (linebuf t)) \<and>
     linebuf_index t \<le> 59 \<and> int (linebuf_index t) \<le> vx (cursor t) \<and> vx (cursor t) \<le> int (linebuf_index t) + 1 \<and>
     (cmd_history t = [] \<or> length (cmd_history t) = 8) \<and> (\<forall>e \<in> set (cmd_history t). entry_ok e) \<and>
     -1 \<le> cmd_history_index t \<and> cmd_history_index t < int (length (cmd_history t))"

lemma term_inv_window: "term_inv t \<Longrightarrow> term_win_ok w \<Longrightarrow> term_inv (t\<lparr>term_win := w\<rparr>)"
  by (simp add: term_inv_def on_grid_def)

lemma takeWhile_terminated: "null \<notin> set s \<Longrightarrow> takeWhile (\<lambda>c. c \<noteq> null) (s @ null # r) = s"
  by (subst takeWhile_append2) auto

lemma c_str_terminated: "null \<notin> set s \<Longrightarrow> c_str (s @ null # r) = Some s"
  by (simp add: c_str_def takeWhile_terminated)

lemma entry_ok_terminated:
  assumes "k < length xs" "k \<le> 59" "null \<notin> set (take k xs)"
  shows "entry_ok (xs[k := null])" "takeWhile (\<lambda>c. c \<noteq> null) (xs[k := null]) = take k xs"
proof -
  have u: "xs[k := null] = take k xs @ null # drop (Suc k) xs" using assms(1) by (simp add: upd_conv_take_nth_drop)
  show tw: "takeWhile (\<lambda>c. c \<noteq> null) (xs[k := null]) = take k xs"
    unfolding u using assms(3) by (rule takeWhile_terminated)
  show "entry_ok (xs[k := null])" unfolding entry_ok_def tw using assms(1,2) set_update_memI [OF assms(1)] by simp
qed

lemma entry_ok_empty: "entry_ok empty_line"
  by (simp add: entry_ok_def empty_line_def kLineMax_def null_def)

lemma resize_history_ok:
  "h = [] \<or> length h = 8 \<Longrightarrow> \<forall>e \<in> set h. entry_ok e \<Longrightarrow>
    length (resize_history h) = 8 \<and> (\<forall>e \<in> set (resize_history h). entry_ok e)"
  by (auto simp: resize_history_def entry_ok_empty)

text \<open>The Enter key. \<open>submit\<close> is the history after the command was stored.\<close>

definition submit :: "Terminal \<Rightarrow> char list list" where
  "submit t = (if linebuf_index t > 0 then (linebuf t)[linebuf_index t := null] # butlast (cmd_history t) else cmd_history t)"

lemma submit_ok:
  assumes "term_inv t" and "linebuf_index t = 0 \<or> cmd_history t \<noteq> []"
  shows "submit t = [] \<or> length (submit t) = 8" "\<forall>e \<in> set (submit t). entry_ok e"
proof -
  have "entry_ok ((linebuf t)[linebuf_index t := null])"
    using assms(1) by (intro entry_ok_terminated) (simp_all add: term_inv_def kLineMax_def)
  then show "submit t = [] \<or> length (submit t) = 8" "\<forall>e \<in> set (submit t). entry_ok e"
    using assms by (auto simp: submit_def term_inv_def dest: in_set_butlastD)
qed

lemma enter_key_ok:
  assumes "length font = 4096" and "machine_ok mc" and inv: "term_inv t" and "linebuf_index t = 0 \<or> cmd_history t \<noteq> []"
  shows "\<exists>a t'. enter_key font mc t = Some (a, t') \<and> term_inv t' \<and> cmd_history t' = resize_history (submit t) \<and>
    linebuf_index t' = 0 \<and> cmd_history_index t' = -1 \<and> vx (cursor t') = 1"
proof -
  let ?buf = "(linebuf t)[linebuf_index t := null]"
  let ?t1 = "t\<lparr>linebuf := ?buf, cmd_history := submit t, linebuf_index := 0, cmd_history_index := -1\<rparr>"
  have k: "linebuf_index t < length (linebuf t)" using inv by (simp add: term_inv_def kLineMax_def)
  have "on_grid 60 ?t1" using inv by (simp add: term_inv_def on_grid_def)
  from newline_ok [OF this] obtain t2 where t2: "newline ?t1 = Some t2" "moved ?t1 t2" "on_grid 0 t2" "vx (cursor t2) = 0" by blast
  have "on_grid 59 t2" using t2(3) by (simp add: on_grid_def)
  moreover have "null \<in> set (linebuf t2)" using moved_fields(1) [OF t2(2)] set_update_memI [OF k] by simp
  ultimately obtain t3 buf where t3: "ExecuteLine font mc t2 = Some t3" "moved (t2\<lparr>linebuf := buf\<rparr>) t3" "on_grid 59 t3" "vx (cursor t3) = 0"
      "length buf = length (linebuf t2)"
    using ExecuteLine_ok [OF assms(1,2)] t2(4) unfolding at_start_def by blast
  obtain t4 where t4: "Print font ''>'' t3 = Some t4" "moved t3 t4" "on_grid 59 t4" "vx (cursor t4) = 1"
    using Print_prompt [OF assms(1) t3(3,4)] by blast
  have f: "linebuf t4 = buf" "linebuf_index t4 = 0" "cmd_history t4 = submit t" "cmd_history_index t4 = -1"
    using moved_fields [OF t2(2)] moved_fields [OF t3(2)] moved_fields [OF t4(2)] by simp_all
  have len: "length buf = kLineMax" using t3(5) moved_fields(1) [OF t2(2)] inv by (simp add: term_inv_def)
  let ?t5 = "t4\<lparr>cmd_history := resize_history (submit t)\<rparr>"
  have same: "t\<lparr>linebuf := ?buf, cmd_history := cmd_history t, linebuf_index := 0, cmd_history_index := -1\<rparr> =
      t\<lparr>linebuf := ?buf, linebuf_index := 0, cmd_history_index := -1\<rparr>" by (cases t) simp
  have "enter_key font mc t = Some (\<lparr>pos = kTopLeftMargin, size = InnerSize (term_win ?t5)\<rparr>, ?t5)"
  proof (cases "linebuf_index t > 0")
    case True
    then show ?thesis using k t2(1) t3(1) t4(1) assms(4) f(3) by (simp add: enter_key_def arr_set_def submit_def Let_def)
  next
    case False
    then have "newline (t\<lparr>linebuf := ?buf, linebuf_index := 0, cmd_history_index := -1\<rparr>) = Some t2"
      using t2(1) same by (simp add: submit_def)
    with False show ?thesis using k t3(1) t4(1) f(3) by (simp add: enter_key_def arr_set_def submit_def Let_def)
  qed
  moreover have "term_inv ?t5"
    using f len t4(3,4) resize_history_ok [OF submit_ok [OF inv assms(4)]] by (simp add: term_inv_def on_grid_def)
  ultimately show ?thesis using f t4(4) by auto
qed

text \<open>The other keys.\<close>

lemma backspace_key_ok:
  assumes inv: "term_inv t"
  shows "\<exists>a' t'. backspace_key a t = Some (a', t') \<and> term_inv t' \<and> cmd_history t' = cmd_history t"
proof (cases "vx (cursor t) > 0")
  case True
  let ?t1 = "t\<lparr>cursor := V (vx (cursor t) - 1) (vy (cursor t))\<rparr>"
  have "\<exists>w. on_win (FillRectangle Window_Write (CalcCursorPos ?t1) (V 8 16) background) ?t1 = Some (?t1\<lparr>term_win := w\<rparr>) \<and> term_win_ok w"
    by (intro on_win_fill) (use inv True in \<open>simp_all add: term_inv_def on_grid_def term_consts\<close>)
  then obtain w where w: "on_win (FillRectangle Window_Write (CalcCursorPos ?t1) (V 8 16) background) ?t1 = Some (?t1\<lparr>term_win := w\<rparr>)"
    "term_win_ok w" by blast
  let ?t2 = "?t1\<lparr>term_win := w\<rparr>"
  let ?t3 = "if linebuf_index t > 0 then ?t2\<lparr>linebuf_index := linebuf_index t - 1\<rparr> else ?t2"
  have "backspace_key a t = Some (a\<lparr>pos := CalcCursorPos ?t2\<rparr>, ?t3)" using True w(1) by (simp add: backspace_key_def Let_def)
  moreover have "null \<notin> set (take (linebuf_index t - 1) (linebuf t))"
    using inv set_take_subset_set_take [of "linebuf_index t - 1" "linebuf_index t" "linebuf t"] by (auto simp: term_inv_def)
  then have "term_inv ?t3" using inv w(2) True by (auto simp: term_inv_def on_grid_def)
  ultimately show ?thesis by auto
qed (use inv in \<open>simp add: backspace_key_def\<close>)

lemma char_key_types:
  assumes "length font = 4096" and inv: "term_inv t" and "c \<noteq> null" and "vx (cursor t) < 59"
  shows "\<exists>w. char_key font c a t = Some (a, t\<lparr>linebuf := (linebuf t)[linebuf_index t := c], linebuf_index := Suc (linebuf_index t),
      term_win := w, cursor := V (vx (cursor t) + 1) (vy (cursor t))\<rparr>) \<and> term_win_ok w"
proof -
  let ?t1 = "t\<lparr>linebuf := (linebuf t)[linebuf_index t := c], linebuf_index := Suc (linebuf_index t)\<rparr>"
  have k: "linebuf_index t < length (linebuf t)" "linebuf_index t < kLineMax - 1" using inv by (simp_all add: term_inv_def kLineMax_def)
  have "\<exists>w. on_win (WriteAscii font Window_Write (CalcCursorPos ?t1) c white) ?t1 = Some (?t1\<lparr>term_win := w\<rparr>) \<and> term_win_ok w"
    by (intro on_win_ok WriteAscii_redrawn term_fits assms(1)) (use inv assms(4) in \<open>simp_all add: term_inv_def on_grid_def term_consts\<close>)
  then show ?thesis using k assms(4) by (auto simp: char_key_def arr_set_def Terminal_kColumns_def Let_def)
qed

lemma char_key_ok:
  assumes "length font = 4096" and inv: "term_inv t" and "c \<noteq> null"
  shows "\<exists>a' t'. char_key font c a t = Some (a', t') \<and> term_inv t' \<and> cmd_history t' = cmd_history t"
proof (cases "vx (cursor t) < 59")
  case True
  obtain w where w: "char_key font c a t = Some (a, t\<lparr>linebuf := (linebuf t)[linebuf_index t := c], linebuf_index := Suc (linebuf_index t),
      term_win := w, cursor := V (vx (cursor t) + 1) (vy (cursor t))\<rparr>)" "term_win_ok w"
    using char_key_types [OF assms True] by blast
  moreover have k: "linebuf_index t < length (linebuf t)" using inv by (simp add: term_inv_def kLineMax_def)
  then have "take (Suc (linebuf_index t)) ((linebuf t)[linebuf_index t := c]) = take (linebuf_index t) (linebuf t) @ [c]"
    by (simp add: take_Suc_conv_app_nth)
  ultimately show ?thesis using inv assms(3) True by (auto simp: term_inv_def on_grid_def)
qed (use inv in \<open>simp add: char_key_def Terminal_kColumns_def\<close>)

text \<open>An arrow key replaces the line by an entry of the history, or by the empty line below them.\<close>

definition recalled :: "int \<Rightarrow> Terminal \<Rightarrow> int" where
  "recalled direction t = (if direction = -1 \<and> cmd_history_index t \<ge> 0 then cmd_history_index t - 1
     else if direction = 1 \<and> cmd_history_index t + 1 < int (length (cmd_history t)) then cmd_history_index t + 1 else cmd_history_index t)"

definition recalled_line :: "int \<Rightarrow> Terminal \<Rightarrow> string" where
  "recalled_line direction t = (if recalled direction t \<ge> 0
     then takeWhile (\<lambda>c. c \<noteq> null) (cmd_history t ! nat (recalled direction t)) else [])"

lemma recalled_line_ok:
  assumes inv: "term_inv t"
  shows "-1 \<le> recalled d t" "recalled d t < int (length (cmd_history t))" "length (recalled_line d t) \<le> 59" "null \<notin> set (recalled_line d t)"
    "recalled d t \<ge> 0 \<Longrightarrow> c_str (cmd_history t ! nat (recalled d t)) = Some (recalled_line d t)"
proof -
  show r: "-1 \<le> recalled d t" "recalled d t < int (length (cmd_history t))" using inv by (auto simp: recalled_def term_inv_def)
  have e: "entry_ok (cmd_history t ! nat (recalled d t))" if "recalled d t \<ge> 0"
    using that r(2) inv by (simp add: term_inv_def)
  then show "length (recalled_line d t) \<le> 59" by (simp add: recalled_line_def entry_ok_def)
  show "null \<notin> set (recalled_line d t)" by (auto simp: recalled_line_def dest: set_takeWhileD)
  show "c_str (cmd_history t ! nat (recalled d t)) = Some (recalled_line d t)" if "recalled d t \<ge> 0"
    using e [OF that] that by (simp add: c_str_def recalled_line_def entry_ok_def)
qed

lemma HistoryUpDown_ok:
  assumes "length font = 4096" and inv: "term_inv t"
  shows "\<exists>a t'. HistoryUpDown font d t = Some (a, t') \<and> term_inv t' \<and> cmd_history t' = cmd_history t \<and>
    cmd_history_index t' = recalled d t \<and> linebuf_index t' = length (recalled_line d t) \<and> c_str (linebuf t') = Some (recalled_line d t)"
proof -
  let ?l = "recalled_line d t" and ?i = "recalled d t"
  note r = recalled_line_ok [OF inv, of d]
  let ?t1 = "t\<lparr>cmd_history_index := ?i, cursor := V 1 (vy (cursor t))\<rparr>"
  let ?buf = "?l @ null # drop (Suc (length ?l)) (linebuf t)"
  have "\<exists>w. on_win (FillRectangle Window_Write (CalcCursorPos ?t1) (V (8 * (Terminal_kColumns - 1)) 16) background) ?t1 =
      Some (?t1\<lparr>term_win := w\<rparr>) \<and> term_win_ok w"
    by (intro on_win_fill) (use inv in \<open>simp_all add: term_inv_def on_grid_def term_consts\<close>)
  then obtain w where w: "on_win (FillRectangle Window_Write (CalcCursorPos ?t1) (V (8 * (Terminal_kColumns - 1)) 16) background) ?t1 =
      Some (?t1\<lparr>term_win := w\<rparr>)" "term_win_ok w" by blast
  let ?t2 = "?t1\<lparr>term_win := w, linebuf := ?buf, linebuf_index := length ?l\<rparr>"
  have "\<exists>w2. on_win (WriteString font Window_Write (CalcCursorPos ?t1) ?l white) ?t2 = Some (?t2\<lparr>term_win := w2\<rparr>) \<and> term_win_ok w2"
    by (intro on_win_ok WriteString_redrawn term_fits assms(1)) (use inv w(2) r(3) in \<open>simp_all add: term_inv_def on_grid_def term_consts\<close>)
  then obtain w2 where w2: "on_win (WriteString font Window_Write (CalcCursorPos ?t1) ?l white) ?t2 = Some (?t2\<lparr>term_win := w2\<rparr>)" "term_win_ok w2" by blast
  let ?t3 = "?t2\<lparr>term_win := w2, cursor := V (int (length ?l) + 1) (vy (cursor t))\<rparr>"
  have h: "(if ?i \<ge> 0 then do { entry \<leftarrow> arr_get (cmd_history (?t1\<lparr>term_win := w\<rparr>)) (nat ?i); c_str entry } else Some []) = Some ?l"
    using r(2,5) by (auto simp: arr_get_def recalled_line_def)
  have s: "strcpy ?l (linebuf t) = Some ?buf" using inv r(3) by (simp add: strcpy_def term_inv_def kLineMax_def)
  have "HistoryUpDown font d t = Some (\<lparr>pos = CalcCursorPos ?t1, size = V (8 * (Terminal_kColumns - 1)) 16\<rparr>, ?t3)"
    using w(1) w2(1) s unfolding HistoryUpDown_def Let_def recalled_def [symmetric] by (simp add: h split del: if_split)
  moreover have len: "length ?buf = kLineMax" using inv r(3) by (simp add: term_inv_def kLineMax_def)
  have "term_inv ?t3" using inv r w2(2) len by (simp add: term_inv_def on_grid_def)
  moreover have "c_str ?buf = Some ?l" using r(4) by (simp add: c_str_terminated)
  ultimately show ?thesis by simp
qed

text \<open>The handler that a key selects.\<close>

definition key_action :: "u8 list \<Rightarrow> machine \<Rightarrow> u8 \<Rightarrow> char \<Rightarrow> Rectangle \<Rightarrow> Terminal \<Rightarrow> (Rectangle \<times> Terminal) option" where
  "key_action font mc key c a t =
     (if c = CHR 0x0A then enter_key font mc t
      else if c = CHR 0x08 then backspace_key a t
      else if c \<noteq> null then char_key font c a t
      else if key = 0x51 then HistoryUpDown font (-1) t
      else if key = 0x52 then HistoryUpDown font 1 t
      else Some (a, t))"

lemma InputKey_cases:
  assumes "term_inv t"
  obtains w a where "term_win_ok w" "term_inv (t\<lparr>term_win := w\<rparr>)"
    "InputKey font mc md key c t = Option.bind (key_action font mc key c a (t\<lparr>term_win := w\<rparr>))
       (\<lambda>(a, t). Option.bind (DrawCursor True t) (\<lambda>t. Some (a, t)))"
proof -
  have "on_grid 60 t" using assms by (simp add: term_inv_def)
  then obtain w where w: "DrawCursor False t = Some (t\<lparr>term_win := w\<rparr>)" "term_win_ok w" using DrawCursor_ok by blast
  show ?thesis
    by (rule that [OF w(2) term_inv_window [OF assms w(2)], of "\<lparr>pos = CalcCursorPos (t\<lparr>term_win := w\<rparr>), size = V 16 16\<rparr>"])
      (simp add: InputKey_def key_action_def w(1))
qed

text \<open>After the handler of the key the cursor is drawn again.\<close>

lemma InputKey_finish:
  assumes "term_inv t"
  shows "\<exists>t'. Option.bind (DrawCursor True t) (\<lambda>t. Some (a, t)) = Some (a, t') \<and> term_inv t' \<and> moved t t'"
proof -
  have "on_grid 60 t" using assms by (simp add: term_inv_def)
  then obtain w where "DrawCursor True t = Some (t\<lparr>term_win := w\<rparr>)" "term_win_ok w" using DrawCursor_ok by blast
  then show ?thesis using term_inv_window [OF assms] by auto
qed

lemma key_action_ok:
  assumes "length font = 4096" and "machine_ok mc" and inv: "term_inv t" and "c = CHR 0x0A \<longrightarrow> linebuf_index t = 0 \<or> cmd_history t \<noteq> []"
  shows "\<exists>a' t'. key_action font mc key c a t = Some (a', t') \<and> term_inv t' \<and> (cmd_history t \<noteq> [] \<longrightarrow> cmd_history t' \<noteq> [])"
proof -
  have e: "\<exists>a t'. enter_key font mc t = Some (a, t') \<and> term_inv t' \<and> cmd_history t' \<noteq> []" if "c = CHR 0x0A"
    using enter_key_ok [OF assms(1-3)] assms(4) that by (fastforce simp: resize_history_def)
  show ?thesis unfolding key_action_def
    using e backspace_key_ok [OF inv, of a] char_key_ok [OF assms(1) inv, of c a] HistoryUpDown_ok [OF assms(1) inv, of "-1"]
      HistoryUpDown_ok [OF assms(1) inv, of 1] inv by auto
qed

lemma InputKey_step:
  assumes "length font = 4096" and "machine_ok mc" and inv: "term_inv t" and "c = CHR 0x0A \<longrightarrow> linebuf_index t = 0 \<or> cmd_history t \<noteq> []"
  shows "\<exists>a t'. InputKey font mc md key c t = Some (a, t') \<and> term_inv t' \<and> (cmd_history t \<noteq> [] \<longrightarrow> cmd_history t' \<noteq> [])"
proof -
  obtain w a where w: "term_inv (t\<lparr>term_win := w\<rparr>)" and I: "InputKey font mc md key c t =
      Option.bind (key_action font mc key c a (t\<lparr>term_win := w\<rparr>)) (\<lambda>(a, t). Option.bind (DrawCursor True t) (\<lambda>t. Some (a, t)))"
    by (rule InputKey_cases [OF inv])
  obtain a' t1 where t1: "key_action font mc key c a (t\<lparr>term_win := w\<rparr>) = Some (a', t1)" "term_inv t1" "cmd_history t \<noteq> [] \<longrightarrow> cmd_history t1 \<noteq> []"
    using key_action_ok [OF assms(1,2) w, of c key a] assms(4) by auto
  obtain t2 where "Option.bind (DrawCursor True t1) (\<lambda>t. Some (a', t)) = Some (a', t2)" "term_inv t2" "moved t1 t2"
    using InputKey_finish [OF t1(2), of a'] by blast
  moreover from this(3) have "cmd_history t2 = cmd_history t1" by (rule moved_fields)
  ultimately show ?thesis unfolding I using t1 by (intro exI [of _ a'] exI [of _ t2]) simp
qed

lemma InputKey_first_command:
  assumes inv: "term_inv t" and "linebuf_index t > 0" "cmd_history t = []"
  shows "InputKey font mc md key (CHR 0x0A) t = None"
proof -
  obtain w a where I: "InputKey font mc md key (CHR 0x0A) t =
      Option.bind (key_action font mc key (CHR 0x0A) a (t\<lparr>term_win := w\<rparr>)) (\<lambda>(a, t). Option.bind (DrawCursor True t) (\<lambda>t. Some (a, t)))"
    by (rule InputKey_cases [OF inv])
  have "enter_key font mc (t\<lparr>term_win := w\<rparr>) = None" using assms(2,3) by (simp add: enter_key_def arr_set_def Let_def)
  then show ?thesis by (simp add: I key_action_def)
qed

subsection \<open>Sequences of keys\<close>

definition press :: "u8 list \<Rightarrow> machine \<Rightarrow> u8 \<times> u8 \<times> char \<Rightarrow> Terminal \<Rightarrow> Terminal option" where
  "press font mc = (\<lambda>(md, key, c) t. map_option snd (InputKey font mc md key c t))"

definition type_char :: "char \<Rightarrow> u8 \<times> u8 \<times> char" where "type_char c = (0, 0, c)"
definition enter :: "u8 \<times> u8 \<times> char" where "enter = (0, 0x28, CHR 0x0A)"
definition arrow_up :: "u8 \<times> u8 \<times> char" where "arrow_up = (0, 0x52, null)"

text \<open>A character that goes into the line.\<close>

definition plain :: "char \<Rightarrow> bool" where
  "plain c \<longleftrightarrow> c \<noteq> null \<and> c \<noteq> CHR 0x0A \<and> c \<noteq> CHR 0x08"

lemma press_cases:
  assumes "term_inv t" and "\<And>w a. term_inv (t\<lparr>term_win := w\<rparr>) \<Longrightarrow>
    \<exists>a' t'. key_action font mc key c a (t\<lparr>term_win := w\<rparr>) = Some (a', t') \<and> term_inv t' \<and> P (linebuf t') (linebuf_index t') (cmd_history t')
      (cmd_history_index t') (vx (cursor t'))"
  shows "\<exists>t'. press font mc (md, key, c) t = Some t' \<and> term_inv t' \<and> P (linebuf t') (linebuf_index t') (cmd_history t')
      (cmd_history_index t') (vx (cursor t'))"
proof -
  obtain w a where w: "term_inv (t\<lparr>term_win := w\<rparr>)" and I: "InputKey font mc md key c t =
      Option.bind (key_action font mc key c a (t\<lparr>term_win := w\<rparr>)) (\<lambda>(a, t). Option.bind (DrawCursor True t) (\<lambda>t. Some (a, t)))"
    by (rule InputKey_cases [OF assms(1)])
  obtain a' t1 where t1: "key_action font mc key c a (t\<lparr>term_win := w\<rparr>) = Some (a', t1)" "term_inv t1"
    "P (linebuf t1) (linebuf_index t1) (cmd_history t1) (cmd_history_index t1) (vx (cursor t1))" using assms(2) [OF w, of a] by blast
  have "on_grid 60 t1" using t1(2) by (simp add: term_inv_def)
  then obtain w2 where w2: "DrawCursor True t1 = Some (t1\<lparr>term_win := w2\<rparr>)" "term_win_ok w2" using DrawCursor_ok by blast
  have "press font mc (md, key, c) t = Some (t1\<lparr>term_win := w2\<rparr>)" by (simp add: press_def I t1(1) w2(1))
  then show ?thesis using t1(3) term_inv_window [OF t1(2) w2(2)] by simp
qed

lemma press_char:
  assumes "length font = 4096" and inv: "term_inv t" and "plain c" and "vx (cursor t) < 59"
  shows "\<exists>t'. press font mc (type_char c) t = Some t' \<and> term_inv t' \<and>
    take (linebuf_index t') (linebuf t') = take (linebuf_index t) (linebuf t) @ [c] \<and>
    linebuf_index t' = Suc (linebuf_index t) \<and> cmd_history t' = cmd_history t \<and> vx (cursor t') = vx (cursor t) + 1"
  unfolding type_char_def
proof (rule press_cases [OF inv])
  fix w a assume w: "term_inv (t\<lparr>term_win := w\<rparr>)"
  have c: "c \<noteq> null" using assms(3) by (simp add: plain_def)
  obtain w' where w': "char_key font c a (t\<lparr>term_win := w\<rparr>) = Some (a, t\<lparr>linebuf := (linebuf t)[linebuf_index t := c],
      linebuf_index := Suc (linebuf_index t), term_win := w', cursor := V (vx (cursor t) + 1) (vy (cursor t))\<rparr>)"
    using char_key_types [OF assms(1) w c, of a] assms(4) by auto
  have k: "linebuf_index t < length (linebuf t)" using inv by (simp add: term_inv_def kLineMax_def)
  then have tk: "take (Suc (linebuf_index t)) ((linebuf t)[linebuf_index t := c]) = take (linebuf_index t) (linebuf t) @ [c]"
    by (simp add: take_Suc_conv_app_nth)
  obtain a' t' where t': "char_key font c a (t\<lparr>term_win := w\<rparr>) = Some (a', t')" "term_inv t'"
    using char_key_ok [OF assms(1) w c, of a] by blast
  have "key_action font mc 0 c a (t\<lparr>term_win := w\<rparr>) = char_key font c a (t\<lparr>term_win := w\<rparr>)"
    using assms(3) by (simp add: key_action_def plain_def)
  with t' w' tk show "\<exists>a' t'. key_action font mc 0 c a (t\<lparr>term_win := w\<rparr>) = Some (a', t') \<and> term_inv t' \<and>
      take (linebuf_index t') (linebuf t') = take (linebuf_index t) (linebuf t) @ [c] \<and>
      linebuf_index t' = Suc (linebuf_index t) \<and> cmd_history t' = cmd_history t \<and> vx (cursor t') = vx (cursor t) + 1"
    by auto
qed

lemma press_chars:
  assumes "length font = 4096" and "term_inv t" and "\<forall>c \<in> set s. plain c" and "vx (cursor t) + int (length s) \<le> 59"
  shows "\<exists>t'. foldM (press font mc) (map type_char s) t = Some t' \<and> term_inv t' \<and>
    take (linebuf_index t') (linebuf t') = take (linebuf_index t) (linebuf t) @ s \<and>
    linebuf_index t' = linebuf_index t + length s \<and> cmd_history t' = cmd_history t"
  using assms(2-4)
proof (induction s arbitrary: t)
  case (Cons c s)
  obtain t1 where t1: "press font mc (type_char c) t = Some t1" "term_inv t1"
    "take (linebuf_index t1) (linebuf t1) = take (linebuf_index t) (linebuf t) @ [c]" "linebuf_index t1 = Suc (linebuf_index t)"
    "cmd_history t1 = cmd_history t" "vx (cursor t1) = vx (cursor t) + 1"
    using press_char [OF assms(1) Cons.prems(1), of c mc] Cons.prems(2,3) by auto
  have "\<exists>t'. foldM (press font mc) (map type_char s) t1 = Some t' \<and> term_inv t' \<and>
    take (linebuf_index t') (linebuf t') = take (linebuf_index t1) (linebuf t1) @ s \<and>
    linebuf_index t' = linebuf_index t1 + length s \<and> cmd_history t' = cmd_history t1"
    using t1(2,6) Cons.prems by (intro Cons.IH) auto
  with t1 show ?case by auto
qed simp

text \<open>The commands in the history, the latest first.\<close>

definition commands :: "Terminal \<Rightarrow> string list" where
  "commands t = map (takeWhile (\<lambda>c. c \<noteq> null)) (cmd_history t)"

lemma press_enter:
  assumes "length font = 4096" and "machine_ok mc" and inv: "term_inv t" and "cmd_history t \<noteq> []" and "linebuf_index t > 0"
  shows "\<exists>t'. press font mc enter t = Some t' \<and> term_inv t' \<and> linebuf_index t' = 0 \<and>
    commands t' = take (linebuf_index t) (linebuf t) # butlast (commands t) \<and> cmd_history_index t' = -1 \<and> vx (cursor t') = 1"
  unfolding enter_def commands_def
proof (rule press_cases [OF inv])
  fix w a assume w: "term_inv (t\<lparr>term_win := w\<rparr>)"
  let ?t = "t\<lparr>term_win := w\<rparr>"
  have "linebuf_index ?t = 0 \<or> cmd_history ?t \<noteq> []" using assms(4) by simp
  from enter_key_ok [OF assms(1,2) w this] obtain a' t' where t': "enter_key font mc ?t = Some (a', t')" "term_inv t'"
    "cmd_history t' = resize_history (submit ?t)" "linebuf_index t' = 0" "cmd_history_index t' = -1" "vx (cursor t') = 1" by blast
  have 8: "length (cmd_history t) = 8" using inv assms(4) by (simp add: term_inv_def)
  have "takeWhile (\<lambda>c. c \<noteq> null) ((linebuf t)[linebuf_index t := null]) = take (linebuf_index t) (linebuf t)"
    using inv by (intro entry_ok_terminated) (simp_all add: term_inv_def kLineMax_def)
  then have "map (takeWhile (\<lambda>c. c \<noteq> null)) (cmd_history t') = take (linebuf_index t) (linebuf t) # butlast (map (takeWhile (\<lambda>c. c \<noteq> null)) (cmd_history t))"
    using t'(3) assms(5) 8 by (simp add: resize_history_def submit_def commands_def map_butlast)
  with t' show "\<exists>a' t'. key_action font mc 0x28 (CHR 0x0A) a ?t = Some (a', t') \<and> term_inv t' \<and> linebuf_index t' = 0 \<and>
      map (takeWhile (\<lambda>c. c \<noteq> null)) (cmd_history t') = take (linebuf_index t) (linebuf t) # butlast (map (takeWhile (\<lambda>c. c \<noteq> null)) (cmd_history t)) \<and>
      cmd_history_index t' = -1 \<and> vx (cursor t') = 1"
    by (auto simp: key_action_def)
qed

lemma press_up:
  assumes "length font = 4096" and inv: "term_inv t" and "cmd_history_index t + 1 < int (length (cmd_history t))"
  shows "\<exists>t'. press font mc arrow_up t = Some t' \<and> term_inv t' \<and> cmd_history t' = cmd_history t \<and>
    cmd_history_index t' = cmd_history_index t + 1 \<and> linebuf_index t' = length (commands t ! nat (cmd_history_index t + 1)) \<and>
    c_str (linebuf t') = Some (commands t ! nat (cmd_history_index t + 1))"
  unfolding arrow_up_def
proof (rule press_cases [OF inv])
  fix w a assume w: "term_inv (t\<lparr>term_win := w\<rparr>)"
  let ?t = "t\<lparr>term_win := w\<rparr>"
  have r: "recalled 1 ?t = cmd_history_index t + 1" using assms(3) by (simp add: recalled_def)
  have "recalled_line 1 ?t = commands t ! nat (cmd_history_index t + 1)"
  proof -
    have "0 \<le> cmd_history_index t + 1" using inv by (simp add: term_inv_def)
    then have "nat (cmd_history_index t + 1) < length (cmd_history t)" "recalled 1 ?t \<ge> 0" using assms(3) r by simp_all
    then show ?thesis by (simp add: recalled_line_def commands_def r)
  qed
  then show "\<exists>a' t'. key_action font mc 0x52 null a ?t = Some (a', t') \<and> term_inv t' \<and> cmd_history t' = cmd_history t \<and>
      cmd_history_index t' = cmd_history_index t + 1 \<and> linebuf_index t' = length (commands t ! nat (cmd_history_index t + 1)) \<and>
      c_str (linebuf t') = Some (commands t ! nat (cmd_history_index t + 1))"
    using HistoryUpDown_ok [OF assms(1) w, of 1] r by (auto simp: key_action_def null_def)
qed

text \<open>\<open>n\<close> presses of the arrow key.\<close>

lemma press_ups:
  assumes "length font = 4096" and "term_inv t" and "cmd_history_index t = -1" and "n < length (cmd_history t)"
  shows "\<exists>t'. foldM (press font mc) (replicate (Suc n) arrow_up) t = Some t' \<and> term_inv t' \<and> cmd_history t' = cmd_history t \<and>
    cmd_history_index t' = int n \<and> linebuf_index t' = length (commands t ! n) \<and> c_str (linebuf t') = Some (commands t ! n)"
  using assms(4)
proof (induction n)
  case 0
  then show ?case using press_up [OF assms(1,2), of mc] assms(3) by auto
next
  case (Suc n)
  then obtain t1 where t1: "foldM (press font mc) (replicate (Suc n) arrow_up) t = Some t1" "term_inv t1" "cmd_history t1 = cmd_history t"
    "cmd_history_index t1 = int n" by auto
  have "cmd_history_index t1 + 1 < int (length (cmd_history t1))" using t1(3,4) Suc.prems by simp
  from press_up [OF assms(1) t1(2) this, of mc] t1(3,4)
  obtain t2 where t2: "press font mc arrow_up t1 = Some t2" "term_inv t2" "cmd_history t2 = cmd_history t" "cmd_history_index t2 = int (Suc n)"
    "linebuf_index t2 = length (commands t ! Suc n)" "c_str (linebuf t2) = Some (commands t ! Suc n)"
    by (auto simp: commands_def nat_add_distrib)
  have "replicate (Suc (Suc n)) arrow_up = replicate (Suc n) arrow_up @ [arrow_up]" by (simp add: replicate_append_same)
  then have "foldM (press font mc) (replicate (Suc (Suc n)) arrow_up) t = Some t2" by (simp only: foldM_append t1(1)) (simp add: t2(1))
  with t2 show ?case by blast
qed

definition at_prompt :: "Terminal \<Rightarrow> bool" where
  "at_prompt t \<longleftrightarrow> term_inv t \<and> linebuf_index t = 0 \<and> vx (cursor t) = 1 \<and> cmd_history t \<noteq> [] \<and> cmd_history_index t = -1"

definition command_ok :: "string \<Rightarrow> bool" where
  "command_ok s \<longleftrightarrow> s \<noteq> [] \<and> length s \<le> 58 \<and> (\<forall>c \<in> set s. plain c)"

definition type_command :: "string \<Rightarrow> (u8 \<times> u8 \<times> char) list" where
  "type_command s = map type_char s @ [enter]"

lemma press_command:
  assumes "length font = 4096" and "machine_ok mc" and "at_prompt t" and "command_ok s"
  shows "\<exists>t'. foldM (press font mc) (type_command s) t = Some t' \<and> at_prompt t' \<and> commands t' = take 8 (s # commands t)"
proof -
  have t: "term_inv t" "linebuf_index t = 0" "vx (cursor t) = 1" "cmd_history t \<noteq> []" using assms(3) by (auto simp: at_prompt_def)
  have "\<forall>c \<in> set s. plain c" "vx (cursor t) + int (length s) \<le> 59" using assms(4) t(3) by (simp_all add: command_ok_def)
  from press_chars [OF assms(1) t(1) this, of mc] obtain t1 where t1: "foldM (press font mc) (map type_char s) t = Some t1" "term_inv t1"
    "take (linebuf_index t1) (linebuf t1) = s" "linebuf_index t1 = length s" "cmd_history t1 = cmd_history t"
    unfolding t(2) take_0 append_Nil add_0 by blast
  have "cmd_history t1 \<noteq> []" "linebuf_index t1 > 0" using t1(4,5) t(4) assms(4) by (auto simp: command_ok_def)
  from press_enter [OF assms(1,2) t1(2) this] obtain t2 where t2: "press font mc enter t1 = Some t2" "term_inv t2" "linebuf_index t2 = 0"
    "commands t2 = s # butlast (commands t1)" "cmd_history_index t2 = -1" "vx (cursor t2) = 1"
    unfolding t1(3) by blast
  have 8: "length (commands t) = 8" "commands t1 = commands t" using t(1,4) t1(5) by (auto simp: term_inv_def commands_def)
  then have "commands t2 = take 8 (s # commands t)" using t2(4) by (simp add: butlast_conv_take take_Cons')
  moreover from this have "cmd_history t2 \<noteq> []" by (auto simp: commands_def)
  ultimately show ?thesis using t1(1) t2 by (simp add: type_command_def foldM_append at_prompt_def)
qed

lemma press_commands:
  assumes "length font = 4096" and "machine_ok mc" and "at_prompt t" and "\<forall>s \<in> set lines. command_ok s"
  shows "\<exists>t'. foldM (press font mc) (concat (map type_command lines)) t = Some t' \<and> at_prompt t' \<and>
    commands t' = take 8 (rev lines @ commands t)"
  using assms(4)
proof (induction lines rule: rev_induct)
  case Nil
  have "length (commands t) = 8" using assms(3) by (auto simp: at_prompt_def term_inv_def commands_def)
  then show ?case using assms(3) by simp
next
  case (snoc s lines)
  then obtain t1 where t1: "foldM (press font mc) (concat (map type_command lines)) t = Some t1" "at_prompt t1"
    "commands t1 = take 8 (rev lines @ commands t)" by auto
  obtain t2 where "foldM (press font mc) (type_command s) t1 = Some t2" "at_prompt t2" "commands t2 = take 8 (s # commands t1)"
    using press_command [OF assms(1,2) t1(2), of s] snoc.prems by auto
  then show ?case using t1 by (auto simp: foldM_append take_Cons' min_def)
qed

subsection \<open>The terminal when it is made\<close>

lemma Terminal_new_ok:
  assumes "length font = 4096" and "fmt \<noteq> other_format"
  shows "\<exists>t g'. Terminal_new font fmt g = Some (t, g') \<and> term_inv t \<and> linebuf_index t = 0 \<and> vx (cursor t) = 1 \<and>
    cmd_history t = [] \<and> cmd_history_index t = -1"
proof -
  have n: "nat (Terminal_kColumns * 8 + 8 + kMarginX) = 496" "nat (Terminal_kRows * 16 + 8 + kMarginY) = 276"
    by (simp_all add: term_consts kMarginX_def kMarginY_def kBottomRightMargin_def)
  obtain w where w: "ToplevelWindow_new font 496 276 fmt ''Terminal'' = Some w" "term_win_ok w"
    using ToplevelWindow_new_ok [OF assms(1) _ assms(2), of 496 276 "''Terminal''"] by (auto simp: term_win_ok_def)
  have "fits w (vec_add (V 0 0) kTopLeftMargin) (InnerSize w)"
    using w(2) by (simp add: term_win_ok_def fits_def InnerSize_def Window_Size_def vec_add_def vec_sub_def kTopLeftMargin_def kBottomRightMargin_def)
  then obtain w1 where w1: "DrawTerminal Inner_Write (V 0 0) (InnerSize w) w = Some w1" "redrawn w w1"
    using FillRectangle_inner_redrawn by (fastforce simp: DrawTerminal_def DrawTextbox6_def vec_add_def vec_sub_def)
  then have ok1: "term_win_ok w1" using w(2) term_win_ok_redrawn by blast
  obtain k m where k: "NewLayer (layer_manager g) = (k, m)" by fastforce
  define m' where "m' = m\<lparr>layers := (layers m)[k := SetDraggable True (SetWindow (length (windows g)) (layers m ! k))]\<rparr>"
  let ?t = "\<lparr>term_win = w1, term_window = length (windows g), term_layer_id = layer_id (layers m' ! k), cursor = V 0 0,
       cursor_visible = False, linebuf_index = 0, linebuf = empty_line, cmd_history = [], cmd_history_index = -1\<rparr>"
  have "on_grid 59 ?t" using ok1 by (simp add: on_grid_def)
  from Print_prompt [OF assms(1) this] obtain t where t: "Print font ''>'' ?t = Some t" "moved ?t t" "on_grid 59 t" "vx (cursor t) = 1" by auto
  have f: "linebuf t = empty_line" "linebuf_index t = 0" "cmd_history t = []" "cmd_history_index t = -1"
    using moved_fields [OF t(2)] by simp_all
  have "Terminal_new font fmt g = Some (t, g\<lparr>windows := windows g @ [term_win t], layer_manager := m'\<rparr>)"
    using w(1) w1(1) k t(1) by (simp add: Terminal_new_def n m'_def Let_def)
  moreover have "term_inv t" using f t(3,4) by (simp add: term_inv_def on_grid_def empty_line_def)
  ultimately show ?thesis using f t(4) by blast
qed

lemma press_enter_empty:
  assumes "length font = 4096" and "machine_ok mc" and inv: "term_inv t" and "linebuf_index t = 0"
  shows "\<exists>t'. press font mc enter t = Some t' \<and> term_inv t' \<and> linebuf_index t' = 0 \<and> cmd_history t' \<noteq> [] \<and>
    cmd_history_index t' = -1 \<and> vx (cursor t') = 1"
  unfolding enter_def
proof (rule press_cases [OF inv])
  fix w a assume w: "term_inv (t\<lparr>term_win := w\<rparr>)"
  have "linebuf_index (t\<lparr>term_win := w\<rparr>) = 0 \<or> cmd_history (t\<lparr>term_win := w\<rparr>) \<noteq> []" using assms(4) by simp
  from enter_key_ok [OF assms(1,2) w this]
  show "\<exists>a' t'. key_action font mc 0x28 (CHR 0x0A) a (t\<lparr>term_win := w\<rparr>) = Some (a', t') \<and> term_inv t' \<and> linebuf_index t' = 0 \<and>
      cmd_history t' \<noteq> [] \<and> cmd_history_index t' = -1 \<and> vx (cursor t') = 1"
    by (fastforce simp: key_action_def resize_history_def)
qed

lemma press_step:
  assumes "length font = 4096" and "machine_ok mc" and "term_inv t \<and> cmd_history t \<noteq> []"
  shows "\<exists>t'. press font mc k t = Some t' \<and> term_inv t' \<and> cmd_history t' \<noteq> []"
  using InputKey_step [OF assms(1,2), of t "snd (snd k)" "fst k" "fst (snd k)"] assms(3) by (cases k) (auto simp: press_def)

text \<open>A machine without devices and a desktop without windows, for concrete runs.\<close>

definition machine_demo :: machine where
  "machine_demo = \<lparr>mc_conf = (\<lambda>_. 0), mc_pci = \<lparr>devices = [], num_device = 0\<rparr>, mc_mem = (\<lambda>_. 0), boot_volume_image = 0\<rparr>"

lemma machine_demo_ok: "machine_ok machine_demo"
  by (simp add: machine_ok_def machine_demo_def)

definition gui_demo :: gui where
  "gui_demo = \<lparr>windows = [], layer_manager = LayerManager_new,
     active_layer = \<lparr>active_layer_id = 0, mouse_layer_id = 0\<rparr>, layer_task_map = Map.empty\<rparr>"

subsection \<open>Properties\<close>

text \<open>C4: No key is unsafe: after the first Enter on the empty line, whatever keys are pressed (commands, arrows,
  backspaces over the prompt, lines longer than a row), the handler stays inside the line buffer, the history
  and the window, and the cursor stays on the grid.\<close>

theorem terminal_keys_safe:
  assumes "length font = 4096" and "fmt \<noteq> other_format" and "machine_ok mc"
  shows "\<exists>t g'. Terminal_new font fmt g = Some (t, g') \<and>
    (\<forall>keys. \<exists>t'. foldM (press font mc) (enter # keys) t = Some t' \<and> term_inv t')"
proof -
  obtain t g' where t: "Terminal_new font fmt g = Some (t, g')" "term_inv t" "linebuf_index t = 0"
    using Terminal_new_ok [OF assms(1,2)] by blast
  obtain t1 where t1: "press font mc enter t = Some t1" "term_inv t1 \<and> cmd_history t1 \<noteq> []"
    using press_enter_empty [OF assms(1,3) t(2,3)] by blast
  have "\<exists>t'. foldM (press font mc) keys t1 = Some t' \<and> (term_inv t' \<and> cmd_history t' \<noteq> [])" for keys
    using t1(2) by (rule foldM_invariant) (rule press_step [OF assms(1,3)])
  then show ?thesis using t(1) t1(1) by auto
qed

theorem terminal_keys_safe_witness:
  "\<exists>t g' t'. Terminal_new (replicate 4096 0) kPixelRGBResv8BitPerColor gui_demo = Some (t, g') \<and>
    foldM (press (replicate 4096 0) machine_demo) (enter # map type_char ''echo hi'' @ [enter, arrow_up, (0, 0, CHR 0x08)]) t = Some t' \<and> term_inv t'"
  using terminal_keys_safe [of "replicate 4096 0" kPixelRGBResv8BitPerColor machine_demo gui_demo] machine_demo_ok by auto

text \<open>C38: The exception: the history starts empty, so the first command pops an empty deque.\<close>

theorem first_command_undefined:
  assumes "length font = 4096" and "fmt \<noteq> other_format" and "command_ok s"
  shows "\<exists>t g'. Terminal_new font fmt g = Some (t, g') \<and> foldM (press font mc) (type_command s) t = None"
proof -
  obtain t g' where t: "Terminal_new font fmt g = Some (t, g')" "term_inv t" "linebuf_index t = 0" "vx (cursor t) = 1" "cmd_history t = []"
    using Terminal_new_ok [OF assms(1,2)] by blast
  have "\<forall>c \<in> set s. plain c" "vx (cursor t) + int (length s) \<le> 59" using assms(3) t(4) by (simp_all add: command_ok_def)
  from press_chars [OF assms(1) t(2) this, of mc] obtain t1 where t1: "foldM (press font mc) (map type_char s) t = Some t1" "term_inv t1"
    "linebuf_index t1 = length s" "cmd_history t1 = []" unfolding t(3,5) by auto
  then have "InputKey font mc 0 0x28 (CHR 0x0A) t1 = None"
    using assms(3) by (intro InputKey_first_command) (simp_all add: command_ok_def)
  then show ?thesis using t(1) t1(1) by (simp add: type_command_def foldM_append press_def enter_def)
qed

theorem first_command_undefined_witness:
  "\<exists>t g'. Terminal_new (replicate 4096 0) kPixelRGBResv8BitPerColor gui_demo = Some (t, g') \<and>
    foldM (press (replicate 4096 0) machine_demo) (type_command ''ls'') t = None"
  by (intro first_command_undefined) (simp_all add: command_ok_def plain_def null_def)

text \<open>C17: The history: the \<open>n\<close>-th arrow up (from 0) brings back the \<open>n\<close>-th latest of the last eight commands, character by
  character, whatever the commands did.\<close>

theorem history_recalls_commands:
  assumes "length font = 4096" and "fmt \<noteq> other_format" and "machine_ok mc"
    and "\<forall>s \<in> set lines. command_ok s" and "n < 8" "n < length lines"
  shows "\<exists>t g' t'. Terminal_new font fmt g = Some (t, g') \<and>
    foldM (press font mc) (enter # concat (map type_command lines) @ replicate (Suc n) arrow_up) t = Some t' \<and>
    c_str (linebuf t') = Some (rev lines ! n) \<and> linebuf_index t' = length (rev lines ! n)"
proof -
  obtain t g' where t: "Terminal_new font fmt g = Some (t, g')" "term_inv t" "linebuf_index t = 0"
    using Terminal_new_ok [OF assms(1,2)] by blast
  obtain t1 where t1: "press font mc enter t = Some t1" "at_prompt t1"
    using press_enter_empty [OF assms(1,3) t(2,3)] by (auto simp: at_prompt_def)
  obtain t2 where t2: "foldM (press font mc) (concat (map type_command lines)) t1 = Some t2" "at_prompt t2"
    "commands t2 = take 8 (rev lines @ commands t1)" using press_commands [OF assms(1,3) t1(2) assms(4)] by blast
  have "length (cmd_history t2) = 8" using t2(2) by (auto simp: at_prompt_def term_inv_def)
  then have n: "n < length (cmd_history t2)" using assms(5) by simp
  have inv: "term_inv t2" "cmd_history_index t2 = -1" using t2(2) by (simp_all add: at_prompt_def)
  have "commands t2 ! n = rev lines ! n" using assms(5,6) by (simp add: t2(3) nth_append)
  with press_ups [OF assms(1) inv n, of mc] obtain t3 where "foldM (press font mc) (replicate (Suc n) arrow_up) t2 = Some t3"
    "linebuf_index t3 = length (rev lines ! n)" "c_str (linebuf t3) = Some (rev lines ! n)" by auto
  then show ?thesis using t(1) t1(1) t2(1) by (auto simp: foldM_append simp del: replicate_Suc)
qed

theorem history_recalls_commands_witness:
  "\<exists>t g' t'. Terminal_new (replicate 4096 0) kPixelRGBResv8BitPerColor gui_demo = Some (t, g') \<and>
    foldM (press (replicate 4096 0) machine_demo) (enter # concat (map type_command [''echo hello'', ''ls'']) @ [arrow_up, arrow_up]) t = Some t' \<and>
    c_str (linebuf t') = Some ''echo hello'' \<and> linebuf_index t' = length ''echo hello''"
  using history_recalls_commands [of "replicate 4096 0" kPixelRGBResv8BitPerColor machine_demo "[''echo hello'', ''ls'']" 1 gui_demo] machine_demo_ok
  by (simp add: command_ok_def plain_def null_def)

end
