(* ===== verification/Main_Loop.thy ===== *)
theory Main_Loop
  imports "HOL-Library.Signed_Division" Terminal_Props Timer_Manager Xhci_Init Mouse Keyboard Console
begin

text \<open>
  \<open>src/kernel/main.cpp\<close>: the windows of the main task and its message loop. \<open>system\<close> collects the objects
  behind the global pointers the loop uses. \<open>text_box\<close> holds the variables of the text window. A window
  object is a number of the window store of \<open>gui\<close>.
\<close>

subsection \<open>State\<close>

record text_box =
  text_window :: nat
  text_window_layer_id :: u32
  text_window_index :: int

record system =
  sys_gui :: gui
  sys_mouse :: Mouse
  sys_console :: Console
  sys_tasks :: TaskManager
  sys_timers :: TimerManager
  sys_xhc :: Controller
  main_window :: nat
  main_window_layer_id :: u32
  sys_text :: text_box
  textbox_cursor_visible :: bool

text \<open>What stays the same after the start: the font, the size of the screen, the log level, the number of the
  console's window, the objects \<open>main_task\<close> and \<open>task_terminal_id\<close>, and the host controller's side of the USB driver.\<close>

record main_config =
  su_font :: "u8 list"
  su_screen_size :: Vector2D
  su_log_level :: LogLevel
  su_console_window :: nat
  main_task :: task_ptr
  task_terminal_id :: u64
  su_env :: Env
  su_hw :: Hw
  su_place :: "Code \<Rightarrow> string" \<comment> \<open>the file and line of an error, which the model of errors leaves out\<close>

definition on_store :: "(Window \<Rightarrow> Window option) \<Rightarrow> nat \<Rightarrow> gui \<Rightarrow> gui option" where
  "on_store f j g = do {
     w \<leftarrow> arr_get (windows g) j;
     w \<leftarrow> f w;
     Some (g\<lparr>windows := (windows g)[j := w]\<rparr>)
   }"

definition draw_id :: "u32 \<Rightarrow> gui \<Rightarrow> gui option" where
  "draw_id i g = map_option (\<lambda>m. g\<lparr>layer_manager := m\<rparr>) (LayerManager_DrawLayer (windows g) i (layer_manager g))"

definition INT_MAX :: int where "INT_MAX = 2 ^ 31 - 1"

subsection \<open>The windows\<close>

text \<open>Both windows get a new layer that can be dragged, on top of the others.\<close>

definition add_window :: "Window \<Rightarrow> Vector2D \<Rightarrow> gui \<Rightarrow> nat \<times> u32 \<times> gui" where
  "add_window w p g =
     (let j = length (windows g);
          (k, m) = NewLayer (layer_manager g);
          m = m\<lparr>layers := (layers m)[k := Layer_Move p (SetDraggable True (SetWindow j (layers m ! k)))]\<rparr>;
          i = layer_id (layers m ! k)
      in (j, i, g\<lparr>windows := windows g @ [w], layer_manager := UpDown i INT_MAX m\<rparr>))"

definition InitializeMainWindow :: "u8 list \<Rightarrow> PixelFormat \<Rightarrow> gui \<Rightarrow> (nat \<times> u32 \<times> gui) option" where
  "InitializeMainWindow font fmt g = do {
     w \<leftarrow> ToplevelWindow_new font 250 90 fmt ''Application'';
     w \<leftarrow> WriteString font Window_Write (V 24 28) ''Ashitamo I-hini naruyone?'' kDesktopFGColor w;
     w \<leftarrow> WriteString font Window_Write (V 24 44) ''Uhyo~(:3'' kDesktopFGColor w;
     Some (add_window w (V 300 100) g)
   }"

definition InitializeTextWindow :: "u8 list \<Rightarrow> PixelFormat \<Rightarrow> gui \<Rightarrow> (text_box \<times> gui) option" where
  "InitializeTextWindow font fmt g = do {
     w \<leftarrow> ToplevelWindow_new font 160 52 fmt ''Text Box Test'';
     w \<leftarrow> DrawTextbox Inner_Write (V 0 0) (InnerSize w) w;
     let (j, i, g) = add_window w (V 600 100) g;
     Some (\<lparr>text_window = j, text_window_layer_id = i, text_window_index = 0\<rparr>, g)
   }"

definition DrawTextCursor :: "bool \<Rightarrow> text_box \<Rightarrow> gui \<Rightarrow> gui option" where
  "DrawTextCursor visible tb g =
     (let color = (if visible then kDesktopFGColor else ToColor 0xFFFBE9);
          p = V (4 + 8 * text_window_index tb) 5
      in on_store (FillRectangle Inner_Write p (V 1 15) color) (text_window tb) g)"

text \<open>A \<open>char\<close> is signed.\<close>

definition char_signed :: "char \<Rightarrow> int" where
  "char_signed c = (let n = of_char c in if n < 128 then n else n - 256)"

definition text_pos :: "text_box \<Rightarrow> Vector2D" where
  "text_pos tb = V (4 + 8 * text_window_index tb) 6"

definition max_chars :: "Window \<Rightarrow> int" where
  "max_chars w = (vx (InnerSize w) - 8) sdiv 8 - 1"

definition InputTextWindow :: "u8 list \<Rightarrow> char \<Rightarrow> text_box \<times> gui \<Rightarrow> (text_box \<times> gui) option" where
  "InputTextWindow font c = (\<lambda>(tb, g).
     if c = null then Some (tb, g)
     else do {
       w \<leftarrow> arr_get (windows g) (text_window tb);
       (tb, g) \<leftarrow>
         (if c = CHR 0x08 \<and> text_window_index tb > 0 then do {
            g \<leftarrow> DrawTextCursor False tb g;
            let tb = tb\<lparr>text_window_index := text_window_index tb - 1\<rparr>;
            g \<leftarrow> on_store (FillRectangle Inner_Write (text_pos tb) (V 8 16) (ToColor 0xFFFBE9)) (text_window tb) g;
            g \<leftarrow> DrawTextCursor True tb g;
            Some (tb, g)
          }
          else if char_signed c \<ge> char_signed (CHR '' '') \<and> text_window_index tb < max_chars w then do {
            g \<leftarrow> DrawTextCursor False tb g;
            g \<leftarrow> on_store (WriteAscii font Inner_Write (text_pos tb) c kDesktopFGColor) (text_window tb) g;
            let tb = tb\<lparr>text_window_index := text_window_index tb + 1\<rparr>;
            g \<leftarrow> DrawTextCursor True tb g;
            Some (tb, g)
          }
          else Some (tb, g));
       g \<leftarrow> draw_id (text_window_layer_id tb) g;
       Some (tb, g)
     })"

subsection \<open>The message loop\<close>

definition kTextboxCursorTimer :: int where "kTextboxCursorTimer = 1"
definition kTimer05Sec :: int where "kTimer05Sec = uint kTimerFreq div 2"

text \<open>\<open>printk\<close> of a formatted string. The console shares its window with the window store.\<close>

definition printk :: "main_config \<Rightarrow> string \<Rightarrow> system \<Rightarrow> system option" where
  "printk su str s = do {
     (c, g) \<leftarrow> PutString (su_font su) str (su_console_window su) (sys_console s) (Some (sys_gui s));
     g \<leftarrow> g;
     Some (s\<lparr>sys_console := c, sys_gui := g\<rparr>)
   }"

definition send :: "u64 \<Rightarrow> Message \<Rightarrow> system \<Rightarrow> system option" where
  "send i msg s = map_option (\<lambda>(err, t). s\<lparr>sys_tasks := t\<rparr>) (SendMessage i msg (sys_tasks s))"

text \<open>The observers that \<open>InitializeKeyboard\<close> and \<open>InitializeMouse\<close> register.\<close>

definition observe :: "main_config \<Rightarrow> hid_event \<Rightarrow> system \<Rightarrow> system option" where
  "observe su e s = (case e of
     KeyPush modifier keycode \<Rightarrow> map_option (\<lambda>t. s\<lparr>sys_tasks := t\<rparr>) (keyboard_observer modifier keycode (sys_tasks s))
   | MouseMove buttons dx dy \<Rightarrow>
       map_option (\<lambda>(ms, g). s\<lparr>sys_mouse := ms, sys_gui := g\<rparr>)
         (OnInterrupt (su_font su) (su_screen_size su) buttons dx dy (sys_mouse s, sys_gui s)))"

text \<open>The drivers record the calls of their observers; they are made while the event is handled.\<close>

definition take_hid_events :: "Controller \<Rightarrow> hid_event list \<times> Controller" where
  "take_hid_events c =
     (let devs = dm_devices (devmgr c)
      in (concat (map (\<lambda>d. case d of None \<Rightarrow> [] | Some d \<Rightarrow> hid_events d) devs),
          c\<lparr>devmgr := (devmgr c)\<lparr>dm_devices := map (map_option (\<lambda>d. d\<lparr>hid_events := []\<rparr>)) devs\<rparr>\<rparr>))"

partial_function (option) process_events :: "main_config \<Rightarrow> system \<Rightarrow> system option" where
  "process_events su s = do {
     has \<leftarrow> HasFront (event_ring (sys_xhc s));
     if has then do {
       (err, c) \<leftarrow> ProcessEvent (su_env su) (su_hw su) (sys_xhc s);
       let (es, c) = take_hid_events c;
       s \<leftarrow> foldM (observe su) es (s\<lparr>sys_xhc := c\<rparr>);
       s \<leftarrow> (if error_bool err \<and> log_value kError \<le> log_value (su_log_level su)
             then do {
               name \<leftarrow> Name err;
               printk su (''Error while ProcessEvent: '' @ name @ '' at '' @ su_place su err @ [CHR 0x0A]) s
             }
             else Some s);
       process_events su s
     }
     else Some s
   }"

text \<open>The counter in the main window.\<close>

definition counter_str :: "u64 \<Rightarrow> string" where
  "counter_str t = pad_left (CHR ''0'') 10 (dec_of (unat t))"

definition show_counter :: "main_config \<Rightarrow> system \<Rightarrow> system option" where
  "show_counter su s = do {
     g \<leftarrow> on_store (FillRectangle Inner_Write (V 24 40) (V (8 * 10) 16) \<lparr>red = 255, green = 251, blue = 233\<rparr>) (main_window s) (sys_gui s);
     g \<leftarrow> on_store (WriteString (su_font su) Inner_Write (V 24 40) (counter_str (tick (sys_timers s))) kDesktopFGColor) (main_window s) g;
     g \<leftarrow> draw_id (main_window_layer_id s) g;
     Some (s\<lparr>sys_gui := g\<rparr>)
   }"

definition timer_branch :: "main_config \<Rightarrow> Message \<Rightarrow> system \<Rightarrow> system option" where
  "timer_branch su msg s = (case msg_arg msg of
     timer_arg at value \<Rightarrow>
       if value = kTextboxCursorTimer then do {
         let s = s\<lparr>sys_timers := AddTimer \<lparr>timeout = at + of_int kTimer05Sec, tvalue = kTextboxCursorTimer\<rparr> (sys_timers s),
                    textbox_cursor_visible := \<not> textbox_cursor_visible s\<rparr>;
         g \<leftarrow> DrawTextCursor (textbox_cursor_visible s) (sys_text s) (sys_gui s);
         g \<leftarrow> draw_id (text_window_layer_id (sys_text s)) g;
         send (task_terminal_id su) msg (s\<lparr>sys_gui := g\<rparr>)
       }
       else Some s
   | _ \<Rightarrow> None)"

definition hex2 :: "int \<Rightarrow> string" where
  "hex2 i = pad_left (CHR ''0'') 2 (hex_of (nat (i mod 2 ^ 32)))"

definition key_branch :: "main_config \<Rightarrow> Message \<Rightarrow> system \<Rightarrow> system option" where
  "key_branch su msg s = (case msg_arg msg of
     keyboard_arg modifier keycode ascii \<Rightarrow>
       (let act = active_layer_id (active_layer (sys_gui s))
        in if act = text_window_layer_id (sys_text s)
           then map_option (\<lambda>(tb, g). s\<lparr>sys_text := tb, sys_gui := g\<rparr>) (InputTextWindow (su_font su) ascii (sys_text s, sys_gui s))
           else (case layer_task_map (sys_gui s) act of
               Some task_id \<Rightarrow> send task_id msg s
             | None \<Rightarrow> printk su (''key push not handled: keycode '' @ hex2 (uint keycode) @ '', ascii '' @ hex2 (char_signed ascii) @ [CHR 0x0A]) s))
   | _ \<Rightarrow> None)"

definition layer_branch :: "Message \<Rightarrow> system \<Rightarrow> system option" where
  "layer_branch msg s = do {
     g \<leftarrow> ProcessLayerMessage msg (sys_gui s);
     send (src_task msg) \<lparr>msg_type = kLayerFinish, src_task = 0, msg_arg = no_arg\<rparr> (s\<lparr>sys_gui := g\<rparr>)
   }"

text \<open>The \<open>switch\<close> on the type of the message.\<close>

definition dispatch :: "main_config \<Rightarrow> Message \<Rightarrow> system \<Rightarrow> system option" where
  "dispatch su msg s = (case msg_type msg of
     kInterruptXHCI \<Rightarrow> process_events su s
   | kTimerTimeout \<Rightarrow> timer_branch su msg s
   | kKeyPush \<Rightarrow> key_branch su msg s
   | kLayer \<Rightarrow> layer_branch msg s
   | kLayerFinish \<Rightarrow>
       if log_value kError \<le> log_value (su_log_level su) then printk su (''Unknown message type: 4'' @ [CHR 0x0A]) s else Some s)"

text \<open>One turn of the loop; without a message the main task sleeps.\<close>

definition main_turn :: "main_config \<Rightarrow> system \<Rightarrow> system option" where
  "main_turn su s = do {
     s \<leftarrow> show_counter su s;
     (msg, t) \<leftarrow> ReceiveMessage (main_task su) (sys_tasks s);
     let s = s\<lparr>sys_tasks := t\<rparr>;
     (case msg of
        None \<Rightarrow> map_option (\<lambda>t. s\<lparr>sys_tasks := t\<rparr>) (Sleep (main_task su) (sys_tasks s))
      | Some msg \<Rightarrow> dispatch su msg s)
   }"

end
