(* ===== verification/Main_Props.thy ===== *)
theory Main_Props
  imports Main_Loop
begin

text \<open>
  The message loop of the main task: its windows are redrawn without leaving their bounds, keys reach the text
  box or the task of the active window, the cursor timer re-arms itself, and every layer request is answered.
\<close>

subsection \<open>Redrawing a window of the desktop\<close>

text \<open>Window \<open>j\<close> is shown by a displayed layer \<open>i\<close> that can be dragged, and has size \<open>sz\<close>.\<close>

definition shown_window :: "gui \<Rightarrow> nat \<Rightarrow> u32 \<Rightarrow> Vector2D \<Rightarrow> bool" where
  "shown_window g j i sz \<longleftrightarrow> (\<exists>k. movable g k \<and> layer_id (layers (layer_manager g) ! k) = i \<and>
     layer_window (layers (layer_manager g) ! k) = Some j \<and> j < length (windows g) \<and> Window_Size (windows g ! j) = sz)"

definition at_win :: "gui \<Rightarrow> nat \<Rightarrow> Window \<Rightarrow> gui" where
  "at_win g j w = g\<lparr>windows := (windows g)[j := w]\<rparr>"

text \<open>A consistent desktop, but for pixels \<open>D\<close> of the screen that may be out of date.\<close>

definition desktop_except :: "(Vector2D \<Rightarrow> bool) \<Rightarrow> Vector2D \<Rightarrow> Mouse \<Rightarrow> gui \<Rightarrow> bool" where
  "desktop_except D screen_size ms g \<longleftrightarrow> shows_except D (windows g) (layer_manager g) \<and>
     (\<exists>t. cursor_on_top (mouse_id ms) g t) \<and> mouse_layer_id (active_layer g) = mouse_id ms \<and> windows_ok g \<and>
     none_or_movable g (active_layer_id (active_layer g)) \<and> none_or_movable g (drag_layer_id ms) \<and>
     in_rect (position ms) \<lparr>pos = V 0 0, size = screen_size\<rparr>"

lemma desktop_ok_except: "desktop_ok scr ms g = desktop_except (\<lambda>_. False) scr ms g"
  by (simp add: desktop_ok_def desktop_except_def shows_stack_except)

text \<open>Only the pixels of windows and of the screen differ.\<close>

definition repainted :: "gui \<Rightarrow> gui \<Rightarrow> bool" where
  "repainted g g' \<longleftrightarrow> layers (layer_manager g') = layers (layer_manager g) \<and> layer_stack (layer_manager g') = layer_stack (layer_manager g) \<and>
     active_layer g' = active_layer g \<and> layer_task_map g' = layer_task_map g \<and> length (windows g') = length (windows g) \<and>
     (\<forall>j. Window_Size (windows g' ! j) = Window_Size (windows g ! j)) \<and>
     (\<forall>q. on_screen (layer_manager g') q = on_screen (layer_manager g) q)"

lemma repainted_shown: "repainted g g' \<Longrightarrow> shown_window g' j i sz = shown_window g j i sz"
  by (simp add: repainted_def shown_window_def movable_def)

lemma repainted_trans: "repainted g1 g2 \<Longrightarrow> repainted g2 g3 \<Longrightarrow> repainted g1 g3"
  by (simp add: repainted_def)

lemma on_store_at:
  assumes "j < length (windows g)"
  shows "on_store f j (at_win g j w) = map_option (at_win g j) (f w)"
  using assms by (cases "f w") (simp_all add: on_store_def at_win_def arr_get_def)

lemma on_store_first: "j < length (windows g) \<Longrightarrow> on_store f j g = map_option (at_win g j) (f (windows g ! j))"
  by (cases "f (windows g ! j)") (simp_all add: on_store_def at_win_def arr_get_def)

lemma on_store_redrawn:
  assumes "j < length (windows g)" and "redrawn w0 w" and "\<exists>w'. f w = Some w' \<and> redrawn w w'"
  shows "\<exists>w'. on_store f j (at_win g j w) = Some (at_win g j w') \<and> redrawn w0 w'"
  using assms redrawn_trans by (auto simp: on_store_at)

lemma on_store_redrawn_first:
  assumes "j < length (windows g)" and "\<exists>w'. f (windows g ! j) = Some w' \<and> redrawn (windows g ! j) w'"
  shows "\<exists>w'. on_store f j g = Some (at_win g j w') \<and> redrawn (windows g ! j) w'"
  using assms by (auto simp: on_store_first)

lemma shown_window_except:
  assumes "desktop_except D scr ms g" and "shown_window g j i sz"
  shows "j < length (windows g)" "redrawn (windows g ! j) (windows g ! j)" "Window_Size (windows g ! j) = sz"
proof -
  obtain k where k: "movable g k" "layer_window (layers (layer_manager g) ! k) = Some j" "j < length (windows g)" "Window_Size (windows g ! j) = sz"
    using assms(2) by (auto simp: shown_window_def)
  then show "j < length (windows g)" "Window_Size (windows g ! j) = sz" by simp_all
  have "lm_ok (windows g) (layer_manager g)" using assms(1) by (simp add: desktop_except_def shows_except_def)
  moreover have "k < length (layers (layer_manager g))" using k(1) calculation by (auto simp: movable_def lm_ok_def stack_ok_def)
  ultimately have "layer_ok (windows g) (lm_format (layer_manager g)) (layers (layer_manager g) ! k)" by (simp add: lm_ok_def)
  then show "redrawn (windows g ! j) (windows g ! j)" using k(2) by (simp add: layer_ok_def redrawn_def)
qed

lemmas shown_window_ok = shown_window_except [where D = "\<lambda>_. False", folded desktop_ok_except]

lemma redrawn_fits:
  assumes "redrawn w w'" and "Window_Size w = V a b" and "0 \<le> vx p" "0 \<le> vy p" "vx p + vx sz \<le> a" "vy p + vy sz \<le> b"
  shows "fits w' p sz"
  using assms by (simp add: fits_def redrawn_def win_shape_def Window_Size_def)

lemma repainted_damage: "repainted g g' \<Longrightarrow> damage (windows g') l area = damage (windows g) l area"
  by (simp add: repainted_def damage_def)

text \<open>Drawing in a displayed window \<open>j\<close>, the only one that layer \<open>k\<close> shows.\<close>

lemma redrawn_updates:
  assumes ok: "desktop_except D scr ms g" and k: "movable g k" "layer_window (layers (layer_manager g) ! k) = Some j"
    and w: "redrawn (windows g ! j) w"
  shows "updates (windows g) (layer_manager g) k j whole_area w" and "k < length (layers (layer_manager g))" and "j < length (windows g)"
proof -
  let ?m = "layer_manager g"
  have lm: "lm_ok (windows g) ?m" and d: "decorated (windows g) ?m k" using ok k(1) by (auto simp: desktop_except_def windows_ok_def shows_except_def)
  show kl: "k < length (layers ?m)" using lm k by (auto simp: movable_def lm_ok_def stack_ok_def)
  then have l: "layer_ok (windows g) (lm_format ?m) (layers ?m ! k)" using lm by (simp add: lm_ok_def)
  then show "j < length (windows g)" using k(2) by (simp add: layer_ok_def)
  then show "updates (windows g) ?m k j whole_area w"
    using k d kl w redrawn_size [OF w] l by (auto simp: updates_def layer_ok_def decorated_def redrawn_def)
qed

lemma desktop_redrawn:
  assumes ok: "desktop_except D scr ms g" and w: "redrawn (windows g ! j) w" "j < length (windows g)"
    and m': "shows_except E ((windows g)[j := w]) m'" "layers m' = layers (layer_manager g)" "layer_stack m' = layer_stack (layer_manager g)"
      "\<forall>q. on_screen m' q = on_screen (layer_manager g) q"
  shows "desktop_except E scr ms ((at_win g j w)\<lparr>layer_manager := m'\<rparr>)" and "repainted g ((at_win g j w)\<lparr>layer_manager := m'\<rparr>)"
proof -
  let ?g = "(at_win g j w)\<lparr>layer_manager := m'\<rparr>" and ?ws = "(windows g)[j := w]"
  have size: "Window_Size (?ws ! n) = Window_Size (windows g ! n)" for n
    using redrawn_size [OF w(1)] w(2) by (cases "n = j") simp_all
  have mv: "movable ?g n = movable g n" for n by (simp add: movable_def m'(2,3))
  have nm: "none_or_movable ?g n = none_or_movable g n" for n by (simp add: none_or_movable_def mv m'(2))
  have "decorated ?ws m' n" if "decorated (windows g) (layer_manager g) n" for n
    using decorated_retitled [of "windows g" m' n w j] that w decorated_same [OF m'(2)] by (simp add: redrawn_def)
  then have "windows_ok ?g" using ok by (simp add: desktop_except_def windows_ok_def mv m'(3)) (simp add: at_win_def)
  then show "desktop_except E scr ms ?g"
    using ok m' by (simp add: desktop_except_def nm cursor_on_top_def) (simp add: at_win_def)
  show "repainted g ?g" using size m'(4) by (simp add: repainted_def m'(2,3) at_win_def)
qed

lemma draw_id_except:
  assumes ok: "desktop_except D scr ms g" and win: "shown_window g j i sz" and w: "redrawn (windows g ! j) w"
  shows "\<exists>g'. draw_id i (at_win g j w) = Some g' \<and> desktop_except D scr ms g' \<and> repainted g g' \<and> windows g' = (windows g)[j := w]"
proof -
  let ?m = "layer_manager g" and ?ws = "(windows g)[j := w]"
  obtain k where k: "movable g k" "layer_id (layers ?m ! k) = i" "layer_window (layers ?m ! k) = Some j"
    using win by (auto simp: shown_window_def)
  note u = redrawn_updates [OF ok k(1,3) w]
  have inv: "shows_except D (windows g) ?m" using ok by (simp add: desktop_except_def)
  obtain pre post where "layer_stack ?m = pre @ Some k # post" using k(1) split_list by (fastforce simp: movable_def)
  from redraw_updated_except [OF inv this u(1)] k(2) obtain m' where m': "LayerManager_DrawArea ?ws i whole_area ?m = Some m'"
      "shows_except (\<lambda>q. D q \<and> \<not> in_rect q (damage ?ws (layers ?m ! k) whole_area)) ?ws m'" "layers m' = layers ?m"
      "layer_stack m' = layer_stack ?m" "\<forall>q. on_screen m' q = on_screen ?m q" by blast
  have shown: "shows_except D ?ws m'" using m'(2) by (rule shows_except_mono) simp
  have draw: "draw_id i (at_win g j w) = Some ((at_win g j w)\<lparr>layer_manager := m'\<rparr>)"
    using m'(1) by (simp add: draw_id_def LayerManager_DrawLayer_def at_win_def)
  show ?thesis
    by (intro exI [of _ "(at_win g j w)\<lparr>layer_manager := m'\<rparr>"])
      (use draw desktop_redrawn [OF ok w u(3) shown m'(3-5)] in \<open>simp add: at_win_def\<close>)
qed

lemma draw_id_shows:
  assumes "desktop_ok scr ms g" and "shown_window g j i sz" and "redrawn (windows g ! j) w"
  shows "\<exists>g'. draw_id i (at_win g j w) = Some g' \<and> desktop_ok scr ms g' \<and> repainted g g'"
  using draw_id_except [OF assms(1) [unfolded desktop_ok_except] assms(2,3)] by (auto simp: desktop_ok_except)

subsection \<open>The text box\<close>

abbreviation "text_size \<equiv> V 160 52"

text \<open>The text box is consistent when its window is displayed and the cursor is within the line.\<close>

definition text_ok :: "gui \<Rightarrow> text_box \<Rightarrow> bool" where
  "text_ok g tb \<longleftrightarrow> shown_window g (text_window tb) (text_window_layer_id tb) text_size \<and>
     0 \<le> text_window_index tb \<and> text_window_index tb \<le> 17"

lemma DrawTextCursor_redrawn:
  assumes "j = text_window tb" "j < length (windows g)" and "redrawn w0 w" "Window_Size w0 = text_size"
    and "0 \<le> text_window_index tb" "text_window_index tb \<le> 17"
  shows "\<exists>w'. DrawTextCursor b tb (at_win g j w) = Some (at_win g j w') \<and> redrawn w0 w'"
  unfolding DrawTextCursor_def Let_def assms(1) [symmetric]
  by (intro on_store_redrawn [OF assms(2,3)] FillRectangle_inner_redrawn redrawn_fits [OF assms(3,4)])
    (use assms(5,6) in \<open>simp_all add: vec_add_def kTopLeftMargin_def\<close>)

text \<open>The effect of a key on the position of the cursor.\<close>

definition text_step :: "char \<Rightarrow> int \<Rightarrow> int" where
  "text_step c i = (if c = CHR 0x08 \<and> i > 0 then i - 1 else if char_signed c \<ge> 32 \<and> i < 17 then i + 1 else i)"

lemma at_win_self [simp]: "at_win g j (windows g ! j) = g"
  by (simp add: at_win_def)

lemma InputTextWindow_ok:
  assumes font: "length font = 4096" and ok: "desktop_ok scr ms g" and tb: "text_ok g tb"
  shows "\<exists>g'. InputTextWindow font c (tb, g) = Some (tb\<lparr>text_window_index := text_step c (text_window_index tb)\<rparr>, g') \<and>
    desktop_ok scr ms g' \<and> repainted g g' \<and> text_ok g' (tb\<lparr>text_window_index := text_step c (text_window_index tb)\<rparr>)"
proof -
  let ?j = "text_window tb" and ?i = "text_window_index tb"
  define i' where "i' = text_step c ?i"
  have i: "0 \<le> ?i" "?i \<le> 17" and win: "shown_window g ?j (text_window_layer_id tb) text_size" using tb by (simp_all add: text_ok_def)
  note w = shown_window_ok [OF ok win]
  have i': "0 \<le> i'" "i' \<le> 17" using i by (auto simp: i'_def text_step_def)
  have mc: "max_chars (windows g ! ?j) = 17"
    by (simp add: max_chars_def InnerSize_def w(3) vec_sub_def kTopLeftMargin_def kBottomRightMargin_def signed_divide_int_def)
  have blank: "char_signed (CHR '' '') = 32" by (simp add: char_signed_def)
  have cursor: "\<exists>w'. DrawTextCursor b (tb\<lparr>text_window_index := n\<rparr>) (at_win g ?j w1) = Some (at_win g ?j w') \<and> redrawn (windows g ! ?j) w'"
    if "redrawn (windows g ! ?j) w1" "0 \<le> n" "n \<le> 17" for b n w1
    using that by (intro DrawTextCursor_redrawn [OF _ w(1) _ w(3)]) simp_all
  have fits: "fits w1 (vec_add (text_pos (tb\<lparr>text_window_index := n\<rparr>)) kTopLeftMargin) (V 8 16)"
    if "redrawn (windows g ! ?j) w1" "0 \<le> n" "n < 17" for w1 n
    using that by (intro redrawn_fits [OF _ w(3)]) (simp_all add: text_pos_def vec_add_def kTopLeftMargin_def)
  let ?body = "(if c = CHR 0x08 \<and> ?i > 0 then do {
            g \<leftarrow> DrawTextCursor False tb g;
            let tb = tb\<lparr>text_window_index := text_window_index tb - 1\<rparr>;
            g \<leftarrow> on_store (FillRectangle Inner_Write (text_pos tb) (V 8 16) (ToColor 0xFFFBE9)) (text_window tb) g;
            g \<leftarrow> DrawTextCursor True tb g;
            Some (tb, g)
          }
          else if char_signed c \<ge> char_signed (CHR '' '') \<and> ?i < max_chars (windows g ! ?j) then do {
            g \<leftarrow> DrawTextCursor False tb g;
            g \<leftarrow> on_store (WriteAscii font Inner_Write (text_pos tb) c kDesktopFGColor) (text_window tb) g;
            let tb = tb\<lparr>text_window_index := text_window_index tb + 1\<rparr>;
            g \<leftarrow> DrawTextCursor True tb g;
            Some (tb, g)
          }
          else Some (tb, g))"
  have body: "\<exists>w'. redrawn (windows g ! ?j) w' \<and> ?body = Some (tb\<lparr>text_window_index := i'\<rparr>, at_win g ?j w')"
  proof -
    obtain w1 where w1: "DrawTextCursor False tb g = Some (at_win g ?j w1)" "redrawn (windows g ! ?j) w1"
      using cursor [OF w(2) i, of False] by auto
    consider (erase) "c = CHR 0x08 \<and> ?i > 0" | (put) "\<not> (c = CHR 0x08 \<and> ?i > 0)" "char_signed c \<ge> 32" "?i < 17"
      | (other) "\<not> (c = CHR 0x08 \<and> ?i > 0)" "\<not> (char_signed c \<ge> 32 \<and> ?i < 17)" by blast
    then show ?thesis
    proof cases
      case erase
      then have e: "i' = ?i - 1" by (simp add: i'_def text_step_def)
      let ?tb = "tb\<lparr>text_window_index := ?i - 1\<rparr>"
      have "\<exists>w2. on_store (FillRectangle Inner_Write (text_pos ?tb) (V 8 16) (ToColor 0xFFFBE9)) ?j (at_win g ?j w1) = Some (at_win g ?j w2) \<and>
          redrawn (windows g ! ?j) w2"
        by (rule on_store_redrawn [OF w(1) w1(2)], rule FillRectangle_inner_redrawn, rule fits [OF w1(2)]) (use erase i in simp_all)
      then obtain w2 where w2: "on_store (FillRectangle Inner_Write (text_pos ?tb) (V 8 16) (ToColor 0xFFFBE9)) ?j (at_win g ?j w1) = Some (at_win g ?j w2)"
        "redrawn (windows g ! ?j) w2" by blast
      obtain w3 where "DrawTextCursor True ?tb (at_win g ?j w2) = Some (at_win g ?j w3)" "redrawn (windows g ! ?j) w3"
        using cursor [OF w2(2), of "?i - 1" True] erase i by auto
      then show ?thesis using erase w1(1) w2(1) by (intro exI [of _ w3]) (simp add: e)
    next
      case put
      then have e: "i' = ?i + 1" by (simp add: i'_def text_step_def)
      let ?tb = "tb\<lparr>text_window_index := ?i + 1\<rparr>"
      have "fits w1 (vec_add (text_pos tb) kTopLeftMargin) (V 8 16)" using fits [OF w1(2) i(1) put(3)] by simp
      then have "\<exists>w2. on_store (WriteAscii font Inner_Write (text_pos tb) c kDesktopFGColor) ?j (at_win g ?j w1) = Some (at_win g ?j w2) \<and>
          redrawn (windows g ! ?j) w2"
        by (intro on_store_redrawn [OF w(1) w1(2)] WriteAscii_inner_redrawn font)
      then obtain w2 where w2: "on_store (WriteAscii font Inner_Write (text_pos tb) c kDesktopFGColor) ?j (at_win g ?j w1) = Some (at_win g ?j w2)"
        "redrawn (windows g ! ?j) w2" by blast
      obtain w3 where "DrawTextCursor True ?tb (at_win g ?j w2) = Some (at_win g ?j w3)" "redrawn (windows g ! ?j) w3"
        using cursor [OF w2(2), of "?i + 1" True] put i by auto
      then show ?thesis using put w1(1) w2(1) by (intro exI [of _ w3]) (auto simp: e mc blank)
    next
      case other
      then have "i' = ?i" by (auto simp: i'_def text_step_def)
      then show ?thesis using other w(2) by (intro exI [of _ "windows g ! ?j"]) (auto simp: mc blank)
    qed
  qed
  show ?thesis
  proof (cases "c = null")
    case True
    then have "i' = ?i" by (simp add: i'_def text_step_def null_def char_signed_def)
    then show ?thesis using True ok tb i'_def by (intro exI [of _ g]) (simp add: InputTextWindow_def repainted_def)
  next
    case False
    obtain w' where w': "redrawn (windows g ! ?j) w'" and b: "?body = Some (tb\<lparr>text_window_index := i'\<rparr>, at_win g ?j w')" using body by blast
    obtain g' where g': "draw_id (text_window_layer_id tb) (at_win g ?j w') = Some g'" "desktop_ok scr ms g'" "repainted g g'"
      using draw_id_shows [OF ok win w'] by blast
    have "InputTextWindow font c (tb, g) = Some (tb\<lparr>text_window_index := i'\<rparr>, g')"
      unfolding InputTextWindow_def using False w(1) b g'(1) by (simp add: arr_get_def)
    moreover have "text_ok g' (tb\<lparr>text_window_index := i'\<rparr>)" using i' win repainted_shown [OF g'(3)] by (simp add: text_ok_def)
    ultimately show ?thesis using g' i'_def by blast
  qed
qed

subsection \<open>One turn of the loop\<close>

lemma length_dec_of: "n < 10 ^ Suc k \<Longrightarrow> length (dec_of n) \<le> Suc k"
proof (induction k arbitrary: n)
  case 0
  then show ?case by (subst dec_of.simps) simp
next
  case (Suc k)
  then have "n div 10 < 10 ^ Suc k" by (simp add: less_mult_imp_div_less mult.commute)
  with Suc.IH [OF this] show ?case by (subst dec_of.simps) simp
qed

lemma length_counter_str: "length (counter_str t) \<le> 20"
proof -
  have "unat t < 2 ^ 64" using unsigned_less [of t, where ?'a = nat] by simp
  then have "unat t < 10 ^ Suc 19" by simp
  from length_dec_of [OF this] show ?thesis by (simp add: counter_str_def pad_left_def)
qed

text \<open>The loop's invariant: the desktop is consistent and shows both windows, and the scheduler is well-formed.\<close>

definition loop_ok :: "main_config \<Rightarrow> system \<Rightarrow> bool" where
  "loop_ok su s \<longleftrightarrow> length (su_font su) = 4096 \<and> desktop_ok (su_screen_size su) (sys_mouse s) (sys_gui s) \<and>
     shown_window (sys_gui s) (main_window s) (main_window_layer_id s) (V 250 90) \<and> text_ok (sys_gui s) (sys_text s) \<and>
     tm_inv (sys_tasks s) \<and> length (tasks (sys_tasks s)) < 2 ^ 64"

text \<open>The same, but for pixels of the screen that are out of date because a task has drawn in its window.\<close>

definition loop_except :: "(Vector2D \<Rightarrow> bool) \<Rightarrow> main_config \<Rightarrow> system \<Rightarrow> bool" where
  "loop_except D su s \<longleftrightarrow> length (su_font su) = 4096 \<and> desktop_except D (su_screen_size su) (sys_mouse s) (sys_gui s) \<and>
     shown_window (sys_gui s) (main_window s) (main_window_layer_id s) (V 250 90) \<and> text_ok (sys_gui s) (sys_text s) \<and>
     tm_inv (sys_tasks s) \<and> length (tasks (sys_tasks s)) < 2 ^ 64"

lemma loop_ok_except: "loop_ok su s = loop_except (\<lambda>_. False) su s"
  by (simp add: loop_ok_def loop_except_def desktop_ok_except)

lemma loop_except_gui:
  assumes "loop_except D su s" and "desktop_except E (su_screen_size su) (sys_mouse s) g" "repainted (sys_gui s) g"
  shows "loop_except E su (s\<lparr>sys_gui := g\<rparr>)"
  using assms repainted_shown [OF assms(3)] by (simp add: loop_except_def text_ok_def)

lemma loop_ok_gui:
  assumes "loop_ok su s" and "desktop_ok (su_screen_size su) (sys_mouse s) g" "repainted (sys_gui s) g"
  shows "loop_ok su (s\<lparr>sys_gui := g\<rparr>)"
  using assms repainted_shown [OF assms(3)] by (simp add: loop_ok_def text_ok_def)

lemma show_counter_except:
  assumes "loop_except D su s"
  shows "\<exists>g. show_counter su s = Some (s\<lparr>sys_gui := g\<rparr>) \<and> loop_except D su (s\<lparr>sys_gui := g\<rparr>) \<and> repainted (sys_gui s) g \<and>
    (\<forall>n. n \<noteq> main_window s \<longrightarrow> windows g ! n = windows (sys_gui s) ! n)"
proof -
  let ?g = "sys_gui s" and ?j = "main_window s"
  have font: "length (su_font su) = 4096" and ok: "desktop_except D (su_screen_size su) (sys_mouse s) ?g"
    and win: "shown_window ?g ?j (main_window_layer_id s) (V 250 90)" using assms by (simp_all add: loop_except_def)
  note w = shown_window_except [OF ok win]
  have "\<exists>w1. on_store (FillRectangle Inner_Write (V 24 40) (V (8 * 10) 16) \<lparr>red = 255, green = 251, blue = 233\<rparr>) ?j ?g = Some (at_win ?g ?j w1) \<and>
      redrawn (windows ?g ! ?j) w1"
    by (intro on_store_redrawn_first w FillRectangle_inner_redrawn redrawn_fits [OF w(2,3)]) (simp_all add: vec_add_def kTopLeftMargin_def)
  then obtain w1 where w1: "on_store (FillRectangle Inner_Write (V 24 40) (V (8 * 10) 16) \<lparr>red = 255, green = 251, blue = 233\<rparr>) ?j ?g = Some (at_win ?g ?j w1)"
      "redrawn (windows ?g ! ?j) w1" by blast
  let ?str = "counter_str (tick (sys_timers s))"
  have "\<exists>w2. on_store (WriteString (su_font su) Inner_Write (V 24 40) ?str kDesktopFGColor) ?j (at_win ?g ?j w1) = Some (at_win ?g ?j w2) \<and>
      redrawn (windows ?g ! ?j) w2"
    by (intro on_store_redrawn [OF w(1) w1(2)] WriteString_inner_redrawn [OF font] redrawn_fits [OF w1(2) w(3)])
      (use length_counter_str [of "tick (sys_timers s)"] in \<open>simp_all add: vec_add_def kTopLeftMargin_def\<close>)
  then obtain w2 where w2: "on_store (WriteString (su_font su) Inner_Write (V 24 40) ?str kDesktopFGColor) ?j (at_win ?g ?j w1) = Some (at_win ?g ?j w2)"
      "redrawn (windows ?g ! ?j) w2" by blast
  obtain g where g: "draw_id (main_window_layer_id s) (at_win ?g ?j w2) = Some g" "desktop_except D (su_screen_size su) (sys_mouse s) g" "repainted ?g g"
      "windows g = (windows ?g)[?j := w2]"
    using draw_id_except [OF ok win w2(2)] by blast
  have "show_counter su s = Some (s\<lparr>sys_gui := g\<rparr>)" using w1(1) w2(1) g(1) by (simp add: show_counter_def)
  then show ?thesis using loop_except_gui [OF assms g(2,3)] g(3,4) by auto
qed

text \<open>The messages of all tasks, and the effect of taking the first message of one.\<close>

definition received :: "task_ptr \<Rightarrow> Task list \<Rightarrow> Task list" where
  "received p ts = ts[p := (ts ! p)\<lparr>tk_msgs := tl (tk_msgs (ts ! p))\<rparr>]"

definition delivered :: "u64 \<Rightarrow> Message \<Rightarrow> Task list \<Rightarrow> Task list" where
  "delivered i msg ts = ts[unat i - 1 := (ts ! (unat i - 1))\<lparr>tk_msgs := tk_msgs (ts ! (unat i - 1)) @ [msg], tk_running := True\<rparr>]"

definition known_task :: "u64 \<Rightarrow> system \<Rightarrow> bool" where
  "known_task i s \<longleftrightarrow> 0 < unat i \<and> unat i \<le> length (tasks (sys_tasks s))"

lemma send_ok:
  assumes "loop_ok su s" and "known_task i s"
  shows "\<exists>t. send i msg s = Some (s\<lparr>sys_tasks := t\<rparr>) \<and> loop_ok su (s\<lparr>sys_tasks := t\<rparr>) \<and> tasks t = delivered i msg (tasks (sys_tasks s))"
proof -
  have inv: "tm_inv (sys_tasks s)" and n: "length (tasks (sys_tasks s)) < 2 ^ 64" and i: "unat i - 1 < length (tasks (sys_tasks s))"
    using assms by (auto simp: loop_ok_def known_task_def)
  from SendMessage_task_inv [OF inv i, of msg] obtain t where t: "SendMessage_task (unat i - 1) msg (sys_tasks s) = Some t" "tm_inv t"
    "tasks t = delivered i msg (tasks (sys_tasks s))" by (auto simp: delivered_def)
  then have "send i msg s = Some (s\<lparr>sys_tasks := t\<rparr>)"
    using assms(2) by (simp add: send_def SendMessage_def find_task_id [OF inv n] known_task_def)
  then show ?thesis using t assms(1) by (auto simp: loop_ok_def delivered_def)
qed

lemma turn_receives_except:
  assumes ok: "loop_except D su s" and p: "main_task su < length (tasks (sys_tasks s))" "tk_msgs (tasks (sys_tasks s) ! main_task su) = msg # rest"
  shows "\<exists>g t. main_turn su s = dispatch su msg (s\<lparr>sys_gui := g, sys_tasks := t\<rparr>) \<and> loop_except D su (s\<lparr>sys_gui := g, sys_tasks := t\<rparr>) \<and>
    repainted (sys_gui s) g \<and> tasks t = received (main_task su) (tasks (sys_tasks s)) \<and>
    (\<forall>n. n \<noteq> main_window s \<longrightarrow> windows g ! n = windows (sys_gui s) ! n)"
proof -
  obtain g where g: "show_counter su s = Some (s\<lparr>sys_gui := g\<rparr>)" "loop_except D su (s\<lparr>sys_gui := g\<rparr>)" "repainted (sys_gui s) g"
    "\<forall>n. n \<noteq> main_window s \<longrightarrow> windows g ! n = windows (sys_gui s) ! n"
    using show_counter_except [OF ok] by blast
  let ?t = "(sys_tasks s)\<lparr>tasks := received (main_task su) (tasks (sys_tasks s))\<rparr>"
  have r: "ReceiveMessage (main_task su) (sys_tasks s) = Some (Some msg, ?t)"
    using p by (simp add: ReceiveMessage_def ReceiveMessage_task_def arr_get_def received_def)
  have "tm_inv ?t" using ReceiveMessage_inv [of "sys_tasks s" "main_task su"] r ok p(1) by (auto simp: loop_except_def)
  then have "loop_except D su (s\<lparr>sys_gui := g, sys_tasks := ?t\<rparr>)" using g(2) by (simp add: loop_except_def received_def)
  moreover have "main_turn su s = dispatch su msg (s\<lparr>sys_gui := g, sys_tasks := ?t\<rparr>)" using g(1) r by (simp add: main_turn_def)
  ultimately show ?thesis using g(3,4) by (intro exI [of _ g] exI [of _ ?t]) simp
qed

lemma turn_receives:
  assumes "loop_ok su s" and "main_task su < length (tasks (sys_tasks s))" "tk_msgs (tasks (sys_tasks s) ! main_task su) = msg # rest"
  shows "\<exists>g t. main_turn su s = dispatch su msg (s\<lparr>sys_gui := g, sys_tasks := t\<rparr>) \<and> loop_ok su (s\<lparr>sys_gui := g, sys_tasks := t\<rparr>) \<and>
    repainted (sys_gui s) g \<and> tasks t = received (main_task su) (tasks (sys_tasks s))"
  using turn_receives_except [OF assms(1) [unfolded loop_ok_except] assms(2,3)] by (auto simp: loop_ok_except)

text \<open>Redrawing the part of a displayed window that is out of date on the screen makes the desktop consistent.\<close>

lemma DrawArea_desktop:
  assumes ok: "desktop_except (\<lambda>q. in_rect q (damage (windows g) (layers (layer_manager g) ! k) area)) scr ms g"
    and k: "movable g k" and i: "layer_id (layers (layer_manager g) ! k) = i"
    and area: "rect_ok area \<or> vx (size area) < 0 \<and> vy (size area) < 0"
  shows "\<exists>m. LayerManager_DrawArea (windows g) i area (layer_manager g) = Some m \<and>
    desktop_ok scr ms (g\<lparr>layer_manager := m\<rparr>) \<and> repainted g (g\<lparr>layer_manager := m\<rparr>)"
proof -
  let ?m = "layer_manager g" and ?D = "\<lambda>q. in_rect q (damage (windows g) (layers (layer_manager g) ! k) area)"
  have inv: "shows_except ?D (windows g) ?m" and d: "decorated (windows g) ?m k" using ok k by (auto simp: desktop_except_def windows_ok_def)
  then have lm: "lm_ok (windows g) ?m" by (simp add: shows_except_def)
  obtain pre post where st: "layer_stack ?m = pre @ Some k # post" using k split_list by (fastforce simp: movable_def)
  have kl: "k < length (layers ?m)" using lm k by (auto simp: movable_def lm_ok_def stack_ok_def)
  then have "layer_ok (windows g) (lm_format ?m) (layers ?m ! k)" using lm by (simp add: lm_ok_def)
  then obtain j where u: "updates (windows g) ?m k j area (windows g ! j)" and j: "j < length (windows g)" "win_ok (windows g ! j)"
    using d kl area by (auto simp: updates_def layer_ok_def decorated_def split: option.splits)
  obtain m where m: "LayerManager_DrawArea (windows g) i area ?m = Some m" "shows_except (\<lambda>_. False) (windows g) m" "layers m = layers ?m"
    "layer_stack m = layer_stack ?m" "\<forall>q. on_screen m q = on_screen ?m q" using redraw_updated_except [OF inv st u] i by auto
  have "redrawn (windows g ! j) (windows g ! j)" using j(2) by (simp add: redrawn_def)
  from desktop_redrawn [OF ok this j(1) _ m(3-5)] m(1,2) show ?thesis by (auto simp: desktop_ok_except)
qed

text \<open>A task that has drawn in its window leaves the screen out of date only where that window is.\<close>

lemma drawn_window_stale:
  assumes ok: "loop_ok su s" and k: "movable (sys_gui s) k" "layer_window (layers (layer_manager (sys_gui s)) ! k) = Some j"
    and w: "redrawn (windows (sys_gui s) ! j) w"
  shows "loop_except (\<lambda>q. in_rect q (damage (windows (at_win (sys_gui s) j w)) (layers (layer_manager (sys_gui s)) ! k) whole_area)) su
    (s\<lparr>sys_gui := at_win (sys_gui s) j w\<rparr>)"
proof -
  let ?g = "sys_gui s" and ?m = "layer_manager (sys_gui s)"
  have g: "desktop_except (\<lambda>_. False) (su_screen_size su) (sys_mouse s) ?g" using ok by (simp add: loop_ok_def desktop_ok_except)
  note u = redrawn_updates [OF g k w]
  have inv: "shows_except (\<lambda>_. False) (windows ?g) ?m" using g by (simp add: desktop_except_def)
  note after = desktop_redrawn [OF g w u(3) updated_except [OF inv u(1)] refl refl, simplified]
  have same: "(at_win ?g j w)\<lparr>layer_manager := ?m\<rparr> = at_win ?g j w" by (simp add: at_win_def)
  show ?thesis using loop_except_gui [OF ok [unfolded loop_ok_except] after [unfolded same]] by (simp add: at_win_def)
qed

subsection \<open>Properties\<close>

text \<open>C5: A key goes where the active window says: to the text box, whose cursor it moves and which stays within its
  17 characters, or, as the same message, to the end of the queue of the task registered for the window, which
  it wakes; no other queue changes.\<close>

theorem main_turn_routes_key:
  assumes "loop_ok su s" and "main_task su < length (tasks (sys_tasks s))"
    and "tk_msgs (tasks (sys_tasks s) ! main_task su) = msg # rest"
    and "msg_type msg = kKeyPush" "msg_arg msg = keyboard_arg modifier keycode ascii"
    and "active_layer_id (active_layer (sys_gui s)) = act"
    and "act \<noteq> text_window_layer_id (sys_text s) \<Longrightarrow> layer_task_map (sys_gui s) act = Some i \<and> known_task i s"
  shows "\<exists>s'. main_turn su s = Some s' \<and> loop_ok su s' \<and>
    (if act = text_window_layer_id (sys_text s)
     then text_window_index (sys_text s') = text_step ascii (text_window_index (sys_text s)) \<and>
       tasks (sys_tasks s') = received (main_task su) (tasks (sys_tasks s))
     else sys_text s' = sys_text s \<and>
       tasks (sys_tasks s') = delivered i msg (received (main_task su) (tasks (sys_tasks s))))"
proof -
  obtain g t where t: "main_turn su s = dispatch su msg (s\<lparr>sys_gui := g, sys_tasks := t\<rparr>)" "loop_ok su (s\<lparr>sys_gui := g, sys_tasks := t\<rparr>)"
    "repainted (sys_gui s) g" "tasks t = received (main_task su) (tasks (sys_tasks s))"
    using turn_receives [OF assms(1-3)] by blast
  let ?s = "s\<lparr>sys_gui := g, sys_tasks := t\<rparr>"
  have act: "active_layer_id (active_layer g) = act" "layer_task_map g = layer_task_map (sys_gui s)"
    using t(3) assms(6) by (simp_all add: repainted_def)
  show ?thesis
  proof (cases "act = text_window_layer_id (sys_text s)")
    case True
    have ok: "length (su_font su) = 4096" "desktop_ok (su_screen_size su) (sys_mouse s) g" "text_ok g (sys_text s)"
      using t(2) by (simp_all add: loop_ok_def)
    let ?tb = "(sys_text s)\<lparr>text_window_index := text_step ascii (text_window_index (sys_text s))\<rparr>"
    obtain g' where g': "InputTextWindow (su_font su) ascii (sys_text s, g) = Some (?tb, g')" "desktop_ok (su_screen_size su) (sys_mouse s) g'"
      "repainted g g'" "text_ok g' ?tb" using InputTextWindow_ok [OF ok, of ascii] by blast
    let ?s' = "?s\<lparr>sys_text := ?tb, sys_gui := g'\<rparr>"
    have "main_turn su s = Some ?s'" using t(1) assms(4,5) act(1) True g'(1) by (simp add: dispatch_def key_branch_def)
    moreover have "loop_ok su ?s'" using t(2) g'(2,4) repainted_shown [OF g'(3)] by (simp add: loop_ok_def)
    ultimately show ?thesis using True t(4) by simp
  next
    case False
    have "known_task i ?s" using assms(7) [OF False] t(4) by (simp add: known_task_def received_def)
    from send_ok [OF t(2) this, of msg] obtain t' where t': "send i msg ?s = Some (?s\<lparr>sys_tasks := t'\<rparr>)" "loop_ok su (?s\<lparr>sys_tasks := t'\<rparr>)"
      "tasks t' = delivered i msg (tasks t)" by auto
    have "main_turn su s = Some (?s\<lparr>sys_tasks := t'\<rparr>)"
      using t(1) assms(4,5) act False assms(7) [OF False] t'(1) by (simp add: dispatch_def key_branch_def)
    then show ?thesis using False t'(2,3) t(4) by auto
  qed
qed

text \<open>C18: The cursor timer never dies: the turn that handles its timeout adds a timer that is due half a second after
  the one that fired, turns the cursor of the text box over, and passes the message on to the terminal's task.\<close>

theorem cursor_timer_rearms:
  assumes "loop_ok su s" and "main_task su < length (tasks (sys_tasks s))"
    and "tk_msgs (tasks (sys_tasks s) ! main_task su) = msg # rest"
    and "msg_type msg = kTimerTimeout" "msg_arg msg = timer_arg at 1" and "known_task (task_terminal_id su) s"
  shows "\<exists>s'. main_turn su s = Some s' \<and> loop_ok su s' \<and>
    sys_timers s' = AddTimer \<lparr>timeout = at + 50, tvalue = 1\<rparr> (sys_timers s) \<and>
    textbox_cursor_visible s' = (\<not> textbox_cursor_visible s) \<and>
    tasks (sys_tasks s') = delivered (task_terminal_id su) msg (received (main_task su) (tasks (sys_tasks s)))"
proof -
  obtain g t where t: "main_turn su s = dispatch su msg (s\<lparr>sys_gui := g, sys_tasks := t\<rparr>)" "loop_ok su (s\<lparr>sys_gui := g, sys_tasks := t\<rparr>)"
    "repainted (sys_gui s) g" "tasks t = received (main_task su) (tasks (sys_tasks s))"
    using turn_receives [OF assms(1-3)] by blast
  let ?tb = "sys_text s" and ?v = "\<not> textbox_cursor_visible s"
  let ?s = "s\<lparr>sys_gui := g, sys_tasks := t, sys_timers := AddTimer \<lparr>timeout = at + 50, tvalue = 1\<rparr> (sys_timers s), textbox_cursor_visible := ?v\<rparr>"
  have ok: "desktop_ok (su_screen_size su) (sys_mouse s) g" and tb: "text_ok g ?tb" using t(2) by (simp_all add: loop_ok_def)
  then have win: "shown_window g (text_window ?tb) (text_window_layer_id ?tb) text_size" by (simp add: text_ok_def)
  note w = shown_window_ok [OF ok win]
  obtain w' where w': "DrawTextCursor ?v ?tb g = Some (at_win g (text_window ?tb) w')" "redrawn (windows g ! text_window ?tb) w'"
    using DrawTextCursor_redrawn [OF refl w(1,2,3), of ?v] tb by (auto simp: text_ok_def)
  obtain g' where g': "draw_id (text_window_layer_id ?tb) (at_win g (text_window ?tb) w') = Some g'" "desktop_ok (su_screen_size su) (sys_mouse s) g'"
    "repainted g g'" using draw_id_shows [OF ok win w'(2)] by blast
  let ?s2 = "?s\<lparr>sys_gui := g'\<rparr>"
  have "loop_ok su ?s2" using loop_ok_gui [OF t(2), of g'] g'(2,3) by (simp add: loop_ok_def)
  moreover have "known_task (task_terminal_id su) ?s2" using assms(6) t(4) by (simp add: known_task_def received_def)
  ultimately obtain t' where t': "send (task_terminal_id su) msg ?s2 = Some (?s2\<lparr>sys_tasks := t'\<rparr>)" "loop_ok su (?s2\<lparr>sys_tasks := t'\<rparr>)"
      "tasks t' = delivered (task_terminal_id su) msg (tasks t)" using send_ok [of su ?s2 "task_terminal_id su" msg] by auto
  have "of_int kTimer05Sec = (50 :: u64)" by (simp add: kTimer05Sec_def kTimerFreq_def)
  then have "main_turn su s = Some (?s2\<lparr>sys_tasks := t'\<rparr>)"
    using t(1) assms(4,5) w'(1) g'(1) t'(1) by (simp add: dispatch_def timer_branch_def kTextboxCursorTimer_def)
  then show ?thesis using t'(2,3) t(4) by auto
qed

text \<open>C19: A request to draw a displayed window, or a part of it, is carried out and answered. When the message
  arrives the screen may be out of date in the requested part, where the sender has drawn in its window; after the
  turn the whole screen shows the layer stack again, with the window as the sender left it (the turn itself draws
  only in the main window, where the counter is), and the sender, and only it, gets a \<open>kLayerFinish\<close> message.\<close>

theorem layer_request_answered:
  assumes "loop_except (\<lambda>q. in_rect q (damage (windows (sys_gui s)) (layers (layer_manager (sys_gui s)) ! k) part)) su s"
    and "main_task su < length (tasks (sys_tasks s))"
    and "tk_msgs (tasks (sys_tasks s) ! main_task su) = MakeLayerMessage i (layer_id (layers (layer_manager (sys_gui s)) ! k)) op area # rest"
    and "op = DrawArea \<and> part = area \<and> rect_ok area \<or> op = Draw \<and> part = whole_area"
    and "movable (sys_gui s) k" and "known_task i s"
  shows "\<exists>s'. main_turn su s = Some s' \<and> loop_ok su s' \<and> repainted (sys_gui s) (sys_gui s') \<and>
    (\<forall>n. n \<noteq> main_window s \<longrightarrow> windows (sys_gui s') ! n = windows (sys_gui s) ! n) \<and>
    tasks (sys_tasks s') = delivered i \<lparr>msg_type = kLayerFinish, src_task = 0, msg_arg = no_arg\<rparr> (received (main_task su) (tasks (sys_tasks s)))"
proof -
  let ?i = "layer_id (layers (layer_manager (sys_gui s)) ! k)" and ?fin = "\<lparr>msg_type = kLayerFinish, src_task = 0, msg_arg = no_arg\<rparr>"
  let ?msg = "MakeLayerMessage i ?i op area" and ?l = "layers (layer_manager (sys_gui s)) ! k"
  obtain g t where t: "main_turn su s = dispatch su ?msg (s\<lparr>sys_gui := g, sys_tasks := t\<rparr>)"
    "loop_except (\<lambda>q. in_rect q (damage (windows (sys_gui s)) ?l part)) su (s\<lparr>sys_gui := g, sys_tasks := t\<rparr>)"
    "repainted (sys_gui s) g" "tasks t = received (main_task su) (tasks (sys_tasks s))"
    "\<forall>n. n \<noteq> main_window s \<longrightarrow> windows g ! n = windows (sys_gui s) ! n"
    using turn_receives_except [OF assms(1-3)] by blast
  have k: "movable g k" "layer_id (layers (layer_manager g) ! k) = ?i" "layers (layer_manager g) ! k = ?l"
    using assms(5) t(3) by (simp_all add: repainted_def movable_def)
  have ok: "desktop_except (\<lambda>q. in_rect q (damage (windows g) (layers (layer_manager g) ! k) part)) (su_screen_size su) (sys_mouse s) g"
    using t(2) by (simp add: loop_except_def k(3) repainted_damage [OF t(3)])
  have "rect_ok part \<or> vx (size part) < 0 \<and> vy (size part) < 0" using assms(4) by auto
  from DrawArea_desktop [OF ok k(1,2) this] obtain m where m: "LayerManager_DrawArea (windows g) ?i part (layer_manager g) = Some m"
    "desktop_ok (su_screen_size su) (sys_mouse s) (g\<lparr>layer_manager := m\<rparr>)" "repainted g (g\<lparr>layer_manager := m\<rparr>)" by blast
  let ?s2 = "s\<lparr>sys_gui := g, sys_tasks := t\<rparr>\<lparr>sys_gui := g\<lparr>layer_manager := m\<rparr>\<rparr>"
  have area: "\<lparr>pos = pos area, size = size area\<rparr> = area" by (cases area) simp
  have P: "ProcessLayerMessage ?msg g = Some (g\<lparr>layer_manager := m\<rparr>)"
    using m(1) assms(4) by (auto simp: ProcessLayerMessage_def MakeLayerMessage_def area LayerManager_DrawLayer_def)
  have "loop_ok su ?s2" using loop_except_gui [OF t(2), of "\<lambda>_. False" "g\<lparr>layer_manager := m\<rparr>"] m(2,3) by (simp add: loop_ok_except desktop_ok_except)
  moreover have "known_task i ?s2" using assms(6) t(4) by (simp add: known_task_def received_def)
  ultimately obtain t' where t': "send i ?fin ?s2 = Some (?s2\<lparr>sys_tasks := t'\<rparr>)" "loop_ok su (?s2\<lparr>sys_tasks := t'\<rparr>)"
      "tasks t' = delivered i ?fin (tasks t)" using send_ok [of su ?s2 i ?fin] by auto
  have "msg_type ?msg = kLayer" "src_task ?msg = i" by (simp_all add: MakeLayerMessage_def)
  then have "main_turn su s = Some (?s2\<lparr>sys_tasks := t'\<rparr>)" using t(1) P t'(1) by (simp add: dispatch_def layer_branch_def)
  then show ?thesis using t'(2,3) t(4,5) repainted_trans [OF t(3) m(3)] by auto
qed

subsection \<open>A small desktop\<close>

text \<open>A screen of four by four pixels, the two windows over it, and the cursor. The text box is active.\<close>

definition bench_windows :: "Window list" where
  "bench_windows = [Window_new 4 4 kPixelRGBResv8BitPerColor, Window_new 250 90 kPixelRGBResv8BitPerColor,
     Window_new 160 52 kPixelRGBResv8BitPerColor, Window_new 1 1 kPixelRGBResv8BitPerColor]"

definition bench_lm :: LayerManager where
  "bench_lm = \<lparr>lm_screen = Some (example_fb 4 4 0), back_buffer = example_fb 4 4 0,
     layers = [\<lparr>layer_id = 1, layer_pos = V 0 0, layer_window = Some 0, draggable = False\<rparr>,
       \<lparr>layer_id = 2, layer_pos = V 1 1, layer_window = Some 1, draggable = True\<rparr>,
       \<lparr>layer_id = 3, layer_pos = V 2 2, layer_window = Some 2, draggable = True\<rparr>,
       \<lparr>layer_id = 4, layer_pos = V 3 3, layer_window = Some 3, draggable = False\<rparr>],
     layer_stack = [Some 0, Some 1, Some 2, Some 3], latest_layer_id = 4\<rparr>"

definition bench_gui :: "u32 \<Rightarrow> gui" where
  "bench_gui act = \<lparr>windows = bench_windows, layer_manager = bench_lm,
     active_layer = \<lparr>active_layer_id = act, mouse_layer_id = 4\<rparr>, layer_task_map = [2 \<mapsto> 2]\<rparr>"

definition bench_mouse :: Mouse where
  "bench_mouse = \<lparr>mouse_id = 4, position = V 3 3, drag_layer_id = 0, previous_buttons = 0\<rparr>"

lemma bench_new:
  "win_ok (Window_new 4 4 kPixelRGBResv8BitPerColor)" "win_ok (Window_new 250 90 kPixelRGBResv8BitPerColor)"
  "win_ok (Window_new 160 52 kPixelRGBResv8BitPerColor)" "win_ok (Window_new (Suc 0) (Suc 0) kPixelRGBResv8BitPerColor)"
  "Window_Size (Window_new 250 90 kPixelRGBResv8BitPerColor) = V 250 90" "Window_Size (Window_new 160 52 kPixelRGBResv8BitPerColor) = V 160 52"
  "Window_Size (Window_new (Suc 0) (Suc 0) kPixelRGBResv8BitPerColor) = V 1 1"
  using Window_new_ok [of 4 4 kPixelRGBResv8BitPerColor] Window_new_ok [of 250 90 kPixelRGBResv8BitPerColor]
    Window_new_ok [of 160 52 kPixelRGBResv8BitPerColor] Window_new_ok [of 1 1 kPixelRGBResv8BitPerColor] by simp_all

lemma bench_nth: "bench_windows ! 1 = Window_new 250 90 kPixelRGBResv8BitPerColor" "bench_windows ! 2 = Window_new 160 52 kPixelRGBResv8BitPerColor"
  by (simp_all add: bench_windows_def)

lemma bench_lm_ok: "lm_ok bench_windows bench_lm"
proof -
  have "pixel_format (fb_config (shadow_buffer (Window_new n k kPixelRGBResv8BitPerColor))) = kPixelRGBResv8BitPerColor" for n k
    by (simp add: Window_new_def FrameBuffer_Initialize_def BytesPerPixel_def Let_def)
  moreover have "ids_ok bench_lm" by (auto simp: ids_ok_def bench_lm_def nth_Cons' less_Suc_eq)
  ultimately show ?thesis using bench_new
    by (auto simp: lm_ok_def stack_ok_def buffers_ok_def layer_ok_def lm_format_def bench_lm_def bench_windows_def
        fb_ok_def example_fb_def)
qed

lemma bench_lm_shows: "shows_stack bench_windows bench_lm"
proof -
  have "pixel_shown bench_windows bench_lm q \<and> ptr_picture bench_windows bench_lm (Some 0) q \<noteq> None"
    if "on_screen bench_lm q" for q
  proof -
    have q: "in_rect q \<lparr>pos = V 0 0, size = V 4 4\<rparr>" "fb_inside (example_fb 4 4 0) q"
      using that by (simp_all add: on_screen_def bench_lm_def fb_inside_def example_fb_def FrameBufferSize_def)
    have bottom: "ptr_picture bench_windows bench_lm (Some 0) q = Some black"
      using Window_new_picture [of 4 4 q "V 0 0"] q by (simp add: ptr_picture_def layer_picture_def bench_lm_def bench_windows_def)
    have upper: "ptr_picture bench_windows bench_lm (Some (Suc 0)) q \<in> {None, Some black}"
        "ptr_picture bench_windows bench_lm (Some 2) q \<in> {None, Some black}"
        "ptr_picture bench_windows bench_lm (Some 3) q \<in> {None, Some black}"
      using Window_new_picture [of 250 90 q "V 1 1"] Window_new_picture [of 160 52 q "V 2 2"] Window_new_picture [of 1 1 q "V 3 3"] bench_new(5-7)
      by (auto simp: ptr_picture_def layer_picture_def bench_lm_def bench_windows_def win_picture_def)
    have "fb_ok (example_fb 4 4 0)" by (simp add: fb_ok_def example_fb_def)
    from px_index_less [OF this q(2)] have "px (example_fb 4 4 0) q k = 0" if "k < 4" for k
      using that by (simp add: px_def example_fb_def)
    then have "fb_get (example_fb 4 4 0) q = black" unfolding fb_get_def black_def by (simp add: example_fb_def)
    then show ?thesis using bottom upper
      by (auto simp: pixel_shown_def stack_picture_def screen_pixel_def map_add_at bench_lm_def)
  qed
  then show ?thesis using bench_lm_ok
    by (auto simp: shows_stack_def top_transparent_def transparent_def bench_lm_def bench_windows_def Window_new_def Let_def
        split: prod.splits)
qed

lemma bench_movable: "movable (bench_gui a) k \<longleftrightarrow> k = 1 \<or> k = 2"
  by (auto simp: movable_def bench_gui_def bench_lm_def)

lemma bench_desktop:
  assumes "a = 2 \<or> a = 3"
  shows "desktop_ok (V 4 4) bench_mouse (bench_gui a)"
proof -
  have "transparent_color (Window_new w h f) = None" "win_title (Window_new w h f) = None" for w h f
    by (simp_all add: Window_new_def Let_def split: prod.split)
  moreover have "only_layer bench_lm 1 1" "only_layer bench_lm 2 2" by (auto simp: only_layer_def bench_lm_def less_Suc_eq)
  ultimately have "decorated bench_windows bench_lm 1" "decorated bench_windows bench_lm 2"
    by (simp_all add: decorated_def bench_lm_def bench_windows_def)
  then have "windows_ok (bench_gui a)" unfolding windows_ok_def bench_movable by (auto simp: bench_gui_def bench_lm_def)
  moreover have "cursor_on_top 4 (bench_gui a) 3" by (simp add: cursor_on_top_def bench_gui_def bench_lm_def)
  moreover have "none_or_movable (bench_gui a) a"
    unfolding none_or_movable_def bench_movable using assms by (auto simp: bench_gui_def bench_lm_def)
  ultimately show ?thesis using bench_lm_shows
    by (auto simp: desktop_ok_def in_rect_def none_or_movable_def) (auto simp: bench_gui_def bench_mouse_def)
qed

text \<open>Two tasks after the start; the main task has the message \<open>msg\<close> in its queue.\<close>

definition bench_tasks :: "Message \<Rightarrow> TaskManager" where
  "bench_tasks msg = the (SendMessage_task 0 msg (the (TaskManager_new zero_context zero_context 0 0x1000 0x2000)))"

definition bench_config :: "Env \<Rightarrow> Hw \<Rightarrow> main_config" where
  "bench_config env hw = \<lparr>su_font = blank_font, su_screen_size = V 4 4, su_log_level = kWarn, su_console_window = 0, main_task = 0,
     task_terminal_id = 2, su_env = env, su_hw = hw, su_place = (\<lambda>_. [])\<rparr>"

definition bench_system :: "Controller \<Rightarrow> u32 \<Rightarrow> Message \<Rightarrow> system" where
  "bench_system c act msg = \<lparr>sys_gui = bench_gui act, sys_mouse = bench_mouse, sys_console = Console_new black black, sys_tasks = bench_tasks msg,
     sys_timers = TimerManager_new, sys_xhc = c, main_window = 1, main_window_layer_id = 2,
     sys_text = \<lparr>text_window = 2, text_window_layer_id = 3, text_window_index = 0\<rparr>, textbox_cursor_visible = False\<rparr>"

lemma bench_tasks_ok:
  "tm_inv (bench_tasks msg)" "length (tasks (bench_tasks msg)) = 2" "tk_msgs (tasks (bench_tasks msg) ! 0) = [msg]"
proof -
  let ?s = "the (TaskManager_new zero_context zero_context 0 0x1000 0x2000)"
  have inv: "tm_inv ?s" by (rule tm_reachable_inv [OF boot_reachable])
  have two: "length (tasks ?s) = 2" "tk_msgs (tasks ?s ! 0) = []" by (simp_all add: TaskManager_new_result Task_new_def)
  from SendMessage_task_inv [OF inv, of 0 msg] two obtain s' where
    s': "SendMessage_task 0 msg ?s = Some s'" "tm_inv s'"
      "tasks s' = (tasks ?s)[0 := (tasks ?s ! 0)\<lparr>tk_msgs := tk_msgs (tasks ?s ! 0) @ [msg], tk_running := True\<rparr>]" by auto
  then show "tm_inv (bench_tasks msg)" "length (tasks (bench_tasks msg)) = 2" "tk_msgs (tasks (bench_tasks msg) ! 0) = [msg]"
    using two by (simp_all add: bench_tasks_def)
qed

lemma bench_idle_queue: "tk_msgs (tasks (bench_tasks msg) ! 1) = []"
  by (simp add: bench_tasks_def TaskManager_new_result Task_new_def SendMessage_task_def set_task_def arr_get_def Wakeup_def ChangeLevelRunning_def InitContext_def Let_def)

lemma bench_fields:
  "sys_tasks (bench_system c a msg) = bench_tasks msg" "main_task (bench_config env hw) = 0" "sys_gui (bench_system c a msg) = bench_gui a"
  "sys_text (bench_system c a msg) = \<lparr>text_window = 2, text_window_layer_id = 3, text_window_index = 0\<rparr>"
  "sys_timers (bench_system c a msg) = TimerManager_new" "task_terminal_id (bench_config env hw) = 2"
  "active_layer_id (active_layer (bench_gui a)) = a" "layer_task_map (bench_gui a) = [2 \<mapsto> 2]"
  "layer_id (layers (layer_manager (bench_gui a)) ! Suc 0) = 2"
  by (simp_all add: bench_system_def bench_config_def bench_gui_def bench_lm_def)

lemma bench_ok:
  assumes "a = 2 \<or> a = 3"
  shows "loop_ok (bench_config env hw) (bench_system c a msg)"
proof -
  have m: "movable (bench_gui a) 1" "movable (bench_gui a) 2" by (simp_all add: bench_movable)
  have "shown_window (bench_gui a) 1 2 (V 250 90)"
    unfolding shown_window_def by (intro exI [of _ 1]) (use m(1) bench_new in \<open>simp add: bench_gui_def bench_lm_def bench_windows_def\<close>)
  moreover have "shown_window (bench_gui a) 2 3 (V 160 52)"
    unfolding shown_window_def by (intro exI [of _ 2]) (use m(2) bench_new in \<open>simp add: bench_gui_def bench_lm_def bench_windows_def\<close>)
  ultimately show ?thesis using bench_tasks_ok [of msg] bench_desktop [OF assms] length_blank_font
    by (simp add: loop_ok_def bench_system_def bench_config_def text_ok_def)
qed

theorem main_turn_routes_key_witness:
  "\<forall>env hw c. let a = \<lparr>msg_type = kKeyPush, src_task = 0, msg_arg = keyboard_arg 0 4 (CHR ''a'')\<rparr>
   in (\<exists>s'. main_turn (bench_config env hw) (bench_system c 3 a) = Some s' \<and> text_window_index (sys_text s') = 1) \<and>
      (\<exists>s'. main_turn (bench_config env hw) (bench_system c 2 a) = Some s' \<and> tk_msgs (tasks (sys_tasks s') ! 1) = [a])"
proof (intro allI)
  fix env hw c
  let ?a = "\<lparr>msg_type = kKeyPush, src_task = 0, msg_arg = keyboard_arg 0 4 (CHR ''a'')\<rparr>"
  note t = bench_tasks_ok [of ?a]
  note s = bench_fields
  have 1: "tk_msgs (tasks (bench_tasks ?a) ! 1) = []" by (rule bench_idle_queue)
  have step: "text_step (CHR ''a'') 0 = 1" by (simp add: text_step_def char_signed_def)
  have "\<exists>s'. main_turn (bench_config env hw) (bench_system c 3 ?a) = Some s' \<and> text_window_index (sys_text s') = 1"
    using main_turn_routes_key [OF bench_ok, of 3 env hw c ?a ?a "[]" 0 4 "CHR ''a''" 3 0] t step by (simp add: s) blast
  moreover have "\<exists>s'. main_turn (bench_config env hw) (bench_system c 2 ?a) = Some s' \<and> tk_msgs (tasks (sys_tasks s') ! 1) = [?a]"
    using main_turn_routes_key [OF bench_ok, of 2 env hw c ?a ?a "[]" 0 4 "CHR ''a''" 2 2] t 1
    by (simp add: s known_task_def delivered_def received_def) force
  ultimately show "let a = ?a in (\<exists>s'. main_turn (bench_config env hw) (bench_system c 3 a) = Some s' \<and> text_window_index (sys_text s') = 1) \<and>
      (\<exists>s'. main_turn (bench_config env hw) (bench_system c 2 a) = Some s' \<and> tk_msgs (tasks (sys_tasks s') ! 1) = [a])"
    by (simp add: Let_def)
qed

theorem cursor_timer_rearms_witness:
  "\<forall>env hw c. \<exists>s'. main_turn (bench_config env hw)
     (bench_system c 3 \<lparr>msg_type = kTimerTimeout, src_task = 0, msg_arg = timer_arg 100 1\<rparr>) = Some s' \<and>
     sys_timers s' = AddTimer \<lparr>timeout = 150, tvalue = 1\<rparr> TimerManager_new"
proof (intro allI)
  fix env hw c
  let ?a = "\<lparr>msg_type = kTimerTimeout, src_task = 0, msg_arg = timer_arg 100 1\<rparr>"
  show "\<exists>s'. main_turn (bench_config env hw) (bench_system c 3 ?a) = Some s' \<and> sys_timers s' = AddTimer \<lparr>timeout = 150, tvalue = 1\<rparr> TimerManager_new"
    using cursor_timer_rearms [OF bench_ok, of 3 env hw c ?a ?a "[]" 100] bench_tasks_ok [of ?a]
    by (simp add: bench_fields known_task_def) blast
qed

text \<open>The task of the text window has drawn a pixel and asks for its whole window.\<close>

theorem layer_request_answered_witness:
  "\<forall>env hw c. \<exists>w s'. Window_Write (V 0 0) \<lparr>red = 1, green = 2, blue = 3\<rparr> (bench_windows ! 2) = Some w \<and>
     (let s = bench_system c 3 (MakeLayerMessage 2 3 DrawArea \<lparr>pos = V 0 0, size = V 160 52\<rparr>)
      in main_turn (bench_config env hw) (s\<lparr>sys_gui := at_win (sys_gui s) 2 w\<rparr>) = Some s') \<and>
     map msg_type (tk_msgs (tasks (sys_tasks s') ! 1)) = [kLayerFinish] \<and>
     screen_pixel (layer_manager (sys_gui s')) (V 2 2) = \<lparr>red = 1, green = 2, blue = 3\<rparr>"
proof (intro allI)
  fix env hw c
  let ?col = "\<lparr>red = 1, green = 2, blue = 3\<rparr> :: PixelColor" and ?area = "\<lparr>pos = V 0 0, size = V 160 52\<rparr>"
  let ?a = "MakeLayerMessage 2 3 DrawArea ?area"
  let ?s = "bench_system c 3 ?a" and ?su = "bench_config env hw"
  have ok: "win_ok (bench_windows ! 2)" "win_inside (bench_windows ! 2) (V 0 0)" using bench_new
    by (simp_all add: bench_nth win_inside_def in_rect_def)
  from Window_Write_spec [OF ok(2), of ?col] ok(2) obtain w where w: "Window_Write (V 0 0) ?col (bench_windows ! 2) = Some w" "win_ok w"
    "win_get w (V 0 0) = ?col" "Window_Size w = Window_Size (bench_windows ! 2)" "transparent_color w = transparent_color (bench_windows ! 2)"
    by auto
  have "win_shape w = win_shape (bench_windows ! 2)" using w(1) by (rule win_writer.put_stable)
  then have r: "redrawn (windows (sys_gui ?s) ! 2) w" using ok(1) w(2)
    by (simp add: redrawn_def bench_fields) (simp add: bench_gui_def)
  let ?g = "at_win (sys_gui ?s) 2 w" and ?l = "layers (layer_manager (sys_gui ?s)) ! 2"
  let ?s1 = "?s\<lparr>sys_gui := ?g\<rparr>"
  have m: "movable (sys_gui ?s) 2" "layer_window ?l = Some 2" "layer_id ?l = 3" "layer_pos ?l = V 2 2"
    by (simp_all add: bench_fields bench_movable) (simp_all add: bench_gui_def bench_lm_def)
  have size: "Window_Size (windows ?g ! 2) = V 160 52" using w(4) bench_new(6) by (simp add: at_win_def bench_fields bench_nth) (simp add: bench_gui_def bench_windows_def)
  have stale: "loop_except (\<lambda>q. in_rect q (damage (windows ?g) ?l whole_area)) ?su ?s1"
    using drawn_window_stale [OF bench_ok m(1,2) r] by simp
  have "damage (windows ?g) ?l whole_area = damage (windows ?g) ?l ?area"
    by (simp add: damage_def m size Let_def rect_and_def vec_add_def vec_sub_def ElementMax_def ElementMin_def)
  with stale have stale': "loop_except (\<lambda>q. in_rect q (damage (windows (sys_gui ?s1)) (layers (layer_manager (sys_gui ?s1)) ! 2) ?area)) ?su ?s1"
    by (simp add: at_win_def)
  have "\<exists>s'. main_turn ?su ?s1 = Some s' \<and> loop_ok ?su s' \<and> repainted (sys_gui ?s1) (sys_gui s') \<and>
    (\<forall>n. n \<noteq> main_window ?s1 \<longrightarrow> windows (sys_gui s') ! n = windows (sys_gui ?s1) ! n) \<and>
    tasks (sys_tasks s') = delivered 2 \<lparr>msg_type = kLayerFinish, src_task = 0, msg_arg = no_arg\<rparr> (received (main_task ?su) (tasks (sys_tasks ?s1)))"
    by (rule layer_request_answered [OF stale', where op = DrawArea and area = ?area and rest = "[]"])
      (use m bench_tasks_ok [of ?a] in \<open>simp_all add: bench_fields at_win_def movable_def known_task_def rect_ok_def\<close>)
  then obtain s' where s': "main_turn ?su ?s1 = Some s'" "loop_ok ?su s'" "repainted ?g (sys_gui s')"
    "windows (sys_gui s') ! 2 = w"
    "tasks (sys_tasks s') = delivered 2 \<lparr>msg_type = kLayerFinish, src_task = 0, msg_arg = no_arg\<rparr> (received 0 (tasks (bench_tasks ?a)))"
    by (auto simp: bench_fields at_win_def bench_system_def bench_gui_def bench_windows_def bench_config_def)
  have fin: "map msg_type (tk_msgs (tasks (sys_tasks s') ! 1)) = [kLayerFinish]"
    using s'(5) bench_tasks_ok [of ?a] bench_idle_queue [of ?a] by (simp add: delivered_def received_def)
  have shown: "pixel_shown (windows (sys_gui s')) (layer_manager (sys_gui s')) (V 2 2)"
  proof -
    have "on_screen (layer_manager (sys_gui s')) (V 2 2)" using s'(3)
      by (simp add: repainted_def at_win_def bench_fields) (simp add: bench_gui_def bench_lm_def on_screen_def fb_inside_def in_rect_def example_fb_def FrameBufferSize_def)
    then show ?thesis using s'(2) by (simp add: loop_ok_def desktop_ok_def shows_stack_def)
  qed
  have "stack_picture (windows (sys_gui s')) (layer_manager (sys_gui s')) (V 2 2) = Some ?col"
  proof -
    have "layers (layer_manager (sys_gui s')) = layers bench_lm" "layer_stack (layer_manager (sys_gui s')) = layer_stack bench_lm"
      using s'(3) by (simp_all add: repainted_def at_win_def bench_fields) (simp_all add: bench_gui_def)
    moreover have "Window_Size (windows (sys_gui s') ! 3) = V 1 1"
      using s'(3) bench_new(7) by (simp add: repainted_def) (simp add: at_win_def bench_fields bench_gui_def bench_windows_def)
    moreover have "transparent_color w = None" "Window_Size w = V 160 52" using w(4,5) bench_new(6)
      by (simp_all add: bench_nth) (simp add: Window_new_def Let_def split: prod.split)
    ultimately show ?thesis using w(3) s'(4)
      by (simp add: stack_picture_def ptr_picture_def layer_picture_def bench_lm_def map_add_at win_picture_def in_rect_def vec_sub_def)
  qed
  then have pix: "screen_pixel (layer_manager (sys_gui s')) (V 2 2) = ?col" using shown unfolding pixel_shown_def by (metis option.inject)
  show "\<exists>w s'. Window_Write (V 0 0) ?col (bench_windows ! 2) = Some w \<and>
     (let s = ?s in main_turn ?su (s\<lparr>sys_gui := at_win (sys_gui s) 2 w\<rparr>) = Some s') \<and>
     map msg_type (tk_msgs (tasks (sys_tasks s') ! 1)) = [kLayerFinish] \<and> screen_pixel (layer_manager (sys_gui s')) (V 2 2) = ?col"
    using w(1) s'(1) fin pix by (auto simp: Let_def)
qed

end
