(* ===== verification/Elf_Loader.thy ===== *)
theory Elf_Loader
  imports Byte_Memory
begin

text \<open>
  \<open>src/kernel/elf.hpp\<close> and the loader's part of \<open>src/UhyokoLoaderPkg/Main.c\<close> that works on memory: the address
  range of the kernel image, the copying of its segments and the entry point. The firmware's \<open>CopyMem\<close> and
  \<open>SetMem\<close> are the memory functions of the C library under other names.
\<close>

subsection \<open>ELF structures\<close>

definition Elf64_Ehdr :: struct where
  "Elf64_Ehdr = [(''e_ident'', 16), (''e_type'', 2), (''e_machine'', 2), (''e_version'', 4), (''e_entry'', 8), (''e_phoff'', 8),
     (''e_shoff'', 8), (''e_flags'', 4), (''e_ehsize'', 2), (''e_phentsize'', 2), (''e_phnum'', 2), (''e_shentsize'', 2),
     (''e_shnum'', 2), (''e_shstrndx'', 2)]"

definition Elf64_Phdr :: struct where
  "Elf64_Phdr = [(''p_type'', 4), (''p_flags'', 4), (''p_offset'', 8), (''p_vaddr'', 8), (''p_paddr'', 8), (''p_filesz'', 8),
     (''p_memsz'', 8), (''p_align'', 8)]"

definition PT_LOAD :: u64 where "PT_LOAD = 1"

definition MAX_UINT64 :: u64 where "MAX_UINT64 = 0xffffffffffffffff"

subsection \<open>Loading\<close>

text \<open>The array of program headers, and a member of its element \<open>i\<close>.\<close>

definition phdr_addr :: "memory \<Rightarrow> u64 \<Rightarrow> u64" where
  "phdr_addr mem ehdr = ehdr + get_member Elf64_Ehdr ''e_phoff'' mem ehdr"

definition ph :: "string \<Rightarrow> memory \<Rightarrow> u64 \<Rightarrow> nat \<Rightarrow> u64" where
  "ph f mem phdr i = get_member Elf64_Phdr f mem (phdr + of_nat (sizeof Elf64_Phdr * i))"

definition e_phnum :: "memory \<Rightarrow> u64 \<Rightarrow> nat" where
  "e_phnum mem ehdr = unat (get_member Elf64_Ehdr ''e_phnum'' mem ehdr)"

definition CalcLoadAddressRange :: "memory \<Rightarrow> u64 \<Rightarrow> u64 \<times> u64" where
  "CalcLoadAddressRange mem ehdr =
     (let phdr = phdr_addr mem ehdr
      in fold (\<lambda>i (first, last).
           if ph ''p_type'' mem phdr i \<noteq> PT_LOAD then (first, last)
           else (min first (ph ''p_vaddr'' mem phdr i), max last (ph ''p_vaddr'' mem phdr i + ph ''p_memsz'' mem phdr i)))
         [0..<e_phnum mem ehdr] (MAX_UINT64, 0))"

definition CopyMem :: "u64 \<Rightarrow> u64 \<Rightarrow> u64 \<Rightarrow> memory \<Rightarrow> memory" where
  "CopyMem dst src n mem = (\<lambda>x. if x - dst < n then mem (src + (x - dst)) else mem x)"

definition SetMem :: "u64 \<Rightarrow> u64 \<Rightarrow> u8 \<Rightarrow> memory \<Rightarrow> memory" where
  "SetMem dst n v mem = (\<lambda>x. if x - dst < n then v else mem x)"

text \<open>The body of the loop of \<open>CopyLoadSegments\<close>; the headers are read from the memory it changes.\<close>

definition copy_segment :: "u64 \<Rightarrow> u64 \<Rightarrow> nat \<Rightarrow> memory \<Rightarrow> memory" where
  "copy_segment ehdr phdr i mem =
     (if ph ''p_type'' mem phdr i \<noteq> PT_LOAD then mem
      else
        let segm_in_file = ehdr + ph ''p_offset'' mem phdr i;
            mem = CopyMem (ph ''p_vaddr'' mem phdr i) segm_in_file (ph ''p_filesz'' mem phdr i) mem;
            remain_bytes = ph ''p_memsz'' mem phdr i - ph ''p_filesz'' mem phdr i
        in SetMem (ph ''p_vaddr'' mem phdr i + ph ''p_filesz'' mem phdr i) remain_bytes 0 mem)"

lemma e_phnum_less: "e_phnum mem ehdr < 65536"
proof -
  have "unat (load_le mem (ehdr + 56) 2) < 2 ^ (8 * 2)" by (rule load_le_bound) simp
  then show ?thesis by (simp add: e_phnum_def get_member_def Elf64_Ehdr_def)
qed

function copy_from :: "u64 \<Rightarrow> u64 \<Rightarrow> nat \<Rightarrow> memory \<Rightarrow> memory" where
  "copy_from ehdr phdr i mem =
     (if i < e_phnum mem ehdr then copy_from ehdr phdr (i + 1) (copy_segment ehdr phdr i mem) else mem)"
  by pat_completeness auto
termination
proof (relation "measure (\<lambda>(ehdr, phdr, i, mem). 65536 - i)")
  fix ehdr phdr :: u64 and i mem assume "i < e_phnum mem ehdr"
  then show "((ehdr, phdr, i + 1, copy_segment ehdr phdr i mem), (ehdr, phdr, i, mem)) \<in> measure (\<lambda>(ehdr, phdr, i, mem). 65536 - i)"
    using e_phnum_less [of mem ehdr] by simp
qed simp

declare copy_from.simps [simp del]

definition CopyLoadSegments :: "u64 \<Rightarrow> memory \<Rightarrow> memory" where
  "CopyLoadSegments ehdr mem = copy_from ehdr (phdr_addr mem ehdr) 0 mem"

text \<open>\<open>UefiMain\<close>: the pages to allocate and the address of the entry point, read from the loaded image.\<close>

definition num_pages :: "u64 \<Rightarrow> u64 \<Rightarrow> u64" where
  "num_pages kernel_first_addr kernel_last_addr = (kernel_last_addr - kernel_first_addr + 0xfff) div 0x1000"

definition entry_addr :: "memory \<Rightarrow> u64 \<Rightarrow> u64" where
  "entry_addr mem kernel_first_addr = load_le mem (kernel_first_addr + 24) 8"

subsection \<open>Images\<close>

text \<open>The file lies in \<open>len\<close> bytes from \<open>ehdr\<close> with its headers and segments; the segments overlap neither the file
  nor each other.\<close>

definition in_range :: "u64 \<Rightarrow> u64 \<Rightarrow> u64 \<Rightarrow> bool" where
  "in_range a n x \<longleftrightarrow> x - a < n"

definition loadable :: "memory \<Rightarrow> u64 \<Rightarrow> nat \<Rightarrow> bool" where
  "loadable mem ehdr i \<longleftrightarrow> i < e_phnum mem ehdr \<and> ph ''p_type'' mem (phdr_addr mem ehdr) i = PT_LOAD"

definition in_segment :: "memory \<Rightarrow> u64 \<Rightarrow> nat \<Rightarrow> u64 \<Rightarrow> bool" where
  "in_segment mem ehdr i = in_range (ph ''p_vaddr'' mem (phdr_addr mem ehdr) i) (ph ''p_memsz'' mem (phdr_addr mem ehdr) i)"

definition image_ok :: "memory \<Rightarrow> u64 \<Rightarrow> u64 \<Rightarrow> bool" where
  "image_ok mem ehdr len \<longleftrightarrow> 64 \<le> len \<and>
     unat (get_member Elf64_Ehdr ''e_phoff'' mem ehdr) + 56 * e_phnum mem ehdr \<le> unat len \<and>
     (\<forall>i. loadable mem ehdr i \<longrightarrow>
        (let phdr = phdr_addr mem ehdr
         in unat (ph ''p_offset'' mem phdr i) + unat (ph ''p_filesz'' mem phdr i) \<le> unat len \<and>
            ph ''p_filesz'' mem phdr i \<le> ph ''p_memsz'' mem phdr i \<and>
            unat (ph ''p_vaddr'' mem phdr i) + unat (ph ''p_memsz'' mem phdr i) < 2 ^ 64 \<and>
            (\<forall>x. in_segment mem ehdr i x \<longrightarrow> \<not> in_range ehdr len x) \<and>
            (\<forall>j x. loadable mem ehdr j \<longrightarrow> in_segment mem ehdr i x \<longrightarrow> in_segment mem ehdr j x \<longrightarrow> j = i)))"

text \<open>What the segment \<open>i\<close> must contain at \<open>x\<close>.\<close>

definition segment_byte :: "memory \<Rightarrow> u64 \<Rightarrow> nat \<Rightarrow> u64 \<Rightarrow> u8" where
  "segment_byte mem ehdr i x =
     (let phdr = phdr_addr mem ehdr; off = x - ph ''p_vaddr'' mem phdr i
      in if off < ph ''p_filesz'' mem phdr i then mem (ehdr + ph ''p_offset'' mem phdr i + off) else 0)"

subsection \<open>Proofs\<close>

text \<open>Memories that agree on the file have the same headers.\<close>

definition same_file :: "u64 \<Rightarrow> u64 \<Rightarrow> memory \<Rightarrow> memory \<Rightarrow> bool" where
  "same_file ehdr len mem m \<longleftrightarrow> (\<forall>x. in_range ehdr len x \<longrightarrow> m x = mem x)"

lemma same_load:
  assumes "same_file ehdr len mem m" and "unat off + n \<le> unat len"
  shows "load_le m (ehdr + off) n = load_le mem (ehdr + off) n"
proof (rule load_le_cong)
  fix i assume i: "i < n"
  have s: "unat len < 2 ^ 64" using unsigned_less [of len, where ?'a = nat] by simp
  have "i < 2 ^ 64" using i assms(2) s by simp
  then have "unat (of_nat i :: u64) = i" by (rule unat_of_nat_u64)
  then have "unat (off + of_nat i) = unat off + i"
    using assms(2) i s by (simp add: unat_word_ariths)
  then have "in_range ehdr len (ehdr + off + of_nat i)"
    using assms(2) i by (simp add: in_range_def word_less_nat_alt algebra_simps)
  then show "m (ehdr + off + of_nat i) = mem (ehdr + off + of_nat i)" using assms(1) by (simp add: same_file_def)
qed

lemma same_headers:
  assumes "same_file ehdr len mem m" and "image_ok mem ehdr len"
  shows "e_phnum m ehdr = e_phnum mem ehdr" "phdr_addr m ehdr = phdr_addr mem ehdr"
    "get_member Elf64_Ehdr ''e_entry'' m ehdr = get_member Elf64_Ehdr ''e_entry'' mem ehdr"
proof -
  have 64: "64 \<le> unat len" using assms(2) by (simp add: image_ok_def word_le_nat_alt)
  then show "e_phnum m ehdr = e_phnum mem ehdr" "phdr_addr m ehdr = phdr_addr mem ehdr"
    "get_member Elf64_Ehdr ''e_entry'' m ehdr = get_member Elf64_Ehdr ''e_entry'' mem ehdr"
    using same_load [OF assms(1), of 56 2] same_load [OF assms(1), of 32 8] same_load [OF assms(1), of 24 8]
    by (simp_all add: e_phnum_def phdr_addr_def get_member_def Elf64_Ehdr_def del: load_le_numeral)
qed

lemma member_pos_Phdr:
  assumes "f \<in> {''p_type'', ''p_offset'', ''p_vaddr'', ''p_filesz'', ''p_memsz''}"
  shows "fst (member_pos Elf64_Phdr f) + snd (member_pos Elf64_Phdr f) \<le> 56"
  using assms by (auto simp: Elf64_Phdr_def)

lemma same_ph:
  assumes "same_file ehdr len mem m" and "image_ok mem ehdr len" and i: "i < e_phnum mem ehdr"
    and f: "f \<in> {''p_type'', ''p_offset'', ''p_vaddr'', ''p_filesz'', ''p_memsz''}"
  shows "ph f m (phdr_addr mem ehdr) i = ph f mem (phdr_addr mem ehdr) i"
proof -
  let ?off = "get_member Elf64_Ehdr ''e_phoff'' mem ehdr" and ?p = "fst (member_pos Elf64_Phdr f)" and ?n = "snd (member_pos Elf64_Phdr f)"
  have s: "unat len < 2 ^ 64" using unsigned_less [of len, where ?'a = nat] by simp
  have h: "unat ?off + 56 * e_phnum mem ehdr \<le> unat len" using assms(2) by (simp add: image_ok_def)
  have le: "unat ?off + (56 * i + ?p) + ?n \<le> unat len" using h i member_pos_Phdr [OF f] by linarith
  then have "56 * i + ?p < 2 ^ 64" using s by linarith
  then have "unat (of_nat (56 * i + ?p) :: u64) = 56 * i + ?p" by (rule unat_of_nat_u64)
  then have "unat (?off + of_nat (56 * i + ?p)) = unat ?off + (56 * i + ?p)"
    using le s by (simp add: unat_word_ariths)
  then have "load_le m (ehdr + (?off + of_nat (56 * i + ?p))) ?n = load_le mem (ehdr + (?off + of_nat (56 * i + ?p))) ?n"
    using le by (intro same_load [OF assms(1)]) simp
  moreover have "sizeof Elf64_Phdr = 56" by (simp add: sizeof_def Elf64_Phdr_def)
  ultimately show ?thesis
    by (simp add: ph_def phdr_addr_def get_member_def split_def Let_def algebra_simps)
qed

text \<open>One turn of the loop.\<close>

lemma above_filesz:
  fixes d :: u64
  assumes "f \<le> m"
  shows "d - f < m - f \<longleftrightarrow> f \<le> d \<and> d < m"
proof -
  have lt: "unat d < 2 ^ 64" "unat m < 2 ^ 64" using unsigned_less [of d, where ?'a = nat] unsigned_less [of m, where ?'a = nat] by simp_all
  have mf: "unat (m - f) = unat m - unat f" using assms by (simp add: unat_sub word_le_nat_alt)
  show ?thesis
  proof (cases "f \<le> d")
    case True
    then have "unat (d - f) = unat d - unat f" by (simp add: unat_sub word_le_nat_alt)
    then show ?thesis using True mf by (simp add: word_less_nat_alt word_le_nat_alt less_diff_conv2 diff_less_mono2) linarith
  next
    case False
    then have d: "unat d < unat f" by (simp add: word_le_nat_alt)
    then have "unat (d - f) = unat d + 2 ^ 64 - unat f" by (simp add: unat_sub_if_size word_size)
    then have "\<not> d - f < m - f" using lt mf d assms by (simp add: word_less_nat_alt word_le_nat_alt)
    then show ?thesis using False by simp
  qed
qed

lemma loadableD:
  assumes "image_ok mem ehdr len" and "loadable mem ehdr i"
  shows "unat (ph ''p_offset'' mem (phdr_addr mem ehdr) i) + unat (ph ''p_filesz'' mem (phdr_addr mem ehdr) i) \<le> unat len"
    "ph ''p_filesz'' mem (phdr_addr mem ehdr) i \<le> ph ''p_memsz'' mem (phdr_addr mem ehdr) i"
    "unat (ph ''p_vaddr'' mem (phdr_addr mem ehdr) i) + unat (ph ''p_memsz'' mem (phdr_addr mem ehdr) i) < 2 ^ 64"
    "in_segment mem ehdr i x \<Longrightarrow> \<not> in_range ehdr len x"
    "loadable mem ehdr j \<Longrightarrow> in_segment mem ehdr i x \<Longrightarrow> in_segment mem ehdr j x \<Longrightarrow> j = i"
  using assms unfolding image_ok_def Let_def by blast+

lemma copy_segment_loads:
  assumes same: "same_file ehdr len mem m" and ok: "image_ok mem ehdr len" and l: "loadable mem ehdr i"
  shows "copy_segment ehdr (phdr_addr mem ehdr) i m =
    (\<lambda>x. if in_segment mem ehdr i x then segment_byte mem ehdr i x else m x)"
proof -
  let ?p = "phdr_addr mem ehdr"
  let ?v = "ph ''p_vaddr'' mem ?p i" and ?o = "ph ''p_offset'' mem ?p i" and ?f = "ph ''p_filesz'' mem ?p i" and ?n = "ph ''p_memsz'' mem ?p i"
  have i: "i < e_phnum mem ehdr" "ph ''p_type'' mem ?p i = PT_LOAD" using l by (simp_all add: loadable_def)
  note D = loadableD [OF ok l]
  let ?m1 = "CopyMem ?v (ehdr + ?o) ?f m"
  have "same_file ehdr len mem ?m1"
    using same D(2,4) by (auto simp: same_file_def CopyMem_def in_segment_def in_range_def)
  note h = same_ph [OF same ok i(1)] and h1 = same_ph [OF this ok i(1)]
  have eq: "copy_segment ehdr ?p i m = SetMem (?v + ?f) (?n - ?f) 0 ?m1"
    using i(2) by (simp add: copy_segment_def h h1 Let_def)
  show ?thesis
  proof (rule ext)
    fix x
    let ?d = "x - ?v"
    have tail: "x - (?v + ?f) < ?n - ?f \<longleftrightarrow> ?f \<le> ?d \<and> ?d < ?n" using above_filesz [OF D(2), of ?d] by (simp add: diff_diff_eq)
    have c: "copy_segment ehdr ?p i m x = (if ?f \<le> ?d \<and> ?d < ?n then 0 else if ?d < ?f then m (ehdr + ?o + ?d) else m x)"
      unfolding eq SetMem_def CopyMem_def tail ..
    show "copy_segment ehdr ?p i m x = (if in_segment mem ehdr i x then segment_byte mem ehdr i x else m x)"
    proof (cases "?d < ?f")
      case True
      then have n: "?d < ?n" using D(2) by simp
      have lt: "unat ?o + unat ?d < unat len" using True D(1) by (simp add: word_less_nat_alt)
      moreover have "unat len < 2 ^ 64" using unsigned_less [of len, where ?'a = nat] by simp
      ultimately have "unat (?o + ?d) = unat ?o + unat ?d" by (simp add: unat_word_ariths)
      then have "in_range ehdr len (ehdr + ?o + ?d)" using lt by (simp add: in_range_def word_less_nat_alt add.assoc)
      then have "m (ehdr + ?o + ?d) = mem (ehdr + ?o + ?d)" using same by (simp add: same_file_def)
      moreover have "\<not> ?f \<le> ?d" using True by simp
      ultimately show ?thesis unfolding c using True n by (simp add: in_segment_def in_range_def segment_byte_def Let_def)
    next
      case False
      then have "?f \<le> ?d" by simp
      then show ?thesis unfolding c using False by (simp add: in_segment_def in_range_def segment_byte_def Let_def)
    qed
  qed
qed

text \<open>The loop from \<open>i\<close> on, when the segments before \<open>i\<close> are in place.\<close>

definition loaded :: "memory \<Rightarrow> u64 \<Rightarrow> nat \<Rightarrow> memory \<Rightarrow> bool" where
  "loaded mem ehdr i m \<longleftrightarrow>
     (\<forall>x. (\<forall>k < i. loadable mem ehdr k \<longrightarrow> \<not> in_segment mem ehdr k x) \<longrightarrow> m x = mem x) \<and>
     (\<forall>k < i. loadable mem ehdr k \<longrightarrow> (\<forall>x. in_segment mem ehdr k x \<longrightarrow> m x = segment_byte mem ehdr k x))"

lemma loaded_same_file: "image_ok mem ehdr len \<Longrightarrow> loaded mem ehdr i m \<Longrightarrow> same_file ehdr len mem m"
  unfolding same_file_def loaded_def using loadableD(4) by blast

lemma loaded_step:
  assumes ok: "image_ok mem ehdr len" and l: "loaded mem ehdr i m" and i: "i < e_phnum mem ehdr"
  shows "loaded mem ehdr (Suc i) (copy_segment ehdr (phdr_addr mem ehdr) i m)"
proof (cases "loadable mem ehdr i")
  case True
  have "copy_segment ehdr (phdr_addr mem ehdr) i m = (\<lambda>x. if in_segment mem ehdr i x then segment_byte mem ehdr i x else m x)"
    by (rule copy_segment_loads [OF loaded_same_file [OF ok l] ok True])
  moreover have "\<not> in_segment mem ehdr i x" if "k < i" "loadable mem ehdr k" "in_segment mem ehdr k x" for k x
    using loadableD(5) [OF ok that(2) True that(3)] that(1) by auto
  ultimately show ?thesis using l True by (auto simp: loaded_def less_Suc_eq)
next
  case False
  have "ph ''p_type'' m (phdr_addr mem ehdr) i \<noteq> PT_LOAD"
    using False i same_ph [OF loaded_same_file [OF ok l] ok i, of "''p_type''"] by (simp add: loadable_def)
  then show ?thesis using l False by (auto simp: copy_segment_def loaded_def less_Suc_eq)
qed

lemma copy_from_loads:
  assumes ok: "image_ok mem ehdr len" and "loaded mem ehdr i m" and "i \<le> e_phnum mem ehdr"
  shows "loaded mem ehdr (e_phnum mem ehdr) (copy_from ehdr (phdr_addr mem ehdr) i m)"
  using assms(2,3)
proof (induction "e_phnum mem ehdr - i" arbitrary: i m)
  case 0
  have "e_phnum m ehdr = e_phnum mem ehdr" using same_headers(1) [OF loaded_same_file [OF ok 0(2)] ok] .
  then show ?case using 0 by (subst copy_from.simps) simp
next
  case (Suc n)
  have "e_phnum m ehdr = e_phnum mem ehdr" using same_headers(1) [OF loaded_same_file [OF ok Suc.prems(1)] ok] .
  moreover have i: "i < e_phnum mem ehdr" using Suc.hyps(2) by simp
  moreover have "loaded mem ehdr (e_phnum mem ehdr) (copy_from ehdr (phdr_addr mem ehdr) (Suc i) (copy_segment ehdr (phdr_addr mem ehdr) i m))"
    using Suc.hyps(2) i by (intro Suc.hyps(1) loaded_step [OF ok Suc.prems(1)]) simp_all
  ultimately show ?case by (subst copy_from.simps) simp
qed

lemma CopyLoadSegments_loaded: "image_ok mem ehdr len \<Longrightarrow> loaded mem ehdr (e_phnum mem ehdr) (CopyLoadSegments ehdr mem)"
  unfolding CopyLoadSegments_def by (rule copy_from_loads) (simp_all add: loaded_def)

text \<open>The address range encloses every segment.\<close>

lemma range_fold:
  fixes a e :: "nat \<Rightarrow> u64"
  shows "let (first, last) = fold (\<lambda>i (first, last). if \<not> P i then (first, last) else (min first (a i), max last (e i))) is (f0, l0)
    in (\<forall>i \<in> set is. P i \<longrightarrow> first \<le> a i \<and> e i \<le> last) \<and> first \<le> f0 \<and> l0 \<le> last"
proof (induction "is" arbitrary: f0 l0)
  case (Cons i "is")
  show ?case
  proof (cases "P i")
    case True
    obtain f l where fl: "fold (\<lambda>i (first, last). if \<not> P i then (first, last) else (min first (a i), max last (e i))) is
        (min f0 (a i), max l0 (e i)) = (f, l)" by fastforce
    have "(\<forall>i \<in> set is. P i \<longrightarrow> f \<le> a i \<and> e i \<le> l) \<and> f \<le> min f0 (a i) \<and> max l0 (e i) \<le> l"
      using Cons.IH [of "min f0 (a i)" "max l0 (e i)"] unfolding fl by (simp add: Let_def)
    then show ?thesis using True fl by (simp add: Let_def)
  qed (use Cons.IH [of f0 l0] in simp)
qed simp

lemma range_encloses:
  assumes ok: "image_ok mem ehdr len" and r: "CalcLoadAddressRange mem ehdr = (lo, hi)" and l: "loadable mem ehdr i"
  shows "lo \<le> ph ''p_vaddr'' mem (phdr_addr mem ehdr) i"
    "ph ''p_vaddr'' mem (phdr_addr mem ehdr) i + ph ''p_memsz'' mem (phdr_addr mem ehdr) i \<le> hi"
proof -
  let ?p = "phdr_addr mem ehdr"
  have "let (first, last) = CalcLoadAddressRange mem ehdr
    in (\<forall>i \<in> set [0..<e_phnum mem ehdr]. ph ''p_type'' mem ?p i = PT_LOAD \<longrightarrow>
      first \<le> ph ''p_vaddr'' mem ?p i \<and> ph ''p_vaddr'' mem ?p i + ph ''p_memsz'' mem ?p i \<le> last)"
    using range_fold [of "\<lambda>i. ph ''p_type'' mem ?p i = PT_LOAD" "ph ''p_vaddr'' mem ?p"
        "\<lambda>i. ph ''p_vaddr'' mem ?p i + ph ''p_memsz'' mem ?p i" "[0..<e_phnum mem ehdr]" MAX_UINT64 0]
    unfolding CalcLoadAddressRange_def Let_def by (auto split: prod.splits)
  then show "lo \<le> ph ''p_vaddr'' mem ?p i" "ph ''p_vaddr'' mem ?p i + ph ''p_memsz'' mem ?p i \<le> hi"
    using l r by (auto simp: loadable_def)
qed

lemma segment_in_range:
  assumes ok: "image_ok mem ehdr len" and r: "CalcLoadAddressRange mem ehdr = (lo, hi)" and l: "loadable mem ehdr i" and x: "in_segment mem ehdr i x"
  shows "unat lo \<le> unat x \<and> unat x < unat hi"
proof -
  let ?v = "ph ''p_vaddr'' mem (phdr_addr mem ehdr) i" and ?n = "ph ''p_memsz'' mem (phdr_addr mem ehdr) i"
  have n: "unat ?v + unat ?n < 2 ^ 64" by (rule loadableD(3) [OF ok l])
  have d: "unat (x - ?v) < unat ?n" using x by (simp add: in_segment_def in_range_def word_less_nat_alt)
  have "unat x = unat (?v + (x - ?v))" by simp
  also have "\<dots> = unat ?v + unat (x - ?v)" using n d unfolding unat_word_ariths(1) by simp
  finally have "unat x = unat ?v + unat (x - ?v)" .
  moreover have "unat (?v + ?n) = unat ?v + unat ?n" using n by (simp add: unat_word_ariths)
  ultimately show ?thesis using range_encloses [OF ok r l] d by (simp add: word_le_nat_alt)
qed

lemma num_pages_cover:
  assumes "unat lo \<le> unat x \<and> unat x < unat hi" and "unat hi + 0xfff < 2 ^ 64"
  shows "unat x < unat lo + 0x1000 * unat (num_pages lo hi)"
proof -
  have "unat (hi - lo) = unat hi - unat lo" using assms(1) by (simp add: unat_sub word_le_nat_alt)
  then have "unat (hi - lo + 0xfff) = unat hi - unat lo + 0xfff" using assms(2) by (simp add: unat_word_ariths)
  then have "unat (num_pages lo hi) = (unat hi - unat lo + 0xfff) div 0x1000" by (simp add: num_pages_def unat_div)
  moreover define D where "D = unat hi - unat lo"
  moreover have "D + 0xfff = 0x1000 * ((D + 0xfff) div 0x1000) + (D + 0xfff) mod 0x1000" "(D + 0xfff) mod 0x1000 < 0x1000" by simp_all
  ultimately have "D \<le> 0x1000 * unat (num_pages lo hi)" by linarith
  then show ?thesis using assms(1) unfolding D_def by linarith
qed

lemma load_le_moved: "(\<And>i. i < n \<Longrightarrow> m (a + of_nat i) = m' (b + of_nat i)) \<Longrightarrow> load_le m a n = load_le m' b n"
proof (induction n arbitrary: a b)
  case (Suc n)
  have "m a = m' b" using Suc.prems [of 0] by simp
  moreover have "load_le m (a + 1) n = load_le m' (b + 1) n"
  proof (rule Suc.IH)
    show "m (a + 1 + of_nat i) = m' (b + 1 + of_nat i)" if "i < n" for i
      using Suc.prems [of "Suc i"] that by (simp add: algebra_simps)
  qed
  ultimately show ?case by simp
qed simp

text \<open>A small image: one segment of 120 bytes of file and 200 of memory.\<close>

definition demo_image :: memory where
  "demo_image x =
     (if x = 0x1018 then 0x78 else if x = 0x101a then 0x10 else if x = 0x1020 then 64 else if x = 0x1038 then 1
      else if x = 0x1040 then 1 else if x = 0x1052 then 0x10 else if x = 0x1060 then 120 else if x = 0x1068 then 200 else 0)"

lemma demo_headers:
  "e_phnum demo_image 0x1000 = 1" "phdr_addr demo_image 0x1000 = 0x1040" "get_member Elf64_Ehdr ''e_phoff'' demo_image 0x1000 = 64"
  "get_member Elf64_Ehdr ''e_entry'' demo_image 0x1000 = 0x100078"
  "ph ''p_type'' demo_image 0x1040 0 = 1" "ph ''p_offset'' demo_image 0x1040 0 = 0" "ph ''p_vaddr'' demo_image 0x1040 0 = 0x100000"
  "ph ''p_filesz'' demo_image 0x1040 0 = 120" "ph ''p_memsz'' demo_image 0x1040 0 = 200"
  by (simp_all add: e_phnum_def phdr_addr_def ph_def get_member_def Elf64_Ehdr_def Elf64_Phdr_def sizeof_def demo_image_def)

lemma demo_loadable: "loadable demo_image 0x1000 i \<longleftrightarrow> i = 0"
  by (auto simp: loadable_def demo_headers PT_LOAD_def)

lemma demo_image_ok: "image_ok demo_image 0x1000 120"
proof -
  have "\<not> x - 0x1000 < 120" if "x - 0x100000 < 200" for x :: u64
  proof -
    define d where "d = x - 0x100000"
    have "unat d < 200" using that by (simp add: d_def word_less_nat_alt)
    then have "unat (d + 0xff000) = unat d + 0xff000" by (simp add: unat_word_ariths)
    moreover have "x - 0x1000 = d + 0xff000" by (simp add: d_def)
    ultimately have "unat (x - 0x1000) = unat d + 0xff000" by (simp only:)
    then have "\<not> unat (x - 0x1000) < 120" by linarith
    then show ?thesis by (simp add: word_less_nat_alt)
  qed
  then show ?thesis
    by (simp add: image_ok_def demo_headers demo_loadable in_segment_def in_range_def Let_def word_le_nat_alt)
qed

lemma demo_range: "CalcLoadAddressRange demo_image 0x1000 = (0x100000, 0x1000c8)"
  by (simp add: CalcLoadAddressRange_def demo_headers PT_LOAD_def MAX_UINT64_def min_def max_def)

subsection \<open>Properties\<close>

text \<open>C13: The kernel is loaded as its ELF headers say: inside every loadable segment the first \<open>p_filesz\<close> bytes are the
  bytes of the file and the rest is zero, no other byte of memory changes, and the pages allocated for the computed
  address range hold every segment.\<close>

theorem CopyLoadSegments_loads_image:
  assumes "image_ok mem ehdr len" and "CalcLoadAddressRange mem ehdr = (lo, hi)" and "unat hi + 0xfff < 2 ^ 64"
  shows "(\<forall>i x. loadable mem ehdr i \<longrightarrow> in_segment mem ehdr i x \<longrightarrow> CopyLoadSegments ehdr mem x = segment_byte mem ehdr i x) \<and>
    (\<forall>x. (\<forall>i. loadable mem ehdr i \<longrightarrow> \<not> in_segment mem ehdr i x) \<longrightarrow> CopyLoadSegments ehdr mem x = mem x) \<and>
    (\<forall>i x. loadable mem ehdr i \<longrightarrow> in_segment mem ehdr i x \<longrightarrow> unat lo \<le> unat x \<and> unat x < unat hi \<and>
       unat x < unat lo + 0x1000 * unat (num_pages lo hi))"
proof (intro conjI allI impI)
  note L = CopyLoadSegments_loaded [OF assms(1)]
  show "CopyLoadSegments ehdr mem x = segment_byte mem ehdr i x" if "loadable mem ehdr i" "in_segment mem ehdr i x" for i x
    using L that by (auto simp: loaded_def loadable_def)
  show "CopyLoadSegments ehdr mem x = mem x" if "\<forall>i. loadable mem ehdr i \<longrightarrow> \<not> in_segment mem ehdr i x" for x
    using L that by (auto simp: loaded_def)
  fix i x assume l: "loadable mem ehdr i" and x: "in_segment mem ehdr i x"
  note b = segment_in_range [OF assms(1,2) l x]
  show "unat lo \<le> unat x" "unat x < unat hi" using b by simp_all
  show "unat x < unat lo + 0x1000 * unat (num_pages lo hi)" by (rule num_pages_cover [OF b assms(3)])
qed

theorem CopyLoadSegments_loads_image_witness:
  "let m = CopyLoadSegments 0x1000 demo_image in m 0x100018 = 0x78 \<and> m 0x1000a0 = 0 \<and> m 0x1018 = 0x78"
proof -
  note T = CopyLoadSegments_loads_image [OF demo_image_ok demo_range]
  have in_seg: "in_segment demo_image 0x1000 0 x \<longleftrightarrow> x - 0x100000 < 200" for x
    by (simp add: in_segment_def in_range_def demo_headers)
  have "CopyLoadSegments 0x1000 demo_image x = segment_byte demo_image 0x1000 0 x" if "x - 0x100000 < 200" for x
    using T that by (simp add: demo_loadable in_seg)
  moreover have "CopyLoadSegments 0x1000 demo_image x = demo_image x" if "\<not> x - 0x100000 < 200" for x
    using T that by (simp add: demo_loadable in_seg)
  ultimately show ?thesis by (simp add: segment_byte_def demo_headers Let_def demo_image_def)
qed

text \<open>The entry point that \<open>UefiMain\<close> reads from the loaded image is \<open>e_entry\<close> of the file, provided the segment at
  the lowest address starts with the ELF header.\<close>

theorem entry_addr_found:
  assumes "image_ok mem ehdr len" and "CalcLoadAddressRange mem ehdr = (lo, hi)"
    and "loadable mem ehdr k" "ph ''p_vaddr'' mem (phdr_addr mem ehdr) k = lo" "ph ''p_offset'' mem (phdr_addr mem ehdr) k = 0"
      "32 \<le> ph ''p_filesz'' mem (phdr_addr mem ehdr) k"
  shows "entry_addr (CopyLoadSegments ehdr mem) lo = get_member Elf64_Ehdr ''e_entry'' mem ehdr"
proof -
  let ?p = "phdr_addr mem ehdr"
  have le: "ph ''p_filesz'' mem ?p k \<le> ph ''p_memsz'' mem ?p k" by (rule loadableD(2) [OF assms(1,3)])
  have "CopyLoadSegments ehdr mem (lo + 24 + of_nat i) = mem (ehdr + 24 + of_nat i)" if i: "i < 8" for i
  proof -
    have u: "unat (24 + of_nat i :: u64) = 24 + i" using i by (simp add: unat_word_ariths unat_of_nat_u64)
    then have f: "24 + of_nat i < ph ''p_filesz'' mem ?p k" using assms(6) i by (simp add: word_less_nat_alt word_le_nat_alt)
    then have "in_segment mem ehdr k (lo + 24 + of_nat i)"
      using le assms(4) by (simp add: in_segment_def in_range_def add.assoc)
    then have "CopyLoadSegments ehdr mem (lo + 24 + of_nat i) = segment_byte mem ehdr k (lo + 24 + of_nat i)"
      using CopyLoadSegments_loaded [OF assms(1)] assms(3) by (auto simp: loaded_def loadable_def)
    then show ?thesis using f assms(4,5) by (simp add: segment_byte_def Let_def add.assoc)
  qed
  then have "load_le (CopyLoadSegments ehdr mem) (lo + 24) 8 = load_le mem (ehdr + 24) 8" by (rule load_le_moved)
  then show ?thesis by (simp add: entry_addr_def get_member_def Elf64_Ehdr_def del: load_le_numeral)
qed

theorem entry_addr_found_witness: "entry_addr (CopyLoadSegments 0x1000 demo_image) 0x100000 = 0x100078"
  using entry_addr_found [OF demo_image_ok demo_range, of 0] by (simp add: demo_loadable demo_headers word_le_nat_alt)

end
