(* ===== verification/Spec2Isabelle.thy ===== *)
theory Spec2Isabelle
  imports Array_Queue Frame_Memory Descriptor_Tables Paging Timer_Manager Pci Xhci_Init Acpi Mouse Keyboard Console Terminal_Props Main_Props Elf_Loader
begin

text \<open>
  UhyokOS: the kernel under \<open>src/kernel/\<close> and the image loader of \<open>src/UhyokoLoaderPkg/Main.c\<close>.

  THE PROGRAM. The loader copies the kernel's ELF segments to their addresses and calls the kernel with the frame
  buffer, the memory map and the ACPI root pointer. The kernel sets up segments, page tables, a frame allocator,
  interrupt gates, the windows and the timer, and makes two tasks beside the idle task: the main task runs the
  message loop of \<open>main.cpp\<close>, the terminal task that of \<open>terminal.cpp\<close>. Interrupt handlers talk to the main task by
  messages: the timer's handler advances \<open>TimerManager\<close> and switches tasks, the xHCI handler asks the main task to
  process the events of the host controller, whose keyboard and mouse drivers call the observers of \<open>keyboard.cpp\<close>
  and \<open>mouse.cpp\<close>. Tasks draw into windows; \<open>LayerManager\<close> composes the windows of the layer stack in a back
  buffer and copies the result to the screen.

  THE MODEL. Every theory models one part; its definitions have the names of the code and its order. Objects are
  records with the members of the class, and an operation is a function on them. A result \<open>None\<close> stands for
  undefined behaviour (a null or stray pointer, an index out of bounds, a pop from an empty container), for
  \<open>exit\<close> where that is said, and in a \<open>partial_function\<close> for a loop that does not end; an \<open>Error\<close> is a value of
  \<open>Code\<close>. Pointers to objects of a container are positions in it. Machine integers are words of their width where
  they can wrap; coordinates, which stay far from the limits of \<open>int\<close>, are integers. A loop over a range is
  \<open>foldM\<close>. The hardware (port input and output, memory-mapped registers that change by themselves, the memory the
  firmware left) is an argument.

  \<^item> \<open>Kernel_Prelude\<close>: arrays with bounds, counted loops and their rules, words. \<open>Kernel_Error\<close>: \<open>error.hpp\<close>.
    \<open>Bit_Layout\<close> and \<open>Byte_Memory\<close>: bit fields, and structures in memory.
  \<^item> \<open>Array_Queue\<close>: \<open>queue.hpp\<close>. \<open>Frame_Memory\<close>: \<open>memory_manager.*\<close>, \<open>memory_map.hpp\<close>, \<open>sbrk\<close>. The allocator's search
    is first fit, its blocks are disjoint, and after boot it hands out available memory only.
  \<^item> \<open>Descriptor_Tables\<close>: \<open>segment.*\<close>, \<open>interrupt.*\<close>. \<open>Paging\<close>: the identity map, against the processor's page walk.
  \<^item> \<open>Task_Manager\<close>: \<open>task.*\<close>, \<open>message.hpp\<close> and the context switch of \<open>asmfunc.asm\<close>. \<open>tm_inv\<close> relates the run queues to
    the tasks and holds in every state reachable from boot (\<open>tm_reachable\<close>); scheduling, preemption and message
    delivery rest on it. \<open>Prio_Queue\<close>, \<open>Timer_Manager\<close>: \<open>timer.*\<close>, with the heap of \<open>std::priority_queue\<close>.
  \<^item> \<open>Pci\<close>: \<open>pci.*\<close>. \<open>Acpi\<close>: \<open>acpi.*\<close>. \<open>Fat\<close>: \<open>fat.*\<close>. \<open>Elf_Loader\<close>: the loader.
  \<^item> \<open>Graphics\<close>, \<open>Font\<close>, \<open>Frame_Buffer\<close>, \<open>Window\<close>, \<open>Window_Drawing\<close>: pixels. The locale \<open>pixel_surface\<close> states what a
    pixel writer promises, \<open>stable_writer\<close> what drawing leaves alone; both are interpreted on the frame buffer, the
    window, its inner area and the console, so that each drawing routine is verified once.
  \<^item> \<open>Layer_Manager\<close>: \<open>layer.*\<close>. \<open>shows_stack\<close> says that the screen shows the composed stack; moving, redrawing, raising
    and activating keep it. \<open>shows_except D\<close> says it for all pixels but those in \<open>D\<close>: it holds when a window has changed
    and is not yet redrawn, and redrawing takes the redrawn area out of \<open>D\<close>. \<open>Mouse\<close>, \<open>Keyboard\<close>, \<open>Console\<close>: the users of the layers; \<open>desktop_ok\<close> adds the cursor
    and the active window. \<open>Console\<close> compares the text on the screen with a reference that splits the text.
  \<^item> \<open>Xhci_Registers\<close>, \<open>Xhci_Trb\<close>, \<open>Xhci_Ring\<close>, \<open>Xhci_Device\<close>, \<open>Xhci_Controller\<close>, \<open>Xhci_Init\<close>, \<open>Usb_Types\<close>, \<open>Usb_Memory\<close>,
    \<open>Usb_Descriptor\<close>, \<open>Usb_Class\<close>: \<open>usb/\<close>. The rings refine FIFO queues against a model of the controller's side; the
    TRBs carry their contents at the bit positions where the controller reads them (\<open>hw_type\<close>, \<open>hw_pointer\<close>, \<open>hw_slot\<close>,
    \<open>hw_endpoint\<close>); the memory pool hands out disjoint blocks for every kind of request the drivers make; the
    state machine that gives addresses to ports never has two ports in the phases that only one may be in.
  \<^item> \<open>Terminal\<close>, \<open>Terminal_Props\<close>: \<open>terminal.*\<close>. \<open>term_inv\<close> is kept by every key.
  \<^item> \<open>Main_Loop\<close>, \<open>Main_Props\<close>: \<open>main.cpp\<close>. \<open>loop_ok\<close> joins the invariants of the desktop, the text box and the scheduler; a
    turn of the loop keeps it and does what its message asks. \<open>loop_except\<close> allows for a task that has drawn in its window
    and whose request to redraw it is in the queue.

  BOUNDS. The recursion of \<open>ScanBus\<close> takes a fuel argument; the theorem about the scan says that the number of buses
  is enough. The loop of the loader over the program headers ends because \<open>e_phnum\<close> has 16 bits. Loops that may run
  for ever (busy waits, \<open>ProcessEvents\<close>, the readers of descriptors, the capability lists, the timer's tick) are partial
  functions: that they return is proved, or the input on which they do not is shown.

  NOT MODELLED. The calls of the UEFI firmware in the loader (files, protocols, the memory map, the exit of the boot
  services) and the order of the start-up calls in \<open>KernelMainNewStack\<close>, which would compose the initialisations with
  the hardware; the instructions that load processor registers or do input and output in \<open>asmfunc.asm\<close>; the
  stubs of \<open>newlib_support.c\<close> and \<open>libcxx_support.cpp\<close>; the glyph data; the formatting of log messages, apart from the
  conversions the terminal and the main loop use; the instructions \<open>cli\<close> and \<open>sti\<close>, apart from what
  \<open>terminal_turn\<close> reports about the interrupt flag.
\<close>

end
